(* ===== verification/Prelude.thy ===== *)
theory Prelude
  imports Main "HOL-Library.Monad_Syntax" "HOL-Library.Word"
begin

text \<open>
  Shared vocabulary of the development.

  A Rust function that can panic is a function into \<^typ>\<open>'a option\<close>: \<open>None\<close> is a panic (a failed
  \<open>assert!\<close>, \<open>expect\<close>, \<open>unwrap\<close>, an index out of range, an arithmetic overflow in a checked
  operation) or, for the few loops that have no syntactic bound, a run that does not return.  A
  theorem that concludes \<open>f x = Some y\<close> therefore says that the code returns normally with \<open>y\<close>.
  A \<open>Result<T, E>\<close> is a value of the sum type \<open>'e + 'a\<close>, with \<open>Inl\<close> the error.  The \<open>do\<close>
  notation is the library's, on \<open>option\<close>.
\<close>

section \<open>Panics and checked indexing\<close>

named_theorems opt_simps \<open>rewriting of computations in the option monad\<close>

type_synonym ('e, 'a) result = "'e + 'a"

definition check :: "bool \<Rightarrow> unit option" where
  "check b = (if b then Some () else None)"

lemma check_Some [opt_simps]: "check b = Some u \<longleftrightarrow> b"
  by (cases u) (simp add: check_def)

lemma check_simps [simp]: "check True = Some ()" "check False = None"
  by (simp_all add: check_def)

lemma bind_Some_iff [opt_simps]:
  "Option.bind m f = Some y \<longleftrightarrow> (\<exists>x. m = Some x \<and> f x = Some y)"
  by (cases m) auto

lemma Some_bind_iff [opt_simps]:
  "Some y = Option.bind m f \<longleftrightarrow> (\<exists>x. m = Some x \<and> f x = Some y)"
  by (cases m) auto

definition nth_opt :: "'a list \<Rightarrow> nat \<Rightarrow> 'a option" where
  "nth_opt xs i = (if i < length xs then Some (xs ! i) else None)"

lemma nth_opt_Some [opt_simps]: "nth_opt xs i = Some x \<longleftrightarrow> i < length xs \<and> xs ! i = x"
  by (auto simp: nth_opt_def)

lemma nth_opt_None [simp]: "nth_opt xs i = None \<longleftrightarrow> length xs \<le> i"
  by (auto simp: nth_opt_def)

lemma nth_opt_in [simp]: "i < length xs \<Longrightarrow> nth_opt xs i = Some (xs ! i)"
  by (simp add: nth_opt_def)

lemma nth_opt_append: "nth_opt xs i = Some x \<Longrightarrow> nth_opt (xs @ ys) i = Some x"
  by (auto simp: nth_opt_def nth_append split: if_splits)

section \<open>Threading a state through an iteration\<close>

text \<open>\<open>for x in xs\<close> and \<open>xs.iter().map(..).collect()\<close> whose body changes a state.\<close>

fun map_state :: "('a \<Rightarrow> 's \<Rightarrow> ('b \<times> 's) option) \<Rightarrow> 'a list \<Rightarrow> 's \<Rightarrow> ('b list \<times> 's) option" where
  "map_state f [] s = Some ([], s)"
| "map_state f (x # xs) s = do {
     (y, s) \<leftarrow> f x s;
     (ys, s) \<leftarrow> map_state f xs s;
     Some (y # ys, s) }"

fun fold_state :: "('a \<Rightarrow> 's \<Rightarrow> 's option) \<Rightarrow> 'a list \<Rightarrow> 's \<Rightarrow> 's option" where
  "fold_state f [] s = Some s"
| "fold_state f (x # xs) s = do { s \<leftarrow> f x s; fold_state f xs s }"

lemma map_state_cong [fundef_cong]:
  assumes "xs = ys" and "s = t" and "\<And>x u. x \<in> set ys \<Longrightarrow> f x u = g x u"
  shows "map_state f xs s = map_state g ys t"
  using assms
proof (induction xs arbitrary: ys s t)
  case Nil
  then show ?case by simp
next
  case (Cons x xs)
  then show ?case by (auto intro!: bind_option_cong split: prod.splits)
qed

lemma fold_state_cong [fundef_cong]:
  assumes "xs = ys" and "s = t" and "\<And>x u. x \<in> set ys \<Longrightarrow> f x u = g x u"
  shows "fold_state f xs s = fold_state g ys t"
  using assms by (induction xs arbitrary: ys s t) (auto intro!: bind_option_cong)

lemma map_state_length: "map_state f xs s = Some (ys, t) \<Longrightarrow> length ys = length xs"
  by (induction xs arbitrary: ys s) (auto simp: opt_simps)

text \<open>An invariant of the state kept by the body is kept by the loop.\<close>

lemma fold_state_inv:
  assumes "fold_state f xs s = Some t" and "P s"
    and "\<And>x u u'. x \<in> set xs \<Longrightarrow> P u \<Longrightarrow> f x u = Some u' \<Longrightarrow> P u'"
  shows "P t"
  using assms by (induction xs arbitrary: s) (auto simp: opt_simps)

lemma map_state_inv:
  assumes "map_state f xs s = Some (ys, t)" and "P s"
    and "\<And>x u y u'. x \<in> set xs \<Longrightarrow> P u \<Longrightarrow> f x u = Some (y, u') \<Longrightarrow> P u'"
  shows "P t"
  using assms by (induction xs arbitrary: s ys) (auto simp: opt_simps, blast)

lemma fold_state_mono:
  assumes "fold_state f xs s = Some t"
    and "\<And>x u r. x \<in> set xs \<Longrightarrow> f x u = Some r \<Longrightarrow> g x u = Some r"
  shows "fold_state g xs s = Some t"
  using assms
proof (induction xs arbitrary: s)
  case Nil
  then show ?case by simp
next
  case (Cons x xs)
  then show ?case by (force simp: opt_simps)
qed

section \<open>Lists and maps\<close>

text \<open>The position of the first occurrence.\<close>

fun index_of :: "'a \<Rightarrow> 'a list \<Rightarrow> nat option" where
  "index_of x [] = None"
| "index_of x (y # ys) = (if x = y then Some 0 else map_option Suc (index_of x ys))"

lemma index_of_Some: "index_of x xs = Some i \<Longrightarrow> i < length xs \<and> xs ! i = x"
  by (induction xs arbitrary: i) (auto split: if_splits)

lemma index_of_None [simp]: "index_of x xs = None \<longleftrightarrow> x \<notin> set xs"
  by (induction xs) auto

lemma index_of_distinct: "distinct xs \<Longrightarrow> i < length xs \<Longrightarrow> index_of (xs ! i) xs = Some i"
proof (induction xs arbitrary: i)
  case Nil
  then show ?case by simp
next
  case (Cons y ys)
  then show ?case by (cases i) auto
qed

lemma nth_list_update_opt:
  "nth_opt (xs[i := y]) j = (if j = i \<and> i < length xs then Some y else nth_opt xs j)"
  by (auto simp: nth_opt_def)

lemma map_add_simp: "(m ++ n) k = (case n k of None \<Rightarrow> m k | Some v \<Rightarrow> Some v)"
  by (simp add: map_add_def)

section \<open>Slices, conversions, early return\<close>

text \<open>\<open>n as u32\<close>\<close>

definition u32_of :: "nat \<Rightarrow> nat" where
  "u32_of n = n mod 2 ^ 32"

lemma u32_of_small [simp]: "n < 2 ^ 32 \<Longrightarrow> u32_of n = n"
  by (simp add: u32_of_def)

text \<open>\<open>&xs[a..b]\<close>\<close>

definition slice_opt :: "'a list \<Rightarrow> nat \<Rightarrow> nat \<Rightarrow> 'a list option" where
  "slice_opt xs a b = do { check (a \<le> b \<and> b \<le> length xs); Some (take (b - a) (drop a xs)) }"

lemma slice_opt_Some [opt_simps]:
  "slice_opt xs a b = Some ys \<longleftrightarrow> a \<le> b \<and> b \<le> length xs \<and> ys = take (b - a) (drop a xs)"
  by (auto simp: slice_opt_def opt_simps)

text \<open>A loop whose body returns a \<open>Result\<close> and leaves it at the first error with \<open>?\<close>.\<close>

fun try_each :: "('a \<Rightarrow> 's \<Rightarrow> (('e + unit) \<times> 's) option) \<Rightarrow> 'a list \<Rightarrow> 's \<Rightarrow> (('e + unit) \<times> 's) option" where
  "try_each f [] s = Some (Inr (), s)"
| "try_each f (x # xs) s = do {
     (r, s) \<leftarrow> f x s;
     case r of Inl e \<Rightarrow> Some (Inl e, s) | Inr _ \<Rightarrow> try_each f xs s }"

lemma try_each_cong [fundef_cong]:
  assumes "xs = ys" and "s = t" and "\<And>x u. x \<in> set ys \<Longrightarrow> f x u = g x u"
  shows "try_each f xs s = try_each g ys t"
  using assms
  by (induction xs arbitrary: ys s t) (auto intro!: bind_option_cong split: sum.splits)

lemma try_each_inv:
  assumes "try_each f xs s = Some (r, t)" and "P s"
    and "\<And>x u r u'. x \<in> set xs \<Longrightarrow> P u \<Longrightarrow> f x u = Some (r, u') \<Longrightarrow> P u'"
  shows "P t"
  using assms
proof (induction xs arbitrary: s)
  case Nil
  then show ?case by simp
next
  case (Cons x xs)
  then obtain r1 s1 where 1: "f x s = Some (r1, s1)"
    and 2: "(case r1 of Inl e \<Rightarrow> Some (Inl e, s1) | Inr _ \<Rightarrow> try_each f xs s1) = Some (r, t)"
    by (auto simp: opt_simps)
  then have p: "P s1" using Cons.prems(2,3) by auto
  show ?case
  proof (cases r1)
    case (Inl e)
    with 2 p show ?thesis by simp
  next
    case (Inr u)
    with 2 have "try_each f xs s1 = Some (r, t)" by simp
    then show ?thesis by (rule Cons.IH [OF _ p]) (use Cons.prems(3) in auto)
  qed
qed

lemma try_each_error:
  "try_each f xs s = Some (Inl e, t) \<Longrightarrow> \<exists>x \<in> set xs. \<exists>u. f x u = Some (Inl e, t)"
proof (induction xs arbitrary: s)
  case Nil
  then show ?case by simp
next
  case (Cons x xs)
  then obtain r1 s1 where "f x s = Some (r1, s1)"
    "(case r1 of Inl e \<Rightarrow> Some (Inl e, s1) | Inr _ \<Rightarrow> try_each f xs s1) = Some (Inl e, t)"
    by (auto simp: opt_simps)
  then show ?case using Cons.IH by (cases r1) auto
qed

text \<open>The loops are monotone in their body, so recursive functions may be defined through them.\<close>

lemma mono_map_state [partial_function_mono]:
  assumes "\<And>x s. mono_option (\<lambda>f. b f x s)"
  shows "mono_option (\<lambda>f. map_state (b f) xs s)"
proof (induction xs arbitrary: s)
  case Nil
  show ?case by (simp add: option.const_mono)
next
  case (Cons x xs)
  show ?case unfolding map_state.simps
    by (intro bind_mono assms) (auto split: prod.split intro!: partial_function_mono Cons)
qed

lemma mono_fold_state [partial_function_mono]:
  assumes "\<And>x s. mono_option (\<lambda>f. b f x s)"
  shows "mono_option (\<lambda>f. fold_state (b f) xs s)"
proof (induction xs arbitrary: s)
  case Nil
  show ?case by (simp add: option.const_mono)
next
  case (Cons x xs)
  show ?case unfolding fold_state.simps by (intro bind_mono assms Cons)
qed

lemma mono_try_each [partial_function_mono]:
  assumes "\<And>x s. mono_option (\<lambda>f. b f x s)"
  shows "mono_option (\<lambda>f. try_each (b f) xs s)"
proof (induction xs arbitrary: s)
  case Nil
  show ?case by (simp add: option.const_mono)
next
  case (Cons x xs)
  have "mono_option (\<lambda>f. case y of (r, s) \<Rightarrow>
      (case r of Inl e \<Rightarrow> Some (Inl e, s) | Inr _ \<Rightarrow> try_each (b f) xs s))" for y
    by (cases y; cases "fst y") (simp_all add: Cons option.const_mono)
  then show ?case unfolding try_each.simps by (intro bind_mono assms)
qed

text \<open>\<open>xs.into_iter().any(..)\<close> with a state: it stops at the first element that satisfies the test.\<close>

fun any_state :: "('a \<Rightarrow> 's \<Rightarrow> (bool \<times> 's) option) \<Rightarrow> 'a list \<Rightarrow> 's \<Rightarrow> (bool \<times> 's) option" where
  "any_state f [] s = Some (False, s)"
| "any_state f (x # xs) s = do {
     (b, s) \<leftarrow> f x s;
     if b then Some (True, s) else any_state f xs s }"

lemma mono_any_state [partial_function_mono]:
  assumes "\<And>x s. mono_option (\<lambda>f. b f x s)"
  shows "mono_option (\<lambda>f. any_state (b f) xs s)"
proof (induction xs arbitrary: s)
  case Nil
  show ?case by (simp add: option.const_mono)
next
  case (Cons x xs)
  have "mono_option (\<lambda>f. case y of (r, s) \<Rightarrow> if r then Some (True, s) else any_state (b f) xs s)" for y
    by (cases y; cases "fst y") (simp_all add: Cons option.const_mono)
  then show ?case unfolding any_state.simps by (intro bind_mono assms)
qed

text \<open>The same loops without a state.\<close>

fun try_all :: "('a \<Rightarrow> ('e + unit) option) \<Rightarrow> 'a list \<Rightarrow> ('e + unit) option" where
  "try_all f [] = Some (Inr ())"
| "try_all f (x # xs) = do {
     r \<leftarrow> f x;
     case r of Inl e \<Rightarrow> Some (Inl e) | Inr _ \<Rightarrow> try_all f xs }"

fun map_opt :: "('a \<Rightarrow> 'b option) \<Rightarrow> 'a list \<Rightarrow> 'b list option" where
  "map_opt f [] = Some []"
| "map_opt f (x # xs) = do { y \<leftarrow> f x; ys \<leftarrow> map_opt f xs; Some (y # ys) }"

lemma mono_try_all [partial_function_mono]:
  assumes "\<And>x. mono_option (\<lambda>f. b f x)"
  shows "mono_option (\<lambda>f. try_all (b f) xs)"
proof (induction xs)
  case Nil
  show ?case by (simp add: option.const_mono)
next
  case (Cons x xs)
  have "mono_option (\<lambda>f. case r of Inl e \<Rightarrow> Some (Inl e) | Inr _ \<Rightarrow> try_all (b f) xs)" for r
    by (cases r) (simp_all add: Cons option.const_mono)
  then show ?case unfolding try_all.simps by (intro bind_mono assms)
qed

lemma mono_map_opt [partial_function_mono]:
  assumes "\<And>x. mono_option (\<lambda>f. b f x)"
  shows "mono_option (\<lambda>f. map_opt (b f) xs)"
proof (induction xs)
  case Nil
  show ?case by (simp add: option.const_mono)
next
  case (Cons x xs)
  then show ?case unfolding map_opt.simps by (intro bind_mono assms option.const_mono)
qed

lemma try_all_ok: "try_all f xs = Some (Inr ()) \<longleftrightarrow> (\<forall>x \<in> set xs. f x = Some (Inr ()))"
proof (induction xs)
  case Nil
  then show ?case by simp
next
  case (Cons x xs)
  show ?case
  proof (cases "f x")
    case None
    then show ?thesis by simp
  next
    case (Some r)
    then show ?thesis using Cons by (cases r) auto
  qed
qed

lemma try_all_returns: "(\<And>x. x \<in> set xs \<Longrightarrow> \<exists>r. f x = Some r) \<Longrightarrow> \<exists>r. try_all f xs = Some r"
proof (induction xs)
  case Nil
  then show ?case by simp
next
  case (Cons x xs)
  then obtain r where "f x = Some r" by auto
  then show ?case using Cons by (cases r) auto
qed

lemma map_opt_Some: "map_opt f xs = Some ys \<longleftrightarrow> list_all2 (\<lambda>x y. f x = Some y) xs ys"
  by (induction xs arbitrary: ys) (auto simp: opt_simps list_all2_Cons1)

lemma case_sum_Some:
  "(case r of Inl e \<Rightarrow> f e | Inr x \<Rightarrow> h x) = Some y \<longleftrightarrow> (\<exists>e. r = Inl e \<and> f e = Some y) \<or> (\<exists>x. r = Inr x \<and> h x = Some y)"
  by (cases r) auto

lemma mono_bind_pair:
  assumes "mono_option B" and "\<And>x y. mono_option (\<lambda>f. C x y f)"
  shows "mono_option (\<lambda>f. Option.bind (B f) (\<lambda>(x, y). C x y f))"
  by (rule bind_mono [OF assms(1)]) (auto simp: assms(2) split: prod.split)

section \<open>Elimination of one step of a computation\<close>

lemma bindE:
  assumes "Option.bind m f = Some y"
  obtains x where "m = Some x" "f x = Some y"
  using assms by (cases m) auto

lemma bind2E:
  assumes "Option.bind m (\<lambda>(a, b). f a b) = Some y"
  obtains a b where "m = Some (a, b)" "f a b = Some y"
  using assms by (cases m) auto

lemma bind3E:
  assumes "Option.bind m (\<lambda>(a, b, c). f a b c) = Some y"
  obtains a b c where "m = Some (a, b, c)" "f a b c = Some y"
  using assms by (cases m) auto

lemma bind_runs:
  assumes "\<not> Option.is_none (Option.bind m f)"
  obtains x y where "m = Some x" "f x = Some y"
  using assms by (cases m; cases "f (the m)") auto

end
