(* ===== verification/Arena.thy ===== *)
theory Arena
  imports Prelude
begin

text \<open>
  The contract of hash-consed storage, and the abstract arena that the type checker works on.

  The locale \<open>hash_consing\<close> is what clients of a stash rely on: interning returns a handle that
  holds the value, keeps every earlier handle, and gives equal values equal handles.  Its lemmas
  are proved once here and hold for the abstract arena below and for the byte-level stash
  (theory StashCorrect).
\<close>

section \<open>The interface\<close>

fun intern_all :: "('s \<Rightarrow> 'e \<Rightarrow> ('s \<times> nat) option) \<Rightarrow> 's \<Rightarrow> 'e list \<Rightarrow> ('s \<times> nat list) option" where
  "intern_all f s [] = Some (s, [])"
| "intern_all f s (x # xs) = do {
     (s, i) \<leftarrow> f s x;
     (s, is) \<leftarrow> intern_all f s xs;
     Some (s, i # is) }"

locale hash_consing =
  fixes intern :: "'s \<Rightarrow> 'e \<Rightarrow> ('s \<times> nat) option"
    and holds :: "'s \<Rightarrow> nat \<Rightarrow> 'e \<Rightarrow> bool"
    and view :: "'e \<Rightarrow> 'c"
    and wf :: "'s \<Rightarrow> bool"
  assumes intern_wf: "wf s \<Longrightarrow> intern s x = Some (s', i) \<Longrightarrow> wf s'"
    and intern_holds: "wf s \<Longrightarrow> intern s x = Some (s', i) \<Longrightarrow> holds s' i x"
    and intern_mono: "wf s \<Longrightarrow> intern s x = Some (s', i) \<Longrightarrow> holds s j y \<Longrightarrow> holds s' j y"
    and intern_known: "wf s \<Longrightarrow> holds s i x \<Longrightarrow> intern s x = Some (s, i)"
    and holds_view: "wf s \<Longrightarrow> holds s i x \<Longrightarrow> holds s i y \<Longrightarrow> view x = view y"
begin

lemma handle_unique: "wf s \<Longrightarrow> holds s i x \<Longrightarrow> holds s j x \<Longrightarrow> i = j"
  using intern_known by (metis Pair_inject option.inject)

lemma all_wf: "intern_all intern s xs = Some (s', is) \<Longrightarrow> wf s \<Longrightarrow> wf s'"
proof (induction xs arbitrary: s "is")
  case Nil
  then show ?case by simp
next
  case (Cons x xs)
  then show ?case using intern_wf by (fastforce simp: opt_simps)
qed

lemma all_mono: "intern_all intern s xs = Some (s', is) \<Longrightarrow> wf s \<Longrightarrow> holds s i x \<Longrightarrow> holds s' i x"
proof (induction xs arbitrary: s "is")
  case Nil
  then show ?case by simp
next
  case (Cons x xs)
  then obtain s1 j js where "intern s x = Some (s1, j)" "intern_all intern s1 xs = Some (s', js)"
    by (auto simp: opt_simps)
  with Cons show ?case using intern_wf intern_mono by blast
qed

text \<open>However much is interned in between, the same value gets the same handle and no new storage.\<close>

lemma intern_again:
  assumes "wf s" and "intern s x = Some (s1, i)" and "intern_all intern s1 ys = Some (s2, js)"
  shows "intern s2 x = Some (s2, i)"
proof -
  have 1: "wf s1" and 2: "holds s1 i x" using assms(1,2) by (rule intern_wf, rule intern_holds)
  have "wf s2" and "holds s2 i x" using all_wf [OF assms(3) 1] all_mono [OF assms(3) 1 2] by simp_all
  then show ?thesis by (rule intern_known)
qed

lemma distinct_handles:
  assumes "wf s" and "intern s x = Some (s1, i)" and "intern_all intern s1 ys = Some (s2, js)"
    and "intern s2 y = Some (s3, i)"
  shows "view x = view y"
proof -
  have 1: "wf s1" and 2: "holds s1 i x" using assms(1,2) by (rule intern_wf, rule intern_holds)
  have 3: "wf s2" and 4: "holds s2 i x" using all_wf [OF assms(3) 1] all_mono [OF assms(3) 1 2] by simp_all
  have "wf s3" and "holds s3 i y" using 3 assms(4) by (rule intern_wf, rule intern_holds)
  moreover have "holds s3 i x" using 3 assms(4) 4 by (rule intern_mono)
  ultimately show ?thesis using holds_view by blast
qed

lemma all_holds:
  "intern_all intern s xs = Some (s', is) \<Longrightarrow> wf s \<Longrightarrow> list_all2 (holds s') is xs"
proof (induction xs arbitrary: s "is")
  case Nil
  then show ?case by simp
next
  case (Cons x xs)
  then obtain s1 i js where i: "intern s x = Some (s1, i)" and js: "intern_all intern s1 xs = Some (s', js)"
    and "is = i # js" by (auto simp: opt_simps)
  have w: "wf s1" and h: "holds s1 i x" using Cons.prems(2) i by (rule intern_wf, rule intern_holds)
  show ?case using Cons.IH [OF js w] all_mono [OF js w h] \<open>is = i # js\<close> by simp
qed

end

section \<open>The abstract arena\<close>

text \<open>
  An arena is the list of its entries; a handle is a position.  Interning looks an equal entry up
  and appends one when there is none.
\<close>

type_synonym 'e arena = "'e list"

definition arena_intern :: "'e arena \<Rightarrow> 'e \<Rightarrow> 'e arena \<times> nat" where
  "arena_intern a x = (case index_of x a of Some i \<Rightarrow> (a, i) | None \<Rightarrow> (a @ [x], length a))"

abbreviation arena_get :: "'e arena \<Rightarrow> nat \<Rightarrow> 'e option" where
  "arena_get a i \<equiv> nth_opt a i"

definition arena_ext :: "'e arena \<Rightarrow> 'e arena \<Rightarrow> bool" where
  "arena_ext a b \<longleftrightarrow> (\<exists>es. b = a @ es)"

lemma arena_ext_refl [simp]: "arena_ext a a"
  by (simp add: arena_ext_def)

lemma arena_ext_trans [trans]: "arena_ext a b \<Longrightarrow> arena_ext b c \<Longrightarrow> arena_ext a c"
  by (auto simp: arena_ext_def)

lemma arena_ext_get: "arena_ext a b \<Longrightarrow> arena_get a i = Some x \<Longrightarrow> arena_get b i = Some x"
  by (auto simp: arena_ext_def intro: nth_opt_append)

lemma arena_ext_length: "arena_ext a b \<Longrightarrow> length a \<le> length b"
  by (auto simp: arena_ext_def)

lemma arena_intern_ext: "arena_intern a x = (b, i) \<Longrightarrow> arena_ext a b"
  by (auto simp: arena_intern_def arena_ext_def split: option.splits)

lemma arena_intern_get: "arena_intern a x = (b, i) \<Longrightarrow> arena_get b i = Some x"
  by (auto simp: arena_intern_def opt_simps dest: index_of_Some split: option.splits)

lemma arena_intern_distinct: "arena_intern a x = (b, i) \<Longrightarrow> distinct a \<Longrightarrow> distinct b"
  by (auto simp: arena_intern_def split: option.splits)

lemma arena_intern_known: "distinct a \<Longrightarrow> arena_get a i = Some x \<Longrightarrow> arena_intern a x = (a, i)"
  by (auto simp: arena_intern_def index_of_distinct opt_simps)

lemma arena_intern_bound: "arena_intern a x = (b, i) \<Longrightarrow> i < length b"
  using arena_intern_get [of a x b i] by (auto simp: opt_simps)

interpretation arena: hash_consing "\<lambda>a x. Some (arena_intern a x)" "\<lambda>a i x. arena_get a i = Some x" "\<lambda>x. x" distinct
  by unfold_locales
    (auto simp: arena_intern_known intro: arena_intern_distinct arena_intern_get
      dest: arena_ext_get [OF arena_intern_ext])

end
