(* ===== verification/AlignedBuf.thy ===== *)
theory AlignedBuf
  imports Prelude
begin

text \<open>
  The byte buffer behind a stash: \<open>AlignedBuf\<close> of \<open>crates/sage-stash/src/lib.rs\<close>.

  The record keeps the address of the live allocation, the length, the capacity, the alignment of
  the allocation and its initialised bytes.  Bytes beyond the length are uninitialised memory
  that the code never reads.  \<open>usize\<close> values are naturals, with the checked additions and the
  limits of \<open>Layout\<close> written out for a 64-bit target.  The global allocator is a parameter
  \<open>al\<close>: \<open>al size align\<close> is the address of a new allocation, \<open>None\<close> when memory is exhausted
  (\<open>handle_alloc_error\<close> aborts).
\<close>

section \<open>Sizes and layouts\<close>

definition usize_max :: nat where
  "usize_max = 2 ^ 64 - 1"

definition isize_max :: nat where
  "isize_max = 2 ^ 63 - 1"

text \<open>\<open>usize::checked_next_power_of_two\<close>\<close>

definition checked_next_power_of_two :: "nat \<Rightarrow> nat option" where
  "checked_next_power_of_two n = List.find (\<lambda>p. n \<le> p) (map (\<lambda>k. 2 ^ k) [0..<64])"

definition is_pow2 :: "nat \<Rightarrow> bool" where
  "is_pow2 a \<longleftrightarrow> (\<exists>k<64. a = 2 ^ k)"

definition round_up :: "nat \<Rightarrow> nat \<Rightarrow> nat" where
  "round_up n a = n + (a - n mod a) mod a"

text \<open>\<open>Layout::from_size_align\<close> succeeds.\<close>

definition layout_ok :: "nat \<Rightarrow> nat \<Rightarrow> bool" where
  "layout_ok sz a \<longleftrightarrow> is_pow2 a \<and> round_up sz a \<le> isize_max"

type_synonym allocator = "nat \<Rightarrow> nat \<Rightarrow> nat option"

text \<open>What \<open>GlobalAlloc::alloc\<close> promises: the block is aligned to the layout.\<close>

definition allocator_ok :: "allocator \<Rightarrow> bool" where
  "allocator_ok al \<longleftrightarrow> (\<forall>sz a p. al sz a = Some p \<longrightarrow> a dvd p)"

section \<open>The buffer\<close>

type_synonym byte = "8 word"

record aligned_buf =
  buf_ptr :: nat
  buf_len :: nat
  buf_capacity :: nat
  buf_align :: nat
  buf_mem :: "byte list"

text \<open>\<open>align_of::<usize>()\<close> is 8; the dangling pointer is its address.\<close>

definition buf_new :: aligned_buf where
  "buf_new = \<lparr>buf_ptr = 1, buf_len = 0, buf_capacity = 0, buf_align = 8, buf_mem = []\<rparr>"

definition mem_write :: "byte list \<Rightarrow> nat \<Rightarrow> byte list \<Rightarrow> byte list" where
  "mem_write m off bs = take off m @ bs @ drop (off + length bs) m"

definition or_usize_max :: "nat option \<Rightarrow> nat" where
  "or_usize_max m = (case m of Some n \<Rightarrow> n | None \<Rightarrow> usize_max)"

definition grown_capacity :: "nat \<Rightarrow> nat \<Rightarrow> nat" where
  "grown_capacity capacity required_len =
     (let minimum_capacity = max required_len 1
      in max (or_usize_max (checked_next_power_of_two (max capacity 4)))
             (or_usize_max (checked_next_power_of_two minimum_capacity)))"

definition reserve :: "allocator \<Rightarrow> aligned_buf \<Rightarrow> nat \<Rightarrow> nat \<Rightarrow> aligned_buf option" where
  "reserve al b additional required_align = do {
     let required_len = buf_len b + additional;
     check (required_len \<le> usize_max);
     let new_align = max (buf_align b) required_align;
     if buf_capacity b \<noteq> 0 \<and> required_len \<le> buf_capacity b \<and> new_align = buf_align b then Some b
     else do {
       let new_capacity = grown_capacity (buf_capacity b) required_len;
       check (layout_ok new_capacity new_align);
       new_ptr \<leftarrow> al new_capacity new_align;
       let copied = (if buf_len b \<noteq> 0 then take (buf_len b) (buf_mem b) else []);
       check (buf_capacity b \<noteq> 0 \<longrightarrow> layout_ok (buf_capacity b) (buf_align b));
       Some (b\<lparr>buf_ptr := new_ptr, buf_capacity := new_capacity, buf_align := new_align,
               buf_mem := copied\<rparr>) } }"

definition resize_zeroed :: "allocator \<Rightarrow> aligned_buf \<Rightarrow> nat \<Rightarrow> aligned_buf option" where
  "resize_zeroed al b new_len = do {
     check (new_len \<ge> buf_len b);
     let additional = new_len - buf_len b;
     b \<leftarrow> reserve al b additional 1;
     if additional \<noteq> 0
     then Some (b\<lparr>buf_mem := mem_write (buf_mem b) (buf_len b) (replicate additional 0),
                  buf_len := new_len\<rparr>)
     else Some b }"

text \<open>
  \<open>extend_from_slice\<close>: \<open>bs\<close> is the byte image of the slice and \<open>a\<close> the alignment of its
  element type.
\<close>

definition extend_from_slice :: "allocator \<Rightarrow> aligned_buf \<Rightarrow> byte list \<Rightarrow> nat \<Rightarrow> aligned_buf option" where
  "extend_from_slice al b bs a = do {
     let byte_len = length bs;
     b \<leftarrow> reserve al b byte_len a;
     if byte_len \<noteq> 0
     then Some (b\<lparr>buf_mem := mem_write (buf_mem b) (buf_len b) bs,
                  buf_len := buf_len b + byte_len\<rparr>)
     else Some b }"

definition buf_clone :: "allocator \<Rightarrow> aligned_buf \<Rightarrow> aligned_buf option" where
  "buf_clone al b =
     (if buf_capacity b \<noteq> 0 then do {
        cloned \<leftarrow> reserve al buf_new (buf_len b) (buf_align b);
        if buf_len b \<noteq> 0
        then Some (cloned\<lparr>buf_mem := mem_write (buf_mem cloned) 0 (take (buf_len b) (buf_mem b)),
                          buf_len := buf_len b\<rparr>)
        else Some cloned }
      else Some buf_new)"

section \<open>Invariant\<close>

definition buf_ok :: "aligned_buf \<Rightarrow> bool" where
  "buf_ok b \<longleftrightarrow>
     length (buf_mem b) = buf_len b \<and> buf_len b \<le> buf_capacity b \<and> is_pow2 (buf_align b) \<and>
     (buf_capacity b \<noteq> 0 \<longrightarrow> layout_ok (buf_capacity b) (buf_align b) \<and> buf_align b dvd buf_ptr b)"

lemma buf_ok_new [simp]: "buf_ok buf_new"
  by (auto simp: buf_ok_def buf_new_def is_pow2_def intro: exI [of _ 3])

lemma is_pow2_pos: "is_pow2 a \<Longrightarrow> 0 < a"
  by (auto simp: is_pow2_def)

lemma is_pow2_max: "is_pow2 a \<Longrightarrow> is_pow2 b \<Longrightarrow> is_pow2 (max a b)"
  by (auto simp: max_def)

text \<open>Among powers of two the order is divisibility, so a stronger alignment is a multiple.\<close>

lemma pow2_le_dvd: "is_pow2 a \<Longrightarrow> is_pow2 b \<Longrightarrow> a \<le> b \<Longrightarrow> a dvd b"
  by (auto simp: is_pow2_def intro: le_imp_power_dvd)

lemma next_power_of_two_ge: "checked_next_power_of_two n = Some p \<Longrightarrow> n \<le> p \<and> is_pow2 p"
  by (force simp: checked_next_power_of_two_def find_Some_iff is_pow2_def)

lemma next_power_of_two_least:
  assumes "checked_next_power_of_two n = Some p" and "is_pow2 q" and "n \<le> q"
  shows "p \<le> q"
proof -
  from assms(1) obtain i where i: "i < 64" "p = 2 ^ i" "\<forall>j<i. \<not> n \<le> 2 ^ j"
    by (auto simp: checked_next_power_of_two_def find_Some_iff)
  from assms(2) obtain k where "q = 2 ^ k" by (auto simp: is_pow2_def)
  with i assms(3) show ?thesis
    by (metis linorder_not_le nat_power_less_imp_less one_le_numeral power_increasing zero_less_numeral)
qed

lemma next_power_of_two_None:
  assumes "checked_next_power_of_two n = None"
  shows "2 ^ 63 < n"
proof -
  have "(2::nat) ^ 63 \<in> set (map (\<lambda>k. 2 ^ k) [0..<64])"
    unfolding set_map by (rule image_eqI [of _ _ 63]) simp_all
  then show ?thesis
    using assms unfolding checked_next_power_of_two_def find_None_iff by (meson linorder_not_le)
qed

lemma or_usize_max_ge: "n \<le> usize_max \<Longrightarrow> n \<le> or_usize_max (checked_next_power_of_two n)"
  by (auto simp: or_usize_max_def dest: next_power_of_two_ge split: option.splits)

lemma round_up_ge: "n \<le> round_up n a"
  by (simp add: round_up_def)

lemma layout_ok_bound: "layout_ok n a \<Longrightarrow> n \<le> isize_max"
  using round_up_ge [of n a] by (simp add: layout_ok_def)

lemma grown_capacity_ge:
  assumes "cap \<le> usize_max" and "req \<le> usize_max"
  shows "req \<le> grown_capacity cap req \<and> cap \<le> grown_capacity cap req \<and> 4 \<le> grown_capacity cap req"
proof -
  have "max cap 4 \<le> usize_max" and "max req 1 \<le> usize_max"
    using assms by (simp_all add: usize_max_def)
  then have "max cap 4 \<le> grown_capacity cap req" and "max req 1 \<le> grown_capacity cap req"
    unfolding grown_capacity_def Let_def by (meson le_max_iff_disj or_usize_max_ge)+
  then show ?thesis by simp
qed

text \<open>What every growth of the buffer guarantees.\<close>

lemma reserve_spec:
  assumes ok: "buf_ok b" and al: "allocator_ok al" and a: "is_pow2 a"
    and r: "reserve al b n a = Some b'"
  shows "buf_ok b'" and "buf_mem b' = buf_mem b" and "buf_len b' = buf_len b"
    and "buf_len b + n \<le> buf_capacity b'" and "a dvd buf_align b'" and "buf_align b dvd buf_align b'"
    and "buf_capacity b \<le> buf_capacity b'" and "0 < buf_capacity b'"
proof -
  let ?na = "max (buf_align b) a"
  have p: "is_pow2 (buf_align b)" using ok by (simp add: buf_ok_def)
  have na: "is_pow2 ?na" using p a by (rule is_pow2_max)
  have d: "a dvd ?na" "buf_align b dvd ?na" using p a na by (auto intro: pow2_le_dvd)
  let ?nc = "grown_capacity (buf_capacity b) (buf_len b + n)"
  have lim: "buf_capacity b \<le> usize_max"
    using ok layout_ok_bound [of "buf_capacity b" "buf_align b"]
    by (cases "buf_capacity b = 0") (auto simp: buf_ok_def isize_max_def usize_max_def)
  have bounds: "buf_len b + n \<le> ?nc \<and> buf_capacity b \<le> ?nc \<and> 4 \<le> ?nc" if "buf_len b + n \<le> usize_max"
    using that lim by (intro grown_capacity_ge)
  have "buf_ok b' \<and> buf_mem b' = buf_mem b \<and> buf_len b' = buf_len b \<and> buf_len b + n \<le> buf_capacity b'
      \<and> a dvd buf_align b' \<and> buf_align b dvd buf_align b' \<and> buf_capacity b \<le> buf_capacity b'
      \<and> 0 < buf_capacity b'"
  proof (cases "buf_capacity b \<noteq> 0 \<and> buf_len b + n \<le> buf_capacity b \<and> ?na = buf_align b")
    case True
    with r have "b' = b" by (auto simp: reserve_def Let_def opt_simps)
    with True ok d show ?thesis by simp
  next
    case False
    with r obtain q where q: "buf_len b + n \<le> usize_max" "layout_ok ?nc ?na" "al ?nc ?na = Some q"
      and b': "b' = b\<lparr>buf_ptr := q, buf_capacity := ?nc, buf_align := ?na,
               buf_mem := (if buf_len b \<noteq> 0 then take (buf_len b) (buf_mem b) else [])\<rparr>"
      by (simp only: reserve_def Let_def if_False opt_simps) blast
    have "?na dvd q" using al q(3) unfolding allocator_ok_def by blast
    with b' ok q(2) na d bounds [OF q(1)] show ?thesis by (auto simp: buf_ok_def)
  qed
  then show "buf_ok b'" and "buf_mem b' = buf_mem b" and "buf_len b' = buf_len b"
    and "buf_len b + n \<le> buf_capacity b'" and "a dvd buf_align b'" and "buf_align b dvd buf_align b'"
    and "buf_capacity b \<le> buf_capacity b'" and "0 < buf_capacity b'"
    by blast+
qed

lemma is_pow2_1 [simp]: "is_pow2 (Suc 0)"
  by (auto simp: is_pow2_def intro: exI [of _ 0])

lemma resize_zeroed_spec:
  assumes "buf_ok b" and "allocator_ok al" and "resize_zeroed al b n = Some b'"
  shows "buf_ok b'" and "buf_len b' = n" and "buf_mem b' = buf_mem b @ replicate (n - buf_len b) 0"
    and "buf_align b dvd buf_align b'" and "buf_len b \<le> n" and "0 < buf_capacity b'"
proof -
  from assms(3) obtain c where le: "buf_len b \<le> n" and c: "reserve al b (n - buf_len b) 1 = Some c"
    and b': "b' = (if n - buf_len b \<noteq> 0
       then c\<lparr>buf_mem := mem_write (buf_mem c) (buf_len c) (replicate (n - buf_len b) 0), buf_len := n\<rparr>
       else c)"
    by (auto simp: resize_zeroed_def Let_def opt_simps split: if_splits)
  note s = reserve_spec [OF assms(1,2) _ c, simplified]
  show "buf_ok b'" and "buf_len b' = n" and "buf_mem b' = buf_mem b @ replicate (n - buf_len b) 0"
    and "buf_align b dvd buf_align b'" and "buf_len b \<le> n" and "0 < buf_capacity b'"
    using le s b' assms(1) by (auto simp: buf_ok_def mem_write_def)
qed

lemma extend_from_slice_spec:
  assumes "buf_ok b" and "allocator_ok al" and "is_pow2 a" and "extend_from_slice al b bs a = Some b'"
  shows "buf_ok b'" and "buf_len b' = buf_len b + length bs" and "buf_mem b' = buf_mem b @ bs"
    and "a dvd buf_align b'" and "buf_align b dvd buf_align b'" and "0 < buf_capacity b'"
proof -
  from assms(4) obtain c where c: "reserve al b (length bs) a = Some c"
    and b': "b' = (if length bs \<noteq> 0
       then c\<lparr>buf_mem := mem_write (buf_mem c) (buf_len c) bs, buf_len := buf_len c + length bs\<rparr>
       else c)"
    by (auto simp: extend_from_slice_def Let_def opt_simps split: if_splits)
  note s = reserve_spec [OF assms(1-3) c]
  show "buf_ok b'" and "buf_len b' = buf_len b + length bs" and "buf_mem b' = buf_mem b @ bs"
    and "a dvd buf_align b'" and "buf_align b dvd buf_align b'" and "0 < buf_capacity b'"
    using s b' assms(1) by (auto simp: buf_ok_def mem_write_def)
qed

lemma buf_clone_spec:
  assumes ok: "buf_ok b" and al: "allocator_ok al" and r: "buf_clone al b = Some c"
  shows "buf_ok c" and "buf_len c = buf_len b" and "buf_mem c = buf_mem b"
    and "buf_capacity b \<noteq> 0 \<Longrightarrow> buf_align b dvd buf_align c \<and> buf_capacity c \<noteq> 0"
proof -
  have "buf_ok c \<and> buf_len c = buf_len b \<and> buf_mem c = buf_mem b \<and>
      (buf_capacity b \<noteq> 0 \<longrightarrow> buf_align b dvd buf_align c \<and> buf_capacity c \<noteq> 0)"
  proof (cases "buf_capacity b = 0")
    case True
    then show ?thesis
      using ok r buf_ok_new by (simp add: buf_clone_def) (auto simp: buf_ok_def buf_new_def)
  next
    case False
    then obtain d where d: "reserve al buf_new (buf_len b) (buf_align b) = Some d"
      and c: "c = (if buf_len b \<noteq> 0
        then d\<lparr>buf_mem := mem_write (buf_mem d) 0 (take (buf_len b) (buf_mem b)), buf_len := buf_len b\<rparr>
        else d)"
      using r by (auto simp: buf_clone_def opt_simps split: if_splits)
    have "is_pow2 (buf_align b)" using ok by (simp add: buf_ok_def)
    note s = reserve_spec [OF buf_ok_new al this d]
    show ?thesis using s c ok by (auto simp: buf_ok_def mem_write_def buf_new_def)
  qed
  then show "buf_ok c" and "buf_len c = buf_len b" and "buf_mem c = buf_mem b"
    and "buf_capacity b \<noteq> 0 \<Longrightarrow> buf_align b dvd buf_align c \<and> buf_capacity c \<noteq> 0" by blast+
qed

section \<open>Progress\<close>

text \<open>
  With memory available, a buffer of a few GiB never runs into a limit of \<open>Layout\<close>.
\<close>

definition buf_small :: "aligned_buf \<Rightarrow> bool" where
  "buf_small b \<longleftrightarrow> buf_capacity b \<le> 2 ^ 33 \<and> buf_align b \<le> 2 ^ 16"

lemma or_usize_max_le:
  assumes "n \<le> 2 ^ k" and "k < 63"
  shows "or_usize_max (checked_next_power_of_two n) \<le> 2 ^ k"
proof (cases "checked_next_power_of_two n")
  case None
  then have "(2::nat) ^ 63 < n" by (rule next_power_of_two_None)
  also have "\<dots> \<le> 2 ^ k" by (rule assms(1))
  also have "(2::nat) ^ k \<le> 2 ^ 63" using assms(2) by (intro power_increasing) simp_all
  finally show ?thesis by simp
next
  case (Some p)
  moreover have "is_pow2 (2 ^ k)" using assms(2) by (auto simp: is_pow2_def)
  ultimately show ?thesis
    using next_power_of_two_least [OF Some _ assms(1)] by (simp add: or_usize_max_def)
qed

lemma grown_capacity_le: "cap \<le> 2 ^ 33 \<Longrightarrow> req \<le> 2 ^ 33 \<Longrightarrow> grown_capacity cap req \<le> 2 ^ 33"
  unfolding grown_capacity_def Let_def by (intro max.boundedI or_usize_max_le) simp_all

lemma layout_ok_small:
  assumes "n \<le> 2 ^ 33" and "is_pow2 a" and "a \<le> 2 ^ 16"
  shows "layout_ok n a"
proof -
  have "0 < a" using assms(2) by (rule is_pow2_pos)
  then have "(a - n mod a) mod a < a" by simp
  then have "round_up n a < 2 ^ 33 + 2 ^ 16"
    using assms by (simp add: round_up_def)
  then show ?thesis using assms(2) by (simp add: layout_ok_def isize_max_def)
qed

lemma reserve_returns:
  assumes ok: "buf_ok b" and sm: "buf_small b" and tot: "\<forall>n a. al n a \<noteq> None"
    and a: "is_pow2 a" "a \<le> 2 ^ 16" and n: "buf_len b + n \<le> 2 ^ 33"
  obtains b' where "reserve al b n a = Some b'" and "buf_small b'"
proof -
  let ?na = "max (buf_align b) a"
  have p: "is_pow2 (buf_align b)" using ok by (simp add: buf_ok_def)
  have na: "is_pow2 ?na" "?na \<le> 2 ^ 16" using p a sm is_pow2_max by (auto simp: buf_small_def)
  let ?nc = "grown_capacity (buf_capacity b) (buf_len b + n)"
  have nc: "?nc \<le> 2 ^ 33" using sm n by (intro grown_capacity_le) (simp_all add: buf_small_def)
  have 1: "check (buf_len b + n \<le> usize_max) = Some ()" using n by (simp add: usize_max_def)
  have 2: "check (layout_ok ?nc ?na) = Some ()" using layout_ok_small [OF nc na] by simp
  have 3: "check (buf_capacity b \<noteq> 0 \<longrightarrow> layout_ok (buf_capacity b) (buf_align b)) = Some ()"
    using ok by (simp add: buf_ok_def)
  obtain q where q: "al ?nc ?na = Some q" using tot by blast
  show ?thesis
  proof (cases "buf_capacity b \<noteq> 0 \<and> buf_len b + n \<le> buf_capacity b \<and> ?na = buf_align b")
    case True
    have "reserve al b n a = Some b" by (simp only: reserve_def Let_def if_P [OF True] 1 bind.simps)
    then show ?thesis using sm that by blast
  next
    case False
    then have "reserve al b n a = Some (b\<lparr>buf_ptr := q, buf_capacity := ?nc, buf_align := ?na,
        buf_mem := (if buf_len b \<noteq> 0 then take (buf_len b) (buf_mem b) else [])\<rparr>)"
      by (simp only: reserve_def Let_def if_False 1 2 3 q bind.simps)
    then show ?thesis using that nc na by (simp add: buf_small_def)
  qed
qed

lemma resize_zeroed_returns:
  assumes "buf_ok b" "buf_small b" "\<forall>n a. al n a \<noteq> None" and n: "buf_len b \<le> n" "n \<le> 2 ^ 33"
  obtains b' where "resize_zeroed al b n = Some b'" and "buf_small b'"
proof -
  obtain c where c: "reserve al b (n - buf_len b) 1 = Some c" "buf_small c"
    by (rule reserve_returns [OF assms(1-3), of 1 "n - buf_len b"]) (use n in auto)
  have "\<exists>b'. resize_zeroed al b n = Some b' \<and> buf_small b'"
    using c n(1) by (simp add: resize_zeroed_def Let_def buf_small_def)
  then show ?thesis using that by blast
qed

lemma extend_from_slice_returns:
  assumes "buf_ok b" "buf_small b" "\<forall>n a. al n a \<noteq> None" "is_pow2 a" "a \<le> 2 ^ 16"
    and "buf_len b + length bs \<le> 2 ^ 33"
  obtains b' where "extend_from_slice al b bs a = Some b'" and "buf_small b'"
proof -
  obtain c where c: "reserve al b (length bs) a = Some c" "buf_small c"
    by (rule reserve_returns [OF assms])
  have "\<exists>b'. extend_from_slice al b bs a = Some b' \<and> buf_small b'"
    using c by (simp add: extend_from_slice_def Let_def buf_small_def)
  then show ?thesis using that by blast
qed

end
