(* ===== verification/Stash.thy ===== *)
theory Stash
  imports AlignedBuf
begin

text \<open>
  \<open>Stash\<close> of \<open>crates/sage-stash/src/lib.rs\<close>: append-only, type-erased storage with hash-consing.

  Values of every storable Rust type live in one type \<open>'v\<close>; a Rust type is a number, its
  \<open>TypeId\<close>.  What rustc and the trait implementations fix for a type is the record
  \<open>stash_data\<close>: the size and alignment, the byte image, and the sequence of hasher calls that
  \<open>StashHash::stash_hash\<close> makes.  The wrapped hasher (\<open>FxHasher\<close>) is a parameter too.
\<close>

section \<open>Hashers\<close>

datatype hash_write =
    Write "byte list"
  | WriteU8 "8 word" | WriteU16 "16 word" | WriteU32 "32 word" | WriteU64 "64 word"
  | WriteU128 "128 word" | WriteUsize "64 word"
  | WriteI8 "8 word" | WriteI16 "16 word" | WriteI32 "32 word" | WriteI64 "64 word"
  | WriteI128 "128 word" | WriteIsize "64 word"

text \<open>One call that a \<open>stash_hash\<close> implementation makes on a \<open>StashHasher\<close>.\<close>

datatype hash_op = Plain hash_write | HashPtr nat | HashSlice nat

text \<open>The wrapped \<open>Hasher\<close>: its default state, its write methods and \<open>finish\<close>.\<close>

record 'h hasher =
  h_default :: 'h
  h_write :: "hash_write \<Rightarrow> 'h \<Rightarrow> 'h"
  h_finish :: "'h \<Rightarrow> 64 word"

section \<open>Layout of the storable types\<close>

record 'v stash_data =
  sd_size :: "nat \<Rightarrow> nat"
  sd_align :: "nat \<Rightarrow> nat"
  sd_typed :: "nat \<Rightarrow> 'v \<Rightarrow> bool"
  sd_to_bytes :: "nat \<Rightarrow> 'v \<Rightarrow> byte list"
  sd_from_bytes :: "nat \<Rightarrow> byte list \<Rightarrow> 'v"
  sd_hash :: "nat \<Rightarrow> 'v \<Rightarrow> hash_op list"

section \<open>Entries, keys, handles\<close>

text \<open>\<open>EntryIndex::new\<close> stores index + 1 in a \<open>NonZeroU32\<close>; \<open>get\<close> subtracts it again.\<close>

definition entry_index_new :: "nat \<Rightarrow> nat option" where
  "entry_index_new i = do { check (i + 1 < 2 ^ 32); Some (i + 1) }"

definition entry_index_get :: "nat \<Rightarrow> nat" where
  "entry_index_get e = e - 1"

record entry =
  e_type :: nat
  e_offset :: nat
  e_count :: nat
  e_hash :: "64 word"

record intern_key =
  k_type :: nat
  k_count :: nat
  k_hash :: "64 word"
  k_collision :: nat

text \<open>\<open>Ptr<T>\<close> and \<open>Slice<T>\<close> in a debug build: the entry index and the id of the stash.\<close>

record handle =
  h_index :: nat
  h_stash :: nat

text \<open>\<open>PartialEq\<close> for handles compares the index only.\<close>

definition handle_eq :: "handle \<Rightarrow> handle \<Rightarrow> bool" where
  "handle_eq p q \<longleftrightarrow> h_index p = h_index q"

definition reflection_index :: "handle \<Rightarrow> nat" where
  "reflection_index p = entry_index_get (h_index p)"

record stash =
  st_buf :: aligned_buf
  st_entries :: "entry list"
  st_intern :: "intern_key \<Rightarrow> nat option"
  st_id :: nat

definition stash_new :: "nat \<Rightarrow> stash" where
  "stash_new fresh_id =
     \<lparr>st_buf = buf_new, st_entries = [], st_intern = Map.empty, st_id = fresh_id\<rparr>"

definition make_handle :: "stash \<Rightarrow> nat \<Rightarrow> handle" where
  "make_handle s idx = \<lparr>h_index = idx, h_stash = st_id s\<rparr>"

section \<open>Hashing while interning\<close>

text \<open>
  \<open>InternHasher\<close> forwards every plain write and hashes a handle by the hash stored in its entry.
\<close>

fun intern_hasher_op :: "'h hasher \<Rightarrow> stash \<Rightarrow> hash_op \<Rightarrow> 'h \<Rightarrow> 'h option" where
  "intern_hasher_op H s (Plain w) h = Some (h_write H w h)"
| "intern_hasher_op H s (HashPtr i) h = do {
     e \<leftarrow> nth_opt (st_entries s) (entry_index_get i);
     Some (h_write H (WriteU64 (e_hash e)) h) }"
| "intern_hasher_op H s (HashSlice i) h = do {
     e \<leftarrow> nth_opt (st_entries s) (entry_index_get i);
     Some (h_write H (WriteU64 (e_hash e)) h) }"

definition hash_value :: "'h hasher \<Rightarrow> 'v stash_data \<Rightarrow> stash \<Rightarrow> nat \<Rightarrow> 'v \<Rightarrow> 'h \<Rightarrow> 'h option" where
  "hash_value H D s t v h = fold_state (intern_hasher_op H s) (sd_hash D t v) h"

definition content_hash_one :: "'h hasher \<Rightarrow> 'v stash_data \<Rightarrow> stash \<Rightarrow> nat \<Rightarrow> 'v \<Rightarrow> 64 word option" where
  "content_hash_one H D s t v = do {
     h \<leftarrow> hash_value H D s t v (h_default H);
     Some (h_finish H h) }"

definition content_hash_slice ::
  "'h hasher \<Rightarrow> 'v stash_data \<Rightarrow> stash \<Rightarrow> nat \<Rightarrow> 'v list \<Rightarrow> 64 word option" where
  "content_hash_slice H D s t vs = do {
     let h = h_write H (WriteUsize (of_nat (length vs))) (h_default H);
     h \<leftarrow> fold_state (hash_value H D s t) vs h;
     Some (h_finish H h) }"

section \<open>Reading the buffer\<close>

text \<open>
  The \<open>unsafe\<close> reads: a read outside the initialised bytes would be undefined behaviour and is
  \<open>None\<close> here, so a theorem that a read returns also says it is in bounds.
\<close>

definition read_one :: "'v stash_data \<Rightarrow> stash \<Rightarrow> nat \<Rightarrow> nat \<Rightarrow> 'v option" where
  "read_one D s t off = do {
     check (off + sd_size D t \<le> buf_len (st_buf s));
     Some (sd_from_bytes D t (take (sd_size D t) (drop off (buf_mem (st_buf s))))) }"

definition read_slice :: "'v stash_data \<Rightarrow> stash \<Rightarrow> nat \<Rightarrow> nat \<Rightarrow> nat \<Rightarrow> 'v list option" where
  "read_slice D s t off count =
     (if count = 0 then Some []
      else do {
        check (off + count * sd_size D t \<le> buf_len (st_buf s));
        Some (map (\<lambda>k. sd_from_bytes D t
                (take (sd_size D t) (drop (off + k * sd_size D t) (buf_mem (st_buf s)))))
              [0..<count]) })"

section \<open>Allocation\<close>

definition wrapping_padding :: "nat \<Rightarrow> nat \<Rightarrow> nat" where
  "wrapping_padding cur a = unat (and (- (of_nat cur :: 64 word)) (of_nat a - 1))"

definition push_raw ::
  "allocator \<Rightarrow> 'v stash_data \<Rightarrow> stash \<Rightarrow> nat \<Rightarrow> 'v list \<Rightarrow> 64 word \<Rightarrow> (stash \<times> nat) option" where
  "push_raw al D s t vs inline_hash = do {
     let a = max (sd_align D t) 4;
     let cur = buf_len (st_buf s);
     let padding = wrapping_padding cur a;
     b \<leftarrow> resize_zeroed al (st_buf s) (cur + padding);
     let offset = u32_of (buf_len b);
     b \<leftarrow> extend_from_slice al b (concat (map (sd_to_bytes D t) vs)) (sd_align D t);
     entry_idx \<leftarrow> entry_index_new (u32_of (length (st_entries s)));
     let e = \<lparr>e_type = t, e_offset = offset, e_count = u32_of (length vs), e_hash = inline_hash\<rparr>;
     Some (s\<lparr>st_buf := b, st_entries := st_entries s @ [e]\<rparr>, entry_idx) }"

text \<open>
  The search along the collision chain, shared by \<open>alloc\<close> (\<open>single\<close>, one value) and
  \<open>alloc_slice\<close>.  \<open>0u32..\<close> overflows when it would yield \<open>u32::MAX\<close>.
\<close>

function alloc_from ::
  "allocator \<Rightarrow> 'v stash_data \<Rightarrow> stash \<Rightarrow> nat \<Rightarrow> bool \<Rightarrow> 'v list \<Rightarrow> 64 word \<Rightarrow> nat \<Rightarrow> (stash \<times> nat) option" where
  "alloc_from al D s t single vs h collision =
     (if collision < 2 ^ 32 - 1 then
        let key = \<lparr>k_type = t, k_count = length vs, k_hash = h, k_collision = collision\<rparr> in
        case st_intern s key of
          Some entry_idx \<Rightarrow> do {
            e \<leftarrow> nth_opt (st_entries s) (entry_index_get entry_idx);
            check (single \<longrightarrow> e_count e = 1);
            existing \<leftarrow> (if single
                         then do { v \<leftarrow> read_one D s t (e_offset e); Some [v] }
                         else read_slice D s t (e_offset e) (e_count e));
            if existing = vs then Some (s, entry_idx)
            else alloc_from al D s t single vs h (Suc collision) }
        | None \<Rightarrow> do {
            (s', entry_idx) \<leftarrow> push_raw al D s t vs h;
            Some (s'\<lparr>st_intern := (st_intern s')(key \<mapsto> entry_idx)\<rparr>, entry_idx) }
      else None)"
  by pat_completeness auto
termination
  by (relation "measure (\<lambda>(al, D, s, t, single, vs, h, c). 2 ^ 32 - c)") auto

declare alloc_from.simps [simp del]

definition alloc ::
  "allocator \<Rightarrow> 'h hasher \<Rightarrow> 'v stash_data \<Rightarrow> stash \<Rightarrow> nat \<Rightarrow> 'v \<Rightarrow> (stash \<times> handle) option" where
  "alloc al H D s t v = do {
     content_hash \<leftarrow> content_hash_one H D s t v;
     (s', idx) \<leftarrow> alloc_from al D s t True [v] content_hash 0;
     Some (s', make_handle s' idx) }"

definition alloc_slice ::
  "allocator \<Rightarrow> 'h hasher \<Rightarrow> 'v stash_data \<Rightarrow> stash \<Rightarrow> nat \<Rightarrow> 'v list \<Rightarrow> (stash \<times> handle) option" where
  "alloc_slice al H D s t vs = do {
     content_hash \<leftarrow> content_hash_slice H D s t vs;
     (s', idx) \<leftarrow> alloc_from al D s t False vs content_hash 0;
     Some (s', make_handle s' idx) }"

definition alloc_slice_from_iter ::
  "allocator \<Rightarrow> 'h hasher \<Rightarrow> 'v stash_data \<Rightarrow> stash \<Rightarrow> nat \<Rightarrow> 'v list \<Rightarrow> (stash \<times> handle) option" where
  "alloc_slice_from_iter al H D s t values = alloc_slice al H D s t values"

section \<open>Indexing\<close>

definition validate_entry :: "stash \<Rightarrow> nat \<Rightarrow> nat \<Rightarrow> entry option" where
  "validate_entry s idx expected_type_id = do {
     e \<leftarrow> nth_opt (st_entries s) (entry_index_get idx);
     check (e_type e = expected_type_id);
     Some e }"

definition validate_stash_id :: "stash \<Rightarrow> nat \<Rightarrow> unit option" where
  "validate_stash_id s handle_stash_id = check (handle_stash_id = st_id s)"

definition index_ptr :: "'v stash_data \<Rightarrow> stash \<Rightarrow> nat \<Rightarrow> handle \<Rightarrow> 'v option" where
  "index_ptr D s t p = do {
     validate_stash_id s (h_stash p);
     e \<leftarrow> validate_entry s (h_index p) t;
     check (e_count e = 1);
     read_one D s t (e_offset e) }"

definition index_slice :: "'v stash_data \<Rightarrow> stash \<Rightarrow> nat \<Rightarrow> handle \<Rightarrow> 'v list option" where
  "index_slice D s t p = do {
     validate_stash_id s (h_stash p);
     e \<leftarrow> validate_entry s (h_index p) t;
     read_slice D s t (e_offset e) (e_count e) }"

definition append_one ::
  "allocator \<Rightarrow> 'h hasher \<Rightarrow> 'v stash_data \<Rightarrow> stash \<Rightarrow> nat \<Rightarrow> handle \<Rightarrow> 'v \<Rightarrow> (stash \<times> handle) option" where
  "append_one al H D s t existing element = do {
     old \<leftarrow> index_slice D s t existing;
     alloc_slice al H D s t (old @ [element]) }"

text \<open>\<open>#[derive(Clone)]\<close>: the clone keeps the id, so handles of the original stay valid in it.\<close>

definition stash_clone :: "allocator \<Rightarrow> stash \<Rightarrow> stash option" where
  "stash_clone al s = do { b \<leftarrow> buf_clone al (st_buf s); Some (s\<lparr>st_buf := b\<rparr>) }"

end
