(* ===== verification/StashCorrect.thy ===== *)
theory StashCorrect
  imports Stash
begin

text \<open>
  Correctness of the stash: the safety contract of the storable types as a locale, the storage
  invariant, and the effect of allocation on every handle.
\<close>

section \<open>The contract of \<open>StashData\<close>\<close>

text \<open>
  What rustc guarantees for the layout of a \<open>Copy\<close> type and what the \<open>unsafe trait StashData\<close>
  asks of an implementation: the bytes of a value determine it.
\<close>

locale stash_layout =
  fixes D :: "'v stash_data"
  assumes align_pow2: "is_pow2 (sd_align D t)"
    and size_multiple: "sd_align D t dvd sd_size D t"
    and bytes_length: "sd_typed D t v \<Longrightarrow> length (sd_to_bytes D t v) = sd_size D t"
    and bytes_roundtrip: "sd_typed D t v \<Longrightarrow> sd_from_bytes D t (sd_to_bytes D t v) = v"

section \<open>Invariant\<close>

definition content :: "'v stash_data \<Rightarrow> stash \<Rightarrow> entry \<Rightarrow> 'v list" where
  "content D s e =
     map (\<lambda>k. sd_from_bytes D (e_type e)
            (take (sd_size D (e_type e))
              (drop (e_offset e + k * sd_size D (e_type e)) (buf_mem (st_buf s)))))
       [0..<e_count e]"

definition entry_bytes :: "'v stash_data \<Rightarrow> entry \<Rightarrow> nat" where
  "entry_bytes D e = e_count e * sd_size D (e_type e)"

definition entry_ok :: "'v stash_data \<Rightarrow> stash \<Rightarrow> entry \<Rightarrow> bool" where
  "entry_ok D s e \<longleftrightarrow>
     (\<exists>vs. list_all (sd_typed D (e_type e)) vs \<and> length vs = e_count e \<and>
        take (entry_bytes D e) (drop (e_offset e) (buf_mem (st_buf s))) =
          concat (map (sd_to_bytes D (e_type e)) vs)) \<and>
     e_offset e + entry_bytes D e \<le> buf_len (st_buf s) \<and>
     max (sd_align D (e_type e)) 4 dvd e_offset e \<and>
     sd_align D (e_type e) dvd buf_align (st_buf s) \<and> buf_capacity (st_buf s) \<noteq> 0"

definition key_of :: "entry \<Rightarrow> nat \<Rightarrow> intern_key" where
  "key_of e c = \<lparr>k_type = e_type e, k_count = e_count e, k_hash = e_hash e, k_collision = c\<rparr>"

definition intern_ok :: "stash \<Rightarrow> bool" where
  "intern_ok s \<longleftrightarrow>
     (\<forall>k i. st_intern s k = Some i \<longrightarrow>
        0 < i \<and> i \<le> length (st_entries s) \<and> k = key_of (st_entries s ! (i - 1)) (k_collision k)) \<and>
     (\<forall>k c. st_intern s k \<noteq> None \<longrightarrow> c < k_collision k \<longrightarrow> st_intern s (k\<lparr>k_collision := c\<rparr>) \<noteq> None) \<and>
     (\<forall>i<length (st_entries s). \<exists>c. st_intern s (key_of (st_entries s ! i) c) = Some (Suc i)) \<and>
     inj_on (st_intern s) (dom (st_intern s))"

definition disjoint_entries :: "'v stash_data \<Rightarrow> entry list \<Rightarrow> bool" where
  "disjoint_entries D es \<longleftrightarrow>
     (\<forall>j<length es. \<forall>i<j. e_offset (es ! i) + entry_bytes D (es ! i) \<le> e_offset (es ! j))"

definition stash_inv :: "'v stash_data \<Rightarrow> stash \<Rightarrow> bool" where
  "stash_inv D s \<longleftrightarrow>
     buf_ok (st_buf s) \<and> buf_len (st_buf s) < 2 ^ 32 \<and>
     (\<forall>e \<in> set (st_entries s). entry_ok D s e) \<and> disjoint_entries D (st_entries s) \<and>
     length (st_entries s) < 2 ^ 32 \<and> intern_ok s"

text \<open>\<open>s'\<close> extends \<open>s\<close>: the entries and the bytes of \<open>s\<close> are a prefix of those of \<open>s'\<close>.\<close>

definition stash_le :: "stash \<Rightarrow> stash \<Rightarrow> bool" where
  "stash_le s s' \<longleftrightarrow>
     (\<exists>es. st_entries s' = st_entries s @ es) \<and>
     (\<exists>bs. buf_mem (st_buf s') = buf_mem (st_buf s) @ bs) \<and>
     buf_len (st_buf s) \<le> buf_len (st_buf s') \<and>
     st_intern s \<subseteq>\<^sub>m st_intern s' \<and> st_id s' = st_id s"

lemma stash_le_refl [simp]: "stash_le s s"
  by (simp add: stash_le_def)

lemma stash_le_trans [trans]: "stash_le s t \<Longrightarrow> stash_le t u \<Longrightarrow> stash_le s u"
  unfolding stash_le_def by (auto intro: map_le_trans)

lemma stash_inv_new: "stash_inv D (stash_new i)"
  by (auto simp: stash_inv_def stash_new_def intern_ok_def disjoint_entries_def)
    (simp add: buf_new_def)

section \<open>Alignment padding\<close>

lemma wrapping_padding_eq:
  assumes "k < 64"
  shows "wrapping_padding cur (2 ^ k) < 2 ^ k"
    and "2 ^ k dvd cur + wrapping_padding cur (2 ^ k)"
proof -
  let ?w = "of_nat cur :: 64 word"
  have m: "(of_nat (2 ^ k) - 1 :: 64 word) = mask k"
    by (simp add: mask_eq_exp_minus_1)
  have p: "wrapping_padding cur (2 ^ k) = unat (- ?w) mod 2 ^ k"
    unfolding wrapping_padding_def m take_bit_eq_mask [symmetric]
    by (simp only: unsigned_take_bit_eq) (simp only: take_bit_eq_mod)
  then show "wrapping_padding cur (2 ^ k) < 2 ^ k" by simp
  have "unat (?w + - ?w) = (unat ?w + unat (- ?w)) mod 2 ^ 64"
    by (simp only: unat_word_ariths) simp
  then have "2 ^ 64 dvd unat ?w + unat (- ?w)" by (simp add: mod_eq_0_iff_dvd)
  moreover have "unat ?w = cur mod 2 ^ 64" by (simp add: unat_of_nat)
  ultimately have "2 ^ 64 dvd cur mod 2 ^ 64 + unat (- ?w)" by simp
  then have "2 ^ 64 dvd cur + unat (- ?w)"
    by (metis mod_add_left_eq mod_eq_0_iff_dvd)
  moreover have "(2::nat) ^ k dvd 2 ^ 64" using assms by (intro le_imp_power_dvd) simp
  ultimately have "2 ^ k dvd cur + unat (- ?w)" by (rule dvd_trans [rotated])
  then show "2 ^ k dvd cur + wrapping_padding cur (2 ^ k)"
    unfolding p by (metis mod_add_right_eq mod_eq_0_iff_dvd)
qed

lemma wrapping_padding_aligns:
  assumes "is_pow2 a"
  shows "a dvd cur + wrapping_padding cur a"
  using assms wrapping_padding_eq unfolding is_pow2_def by blast

section \<open>Extending the stash keeps old entries readable\<close>

lemma concat_chunk:
  assumes "\<forall>v \<in> set vs. length (f v) = n" and "k < length vs"
  shows "take n (drop (k * n) (concat (map f vs))) = f (vs ! k)"
  using assms
proof (induction vs arbitrary: k)
  case Nil
  then show ?case by simp
next
  case (Cons v vs)
  then show ?case by (cases k) auto
qed

lemma length_concat_const:
  "\<forall>v \<in> set vs. length (f v) = n \<Longrightarrow> length (concat (map f vs)) = length vs * n"
  by (induction vs) auto

lemma chunk_in_range: "k < c \<Longrightarrow> (k::nat) * n + n \<le> c * n"
  by (metis Suc_leI add.commute mult_Suc mult_le_mono1)

lemma content_le:
  assumes "stash_le s s'" and "entry_ok D s e" and "buf_ok (st_buf s)"
  shows "content D s' e = content D s e"
proof -
  from assms(1) obtain bs where bs: "buf_mem (st_buf s') = buf_mem (st_buf s) @ bs"
    by (auto simp: stash_le_def)
  have len: "e_offset e + e_count e * sd_size D (e_type e) \<le> length (buf_mem (st_buf s))"
    using assms(2,3) by (auto simp: entry_ok_def entry_bytes_def buf_ok_def)
  have "take (sd_size D (e_type e)) (drop (e_offset e + k * sd_size D (e_type e)) (buf_mem (st_buf s')))
      = take (sd_size D (e_type e)) (drop (e_offset e + k * sd_size D (e_type e)) (buf_mem (st_buf s)))"
    if "k < e_count e" for k
    using len chunk_in_range [OF that, of "sd_size D (e_type e)"] by (simp add: bs)
  then show ?thesis by (simp add: content_def)
qed

lemma entry_ok_le:
  assumes "entry_ok D s e" and "stash_le s s'" and "buf_ok (st_buf s)"
    and "buf_align (st_buf s) dvd buf_align (st_buf s')" and "buf_capacity (st_buf s') \<noteq> 0"
  shows "entry_ok D s' e"
proof -
  from assms(2) obtain bs where bs: "buf_mem (st_buf s') = buf_mem (st_buf s) @ bs"
    and len: "buf_len (st_buf s) \<le> buf_len (st_buf s')"
    by (auto simp: stash_le_def)
  have fits: "e_offset e + entry_bytes D e \<le> length (buf_mem (st_buf s))"
    using assms(1,3) by (auto simp: entry_ok_def buf_ok_def)
  then have "take (entry_bytes D e) (drop (e_offset e) (buf_mem (st_buf s')))
      = take (entry_bytes D e) (drop (e_offset e) (buf_mem (st_buf s)))"
    by (simp add: bs)
  then show ?thesis
    using assms(1,4,5) len dvd_trans unfolding entry_ok_def by (metis le_trans)
qed

context stash_layout
begin

lemma content_eq:
  assumes "list_all (sd_typed D (e_type e)) vs" and "length vs = e_count e"
    and "take (entry_bytes D e) (drop (e_offset e) (buf_mem (st_buf s))) = concat (map (sd_to_bytes D (e_type e)) vs)"
  shows "content D s e = vs"
proof (rule nth_equalityI)
  show "length (content D s e) = length vs" using assms(2) by (simp add: content_def)
next
  fix k assume "k < length (content D s e)"
  then have k: "k < length vs" using assms(2) by (simp add: content_def)
  let ?n = "sd_size D (e_type e)"
  have ty: "\<forall>v \<in> set vs. length (sd_to_bytes D (e_type e) v) = ?n"
    using assms(1) bytes_length by (auto simp: list_all_iff)
  have "take ?n (drop (k * ?n) (concat (map (sd_to_bytes D (e_type e)) vs))) = sd_to_bytes D (e_type e) (vs ! k)"
    using ty k by (rule concat_chunk)
  then have "take ?n (drop (k * ?n) (take (entry_bytes D e) (drop (e_offset e) (buf_mem (st_buf s)))))
      = sd_to_bytes D (e_type e) (vs ! k)"
    using assms(3) by simp
  moreover have "?n \<le> entry_bytes D e - k * ?n"
    using k assms(2) chunk_in_range [of k "e_count e" ?n] by (simp add: entry_bytes_def)
  ultimately have "take ?n (drop (e_offset e + k * ?n) (buf_mem (st_buf s))) = sd_to_bytes D (e_type e) (vs ! k)"
    by (simp add: drop_take add.commute min_absorb1)
  then show "content D s e ! k = vs ! k"
    using k assms(1,2) bytes_roundtrip by (simp add: content_def list_all_length)
qed

lemma content_typed:
  assumes "entry_ok D s e"
  shows "list_all (sd_typed D (e_type e)) (content D s e)" and "length (content D s e) = e_count e"
  using assms content_eq unfolding entry_ok_def by metis+

lemma read_one_content:
  assumes "entry_ok D s e" and "e_count e = 1" and "e_type e = t"
  shows "read_one D s t (e_offset e) = Some (hd (content D s e))" and "content D s e = [hd (content D s e)]"
  using assms by (auto simp: read_one_def entry_ok_def content_def entry_bytes_def opt_simps)

lemma read_slice_content:
  assumes "entry_ok D s e" and "e_type e = t"
  shows "read_slice D s t (e_offset e) (e_count e) = Some (content D s e)"
  using assms by (auto simp: read_slice_def entry_ok_def content_def entry_bytes_def opt_simps)

lemma push_raw_spec:
  assumes inv: "stash_inv D s" and al: "allocator_ok al" and ty: "list_all (sd_typed D t) vs"
    and cnt: "length vs < 2 ^ 32"
    and r: "push_raw al D s t vs h = Some (s', idx)" and fits: "buf_len (st_buf s') < 2 ^ 32"
  obtains e where "idx = Suc (length (st_entries s))" and "st_entries s' = st_entries s @ [e]"
    and "e_type e = t" and "e_count e = length vs" and "e_hash e = h" and "content D s' e = vs"
    and "entry_ok D s' e" and "buf_len (st_buf s) \<le> e_offset e"
    and "stash_le s s'" and "buf_ok (st_buf s')" and "st_intern s' = st_intern s"
    and "buf_align (st_buf s) dvd buf_align (st_buf s')" and "buf_capacity (st_buf s') \<noteq> 0"
    and "length (st_entries s') < 2 ^ 32"
proof -
  let ?a = "max (sd_align D t) 4"
  let ?pad = "wrapping_padding (buf_len (st_buf s)) ?a"
  let ?bs = "concat (map (sd_to_bytes D t) vs)"
  from r obtain b1 b2 where
      b1: "resize_zeroed al (st_buf s) (buf_len (st_buf s) + ?pad) = Some b1"
    and b2: "extend_from_slice al b1 ?bs (sd_align D t) = Some b2"
    and ix: "entry_index_new (u32_of (length (st_entries s))) = Some idx"
    and s': "s' = s\<lparr>st_buf := b2, st_entries := st_entries s @
        [\<lparr>e_type = t, e_offset = u32_of (buf_len b1), e_count = u32_of (length vs), e_hash = h\<rparr>]\<rparr>"
    by (auto simp: push_raw_def Let_def opt_simps)
  have bok: "buf_ok (st_buf s)" using inv by (simp add: stash_inv_def)
  note b1s = resize_zeroed_spec [OF bok al b1]
  note b2s = extend_from_slice_spec [OF b1s(1) al align_pow2 b2]
  have len2: "buf_len b2 < 2 ^ 32" using fits s' by simp
  have bytes: "length ?bs = length vs * sd_size D t"
    using ty bytes_length by (intro length_concat_const) (auto simp: list_all_iff)
  have off: "u32_of (buf_len b1) = buf_len b1" and cnt': "u32_of (length vs) = length vs"
    using len2 b2s(2) cnt by (simp_all add: u32_of_def)
  define e where "e = \<lparr>e_type = t, e_offset = buf_len b1, e_count = length vs, e_hash = h\<rparr>"
  have mem1: "length (buf_mem b1) = buf_len b1" using b1s(1) by (simp add: buf_ok_def)
  have ebytes: "entry_bytes D e = length ?bs" by (simp add: e_def entry_bytes_def bytes)
  have tk: "take (entry_bytes D e) (drop (e_offset e) (buf_mem (st_buf s'))) = ?bs"
    using mem1 b2s(3) ebytes by (simp add: s' e_def)
  have "is_pow2 (4::nat)" unfolding is_pow2_def by (rule exI [of _ 2]) simp
  then have "is_pow2 ?a" using is_pow2_max align_pow2 by blast
  then have "?a dvd buf_len b1" using wrapping_padding_aligns b1s(2) by simp
  then have eok: "entry_ok D s' e"
    using ty tk b2s(2,4,6) ebytes by (auto simp: entry_ok_def e_def s')
  have s'e: "st_entries s' = st_entries s @ [e]" by (simp add: s' e_def off cnt')
  have small: "length (st_entries s) < 2 ^ 32" using inv by (simp add: stash_inv_def)
  show thesis
  proof (rule that [OF _ s'e])
    show "idx = Suc (length (st_entries s))" and "length (st_entries s') < 2 ^ 32"
      using ix small by (auto simp: entry_index_new_def opt_simps u32_of_def s')
    show "content D s' e = vs"
      by (rule content_eq) (use ty tk in \<open>simp_all add: e_def\<close>)
    show "stash_le s s'" using b1s b2s by (auto simp: stash_le_def s')
    show "buf_align (st_buf s) dvd buf_align (st_buf s')"
      using b1s(4) b2s(5) dvd_trans by (simp add: s') blast
  qed (use eok b1s b2s in \<open>simp_all add: e_def s'\<close>)
qed

end

section \<open>The intern map\<close>

lemma key_of_simps [simp]:
  "k_type (key_of e c) = e_type e" "k_count (key_of e c) = e_count e"
  "k_hash (key_of e c) = e_hash e" "k_collision (key_of e c) = c"
  "(key_of e c)\<lparr>k_collision := d\<rparr> = key_of e d"
  by (simp_all add: key_of_def)

lemma intern_ok_push:
  assumes ok: "intern_ok s" and es: "st_entries s' = st_entries s @ [e]"
    and m: "st_intern s' = (st_intern s)(key_of e c \<mapsto> Suc (length (st_entries s)))"
    and new: "st_intern s (key_of e c) = None"
    and chain: "\<And>d. d < c \<Longrightarrow> st_intern s (key_of e d) \<noteq> None"
  shows "intern_ok s'"
proof -
  have A: "0 < i \<and> i \<le> length (st_entries s) \<and> k = key_of (st_entries s ! (i - 1)) (k_collision k)"
    if "st_intern s k = Some i" for k i
    using ok that by (simp add: intern_ok_def)
  have B: "st_intern s (k\<lparr>k_collision := d\<rparr>) \<noteq> None" if "st_intern s k \<noteq> None" "d < k_collision k" for k d
    using ok that unfolding intern_ok_def by blast
  have C: "\<exists>c. st_intern s (key_of (st_entries s ! i) c) = Some (Suc i)" if "i < length (st_entries s)" for i
    using ok that unfolding intern_ok_def by blast
  have I: "inj_on (st_intern s) (dom (st_intern s))"
    using ok by (simp add: intern_ok_def)
  have fresh: "st_intern s k \<noteq> Some (Suc (length (st_entries s)))" for k
    using A [of k "Suc (length (st_entries s))"] by auto
  show ?thesis
    unfolding intern_ok_def
  proof (intro conjI allI impI)
    fix k i assume "st_intern s' k = Some i"
    then show "0 < i" and "i \<le> length (st_entries s')"
      and "k = key_of (st_entries s' ! (i - 1)) (k_collision k)"
      using A [of k i] by (auto simp: m es nth_append split: if_splits)
  next
    fix k d assume "st_intern s' k \<noteq> None" and "d < k_collision k"
    then show "st_intern s' (k\<lparr>k_collision := d\<rparr>) \<noteq> None"
      using B [of k d] chain [of d] by (auto simp: m split: if_splits)
  next
    fix i assume "i < length (st_entries s')"
    show "\<exists>c. st_intern s' (key_of (st_entries s' ! i) c) = Some (Suc i)"
    proof (cases "i < length (st_entries s)")
      case True
      then obtain d where d: "st_intern s (key_of (st_entries s ! i) d) = Some (Suc i)"
        using C by blast
      then have "key_of (st_entries s ! i) d \<noteq> key_of e c" using new by auto
      with d True show ?thesis by (auto simp: m es nth_append)
    next
      case False
      with \<open>i < length (st_entries s')\<close> show ?thesis by (auto simp: m es nth_append)
    qed
  next
    show "inj_on (st_intern s') (dom (st_intern s'))"
      using I fresh unfolding inj_on_def m by (auto split: if_splits)
  qed
qed

context stash_layout
begin

lemma stash_inv_push:
  assumes inv: "stash_inv D s" and al: "allocator_ok al" and ty: "list_all (sd_typed D t) vs"
    and cnt: "length vs < 2 ^ 32"
    and r: "push_raw al D s t vs h = Some (s1, idx)" and fits: "buf_len (st_buf s1) < 2 ^ 32"
    and key: "key = \<lparr>k_type = t, k_count = length vs, k_hash = h, k_collision = c\<rparr>"
    and s': "s' = s1\<lparr>st_intern := (st_intern s1)(key \<mapsto> idx)\<rparr>"
    and new: "st_intern s key = None"
    and chain: "\<And>d. d < c \<Longrightarrow> st_intern s (key\<lparr>k_collision := d\<rparr>) \<noteq> None"
  obtains e where "idx = Suc (length (st_entries s))" and "st_entries s' = st_entries s @ [e]"
    and "e_type e = t" and "e_count e = length vs" and "e_hash e = h" and "content D s' e = vs"
    and "stash_le s s'" and "stash_inv D s'"
proof (rule push_raw_spec [OF inv al ty cnt r fits])
  fix e
  assume idx: "idx = Suc (length (st_entries s))" and es: "st_entries s1 = st_entries s @ [e]"
    and e: "e_type e = t" "e_count e = length vs" "e_hash e = h" "content D s1 e = vs"
    and eok: "entry_ok D s1 e" and off: "buf_len (st_buf s) \<le> e_offset e"
    and le: "stash_le s s1" and b: "buf_ok (st_buf s1)" and m: "st_intern s1 = st_intern s"
    and al': "buf_align (st_buf s) dvd buf_align (st_buf s1)" and cap: "buf_capacity (st_buf s1) \<noteq> 0"
    and n: "length (st_entries s1) < 2 ^ 32"
  have keye: "key = key_of e c" by (simp add: key key_of_def e)
  have eq: "entry_ok D s' = entry_ok D s1" "content D s' = content D s1"
    by (auto simp: fun_eq_iff s' entry_ok_def content_def)
  have le': "stash_le s s'"
    using le new m by (auto simp: stash_le_def s' map_le_def)
  have old: "\<forall>x \<in> set (st_entries s). entry_ok D s1 x"
    using inv entry_ok_le [OF _ le _ al' cap] by (auto simp: stash_inv_def)
  have "disjoint_entries D (st_entries s1)"
    unfolding disjoint_entries_def
  proof (intro allI impI)
    fix i j assume ij: "j < length (st_entries s1)" "i < j"
    show "e_offset (st_entries s1 ! i) + entry_bytes D (st_entries s1 ! i) \<le> e_offset (st_entries s1 ! j)"
    proof (cases "j < length (st_entries s)")
      case True
      then show ?thesis using ij inv by (auto simp: stash_inv_def disjoint_entries_def es nth_append)
    next
      case False
      with ij have j: "j = length (st_entries s)" by (simp add: es)
      with ij have "entry_ok D s (st_entries s ! i)" using inv by (auto simp: stash_inv_def)
      then show ?thesis using ij j off by (auto simp: entry_ok_def es nth_append)
    qed
  qed
  moreover have "intern_ok s'"
    by (rule intern_ok_push [where s = s and e = e and c = c])
      (use inv idx es m new chain keye in \<open>auto simp: stash_inv_def s'\<close>)
  ultimately have "stash_inv D s'"
    using old eok b fits n eq by (auto simp: stash_inv_def es s')
  then show thesis
    using that [of e] idx es e le' eq by (simp add: s')
qed

text \<open>
  The walk along the collision chain finds the entry that holds \<open>vs\<close> under this hash, or
  appends one after having seen that none exists.
\<close>

lemma alloc_from_spec:
  assumes inv: "stash_inv D s" and al: "allocator_ok al" and ty: "list_all (sd_typed D t) vs"
    and cnt: "length vs < 2 ^ 32" and single: "single \<longrightarrow> length vs = 1"
    and r: "alloc_from al D s t single vs h c = Some (s', idx)"
    and fits: "buf_len (st_buf s') < 2 ^ 32"
    and seen: "\<And>d. d < c \<Longrightarrow> \<exists>i. st_intern s \<lparr>k_type = t, k_count = length vs, k_hash = h, k_collision = d\<rparr> = Some i
          \<and> content D s (st_entries s ! (i - 1)) \<noteq> vs"
  shows "stash_inv D s' \<and> stash_le s s' \<and> 0 < idx \<and> idx \<le> length (st_entries s') \<and>
    (let e = st_entries s' ! (idx - 1)
     in e_type e = t \<and> e_count e = length vs \<and> e_hash e = h \<and> content D s' e = vs) \<and>
    (s' = s \<or> (\<forall>e \<in> set (st_entries s). e_type e = t \<longrightarrow> e_hash e = h \<longrightarrow> content D s e \<noteq> vs) \<and>
        (\<exists>e. st_entries s' = st_entries s @ [e] \<and> idx = length (st_entries s')))"
  using r seen
proof (induction "2 ^ 32 - c" arbitrary: c rule: less_induct)
  case less
  let ?key = "\<lparr>k_type = t, k_count = length vs, k_hash = h, k_collision = c\<rparr>"
  have lim: "c < 2 ^ 32 - 1"
    using less.prems(1) by (subst (asm) alloc_from.simps) (simp split: if_splits)
  note step = less.prems(1) [unfolded alloc_from.simps [of _ _ _ _ _ _ _ c] if_P [OF lim] Let_def]
  have ok: "intern_ok s" using inv by (simp add: stash_inv_def)
  show ?case
  proof (cases "st_intern s ?key")
    case None
    with step obtain s1 where p: "push_raw al D s t vs h = Some (s1, idx)"
      and s': "s' = s1\<lparr>st_intern := (st_intern s1)(?key \<mapsto> idx)\<rparr>"
      by (auto simp: opt_simps)
    have chain: "st_intern s (?key\<lparr>k_collision := d\<rparr>) \<noteq> None" if "d < c" for d
      using less.prems(2) [OF that] by auto
    have fits1: "buf_len (st_buf s1) < 2 ^ 32" using fits s' by simp
    obtain e where e: "idx = Suc (length (st_entries s))"
      "st_entries s' = st_entries s @ [e]" "e_type e = t" "e_count e = length vs" "e_hash e = h"
      "content D s' e = vs" "stash_le s s'" "stash_inv D s'"
      by (rule stash_inv_push [OF inv al ty cnt p fits1 refl s' None chain])
    have "content D s x \<noteq> vs" if x: "x \<in> set (st_entries s)" "e_type x = t" "e_hash x = h" for x
    proof
      assume cx: "content D s x = vs"
      have "entry_ok D s x" using inv x by (simp add: stash_inv_def)
      then have cntx: "e_count x = length vs" using content_typed(2) cx by force
      from x obtain i where i: "i < length (st_entries s)" "st_entries s ! i = x"
        by (auto simp: in_set_conv_nth)
      then obtain d where d: "st_intern s (key_of x d) = Some (Suc i)"
        using ok unfolding intern_ok_def by blast
      have kd: "key_of x d = ?key\<lparr>k_collision := d\<rparr>" using x cntx by (simp add: key_of_def)
      have "d < c"
      proof (rule ccontr)
        assume "\<not> d < c"
        then have "c = d \<or> c < d" by auto
        then show False
          using ok d None kd unfolding intern_ok_def
          by (metis (no_types, lifting) intern_key.select_convs(4) intern_key.surjective
              intern_key.update_convs(4) key_of_simps(4,5) key_of_def option.distinct(1))
      qed
      with less.prems(2) [of d] d i kd cx show False by auto
    qed
    with e show ?thesis by (auto simp: Let_def)
  next
    case (Some i)
    from ok have "0 < i" and ilen: "i \<le> length (st_entries s)"
      and k: "?key = key_of (st_entries s ! (i - 1)) c"
      using Some unfolding intern_ok_def by (metis intern_key.select_convs(4))+
    then have il: "i - 1 < length (st_entries s)" by auto
    define e where "e = st_entries s ! (i - 1)"
    have e: "e_type e = t" "e_count e = length vs" "e_hash e = h"
      using k unfolding e_def key_of_def by auto
    have eok: "entry_ok D s e" using inv il by (simp add: stash_inv_def e_def)
    have ex: "(if single then do { v \<leftarrow> read_one D s t (e_offset e); Some [v] }
        else read_slice D s t (e_offset e) (e_count e)) = Some (content D s e)"
      using read_one_content [OF eok] read_slice_content [OF eok] e single by auto
    have nth: "nth_opt (st_entries s) (entry_index_get i) = Some e"
      using il by (simp add: entry_index_get_def e_def)
    have chk: "check (single \<longrightarrow> e_count e = 1) = Some ()" using e single by simp
    have step': "(if content D s e = vs then Some (s, i)
        else alloc_from al D s t single vs h (Suc c)) = Some (s', idx)"
      using step by (simp only: Some option.case nth ex chk bind.simps)
    show ?thesis
    proof (cases "content D s e = vs")
      case True
      with step' have "s' = s" "idx = i" by auto
      with True e inv \<open>0 < i\<close> ilen show ?thesis by (simp add: e_def Let_def)
    next
      case False
      with step' have rec: "alloc_from al D s t single vs h (Suc c) = Some (s', idx)" by simp
      show ?thesis
        by (rule less.hyps [OF _ rec]) (use lim less.prems(2) Some False in \<open>auto simp: less_Suc_eq e_def\<close>)
    qed
  qed
qed

end

end
