(* ===== verification/StashIntern.thy ===== *)
theory StashIntern
  imports Arena StashCorrect
begin

text \<open>
  The stash satisfies the hash-consing contract of theory Arena, for every hasher: collisions of
  the content hash cost a longer walk, never a wrong handle.  It also refines the abstract arena.
\<close>

section \<open>Allocation as interning of items\<close>

text \<open>An item is what one allocation stores: whether it is a single value, its type, its values.\<close>

type_synonym 'v item = "bool \<times> nat \<times> 'v list"

fun item_ok :: "'v stash_data \<Rightarrow> 'v item \<Rightarrow> bool" where
  "item_ok D (single, t, vs) \<longleftrightarrow>
     list_all (sd_typed D t) vs \<and> length vs < 2 ^ 32 \<and> (single \<longrightarrow> length vs = 1)"

fun content_hash :: "'h hasher \<Rightarrow> 'v stash_data \<Rightarrow> stash \<Rightarrow> 'v item \<Rightarrow> 64 word option" where
  "content_hash H D s (single, t, vs) =
     (if single then content_hash_one H D s t (hd vs) else content_hash_slice H D s t vs)"

fun stash_intern ::
  "allocator \<Rightarrow> 'h hasher \<Rightarrow> 'v stash_data \<Rightarrow> stash \<Rightarrow> 'v item \<Rightarrow> (stash \<times> handle) option" where
  "stash_intern al H D s (single, t, vs) =
     (if single then alloc al H D s t (hd vs) else alloc_slice al H D s t vs)"

declare content_hash.simps [simp del] stash_intern.simps [simp del]

text \<open>
  Allocation as long as the buffer stays below 4 GiB: the code stores offsets as \<open>u32\<close> and does
  not check the conversion.
\<close>

definition intern_bounded ::
  "allocator \<Rightarrow> 'h hasher \<Rightarrow> 'v stash_data \<Rightarrow> stash \<Rightarrow> 'v item \<Rightarrow> (stash \<times> nat) option" where
  "intern_bounded al H D s x = do {
     check (item_ok D x);
     (s', p) \<leftarrow> stash_intern al H D s x;
     check (buf_len (st_buf s') < 2 ^ 32);
     Some (s', h_index p) }"

definition item_view :: "'v item \<Rightarrow> nat \<times> 'v list" where
  "item_view x = (fst (snd x), snd (snd x))"

definition holds :: "'h hasher \<Rightarrow> 'v stash_data \<Rightarrow> stash \<Rightarrow> nat \<Rightarrow> 'v item \<Rightarrow> bool" where
  "holds H D s i x \<longleftrightarrow> item_ok D x \<and> 0 < i \<and> i \<le> length (st_entries s) \<and>
     (let e = st_entries s ! (i - 1)
      in item_view x = (e_type e, content D s e) \<and> content_hash H D s x = Some (e_hash e))"

definition entry_id :: "'v stash_data \<Rightarrow> stash \<Rightarrow> entry \<Rightarrow> nat \<times> 64 word \<times> 'v list" where
  "entry_id D s e = (e_type e, e_hash e, content D s e)"

definition stash_wf :: "'v stash_data \<Rightarrow> stash \<Rightarrow> bool" where
  "stash_wf D s \<longleftrightarrow> stash_inv D s \<and> distinct (map (entry_id D s) (st_entries s))"

lemma stash_wf_new: "stash_wf D (stash_new i)"
  by (simp add: stash_wf_def stash_inv_new) (simp add: stash_new_def)

lemma intern_unfold:
  "stash_intern al H D s (single, t, vs) = Some (s', p) \<Longrightarrow> item_ok D (single, t, vs) \<Longrightarrow>
     \<exists>h. content_hash H D s (single, t, vs) = Some h \<and>
       alloc_from al D s t single vs h 0 = Some (s', h_index p) \<and> h_stash p = st_id s'"
  by (cases vs) (auto simp: content_hash.simps stash_intern.simps alloc_def alloc_slice_def opt_simps make_handle_def split: if_splits)

section \<open>Hashes do not change when the stash grows\<close>

lemma hash_op_le: "stash_le s s' \<Longrightarrow> intern_hasher_op H s op h = Some r \<Longrightarrow> intern_hasher_op H s' op h = Some r"
  by (cases op) (auto simp: stash_le_def opt_simps nth_append)

lemma hash_value_le: "stash_le s s' \<Longrightarrow> hash_value H D s t v h = Some r \<Longrightarrow> hash_value H D s' t v h = Some r"
  unfolding hash_value_def by (erule fold_state_mono) (rule hash_op_le)

lemma content_hash_le:
  assumes "stash_le s s'" and "content_hash H D s x = Some h"
  shows "content_hash H D s' x = Some h"
proof -
  have "fold_state (hash_value H D s t) vs h = Some r \<Longrightarrow> fold_state (hash_value H D s' t) vs h = Some r"
    for t vs h r
    by (erule fold_state_mono) (rule hash_value_le [OF assms(1)])
  note slice = this
  obtain single t vs where x: "x = (single, t, vs)" by (cases x)
  show ?thesis
  proof (cases single)
    case True
    then show ?thesis
      using assms(2) hash_value_le [OF assms(1), of H D t "hd vs" "h_default H"]
      by (auto simp: x content_hash.simps content_hash_one_def opt_simps)
  next
    case False
    then show ?thesis
      using assms(2) slice [of t vs]
      by (auto simp: x content_hash.simps content_hash_slice_def opt_simps Let_def)
  qed
qed

section \<open>The laws\<close>

lemma holds_le:
  assumes "holds H D s i x" and "stash_le s s'" and "stash_inv D s"
  shows "holds H D s' i x"
proof -
  from assms(2) obtain es where es: "st_entries s' = st_entries s @ es" by (auto simp: stash_le_def)
  have i: "0 < i" "i - 1 < length (st_entries s)" using assms(1) by (auto simp: holds_def)
  then have "entry_ok D s (st_entries s ! (i - 1))" and "buf_ok (st_buf s)"
    using assms(3) by (auto simp: stash_inv_def)
  then have "content D s' (st_entries s ! (i - 1)) = content D s (st_entries s ! (i - 1))"
    using assms(2) by (intro content_le)
  then show ?thesis
    using assms(1) i content_hash_le [OF assms(2), of H D x] by (auto simp: holds_def es nth_append Let_def)
qed

lemma collision_inject [simp]: "k\<lparr>k_collision := c\<rparr> = k\<lparr>k_collision := d\<rparr> \<longleftrightarrow> c = d"
  by (cases k) simp

lemma collision_same [simp]: "k\<lparr>k_collision := k_collision k\<rparr> = k"
  by (cases k) simp

lemma intern_ok_entry:
  "intern_ok s \<Longrightarrow> st_intern s k = Some i \<Longrightarrow>
     0 < i \<and> i \<le> length (st_entries s) \<and> k = key_of (st_entries s ! (i - 1)) (k_collision k)"
  by (simp add: intern_ok_def)

lemma intern_ok_chain:
  "intern_ok s \<Longrightarrow> st_intern s k \<noteq> None \<Longrightarrow> c < k_collision k \<Longrightarrow> st_intern s (k\<lparr>k_collision := c\<rparr>) \<noteq> None"
  unfolding intern_ok_def by blast

lemma intern_ok_inj: "intern_ok s \<Longrightarrow> st_intern s k = Some i \<Longrightarrow> st_intern s l = Some i \<Longrightarrow> k = l"
  unfolding intern_ok_def by (elim conjE inj_onD) auto

lemma collision_bound:
  assumes "intern_ok s" and "st_intern s k \<noteq> None"
  shows "k_collision k < length (st_entries s)"
proof -
  let ?f = "\<lambda>c. the (st_intern s (k\<lparr>k_collision := c\<rparr>))"
  have dom: "st_intern s (k\<lparr>k_collision := c\<rparr>) \<noteq> None" if "c \<le> k_collision k" for c
    using intern_ok_chain [OF assms, of c] assms(2) that by (cases "c = k_collision k") simp_all
  have "inj_on ?f {..k_collision k}"
  proof (rule inj_onI)
    fix c d assume cd: "c \<in> {..k_collision k}" "d \<in> {..k_collision k}" "?f c = ?f d"
    then obtain i where "st_intern s (k\<lparr>k_collision := c\<rparr>) = Some i" "st_intern s (k\<lparr>k_collision := d\<rparr>) = Some i"
      using dom [of c] dom [of d] by auto
    from intern_ok_inj [OF assms(1) this] show "c = d" by simp
  qed
  moreover have "?f ` {..k_collision k} \<subseteq> {1..length (st_entries s)}"
  proof
    fix i assume "i \<in> ?f ` {..k_collision k}"
    then obtain c where c: "c \<le> k_collision k" "i = ?f c" by auto
    then have "st_intern s (k\<lparr>k_collision := c\<rparr>) = Some i" using dom [of c] by auto
    then show "i \<in> {1..length (st_entries s)}"
      using intern_ok_entry [OF assms(1)] by fastforce
  qed
  ultimately have "card {..k_collision k} \<le> card {1..length (st_entries s)}"
    by (intro card_inj_on_le) auto
  then show ?thesis by simp
qed

locale stash_alloc = stash_layout D for D :: "'v stash_data" +
  fixes al :: allocator and H :: "'h hasher"
  assumes alloc_aligned: "allocator_ok al"
begin

lemma wf_mono:
  assumes wf: "stash_wf D s" and r: "intern_bounded al H D s x = Some (s', i)"
  shows "stash_wf D s'" and "holds H D s' i x" and "stash_le s s'"
    and "s' = s \<or> (\<exists>e. st_entries s' = st_entries s @ [e] \<and> i = length (st_entries s'))"
proof -
  obtain single t vs where x: "x = (single, t, vs)" by (cases x) auto
  have inv: "stash_inv D s" using wf by (simp add: stash_wf_def)
  from r obtain p where ok: "item_ok D x" and si: "stash_intern al H D s x = Some (s', p)"
    and fits: "buf_len (st_buf s') < 2 ^ 32" and i: "i = h_index p"
    by (auto simp: intern_bounded_def opt_simps)
  then obtain h where h: "content_hash H D s x = Some h"
    and a: "alloc_from al D s t single vs h 0 = Some (s', i)"
    using intern_unfold x by blast
  note spec = alloc_from_spec [OF inv alloc_aligned _ _ _ a fits]
  let ?e = "st_entries s' ! (i - 1)"
  have spec': "stash_inv D s' \<and> stash_le s s' \<and> 0 < i \<and> i \<le> length (st_entries s') \<and>
      (e_type ?e = t \<and> e_count ?e = length vs \<and> e_hash ?e = h \<and> content D s' ?e = vs) \<and>
      (s' = s \<or> (\<forall>e \<in> set (st_entries s). e_type e = t \<longrightarrow> e_hash e = h \<longrightarrow> content D s e \<noteq> vs) \<and>
        (\<exists>e. st_entries s' = st_entries s @ [e] \<and> i = length (st_entries s')))"
    using spec ok x by (simp add: Let_def)
  then show le: "stash_le s s'"
    and "s' = s \<or> (\<exists>e. st_entries s' = st_entries s @ [e] \<and> i = length (st_entries s'))" by blast+
  show "holds H D s' i x"
    using spec' ok content_hash_le [OF le h] by (simp add: holds_def x item_view_def Let_def)
  show "stash_wf D s'"
  proof (cases "s' = s")
    case True
    then show ?thesis using wf by simp
  next
    case False
    with spec' obtain e where e: "st_entries s' = st_entries s @ [e]" "i = length (st_entries s')"
      and new: "\<forall>e \<in> set (st_entries s). e_type e = t \<longrightarrow> e_hash e = h \<longrightarrow> content D s e \<noteq> vs" by blast
    have old: "entry_id D s' y = entry_id D s y" if "y \<in> set (st_entries s)" for y
      using content_le [OF le, of D] inv that by (simp add: entry_id_def stash_inv_def)
    have "entry_id D s' e = (t, h, vs)" using spec' e by (simp add: entry_id_def)
    then have "entry_id D s' e \<notin> entry_id D s' ` set (st_entries s)"
      using new old by (auto simp: entry_id_def)
    moreover have "distinct (map (entry_id D s') (st_entries s))"
      using old wf map_cong [OF refl, of "st_entries s" "entry_id D s'" "entry_id D s"]
      by (simp add: stash_wf_def del: map_eq_conv)
    ultimately show ?thesis
      using spec' by (simp add: stash_wf_def e)
  qed
qed

text \<open>A value that is already stored is found: the walk does not run out of collision numbers.\<close>

lemma alloc_from_known:
  assumes inv: "stash_inv D s" and dist: "distinct (map (entry_id D s) (st_entries s))"
    and i: "i < length (st_entries s)" and e: "st_entries s ! i = e" "e_type e = t" "e_hash e = h"
    and vs: "content D s e = vs" and single: "single \<longrightarrow> length vs = 1"
    and d: "st_intern s (key_of e d) = Some (Suc i)" and cd: "c \<le> d"
  shows "alloc_from al D s t single vs h c = Some (s, Suc i)"
  using cd
proof (induction "d - c" arbitrary: c)
  have ok: "intern_ok s" and eok: "entry_ok D s e" using inv i e by (auto simp: stash_inv_def)
  have cnt: "e_count e = length vs" using content_typed(2) [OF eok] vs by simp
  have len: "length (st_entries s) < 2 ^ 32" using inv by (simp add: stash_inv_def)
  have dl: "d < 2 ^ 32 - 1"
    using collision_bound [OF ok, of "key_of e d"] d len by simp
  have ex: "(if single then do { v \<leftarrow> read_one D s t (e_offset y); Some [v] }
      else read_slice D s t (e_offset y) (e_count y)) = Some (content D s y)"
    if "y \<in> set (st_entries s)" "e_type y = t" "e_count y = length vs" for y
    using that inv read_one_content [of s y t] read_slice_content [of s y t] single
    by (auto simp: stash_inv_def)
  have key: "\<lparr>k_type = t, k_count = length vs, k_hash = h, k_collision = c\<rparr> = key_of e c" for c
    by (simp add: key_of_def e cnt)
  {
    case 0
    then have "c = d" by simp
    have "nth_opt (st_entries s) (entry_index_get (Suc i)) = Some e"
      using i e by (simp add: entry_index_get_def)
    moreover have "check (single \<longrightarrow> e_count e = 1) = Some ()" using cnt single by simp
    moreover have "e \<in> set (st_entries s)" using i e by auto
    ultimately show ?case
      using dl d ex [of e] e cnt vs \<open>c = d\<close>
      by (subst alloc_from.simps) (simp only: if_True key Let_def option.case bind.simps simp_thms)
  next
    case (Suc n)
    then have c: "c < d" and lim: "c < 2 ^ 32 - 1" using dl by auto
    obtain j where j: "st_intern s (key_of e c) = Some j"
      using intern_ok_chain [OF ok, of "key_of e d" c] d c by auto
    then have jl: "0 < j" "j \<le> length (st_entries s)"
      and jk: "key_of e c = key_of (st_entries s ! (j - 1)) c"
      using intern_ok_entry [OF ok j] by auto
    let ?y = "st_entries s ! (j - 1)"
    have y: "?y \<in> set (st_entries s)" "e_type ?y = t" "e_count ?y = length vs" "e_hash ?y = h"
      using jl jk e cnt by (auto simp: key_of_def)
    have "j \<noteq> Suc i"
    proof
      assume "j = Suc i"
      then have "key_of e c = key_of e d" using intern_ok_inj [OF ok] j d by blast
      then have "k_collision (key_of e c) = k_collision (key_of e d)" by simp
      with c show False by simp
    qed
    then have "content D s ?y \<noteq> vs"
      using dist jl i y e vs by (auto simp: distinct_conv_nth entry_id_def)
    moreover have "alloc_from al D s t single vs h (Suc c) = Some (s, Suc i)"
      using Suc c by (intro Suc.hyps) auto
    moreover have "nth_opt (st_entries s) (entry_index_get j) = Some ?y"
      using jl by (simp add: entry_index_get_def)
    moreover have "check (single \<longrightarrow> e_count ?y = 1) = Some ()" using y single by simp
    ultimately show ?case
      using lim j ex [OF y(1-3)]
      by (subst alloc_from.simps) (simp only: if_True key Let_def option.case bind.simps if_False)
  }
qed

lemma bounded_known:
  assumes wf: "stash_wf D s" and h: "holds H D s i x"
  shows "intern_bounded al H D s x = Some (s, i)"
proof -
  obtain single t vs where x: "x = (single, t, vs)" by (cases x) auto
  have inv: "stash_inv D s" and dist: "distinct (map (entry_id D s) (st_entries s))"
    using wf by (auto simp: stash_wf_def)
  let ?e = "st_entries s ! (i - 1)"
  have i: "i - 1 < length (st_entries s)" "Suc (i - 1) = i" using h by (auto simp: holds_def)
  have e: "e_type ?e = t" "content D s ?e = vs" "content_hash H D s x = Some (e_hash ?e)" "item_ok D x"
    using h by (auto simp: holds_def x item_view_def Let_def)
  obtain d where d: "st_intern s (key_of ?e d) = Some (Suc (i - 1))"
    using inv i unfolding stash_inv_def intern_ok_def by blast
  have a: "alloc_from al D s t single vs (e_hash ?e) 0 = Some (s, i)"
    using alloc_from_known [OF inv dist i(1) refl e(1) refl e(2) _ d] e(4) i x by simp
  moreover have "[hd vs] = vs" if single using e(4) x that by (cases vs) auto
  ultimately have "stash_intern al H D s x = Some (s, make_handle s i)"
    using e(3) by (auto simp: x content_hash.simps stash_intern.simps alloc_def alloc_slice_def)
  then show ?thesis
    using e(4) inv by (simp add: intern_bounded_def stash_inv_def make_handle_def)
qed

end

sublocale stash_alloc < stash: hash_consing "intern_bounded al H D" "holds H D" item_view "stash_wf D"
proof
  show "stash_wf D s'" and "holds H D s' i x" if "stash_wf D s" "intern_bounded al H D s x = Some (s', i)" for s s' i x
    using wf_mono [OF that] by blast+
  show "holds H D s' j y" if "stash_wf D s" "intern_bounded al H D s x = Some (s', i)" "holds H D s j y" for s s' i j x y
    using wf_mono(3) [OF that(1,2)] that(1,3) by (auto intro: holds_le simp: stash_wf_def)
  show "intern_bounded al H D s x = Some (s, i)" if "stash_wf D s" "holds H D s i x" for s i x
    using that by (rule bounded_known)
  show "item_view x = item_view y" if "stash_wf D s" "holds H D s i x" "holds H D s i y" for s i x y
    using that by (auto simp: holds_def Let_def)
qed

end
