(* ===== verification/ScalarLayout.thy ===== *)
theory ScalarLayout
  imports StashIntern
begin

text \<open>
  The layout of the scalars that \<open>crates/sage-stash/src/lib.rs\<close> makes storable (and of a handle),
  as an instance of the contract of \<open>StashData\<close>; so the lemmas about the stash hold for it.
  A scalar hashes with the write method of its type; a handle hashes as a handle.
\<close>

datatype scalar =
    SBool bool | SU8 "8 word" | SU16 "16 word" | SU32 "32 word" | SU64 "64 word"
  | SI8 "8 word" | SI16 "16 word" | SI32 "32 word" | SI64 "64 word" | SUnit | SPtr "32 word"

fun bytes_of_nat :: "nat \<Rightarrow> nat \<Rightarrow> byte list" where
  "bytes_of_nat 0 x = []"
| "bytes_of_nat (Suc n) x = of_nat (x mod 256) # bytes_of_nat n (x div 256)"

fun nat_of_bytes :: "byte list \<Rightarrow> nat" where
  "nat_of_bytes [] = 0"
| "nat_of_bytes (b # bs) = unat b + 256 * nat_of_bytes bs"

lemma length_bytes_of_nat [simp]: "length (bytes_of_nat n x) = n"
  by (induction n arbitrary: x) auto

lemma nat_of_bytes_of_nat [simp]: "nat_of_bytes (bytes_of_nat n x) = x mod 256 ^ n"
proof (induction n arbitrary: x)
  case 0
  then show ?case by simp
next
  case (Suc n)
  have "x mod 256 + 256 * (x div 256 mod 256 ^ n) = x mod (256 * 256 ^ n)"
    by (simp add: mod_mult2_eq)
  then show ?case by (simp add: Suc unat_of_nat)
qed

fun scalar_type :: "scalar \<Rightarrow> nat" where
  "scalar_type (SBool _) = 0" | "scalar_type (SU8 _) = 1" | "scalar_type (SU16 _) = 2"
| "scalar_type (SU32 _) = 3" | "scalar_type (SU64 _) = 4" | "scalar_type (SI8 _) = 5"
| "scalar_type (SI16 _) = 6" | "scalar_type (SI32 _) = 7" | "scalar_type (SI64 _) = 8"
| "scalar_type SUnit = 9" | "scalar_type (SPtr _) = 10"

definition scalar_size :: "nat \<Rightarrow> nat" where
  "scalar_size t = (if t < 11 then [1, 1, 2, 4, 8, 1, 2, 4, 8, 0, 4] ! t else 0)"

definition scalar_align :: "nat \<Rightarrow> nat" where
  "scalar_align t = (if t < 11 then [1, 1, 2, 4, 8, 1, 2, 4, 8, 1, 4] ! t else 1)"

fun scalar_bytes :: "scalar \<Rightarrow> byte list" where
  "scalar_bytes (SBool b) = [if b then 1 else 0]"
| "scalar_bytes (SU8 w) = bytes_of_nat 1 (unat w)"
| "scalar_bytes (SU16 w) = bytes_of_nat 2 (unat w)"
| "scalar_bytes (SU32 w) = bytes_of_nat 4 (unat w)"
| "scalar_bytes (SU64 w) = bytes_of_nat 8 (unat w)"
| "scalar_bytes (SI8 w) = bytes_of_nat 1 (unat w)"
| "scalar_bytes (SI16 w) = bytes_of_nat 2 (unat w)"
| "scalar_bytes (SI32 w) = bytes_of_nat 4 (unat w)"
| "scalar_bytes (SI64 w) = bytes_of_nat 8 (unat w)"
| "scalar_bytes SUnit = []"
| "scalar_bytes (SPtr i) = bytes_of_nat 4 (unat i)"

definition scalar_from :: "nat \<Rightarrow> byte list \<Rightarrow> scalar" where
  "scalar_from t bs =
     (let n = nat_of_bytes bs in
      if t = 0 then SBool (n \<noteq> 0)
      else if t = 1 then SU8 (of_nat n) else if t = 2 then SU16 (of_nat n)
      else if t = 3 then SU32 (of_nat n) else if t = 4 then SU64 (of_nat n)
      else if t = 5 then SI8 (of_nat n) else if t = 6 then SI16 (of_nat n)
      else if t = 7 then SI32 (of_nat n) else if t = 8 then SI64 (of_nat n)
      else if t = 9 then SUnit else SPtr (of_nat n))"

fun scalar_hash :: "scalar \<Rightarrow> hash_op list" where
  "scalar_hash (SBool b) = [Plain (WriteU8 (if b then 1 else 0))]"
| "scalar_hash (SU8 w) = [Plain (WriteU8 w)]"
| "scalar_hash (SU16 w) = [Plain (WriteU16 w)]"
| "scalar_hash (SU32 w) = [Plain (WriteU32 w)]"
| "scalar_hash (SU64 w) = [Plain (WriteU64 w)]"
| "scalar_hash (SI8 w) = [Plain (WriteI8 w)]"
| "scalar_hash (SI16 w) = [Plain (WriteI16 w)]"
| "scalar_hash (SI32 w) = [Plain (WriteI32 w)]"
| "scalar_hash (SI64 w) = [Plain (WriteI64 w)]"
| "scalar_hash SUnit = []"
| "scalar_hash (SPtr i) = [HashPtr (unat i)]"

definition scalar_data :: "scalar stash_data" where
  "scalar_data = \<lparr>sd_size = scalar_size, sd_align = scalar_align,
     sd_typed = (\<lambda>t v. scalar_type v = t), sd_to_bytes = (\<lambda>_. scalar_bytes),
     sd_from_bytes = scalar_from, sd_hash = (\<lambda>_. scalar_hash)\<rparr>"

lemma is_pow2_small: "is_pow2 1" "is_pow2 2" "is_pow2 4" "is_pow2 8"
  unfolding is_pow2_def
  by (rule exI [of _ 0], simp, rule exI [of _ 1], simp, rule exI [of _ 2], simp, rule exI [of _ 3], simp)

lemma lessThan_11: "(t::nat) < 11 \<longleftrightarrow> t \<in> {0, 1, 2, 3, 4, 5, 6, 7, 8, 9, 10}"
  by (simp, presburger)

lemma scalar_align_cases: "scalar_align t \<in> {1, 2, 4, 8}"
proof (cases "t < 11")
  case True
  then have "t \<in> {0, 1, 2, 3, 4, 5, 6, 7, 8, 9, 10}" by (simp add: lessThan_11)
  then show ?thesis by (auto simp: scalar_align_def)
qed (simp add: scalar_align_def)

lemma scalar_size_multiple: "scalar_align t dvd scalar_size t"
proof (cases "t < 11")
  case True
  then have "t \<in> {0, 1, 2, 3, 4, 5, 6, 7, 8, 9, 10}" by (simp add: lessThan_11)
  then show ?thesis by (auto simp: scalar_align_def scalar_size_def)
qed (simp add: scalar_align_def)

text \<open>The simplest allocator: every block sits at the address of its alignment.\<close>

definition example_alloc :: allocator where
  "example_alloc sz a = Some a"

text \<open>The worst hasher: every value has the same hash.\<close>

definition constant_hasher :: "unit hasher" where
  "constant_hasher = \<lparr>h_default = (), h_write = (\<lambda>_ _. ()), h_finish = (\<lambda>_. 0)\<rparr>"

lemma unat_mod_bytes [simp]:
  "unat (w8 :: 8 word) mod 256 = unat w8" "unat (w16 :: 16 word) mod 65536 = unat w16"
  "unat (w32 :: 32 word) mod 4294967296 = unat w32"
  "unat (w64 :: 64 word) mod 18446744073709551616 = unat w64"
  using unsigned_less [of w8, where ?'a = nat] unsigned_less [of w16, where ?'a = nat]
    unsigned_less [of w32, where ?'a = nat] unsigned_less [of w64, where ?'a = nat] by auto

interpretation scalars: stash_alloc scalar_data example_alloc constant_hasher
proof
  fix t :: nat and v
  show "is_pow2 (sd_align scalar_data t)"
    using scalar_align_cases [of t] is_pow2_small by (auto simp: scalar_data_def)
  show "sd_align scalar_data t dvd sd_size scalar_data t"
    by (simp add: scalar_data_def scalar_size_multiple)
  show "length (sd_to_bytes scalar_data t v) = sd_size scalar_data t" if "sd_typed scalar_data t v"
    using that by (cases v) (auto simp: scalar_data_def scalar_size_def)
  show "sd_from_bytes scalar_data t (sd_to_bytes scalar_data t v) = v" if "sd_typed scalar_data t v"
    using that by (cases v) (auto simp: scalar_data_def scalar_from_def Let_def)
  show "allocator_ok example_alloc"
    by (simp add: allocator_ok_def example_alloc_def)
qed

end
