(* ===== verification/StashProps.thy ===== *)
theory StashProps
  imports StashIntern ScalarLayout
begin

text \<open>
  What a stash promises to its users, stated on \<open>alloc\<close>, \<open>alloc_slice\<close> and indexing: round trip,
  stability of handles, hash-consing, memory safety and progress.
\<close>

section \<open>Reading through handles\<close>

definition valid_handle :: "stash \<Rightarrow> nat \<Rightarrow> handle \<Rightarrow> bool" where
  "valid_handle s t p \<longleftrightarrow> h_stash p = st_id s \<and> 0 < h_index p \<and> h_index p \<le> length (st_entries s) \<and>
     e_type (st_entries s ! (h_index p - 1)) = t"

context stash_layout
begin

lemma index_slice_iff:
  assumes "stash_inv D s" and "0 < h_index p"
  shows "index_slice D s t p = Some vs \<longleftrightarrow>
    valid_handle s t p \<and> content D s (st_entries s ! (h_index p - 1)) = vs"
proof -
  have "entry_ok D s (st_entries s ! (h_index p - 1))" if "h_index p \<le> length (st_entries s)"
    using assms that by (simp add: stash_inv_def)
  from read_slice_content [OF this refl] show ?thesis
    using assms(2) by (auto simp: index_slice_def validate_stash_id_def validate_entry_def
        entry_index_get_def opt_simps valid_handle_def)
qed

lemma index_ptr_iff:
  assumes "stash_inv D s" and "0 < h_index p"
  shows "index_ptr D s t p = Some v \<longleftrightarrow>
    valid_handle s t p \<and> content D s (st_entries s ! (h_index p - 1)) = [v]"
proof -
  let ?e = "st_entries s ! (h_index p - 1)"
  have e: "entry_ok D s ?e" if "h_index p \<le> length (st_entries s)"
    using assms that by (simp add: stash_inv_def)
  have one: "read_one D s (e_type ?e) (e_offset ?e) = Some (hd (content D s ?e))"
    "content D s ?e = [hd (content D s ?e)]" if "h_index p \<le> length (st_entries s)" "e_count ?e = 1"
    using read_one_content [OF e [OF that(1)] that(2) refl] by simp_all
  have cnt: "e_count ?e = 1" if "h_index p \<le> length (st_entries s)" "content D s ?e = [v]"
    using content_typed(2) [OF e [OF that(1)]] that by simp
  have "index_ptr D s t p = Some v \<longleftrightarrow> valid_handle s t p \<and> e_count ?e = 1 \<and> hd (content D s ?e) = v"
    using assms(2) one(1) by (auto simp: index_ptr_def validate_stash_id_def validate_entry_def
        entry_index_get_def opt_simps valid_handle_def)
  also have "\<dots> \<longleftrightarrow> valid_handle s t p \<and> content D s ?e = [v]"
    using one(2) cnt by (auto simp: valid_handle_def simp del: One_nat_def)
  finally show ?thesis .
qed

lemma handles_le:
  assumes inv: "stash_inv D s" "stash_inv D s'" and le: "stash_le s s'" and p: "0 < h_index p"
  shows "index_slice D s t p = Some vs \<Longrightarrow> index_slice D s' t p = Some vs"
    and "index_ptr D s t p = Some v \<Longrightarrow> index_ptr D s' t p = Some v"
proof -
  have "valid_handle s' t p \<and>
      content D s' (st_entries s' ! (h_index p - 1)) = content D s (st_entries s ! (h_index p - 1))"
    if v: "valid_handle s t p"
  proof -
    from le obtain es where es: "st_entries s' = st_entries s @ es" "st_id s' = st_id s"
      by (auto simp: stash_le_def)
    have i: "h_index p - 1 < length (st_entries s)" using v by (auto simp: valid_handle_def)
    then have "entry_ok D s (st_entries s ! (h_index p - 1))" "buf_ok (st_buf s)"
      using inv(1) by (auto simp: stash_inv_def)
    from content_le [OF le this] show ?thesis
      using v i by (auto simp: valid_handle_def es nth_append)
  qed
  then show "index_slice D s t p = Some vs \<Longrightarrow> index_slice D s' t p = Some vs"
    and "index_ptr D s t p = Some v \<Longrightarrow> index_ptr D s' t p = Some v"
    using inv p by (auto simp: index_slice_iff index_ptr_iff)
qed

end

section \<open>Allocation\<close>

text \<open>Both entry points store an item; the buffer must stay below 4 GiB.\<close>

lemma alloc_bounded:
  "alloc al H D s t v = Some (s', p) \<Longrightarrow> sd_typed D t v \<Longrightarrow> buf_len (st_buf s') < 2 ^ 32 \<Longrightarrow>
     intern_bounded al H D s (True, t, [v]) = Some (s', h_index p) \<and> h_stash p = st_id s'"
  by (auto simp: intern_bounded_def stash_intern.simps alloc_def opt_simps make_handle_def)

lemma alloc_slice_bounded:
  "alloc_slice al H D s t vs = Some (s', p) \<Longrightarrow> list_all (sd_typed D t) vs \<Longrightarrow> length vs < 2 ^ 32 \<Longrightarrow>
     buf_len (st_buf s') < 2 ^ 32 \<Longrightarrow>
     intern_bounded al H D s (False, t, vs) = Some (s', h_index p) \<and> h_stash p = st_id s'"
  by (auto simp: intern_bounded_def stash_intern.simps alloc_slice_def opt_simps make_handle_def)

lemma bounded_alloc:
  "intern_bounded al H D s (True, t, [v]) = Some (s', i) \<Longrightarrow> alloc al H D s t v = Some (s', make_handle s' i)"
  by (auto simp: intern_bounded_def stash_intern.simps alloc_def opt_simps make_handle_def)

lemma bounded_alloc_slice:
  "intern_bounded al H D s (False, t, vs) = Some (s', i) \<Longrightarrow>
     alloc_slice al H D s t vs = Some (s', make_handle s' i)"
  by (auto simp: intern_bounded_def stash_intern.simps alloc_slice_def opt_simps make_handle_def)

context stash_alloc
begin

lemma bounded_index:
  assumes "stash_wf D s" and "intern_bounded al H D s (single, t, vs) = Some (s', h_index p)"
    and "h_stash p = st_id s'"
  shows "0 < h_index p" and "valid_handle s' t p"
    and "content D s' (st_entries s' ! (h_index p - 1)) = vs"
  using wf_mono(2) [OF assms(1,2)] assms(3)
  by (auto simp: holds_def valid_handle_def item_view_def Let_def)

lemma bounded_stable:
  assumes "stash_wf D s" and "intern_bounded al H D s x = Some (s', i)" and "0 < h_index q"
  shows "index_slice D s t q = Some vs \<Longrightarrow> index_slice D s' t q = Some vs"
    and "index_ptr D s t q = Some v \<Longrightarrow> index_ptr D s' t q = Some v"
  using handles_le [OF _ _ wf_mono(3) [OF assms(1,2)] assms(3)] assms(1) wf_mono(1) [OF assms(1,2)]
  by (auto simp: stash_wf_def)

lemma alloc_facts:
  assumes "stash_wf D s" and "sd_typed D t v" and "alloc al H D s t v = Some (s', p)"
    and "buf_len (st_buf s') < 2 ^ 32"
  shows "stash_wf D s'" and "index_ptr D s' t p = Some v" and "stash_le s s'"
proof -
  have b: "intern_bounded al H D s (True, t, [v]) = Some (s', h_index p)" and h: "h_stash p = st_id s'"
    using alloc_bounded [OF assms(3,2,4)] by simp_all
  show wf: "stash_wf D s'" and "stash_le s s'" using wf_mono(1,3) [OF assms(1) b] by simp_all
  then show "index_ptr D s' t p = Some v"
    using bounded_index [OF assms(1) b h] by (subst index_ptr_iff) (auto simp: stash_wf_def)
qed

lemma alloc_slice_facts:
  assumes "stash_wf D s" and "list_all (sd_typed D t) vs" and "length vs < 2 ^ 32"
    and "alloc_slice al H D s t vs = Some (s', p)" and "buf_len (st_buf s') < 2 ^ 32"
  shows "stash_wf D s'" and "index_slice D s' t p = Some vs" and "stash_le s s'"
proof -
  have b: "intern_bounded al H D s (False, t, vs) = Some (s', h_index p)" and h: "h_stash p = st_id s'"
    using alloc_slice_bounded [OF assms(4,2,3,5)] by simp_all
  show wf: "stash_wf D s'" and "stash_le s s'" using wf_mono(1,3) [OF assms(1) b] by simp_all
  then show "index_slice D s' t p = Some vs"
    using bounded_index [OF assms(1) b h] by (subst index_slice_iff) (auto simp: stash_wf_def)
qed

end

section \<open>Progress\<close>

text \<open>
  Below 4 GiB and with memory available every allocation returns: no layout limit, no index and
  no collision number overflows, and no read of an earlier entry is out of bounds.
\<close>

lemma wrapping_padding_less: "is_pow2 a \<Longrightarrow> wrapping_padding cur a < a"
  using wrapping_padding_eq unfolding is_pow2_def by blast

lemma is_pow2_4: "is_pow2 4"
  unfolding is_pow2_def by (intro exI [of _ 2]) simp

context stash_alloc
begin

lemma push_raw_returns:
  assumes inv: "stash_inv D s" and sm: "buf_small (st_buf s)" and tot: "\<forall>n a. al n a \<noteq> None"
    and ty: "list_all (sd_typed D t) vs" and a: "sd_align D t \<le> 2 ^ 16"
    and len: "buf_len (st_buf s) + max (sd_align D t) 4 + length vs * sd_size D t < 2 ^ 32"
    and n: "length (st_entries s) + 1 < 2 ^ 32"
  obtains s' where "push_raw al D s t vs h = Some (s', Suc (length (st_entries s)))"
    and "buf_small (st_buf s')" and "buf_len (st_buf s') < 2 ^ 32" and "st_intern s' = st_intern s"
proof -
  let ?a = "max (sd_align D t) 4"
  let ?pad = "wrapping_padding (buf_len (st_buf s)) ?a"
  let ?bs = "concat (map (sd_to_bytes D t) vs)"
  have bok: "buf_ok (st_buf s)" using inv by (simp add: stash_inv_def)
  have pad: "?pad < ?a" by (intro wrapping_padding_less is_pow2_max align_pow2 is_pow2_4)
  obtain b1 where b1: "resize_zeroed al (st_buf s) (buf_len (st_buf s) + ?pad) = Some b1" "buf_small b1"
    by (rule resize_zeroed_returns [OF bok sm tot, of "buf_len (st_buf s) + ?pad"]) (use pad len in auto)
  note s1 = resize_zeroed_spec [OF bok alloc_aligned b1(1)]
  have bl: "length ?bs = length vs * sd_size D t"
    using ty bytes_length by (intro length_concat_const) (auto simp: list_all_iff)
  have fits: "buf_len b1 + length ?bs < 2 ^ 32" using s1(2) pad len unfolding bl by linarith
  obtain b2 where b2: "extend_from_slice al b1 ?bs (sd_align D t) = Some b2" "buf_small b2"
    by (rule extend_from_slice_returns [OF s1(1) b1(2) tot align_pow2 a, of "?bs"]) (use fits in auto)
  note s2 = extend_from_slice_spec [OF s1(1) alloc_aligned align_pow2 b2(1)]
  have "u32_of (length (st_entries s)) = length (st_entries s)" using n by (simp add: u32_of_def)
  then have "entry_index_new (u32_of (length (st_entries s))) = Some (Suc (length (st_entries s)))"
    using n by (simp add: entry_index_new_def)
  then have "\<exists>s'. push_raw al D s t vs h = Some (s', Suc (length (st_entries s))) \<and>
      st_buf s' = b2 \<and> st_intern s' = st_intern s"
    using b1 b2 by (simp add: push_raw_def Let_def)
  then show ?thesis using that b2(2) s2(2) fits by force
qed

lemma alloc_from_returns:
  assumes inv: "stash_inv D s" and sm: "buf_small (st_buf s)" and tot: "\<forall>n a. al n a \<noteq> None"
    and ty: "list_all (sd_typed D t) vs" and a: "sd_align D t \<le> 2 ^ 16"
    and len: "buf_len (st_buf s) + max (sd_align D t) 4 + length vs * sd_size D t < 2 ^ 32"
    and n: "length (st_entries s) + 1 < 2 ^ 32" and single: "single \<longrightarrow> length vs = 1"
    and chain: "c = 0 \<or> st_intern s \<lparr>k_type = t, k_count = length vs, k_hash = h, k_collision = c - 1\<rparr> \<noteq> None"
  shows "\<exists>s' i. alloc_from al D s t single vs h c = Some (s', i) \<and> buf_small (st_buf s') \<and>
    buf_len (st_buf s') < 2 ^ 32"
  using chain
proof (induction "2 ^ 32 - c" arbitrary: c rule: less_induct)
  case less
  let ?key = "\<lparr>k_type = t, k_count = length vs, k_hash = h, k_collision = c\<rparr>"
  have ok: "intern_ok s" using inv by (simp add: stash_inv_def)
  have lim: "c < 2 ^ 32 - 1"
    using less.prems collision_bound [OF ok, of "?key\<lparr>k_collision := c - 1\<rparr>"] n by auto
  show ?case
  proof (cases "st_intern s ?key")
    case None
    obtain s1 where "push_raw al D s t vs h = Some (s1, Suc (length (st_entries s)))"
      "buf_small (st_buf s1)" "buf_len (st_buf s1) < 2 ^ 32"
      by (rule push_raw_returns [OF inv sm tot ty a len n, of h])
    then show ?thesis
      using lim None by (subst alloc_from.simps) (simp add: Let_def)
  next
    case (Some i)
    from intern_ok_entry [OF ok Some] have i: "0 < i" "i \<le> length (st_entries s)"
      and k: "?key = key_of (st_entries s ! (i - 1)) c" by auto
    define e where "e = st_entries s ! (i - 1)"
    have e: "e_type e = t" "e_count e = length vs" using k unfolding e_def key_of_def by auto
    have eok: "entry_ok D s e" using inv i by (simp add: stash_inv_def e_def)
    have ex: "(if single then do { v \<leftarrow> read_one D s t (e_offset e); Some [v] }
        else read_slice D s t (e_offset e) (e_count e)) = Some (content D s e)"
      using read_one_content [OF eok] read_slice_content [OF eok] e single by auto
    have nth: "nth_opt (st_entries s) (entry_index_get i) = Some e"
      using i by (simp add: entry_index_get_def e_def)
    have chk: "check (single \<longrightarrow> e_count e = 1) = Some ()" using e single by simp
    have step: "alloc_from al D s t single vs h c =
        (if content D s e = vs then Some (s, i) else alloc_from al D s t single vs h (Suc c))"
      by (subst alloc_from.simps) (simp only: if_P [OF lim] Let_def Some option.case nth ex chk bind.simps)
    have "\<exists>s' i. alloc_from al D s t single vs h (Suc c) = Some (s', i) \<and> buf_small (st_buf s') \<and>
        buf_len (st_buf s') < 2 ^ 32"
      by (rule less.hyps) (use lim Some in auto)
    then show ?thesis
      using step sm inv by (auto simp: stash_inv_def)
  qed
qed

lemma alloc_returns_bounded:
  assumes wf: "stash_wf D s" and sm: "buf_small (st_buf s)" and tot: "\<forall>n a. al n a \<noteq> None"
    and ty: "sd_typed D t v" and a: "sd_align D t \<le> 2 ^ 16"
    and len: "buf_len (st_buf s) + max (sd_align D t) 4 + sd_size D t < 2 ^ 32"
    and n: "length (st_entries s) + 1 < 2 ^ 32" and h: "content_hash_one H D s t v = Some h"
  obtains s' p where "alloc al H D s t v = Some (s', p)" and "buf_small (st_buf s')"
    and "buf_len (st_buf s') < 2 ^ 32"
proof -
  obtain s' i where "alloc_from al D s t True [v] h 0 = Some (s', i)" "buf_small (st_buf s')"
      "buf_len (st_buf s') < 2 ^ 32"
    using alloc_from_returns [OF _ sm tot _ a _ n, of "[v]" True 0 h] wf ty len
    by (auto simp: stash_wf_def)
  with that h show ?thesis by (auto simp: alloc_def)
qed

lemma alloc_slice_returns_bounded:
  assumes wf: "stash_wf D s" and sm: "buf_small (st_buf s)" and tot: "\<forall>n a. al n a \<noteq> None"
    and ty: "list_all (sd_typed D t) vs" and a: "sd_align D t \<le> 2 ^ 16"
    and len: "buf_len (st_buf s) + max (sd_align D t) 4 + length vs * sd_size D t < 2 ^ 32"
    and n: "length (st_entries s) + 1 < 2 ^ 32" and h: "content_hash_slice H D s t vs = Some h"
  obtains s' p where "alloc_slice al H D s t vs = Some (s', p)" and "buf_small (st_buf s')"
    and "buf_len (st_buf s') < 2 ^ 32"
proof -
  obtain s' i where "alloc_from al D s t False vs h 0 = Some (s', i)" "buf_small (st_buf s')"
      "buf_len (st_buf s') < 2 ^ 32"
    using alloc_from_returns [OF _ sm tot ty a len n, of False 0 h] wf
    by (auto simp: stash_wf_def)
  with that h show ?thesis by (auto simp: alloc_slice_def)
qed

text \<open>
  The abstraction: an entry is its type, its hash and its values.  The byte-level stash with its
  collision chains behaves as the arena of theory Arena.
\<close>

lemma intern_refines:
  assumes wf: "stash_wf D s" and r: "intern_bounded al H D s (single, t, vs) = Some (s', i)"
  shows "\<exists>h. content_hash H D s (single, t, vs) = Some h \<and> 0 < i \<and>
    arena_intern (map (entry_id D s) (st_entries s)) (t, h, vs) =
      (map (entry_id D s') (st_entries s'), i - 1)"
proof -
  note m = wf_mono [OF wf r]
  obtain p where si: "stash_intern al H D s (single, t, vs) = Some (s', p)" "item_ok D (single, t, vs)"
    using r by (auto simp: intern_bounded_def opt_simps)
  obtain h where h: "content_hash H D s (single, t, vs) = Some h"
    using intern_unfold [OF si] by blast
  have e: "0 < i" "i \<le> length (st_entries s')" "entry_id D s' (st_entries s' ! (i - 1)) = (t, h, vs)"
    using m(2) content_hash_le [OF m(3) h] by (auto simp: holds_def entry_id_def item_view_def Let_def)
  have d: "distinct (map (entry_id D s') (st_entries s'))" using m(1) by (simp add: stash_wf_def)
  show ?thesis
  proof (cases "s' = s")
    case True
    have "map (entry_id D s) (st_entries s) ! (i - 1) = (t, h, vs)" using e True by simp
    then have "index_of (t, h, vs) (map (entry_id D s) (st_entries s)) = Some (i - 1)"
      using index_of_distinct [OF d, of "i - 1"] e True by auto
    then show ?thesis using h e True by (simp add: arena_intern_def)
  next
    case False
    then obtain x where x: "st_entries s' = st_entries s @ [x]" "i = length (st_entries s')"
      using m(4) by blast
    have old: "map (entry_id D s') (st_entries s) = map (entry_id D s) (st_entries s)"
      using content_le [OF m(3), of D] wf by (auto simp: entry_id_def stash_wf_def stash_inv_def)
    have "entry_id D s' x = (t, h, vs)" using e x by simp
    have "(t, h, vs) \<notin> set (map (entry_id D s) (st_entries s))"
      using d x(1) \<open>entry_id D s' x = (t, h, vs)\<close> old by (auto simp del: map_eq_conv)
    then have "index_of (t, h, vs) (map (entry_id D s) (st_entries s)) = None"
      by (simp only: index_of_None not_False_eq_True)
    then show ?thesis
      using h x old \<open>entry_id D s' x = (t, h, vs)\<close> by (simp add: arena_intern_def del: map_eq_conv index_of_None)
  qed
qed

end

context stash_alloc
begin

lemma intern_all_le:
  "stash_wf D s \<Longrightarrow> intern_all (intern_bounded al H D) s xs = Some (s', is) \<Longrightarrow> stash_le s s' \<and> stash_wf D s'"
proof (induction xs arbitrary: s "is")
  case Nil
  then show ?case by simp
next
  case (Cons x xs)
  then obtain s1 i js where "intern_bounded al H D s x = Some (s1, i)"
    "intern_all (intern_bounded al H D) s1 xs = Some (s', js)" by (auto simp: opt_simps)
  with Cons show ?case using wf_mono(1,3) stash_le_trans by blast
qed

lemma intern_bounded_again:
  assumes "stash_wf D s" and "intern_bounded al H D s x = Some (s1, i)"
    and "intern_all (intern_bounded al H D) s1 ys = Some (s2, js)"
  shows "intern_bounded al H D s2 x = Some (s2, i)"
    and "intern_bounded al H D s2 y = Some (s3, i) \<Longrightarrow> item_view x = item_view y"
  using stash.intern_again [OF assms] stash.distinct_handles [OF assms] by simp_all

end

section \<open>An example stash\<close>

lemma ex_new:
  obtains s p where "alloc example_alloc constant_hasher scalar_data (stash_new 1) 3 (SU32 7) = Some (s, p)"
    and "buf_small (st_buf s)" and "buf_len (st_buf s) < 2 ^ 32"
  by (rule scalars.alloc_returns_bounded [OF stash_wf_new, of 1 3 "SU32 7" 0])
    (auto simp: stash_new_def buf_small_def buf_new_def example_alloc_def scalar_data_def
      scalar_align_def scalar_size_def content_hash_one_def hash_value_def constant_hasher_def)


section \<open>Properties\<close>

text \<open>C19: Storing a value and reading it back through the returned handle gives the value, the
  storage invariant is kept, and every handle that was readable before still reads the same.\<close>

theorem alloc_roundtrip:
  assumes "stash_alloc D al" and "stash_wf D s" and "sd_typed D t v"
    and "alloc al H D s t v = Some (s', p)" and "buf_len (st_buf s') < 2 ^ 32"
  shows "index_ptr D s' t p = Some v \<and> stash_wf D s' \<and>
    (\<forall>q u w. 0 < h_index q \<longrightarrow> index_ptr D s u q = Some w \<longrightarrow> index_ptr D s' u q = Some w) \<and>
    (\<forall>q u ws. 0 < h_index q \<longrightarrow> index_slice D s u q = Some ws \<longrightarrow> index_slice D s' u q = Some ws)"
proof -
  note f = stash_alloc.alloc_facts [OF assms]
  have "stash_layout D" using assms(1) by (simp add: stash_alloc_def)
  note h = stash_layout.handles_le [OF this _ _ f(3)]
  show ?thesis using f assms(2) h by (auto simp: stash_wf_def)
qed

theorem alloc_roundtrip_witness:
  "\<exists>s p. alloc example_alloc constant_hasher scalar_data (stash_new 1) 3 (SU32 7) = Some (s, p) \<and>
     index_ptr scalar_data s 3 p = Some (SU32 7)"
proof -
  obtain s p where a: "alloc example_alloc constant_hasher scalar_data (stash_new 1) 3 (SU32 7) = Some (s, p)"
    and "buf_len (st_buf s) < 2 ^ 32" by (rule ex_new)
  then show ?thesis
    using alloc_roundtrip [OF scalars.stash_alloc_axioms stash_wf_new _ a] by (auto simp: scalar_data_def)
qed



text \<open>Hash-consing.  However many values are stored in between, storing an equal value again
  returns the same handle and leaves the stash unchanged, whatever collisions the hasher has.\<close>

theorem alloc_again:
  assumes "stash_alloc D al" and "stash_wf D s" and "sd_typed D t v"
    and "alloc al H D s t v = Some (s1, p)" and "buf_len (st_buf s1) < 2 ^ 32"
    and "intern_all (intern_bounded al H D) s1 items = Some (s2, is)"
  shows "alloc al H D s2 t v = Some (s2, p)"
proof -
  have b: "intern_bounded al H D s (True, t, [v]) = Some (s1, h_index p)" and p: "h_stash p = st_id s1"
    using alloc_bounded [OF assms(4,3,5)] by simp_all
  have "st_id s2 = st_id s1"
    using stash_alloc.intern_all_le [OF assms(1) _ assms(6)] stash_alloc.wf_mono(1) [OF assms(1,2) b]
    by (simp add: stash_le_def)
  moreover have "intern_bounded al H D s2 (True, t, [v]) = Some (s2, h_index p)"
    using stash_alloc.intern_bounded_again(1) [OF assms(1,2) b assms(6)] .
  ultimately show ?thesis using bounded_alloc p by (metis handle.surjective make_handle_def unit.exhaust)
qed

theorem alloc_again_witness:
  "\<exists>s p. alloc example_alloc constant_hasher scalar_data (stash_new 1) 3 (SU32 7) = Some (s, p) \<and>
     alloc example_alloc constant_hasher scalar_data s 3 (SU32 7) = Some (s, p)"
proof -
  obtain s p where a: "alloc example_alloc constant_hasher scalar_data (stash_new 1) 3 (SU32 7) = Some (s, p)"
    and "buf_len (st_buf s) < 2 ^ 32" by (rule ex_new)
  then show ?thesis
    using alloc_again [OF scalars.stash_alloc_axioms stash_wf_new _ a, of "[]" s "[]"]
    by (auto simp: scalar_data_def)
qed

text \<open>C21: The byte-level stash with its collision chains refines the abstract arena: seen as the list
  of its entries' types, hashes and values, one allocation is one interning step, and the handle
  is the position in that list.\<close>

theorem stash_refines_arena:
  assumes "stash_alloc D al" and "stash_wf D s"
    and "intern_bounded al H D s (single, t, vs) = Some (s', i)"
  shows "\<exists>h. content_hash H D s (single, t, vs) = Some h \<and> 0 < i \<and>
    arena_intern (map (entry_id D s) (st_entries s)) (t, h, vs) =
      (map (entry_id D s') (st_entries s'), i - 1)"
  using assms(1) by (rule stash_alloc.intern_refines) fact+

theorem stash_refines_arena_witness:
  "\<exists>s h. arena_intern [] (3, h, [SU32 7]) = (map (entry_id scalar_data s) (st_entries s), 0)"
proof -
  obtain s p where a: "alloc example_alloc constant_hasher scalar_data (stash_new 1) 3 (SU32 7) = Some (s, p)"
    and l: "buf_len (st_buf s) < 2 ^ 32" by (rule ex_new)
  have "intern_bounded example_alloc constant_hasher scalar_data (stash_new 1) (True, 3, [SU32 7]) = Some (s, h_index p)"
    using alloc_bounded [OF a _ l] by (simp add: scalar_data_def)
  from stash_refines_arena [OF scalars.stash_alloc_axioms stash_wf_new this]
  obtain h where h: "arena_intern [] (3, h, [SU32 7]) = (map (entry_id scalar_data s) (st_entries s), h_index p - 1)"
    by (auto simp: stash_new_def)
  then have "h_index p - 1 = 0" by (auto simp: arena_intern_def)
  with h show ?thesis by auto
qed



text \<open>C23: Progress.  With memory available, below 4 GiB and 2^32 - 1 entries, storing a value whose
  handles are valid returns: the walk along the collision chain ends, no index overflows and no
  layout is refused.\<close>

theorem alloc_returns:
  assumes "stash_alloc D al" and "stash_wf D s" and "buf_small (st_buf s)"
    and "\<forall>n a. al n a \<noteq> None" and "sd_typed D t v" and "sd_align D t \<le> 2 ^ 16"
    and "buf_len (st_buf s) + max (sd_align D t) 4 + sd_size D t < 2 ^ 32"
    and "length (st_entries s) + 1 < 2 ^ 32" and "content_hash_one H D s t v = Some h"
  shows "\<exists>s' p. alloc al H D s t v = Some (s', p) \<and> buf_small (st_buf s') \<and> buf_len (st_buf s') < 2 ^ 32"
  by (rule stash_alloc.alloc_returns_bounded [OF assms]) blast

theorem alloc_returns_witness:
  "\<exists>s' p. alloc example_alloc constant_hasher scalar_data (stash_new 1) 3 (SU32 7) = Some (s', p)"
  using alloc_returns [OF scalars.stash_alloc_axioms stash_wf_new, of 1 3 "SU32 7" constant_hasher 0]
  by (auto simp: stash_new_def buf_small_def buf_new_def example_alloc_def scalar_data_def
      scalar_align_def scalar_size_def content_hash_one_def hash_value_def constant_hasher_def)



end
