(* ===== verification/Ir.thy ===== *)
theory Ir
  imports Arena
begin

text \<open>
  The intermediate representation of \<open>crates/sage-ir\<close>: types (\<open>ty.rs\<close>), generic parameters
  (\<open>generic_param.rs\<close>), inference domains (\<open>check/infer/version.rs\<close>), solver goals
  (\<open>check/solve/goal.rs\<close>) and query results (\<open>check/solve/result.rs\<close>), stored in an arena.

  A salsa identity (a symbol, a name, a tracked struct) is a number.  A \<open>Ptr<T>\<close> or \<open>Slice<T>\<close> is a
  position in the arena (theory StashProps proves that the byte-level stash behaves as such an
  arena); an arena entry is tagged with the type it was stored at, as the stash tags it with a
  \<open>TypeId\<close> and checks the tag on every access.
\<close>

section \<open>Identities and parameters\<close>

type_synonym ptr = nat
type_synonym slice = nat
type_synonym symbol = nat
type_synonym trait_symbol = nat
type_synonym type_alias_symbol = nat
type_synonym name = nat
type_synonym infer_var_index = nat
type_synonym error_reported = unit

datatype generic_param_kind = KindType | KindLifetime | KindConst

record ast_generic_param =
  ast_id :: nat
  ast_kind :: generic_param_kind
  ast_name :: "name option"

record ext_generic_param =
  ext_kind :: generic_param_kind
  ext_name :: "name option"
  ext_parent :: symbol
  ext_index :: nat

record alpha_equiv_param =
  alpha_kind :: generic_param_kind
  alpha_index :: nat

datatype generic_param =
    Ast ast_generic_param
  | Ext ext_generic_param
  | AlphaEquiv alpha_equiv_param

fun param_kind :: "generic_param \<Rightarrow> generic_param_kind" where
  "param_kind (Ast p) = ast_kind p"
| "param_kind (Ext p) = ext_kind p"
| "param_kind (AlphaEquiv p) = alpha_kind p"

fun param_name :: "generic_param \<Rightarrow> name option" where
  "param_name (Ast p) = ast_name p"
| "param_name (Ext p) = ext_name p"
| "param_name (AlphaEquiv _) = None"

section \<open>Types\<close>

datatype int_ty = I8 | I16 | I32 | I64 | I128 | Isize
datatype uint_ty = U8 | U16 | U32 | U64 | U128 | Usize
datatype float_ty = F32 | F64
datatype mutability = Shared | Mut
datatype lifetime = Dummy

datatype const_ty = ConstLiteral "64 word" | ConstParam generic_param | ConstOther symbol

record trait_ref =
  tr_trait_sym :: trait_symbol
  tr_args :: slice

record named_alias_ty =
  na_def :: type_alias_symbol
  na_args :: slice

record projection_ty =
  pr_associated_ty :: type_alias_symbol
  pr_self_ty :: ptr
  pr_trait_ref :: trait_ref
  pr_args :: slice

record opaque_alias_ty =
  oa_def :: type_alias_symbol
  oa_args :: slice

datatype alias_ty = Named named_alias_ty | Associated projection_ty | Opaque opaque_alias_ty

datatype ty =
    TyBool
  | TyChar
  | TyInt int_ty
  | TyUint uint_ty
  | TyFloat float_ty
  | TyStr
  | TyAdt symbol slice
  | TyAlias alias_ty
  | TyRef ptr mutability lifetime
  | TyTuple slice
  | TySlice ptr
  | TyArray ptr const_ty
  | TyFnPtr slice ptr
  | TyParam generic_param
  | TyInferVar infer_var_index
  | TyNever
  | TyError error_reported

section \<open>Signatures\<close>

datatype solver_eligibility = Eligible | Unsupported

definition eligibility_and :: "solver_eligibility \<Rightarrow> solver_eligibility \<Rightarrow> solver_eligibility" where
  "eligibility_and a b = (if a = Eligible \<and> b = Eligible then Eligible else Unsupported)"

definition is_eligible :: "solver_eligibility \<Rightarrow> bool" where
  "is_eligible a \<longleftrightarrow> a = Eligible"

record where_predicate =
  wp_self_ty :: ptr
  wp_trait_ref :: trait_ref

record checked_parameter_env =
  pe_where_clauses :: slice
  pe_solver_eligibility :: solver_eligibility

datatype method_receiver = ReceiverValue bool | ReceiverRef mutability

record checked_receiver =
  cr_owner_self_ty :: ptr
  cr_form :: method_receiver

record fn_sig =
  fs_owner_generic_count :: nat
  fs_owner_self_ty :: "ptr option"
  fs_receiver :: "checked_receiver option"
  fs_params :: slice
  fs_ret :: ptr
  fs_parameter_env :: checked_parameter_env
  fs_method_candidate_eligibility :: solver_eligibility
  fs_const_call_complete :: bool

record struct_sig =
  ss_parameter_env :: checked_parameter_env

record field_sig =
  fi_name :: name
  fi_ty :: ptr

record variant_sig =
  va_name :: name
  va_fields :: slice

record enum_sig =
  es_variants :: slice
  es_parameter_env :: checked_parameter_env

record 'a ty_binder =
  bi_value :: 'a
  bi_generics :: slice

section \<open>Goals and results of the solver\<close>

datatype infer_domain = DomAny | DomInteger | DomFloat

datatype canonical_var_role = RigidPlaceholder | ExistentialInput

record canonical_var_info =
  cv_param :: alpha_equiv_param
  cv_kind :: generic_param_kind
  cv_role :: canonical_var_role
  cv_relative_universe :: nat
  cv_domain :: infer_domain

datatype atom = AtomTraitImpl ptr trait_ref | AtomEquals ptr ptr

datatype goal =
    GoalExists "ptr ty_binder"
  | GoalImplies slice ptr
  | GoalAll slice
  | GoalAtom atom
  | GoalMaybe

datatype solver_goal = Prove goal | Normalize alias_ty

datatype assumption =
    AsmTraitImpl ptr trait_ref
  | AsmNormalizesTo alias_ty ptr
  | AsmImplies slice ptr
  | AsmAll slice

record goal_query_data =
  gq_local_crate :: nat
  gq_canonical_universe :: nat
  gq_canonical_vars :: slice
  gq_next_response_param :: nat
  gq_assumptions_complete :: bool
  gq_assumptions :: slice
  gq_goal :: solver_goal

record subst_entry =
  se_key :: alpha_equiv_param
  se_value :: ptr

record response_var_info =
  rv_param :: alpha_equiv_param
  rv_kind :: generic_param_kind
  rv_relative_universe :: nat
  rv_domain :: infer_domain

section \<open>The arena\<close>

datatype ir_entry =
    ETy ty
  | ETyPtrs "ptr list"
  | EGenerics "generic_param list"
  | EPredicate where_predicate
  | EPredicates "where_predicate list"
  | EFields "field_sig list"
  | EVariants "variant_sig list"
  | EGoal goal
  | EGoals "goal list"
  | EAssumptions "assumption list"
  | ECanonicalVars "canonical_var_info list"
  | ESubst "subst_entry list"
  | EResponseVars "response_var_info list"

type_synonym ir = "ir_entry arena"

definition get_ty :: "ir \<Rightarrow> ptr \<Rightarrow> ty option" where
  "get_ty st p = do { e \<leftarrow> arena_get st p; case e of ETy t \<Rightarrow> Some t | _ \<Rightarrow> None }"

definition get_tys :: "ir \<Rightarrow> slice \<Rightarrow> ptr list option" where
  "get_tys st p = do { e \<leftarrow> arena_get st p; case e of ETyPtrs ts \<Rightarrow> Some ts | _ \<Rightarrow> None }"

definition get_generics :: "ir \<Rightarrow> slice \<Rightarrow> generic_param list option" where
  "get_generics st p = do { e \<leftarrow> arena_get st p; case e of EGenerics gs \<Rightarrow> Some gs | _ \<Rightarrow> None }"

definition get_predicate :: "ir \<Rightarrow> ptr \<Rightarrow> where_predicate option" where
  "get_predicate st p = do { e \<leftarrow> arena_get st p; case e of EPredicate w \<Rightarrow> Some w | _ \<Rightarrow> None }"

definition get_predicates :: "ir \<Rightarrow> slice \<Rightarrow> where_predicate list option" where
  "get_predicates st p = do { e \<leftarrow> arena_get st p; case e of EPredicates ws \<Rightarrow> Some ws | _ \<Rightarrow> None }"

definition get_fields :: "ir \<Rightarrow> slice \<Rightarrow> field_sig list option" where
  "get_fields st p = do { e \<leftarrow> arena_get st p; case e of EFields fs \<Rightarrow> Some fs | _ \<Rightarrow> None }"

definition get_variants :: "ir \<Rightarrow> slice \<Rightarrow> variant_sig list option" where
  "get_variants st p = do { e \<leftarrow> arena_get st p; case e of EVariants vs \<Rightarrow> Some vs | _ \<Rightarrow> None }"

definition get_goal :: "ir \<Rightarrow> ptr \<Rightarrow> goal option" where
  "get_goal st p = do { e \<leftarrow> arena_get st p; case e of EGoal g \<Rightarrow> Some g | _ \<Rightarrow> None }"

definition get_goals :: "ir \<Rightarrow> slice \<Rightarrow> goal list option" where
  "get_goals st p = do { e \<leftarrow> arena_get st p; case e of EGoals gs \<Rightarrow> Some gs | _ \<Rightarrow> None }"

definition get_assumptions :: "ir \<Rightarrow> slice \<Rightarrow> assumption list option" where
  "get_assumptions st p = do { e \<leftarrow> arena_get st p; case e of EAssumptions xs \<Rightarrow> Some xs | _ \<Rightarrow> None }"

definition get_canonical_vars :: "ir \<Rightarrow> slice \<Rightarrow> canonical_var_info list option" where
  "get_canonical_vars st p = do { e \<leftarrow> arena_get st p; case e of ECanonicalVars xs \<Rightarrow> Some xs | _ \<Rightarrow> None }"

definition get_subst :: "ir \<Rightarrow> slice \<Rightarrow> subst_entry list option" where
  "get_subst st p = do { e \<leftarrow> arena_get st p; case e of ESubst xs \<Rightarrow> Some xs | _ \<Rightarrow> None }"

definition get_response_vars :: "ir \<Rightarrow> slice \<Rightarrow> response_var_info list option" where
  "get_response_vars st p = do { e \<leftarrow> arena_get st p; case e of EResponseVars xs \<Rightarrow> Some xs | _ \<Rightarrow> None }"

named_theorems ir_access \<open>reading the arena\<close>

lemma get_ty_Some [ir_access]: "get_ty st p = Some t \<longleftrightarrow> arena_get st p = Some (ETy t)"
  by (auto simp: get_ty_def opt_simps split: ir_entry.splits)

lemma get_tys_Some [ir_access]: "get_tys st p = Some ts \<longleftrightarrow> arena_get st p = Some (ETyPtrs ts)"
  by (auto simp: get_tys_def opt_simps split: ir_entry.splits)

lemma get_generics_Some [ir_access]: "get_generics st p = Some gs \<longleftrightarrow> arena_get st p = Some (EGenerics gs)"
  by (auto simp: get_generics_def opt_simps split: ir_entry.splits)

lemma get_predicate_Some [ir_access]: "get_predicate st p = Some w \<longleftrightarrow> arena_get st p = Some (EPredicate w)"
  by (auto simp: get_predicate_def opt_simps split: ir_entry.splits)

lemma get_predicates_Some [ir_access]: "get_predicates st p = Some w \<longleftrightarrow> arena_get st p = Some (EPredicates w)"
  by (auto simp: get_predicates_def opt_simps split: ir_entry.splits)

lemma get_fields_Some [ir_access]: "get_fields st p = Some w \<longleftrightarrow> arena_get st p = Some (EFields w)"
  by (auto simp: get_fields_def opt_simps split: ir_entry.splits)

lemma get_variants_Some [ir_access]: "get_variants st p = Some w \<longleftrightarrow> arena_get st p = Some (EVariants w)"
  by (auto simp: get_variants_def opt_simps split: ir_entry.splits)

lemma get_goal_Some [ir_access]: "get_goal st p = Some w \<longleftrightarrow> arena_get st p = Some (EGoal w)"
  by (auto simp: get_goal_def opt_simps split: ir_entry.splits)

lemma get_goals_Some [ir_access]: "get_goals st p = Some w \<longleftrightarrow> arena_get st p = Some (EGoals w)"
  by (auto simp: get_goals_def opt_simps split: ir_entry.splits)

lemma get_assumptions_Some [ir_access]:
  "get_assumptions st p = Some w \<longleftrightarrow> arena_get st p = Some (EAssumptions w)"
  by (auto simp: get_assumptions_def opt_simps split: ir_entry.splits)

lemma get_canonical_vars_Some [ir_access]:
  "get_canonical_vars st p = Some w \<longleftrightarrow> arena_get st p = Some (ECanonicalVars w)"
  by (auto simp: get_canonical_vars_def opt_simps split: ir_entry.splits)

lemma get_subst_Some [ir_access]: "get_subst st p = Some w \<longleftrightarrow> arena_get st p = Some (ESubst w)"
  by (auto simp: get_subst_def opt_simps split: ir_entry.splits)

lemma get_response_vars_Some [ir_access]:
  "get_response_vars st p = Some w \<longleftrightarrow> arena_get st p = Some (EResponseVars w)"
  by (auto simp: get_response_vars_def opt_simps split: ir_entry.splits)

text \<open>A larger arena reads the same.\<close>

lemma get_ty_ext: "arena_ext st st' \<Longrightarrow> get_ty st p = Some t \<Longrightarrow> get_ty st' p = Some t"
  by (simp add: ir_access arena_ext_get)

lemma get_tys_ext: "arena_ext st st' \<Longrightarrow> get_tys st p = Some t \<Longrightarrow> get_tys st' p = Some t"
  by (simp add: ir_access arena_ext_get)

end
