(* ===== verification/Skeleton.thy ===== *)
theory Skeleton
  imports Ir
begin

text \<open>
  \<open>check/infer/skeleton.rs\<close>: a type is taken apart into a rigid skeleton and its immediate
  sub-types, and put together again.  The section on pointers states when an arena is well-formed:
  every type only points to entries allocated before it.
\<close>

section \<open>Allocation of types\<close>

definition alloc_ty :: "ir \<Rightarrow> ty \<Rightarrow> ir \<times> ptr" where
  "alloc_ty st t = arena_intern st (ETy t)"

definition alloc_tys :: "ir \<Rightarrow> ptr list \<Rightarrow> ir \<times> slice" where
  "alloc_tys st ts = arena_intern st (ETyPtrs ts)"

section \<open>Skeletons\<close>

datatype skeleton =
    SkBool
  | SkChar
  | SkInt int_ty
  | SkUint uint_ty
  | SkFloat float_ty
  | SkStr
  | SkNever
  | SkError error_reported
  | SkParam generic_param
  | SkInferVar infer_var_index
  | SkAdt symbol nat
  | SkNamedAlias type_alias_symbol nat
  | SkAssociatedAlias type_alias_symbol trait_symbol nat nat
  | SkOpaqueAlias type_alias_symbol nat
  | SkRef mutability lifetime
  | SkTuple nat
  | SkSlice
  | SkArray const_ty
  | SkFnPtr nat

record decomposed =
  de_skeleton :: skeleton
  de_children :: "ptr list"

definition leaf :: "skeleton \<Rightarrow> decomposed" where
  "leaf sk = \<lparr>de_skeleton = sk, de_children = []\<rparr>"

fun decompose_ty :: "ir \<Rightarrow> ty \<Rightarrow> decomposed option" where
  "decompose_ty st TyBool = Some (leaf SkBool)"
| "decompose_ty st TyChar = Some (leaf SkChar)"
| "decompose_ty st (TyInt i) = Some (leaf (SkInt i))"
| "decompose_ty st (TyUint u) = Some (leaf (SkUint u))"
| "decompose_ty st (TyFloat f) = Some (leaf (SkFloat f))"
| "decompose_ty st TyStr = Some (leaf SkStr)"
| "decompose_ty st TyNever = Some (leaf SkNever)"
| "decompose_ty st (TyError e) = Some (leaf (SkError e))"
| "decompose_ty st (TyParam p) = Some (leaf (SkParam p))"
| "decompose_ty st (TyInferVar i) = Some (leaf (SkInferVar i))"
| "decompose_ty st (TyAdt s args) = do {
     children \<leftarrow> get_tys st args;
     Some \<lparr>de_skeleton = SkAdt s (u32_of (length children)), de_children = children\<rparr> }"
| "decompose_ty st (TyAlias (Named a)) = do {
     children \<leftarrow> get_tys st (na_args a);
     Some \<lparr>de_skeleton = SkNamedAlias (na_def a) (u32_of (length children)), de_children = children\<rparr> }"
| "decompose_ty st (TyAlias (Associated p)) = do {
     trait_args \<leftarrow> get_tys st (tr_args (pr_trait_ref p));
     item_args \<leftarrow> get_tys st (pr_args p);
     Some \<lparr>de_skeleton = SkAssociatedAlias (pr_associated_ty p) (tr_trait_sym (pr_trait_ref p))
             (u32_of (length trait_args)) (u32_of (length item_args)),
           de_children = pr_self_ty p # trait_args @ item_args\<rparr> }"
| "decompose_ty st (TyAlias (Opaque a)) = do {
     children \<leftarrow> get_tys st (oa_args a);
     Some \<lparr>de_skeleton = SkOpaqueAlias (oa_def a) (u32_of (length children)), de_children = children\<rparr> }"
| "decompose_ty st (TyRef inner m lt) = Some \<lparr>de_skeleton = SkRef m lt, de_children = [inner]\<rparr>"
| "decompose_ty st (TyTuple elems) = do {
     children \<leftarrow> get_tys st elems;
     Some \<lparr>de_skeleton = SkTuple (u32_of (length children)), de_children = children\<rparr> }"
| "decompose_ty st (TySlice inner) = Some \<lparr>de_skeleton = SkSlice, de_children = [inner]\<rparr>"
| "decompose_ty st (TyArray inner c) = Some \<lparr>de_skeleton = SkArray c, de_children = [inner]\<rparr>"
| "decompose_ty st (TyFnPtr params ret) = do {
     children \<leftarrow> get_tys st params;
     Some \<lparr>de_skeleton = SkFnPtr (u32_of (length children)), de_children = children @ [ret]\<rparr> }"

definition decompose :: "ir \<Rightarrow> ptr \<Rightarrow> decomposed option" where
  "decompose st p = do { t \<leftarrow> get_ty st p; decompose_ty st t }"

fun recompose_ty :: "ir \<Rightarrow> skeleton \<Rightarrow> ptr list \<Rightarrow> (ir \<times> ty) option" where
  "recompose_ty st SkBool cs = Some (st, TyBool)"
| "recompose_ty st SkChar cs = Some (st, TyChar)"
| "recompose_ty st (SkInt i) cs = Some (st, TyInt i)"
| "recompose_ty st (SkUint u) cs = Some (st, TyUint u)"
| "recompose_ty st (SkFloat f) cs = Some (st, TyFloat f)"
| "recompose_ty st SkStr cs = Some (st, TyStr)"
| "recompose_ty st SkNever cs = Some (st, TyNever)"
| "recompose_ty st (SkError e) cs = Some (st, TyError e)"
| "recompose_ty st (SkParam p) cs = Some (st, TyParam p)"
| "recompose_ty st (SkInferVar i) cs = Some (st, TyInferVar i)"
| "recompose_ty st (SkAdt s _) cs = (let (st, args) = alloc_tys st cs in Some (st, TyAdt s args))"
| "recompose_ty st (SkNamedAlias d _) cs =
     (let (st, args) = alloc_tys st cs in Some (st, TyAlias (Named \<lparr>na_def = d, na_args = args\<rparr>)))"
| "recompose_ty st (SkAssociatedAlias associated_ty trait_sym trait_arg_count item_arg_count) cs = do {
     let trait_end = 1 + trait_arg_count;
     let item_end = trait_end + item_arg_count;
     self_ty \<leftarrow> nth_opt cs 0;
     ts \<leftarrow> slice_opt cs 1 trait_end;
     let (st, targs) = alloc_tys st ts;
     as \<leftarrow> slice_opt cs trait_end item_end;
     let (st, args) = alloc_tys st as;
     Some (st, TyAlias (Associated \<lparr>pr_associated_ty = associated_ty, pr_self_ty = self_ty,
       pr_trait_ref = \<lparr>tr_trait_sym = trait_sym, tr_args = targs\<rparr>, pr_args = args\<rparr>)) }"
| "recompose_ty st (SkOpaqueAlias d _) cs =
     (let (st, args) = alloc_tys st cs in Some (st, TyAlias (Opaque \<lparr>oa_def = d, oa_args = args\<rparr>)))"
| "recompose_ty st (SkRef m lt) cs = do { c \<leftarrow> nth_opt cs 0; Some (st, TyRef c m lt) }"
| "recompose_ty st (SkTuple _) cs = (let (st, elems) = alloc_tys st cs in Some (st, TyTuple elems))"
| "recompose_ty st SkSlice cs = do { c \<leftarrow> nth_opt cs 0; Some (st, TySlice c) }"
| "recompose_ty st (SkArray k) cs = do { c \<leftarrow> nth_opt cs 0; Some (st, TyArray c k) }"
| "recompose_ty st (SkFnPtr param_count) cs = do {
     ps \<leftarrow> slice_opt cs 0 param_count;
     let (st, params_slice) = alloc_tys st ps;
     ret \<leftarrow> nth_opt cs param_count;
     Some (st, TyFnPtr params_slice ret) }"

definition recompose :: "ir \<Rightarrow> skeleton \<Rightarrow> ptr list \<Rightarrow> (ir \<times> ptr) option" where
  "recompose st sk cs = do { (st, t) \<leftarrow> recompose_ty st sk cs; Some (alloc_ty st t) }"

section \<open>Arity\<close>

fun skeleton_arity :: "skeleton \<Rightarrow> nat" where
  "skeleton_arity (SkAdt _ n) = n"
| "skeleton_arity (SkNamedAlias _ n) = n"
| "skeleton_arity (SkAssociatedAlias _ _ n m) = 1 + n + m"
| "skeleton_arity (SkOpaqueAlias _ n) = n"
| "skeleton_arity (SkRef _ _) = 1"
| "skeleton_arity (SkTuple n) = n"
| "skeleton_arity SkSlice = 1"
| "skeleton_arity (SkArray _) = 1"
| "skeleton_arity (SkFnPtr n) = n + 1"
| "skeleton_arity _ = 0"

text \<open>The counts of a skeleton are \<open>u32\<close>.\<close>

fun skeleton_fits :: "skeleton \<Rightarrow> bool" where
  "skeleton_fits (SkAdt _ n) \<longleftrightarrow> n < 2 ^ 32"
| "skeleton_fits (SkNamedAlias _ n) \<longleftrightarrow> n < 2 ^ 32"
| "skeleton_fits (SkAssociatedAlias _ _ n m) \<longleftrightarrow> n < 2 ^ 32 \<and> m < 2 ^ 32"
| "skeleton_fits (SkOpaqueAlias _ n) \<longleftrightarrow> n < 2 ^ 32"
| "skeleton_fits (SkTuple n) \<longleftrightarrow> n < 2 ^ 32"
| "skeleton_fits (SkFnPtr n) \<longleftrightarrow> n < 2 ^ 32"
| "skeleton_fits _ \<longleftrightarrow> True"

lemma u32_of_less [simp]: "u32_of n < 2 ^ 32"
  unfolding u32_of_def by simp

lemma decompose_ty_fits: "decompose_ty st t = Some d \<Longrightarrow> skeleton_fits (de_skeleton d)"
  using u32_of_less by (cases "(st, t)" rule: decompose_ty.cases) (auto simp: opt_simps leaf_def)

text \<open>The stash stores the length of a slice as a \<open>u32\<close>.\<close>

definition slices_fit :: "ir \<Rightarrow> bool" where
  "slices_fit st \<longleftrightarrow> (\<forall>p ts. get_tys st p = Some ts \<longrightarrow> length ts < 2 ^ 32)"

lemma alloc_tys_known: "distinct st \<Longrightarrow> get_tys st p = Some ts \<Longrightarrow> alloc_tys st ts = (st, p)"
  by (simp add: alloc_tys_def ir_access arena_intern_known)

lemma alloc_ty_known: "distinct st \<Longrightarrow> get_ty st p = Some t \<Longrightarrow> alloc_ty st t = (st, p)"
  by (simp add: alloc_ty_def ir_access arena_intern_known)

lemma alloc_tys_facts:
  "alloc_tys st ts = (st', p) \<Longrightarrow> distinct st \<Longrightarrow> arena_ext st st' \<and> distinct st' \<and> get_tys st' p = Some ts"
  by (auto simp: alloc_tys_def ir_access dest: arena_intern_ext arena_intern_get intro: arena_intern_distinct)

lemma alloc_ty_facts:
  "alloc_ty st t = (st', p) \<Longrightarrow> distinct st \<Longrightarrow> arena_ext st st' \<and> distinct st' \<and> get_ty st' p = Some t"
  by (auto simp: alloc_ty_def ir_access dest: arena_intern_ext arena_intern_get intro: arena_intern_distinct)

lemma take_1_Cons: "take (Suc n - Suc 0) (drop (Suc 0) (x # xs)) = take n xs"
  by simp

lemma decompose_arity:
  "decompose_ty st t = Some d \<Longrightarrow> slices_fit st \<Longrightarrow> length (de_children d) = skeleton_arity (de_skeleton d)"
  by (cases "(st, t)" rule: decompose_ty.cases) (auto simp: opt_simps leaf_def slices_fit_def)

lemma recompose_decompose_ty:
  assumes "distinct st" and "slices_fit st" and "decompose_ty st t = Some d"
  shows "recompose_ty st (de_skeleton d) (de_children d) = Some (st, t)"
  using assms
  by (cases "(st, t)" rule: decompose_ty.cases)
    (auto simp: opt_simps leaf_def slices_fit_def slice_opt_def nth_append alloc_tys_known Let_def)

text \<open>C25: Taking a type apart and putting it together again gives the same pointer and allocates
  nothing: the skeleton and the children determine the type, for every form of type.\<close>

theorem recompose_decompose:
  assumes "distinct st" and "slices_fit st" and "decompose st p = Some d"
  shows "recompose st (de_skeleton d) (de_children d) = Some (st, p)"
  using assms
  by (auto simp: decompose_def recompose_def opt_simps recompose_decompose_ty alloc_ty_known)

theorem recompose_decompose_witness:
  "recompose [ETy TyBool, ETyPtrs [0], ETy (TyTuple 1)] (SkTuple 1) [0] =
     Some ([ETy TyBool, ETyPtrs [0], ETy (TyTuple 1)], 2)"
proof -
  let ?st = "[ETy TyBool, ETyPtrs [0], ETy (TyTuple 1)]"
  have "slices_fit ?st"
    by (auto simp: slices_fit_def ir_access opt_simps nth_Cons split: nat.splits)
  moreover have "decompose ?st 2 = Some \<lparr>de_skeleton = SkTuple 1, de_children = [0]\<rparr>"
    by (simp add: decompose_def get_ty_def get_tys_def nth_opt_def)
  ultimately show ?thesis using recompose_decompose [of ?st 2] by simp
qed

section \<open>Well-formed arenas\<close>

definition ir_wf :: "ir \<Rightarrow> bool" where
  "ir_wf st \<longleftrightarrow> distinct st \<and> slices_fit st \<and>
     (\<forall>p t. get_ty st p = Some t \<longrightarrow>
        (\<exists>d. decompose_ty st t = Some d \<and> (\<forall>c \<in> set (de_children d). c < p \<and> get_ty st c \<noteq> None)))"

definition ty_ok :: "ir \<Rightarrow> ty \<Rightarrow> bool" where
  "ty_ok st t \<longleftrightarrow> (\<exists>d. decompose_ty st t = Some d \<and> (\<forall>c \<in> set (de_children d). get_ty st c \<noteq> None))"

lemma ir_wf_distinct: "ir_wf st \<Longrightarrow> distinct st"
  by (simp add: ir_wf_def)

lemma ir_wf_fit: "ir_wf st \<Longrightarrow> slices_fit st"
  by (simp add: ir_wf_def)

lemma ir_wf_decompose:
  "ir_wf st \<Longrightarrow> get_ty st p = Some t \<Longrightarrow>
     \<exists>d. decompose_ty st t = Some d \<and> (\<forall>c \<in> set (de_children d). c < p \<and> get_ty st c \<noteq> None)"
  unfolding ir_wf_def by blast

lemma decompose_ty_ext:
  "arena_ext st st' \<Longrightarrow> decompose_ty st t = Some d \<Longrightarrow> decompose_ty st' t = Some d"
  by (cases "(st, t)" rule: decompose_ty.cases) (auto simp: opt_simps dest: get_tys_ext)

lemma decompose_ext: "arena_ext st st' \<Longrightarrow> decompose st p = Some d \<Longrightarrow> decompose st' p = Some d"
  by (auto simp: decompose_def opt_simps dest: get_ty_ext decompose_ty_ext)

lemma decompose_wf:
  assumes "ir_wf st" and "get_ty st p \<noteq> None"
  obtains t d where "get_ty st p = Some t" and "decompose_ty st t = Some d" and "decompose st p = Some d"
    and "\<forall>c \<in> set (de_children d). c < p \<and> get_ty st c \<noteq> None"
    and "length (de_children d) = skeleton_arity (de_skeleton d)"
proof -
  from assms(2) obtain t where t: "get_ty st p = Some t" by auto
  then obtain d where d: "decompose_ty st t = Some d"
    "\<forall>c \<in> set (de_children d). c < p \<and> get_ty st c \<noteq> None"
    using ir_wf_decompose [OF assms(1)] by blast
  moreover have "decompose st p = Some d" using t d by (simp add: decompose_def)
  moreover have "length (de_children d) = skeleton_arity (de_skeleton d)"
    using d(1) assms(1) by (intro decompose_arity ir_wf_fit)
  ultimately show ?thesis using t that by blast
qed

lemma get_ty_less: "get_ty st p = Some t \<Longrightarrow> p < length st"
  by (simp add: ir_access opt_simps)

text \<open>Extending an arena by one entry.\<close>

lemma ir_wf_snoc:
  assumes wf: "ir_wf st" and new: "e \<notin> set st"
    and tys: "\<And>ts. e = ETyPtrs ts \<Longrightarrow> length ts < 2 ^ 32"
    and ty: "\<And>t. e = ETy t \<Longrightarrow> ty_ok st t"
  shows "ir_wf (st @ [e])"
proof -
  let ?st = "st @ [e]"
  have ext: "arena_ext st ?st" by (auto simp: arena_ext_def)
  have old: "get_ty ?st c \<noteq> None" if "get_ty st c \<noteq> None" for c
    using that get_ty_ext [OF ext] by auto
  have get: "get_ty ?st p = Some t \<longleftrightarrow> get_ty st p = Some t \<or> (p = length st \<and> e = ETy t)" for p t
    by (auto simp: ir_access opt_simps nth_append)
  have "slices_fit ?st"
    using ir_wf_fit [OF wf] tys
    by (auto simp: slices_fit_def ir_access opt_simps nth_append not_less less_Suc_eq)
  moreover have "\<exists>d. decompose_ty ?st t = Some d \<and> (\<forall>c \<in> set (de_children d). c < p \<and> get_ty ?st c \<noteq> None)"
    if p: "get_ty ?st p = Some t" for p t
  proof (cases "get_ty st p = Some t")
    case True
    then obtain d where "decompose_ty st t = Some d" "\<forall>c \<in> set (de_children d). c < p \<and> get_ty st c \<noteq> None"
      using ir_wf_decompose [OF wf] by blast
    then show ?thesis using decompose_ty_ext [OF ext] old by blast
  next
    case False
    then have e: "p = length st" "ty_ok st t" using p get ty by auto
    then obtain d where "decompose_ty st t = Some d" "\<forall>c \<in> set (de_children d). get_ty st c \<noteq> None"
      by (auto simp: ty_ok_def)
    then show ?thesis using decompose_ty_ext [OF ext] old get_ty_less e(1) by blast
  qed
  ultimately show ?thesis using wf new by (simp add: ir_wf_def)
qed

lemma alloc_cases:
  assumes "arena_intern st e = (st', p)"
  obtains "st' = st" | "st' = st @ [e]" and "e \<notin> set st"
  using assms by (auto simp: arena_intern_def split: option.splits)

lemma alloc_tys_wf:
  assumes "ir_wf st" and "alloc_tys st ts = (st', p)" and "length ts < 2 ^ 32"
  shows "ir_wf st'" and "arena_ext st st'" and "get_tys st' p = Some ts"
    and "get_ty st' q = get_ty st q"
proof -
  note f = alloc_tys_facts [OF assms(2) ir_wf_distinct [OF assms(1)]]
  show "arena_ext st st'" and "get_tys st' p = Some ts" using f by simp_all
  show "ir_wf st'"
    by (rule alloc_cases [OF assms(2) [unfolded alloc_tys_def]])
      (use assms ir_wf_snoc [OF assms(1), of "ETyPtrs ts"] in auto)
  show "get_ty st' q = get_ty st q"
    by (rule alloc_cases [OF assms(2) [unfolded alloc_tys_def]])
      (auto simp: get_ty_def nth_opt_def nth_append split: ir_entry.splits)
qed

lemma alloc_ty_wf:
  assumes "ir_wf st" and "alloc_ty st t = (st', p)" and "ty_ok st t"
  shows "ir_wf st'" and "arena_ext st st'" and "get_ty st' p = Some t"
proof -
  note f = alloc_ty_facts [OF assms(2) ir_wf_distinct [OF assms(1)]]
  show "arena_ext st st'" and "get_ty st' p = Some t" using f by simp_all
  show "ir_wf st'"
    by (rule alloc_cases [OF assms(2) [unfolded alloc_ty_def]])
      (use assms ir_wf_snoc [OF assms(1), of "ETy t"] in auto)
qed

section \<open>Recomposition\<close>

lemma alloc_tys_ex:
  assumes "ir_wf st" and "length ts < 2 ^ 32"
  obtains st' p where "alloc_tys st ts = (st', p)" and "ir_wf st'" and "arena_ext st st'"
    and "get_tys st' p = Some ts"
  using alloc_tys_wf [OF assms(1) _ assms(2)] by (cases "alloc_tys st ts") blast

lemma recompose_ty_spec:
  assumes wf: "ir_wf st" and n: "length cs = skeleton_arity sk" and lim: "skeleton_fits sk"
  shows "\<exists>st' t. recompose_ty st sk cs = Some (st', t) \<and> ir_wf st' \<and> arena_ext st st' \<and>
    decompose_ty st' t = Some \<lparr>de_skeleton = sk, de_children = cs\<rparr>"
proof -
  have inner: "\<exists>c. cs = [c]" if "length cs = 1" using that by (cases cs) auto
  have one: "\<exists>s1 p1. alloc_tys st cs = (s1, p1) \<and> ir_wf s1 \<and> arena_ext st s1 \<and> get_tys s1 p1 = Some cs"
    if "length cs < 2 ^ 32"
    by (rule alloc_tys_ex [OF wf that]) blast
  show ?thesis
  proof (cases sk)
    case assoc: (SkAssociatedAlias d r ta ia)
    obtain c cs' where cs: "cs = c # cs'" "length cs' = ta + ia" using n assoc by (cases cs) auto
    obtain s2 p2 where two: "alloc_tys st (take ta cs') = (s2, p2)" "ir_wf s2" "arena_ext st s2"
      "get_tys s2 p2 = Some (take ta cs')"
      by (rule alloc_tys_ex [OF wf, of "take ta cs'"]) (use lim assoc cs in auto)
    obtain s3 p3 where three: "alloc_tys s2 (drop ta cs') = (s3, p3)" "ir_wf s3" "arena_ext s2 s3"
      "get_tys s3 p3 = Some (drop ta cs')"
      by (rule alloc_tys_ex [OF two(2), of "drop ta cs'"]) (use lim assoc cs in auto)
    have "get_tys s3 p2 = Some (take ta cs')" using two(4) three(3) by (rule get_tys_ext [rotated])
    then show ?thesis
      using two three cs lim assoc arena_ext_trans [OF two(3) three(3)]
      by (simp add: slice_opt_def Let_def)
  next
    case fn: (SkFnPtr k)
    then obtain ps r where cs: "cs = ps @ [r]" "length ps = k" using n by (cases cs rule: rev_cases) auto
    obtain s2 p2 where two: "alloc_tys st ps = (s2, p2)" "ir_wf s2" "arena_ext st s2" "get_tys s2 p2 = Some ps"
      by (rule alloc_tys_ex [OF wf, of ps]) (use lim fn cs in auto)
    then show ?thesis using cs lim fn by (simp add: slice_opt_def Let_def nth_append)
  qed (use one n lim wf inner in \<open>auto simp: leaf_def\<close>)
qed

lemma recompose_spec:
  assumes "ir_wf st" and "length cs = skeleton_arity sk" and "skeleton_fits sk"
    and "\<forall>c \<in> set cs. get_ty st c \<noteq> None"
  shows "\<exists>st' p. recompose st sk cs = Some (st', p) \<and> ir_wf st' \<and> arena_ext st st' \<and>
    decompose st' p = Some \<lparr>de_skeleton = sk, de_children = cs\<rparr>"
proof -
  obtain s1 t where r: "recompose_ty st sk cs = Some (s1, t)" and w: "ir_wf s1" "arena_ext st s1"
    and d: "decompose_ty s1 t = Some \<lparr>de_skeleton = sk, de_children = cs\<rparr>"
    using recompose_ty_spec [OF assms(1-3)] by blast
  obtain s2 p where a: "alloc_ty s1 t = (s2, p)" by (cases "alloc_ty s1 t")
  have ok: "ty_ok s1 t" unfolding ty_ok_def using d assms(4) get_ty_ext [OF w(2)] by fastforce
  note f = alloc_ty_wf [OF w(1) a ok]
  have "decompose s2 p = Some \<lparr>de_skeleton = sk, de_children = cs\<rparr>"
    using f(3) decompose_ty_ext [OF f(2) d] by (simp add: decompose_def)
  then show ?thesis
    using r a f arena_ext_trans [OF w(2) f(2)] by (simp add: recompose_def)
qed

text \<open>C26: Every skeleton with the right number of children is the skeleton of a type: putting it
  together returns, taking the result apart gives the skeleton and the children back, and the
  arena stays well-formed and only grows.\<close>

theorem decompose_recompose:
  assumes "ir_wf st" and "length cs = skeleton_arity sk" and "skeleton_fits sk"
    and "\<forall>c \<in> set cs. get_ty st c \<noteq> None"
  shows "\<exists>st' p. recompose st sk cs = Some (st', p) \<and> ir_wf st' \<and> arena_ext st st' \<and>
    decompose st' p = Some \<lparr>de_skeleton = sk, de_children = cs\<rparr>"
  by (rule recompose_spec [OF assms])

theorem decompose_recompose_witness:
  "\<exists>st p. recompose [ETy TyBool] (SkTuple 1) [0] = Some (st, p) \<and>
     decompose st p = Some \<lparr>de_skeleton = SkTuple 1, de_children = [0]\<rparr>"
proof -
  have "ir_wf [ETy TyBool]"
    by (auto simp: ir_wf_def slices_fit_def ir_access opt_simps leaf_def)
  then show ?thesis
    using decompose_recompose [of "[ETy TyBool]" "[0]" "SkTuple 1"] by (auto simp: get_ty_def)
qed

end
