(* ===== verification/Versions.thy ===== *)
theory Versions
  imports Ir
begin

text \<open>
  \<open>check/infer/version.rs\<close>: the lattice of inference domains, and the append-only tree of versions
  with its table of inference variables.
\<close>

section \<open>Inference domains\<close>

fun domain_intersect :: "infer_domain \<Rightarrow> infer_domain \<Rightarrow> infer_domain option" where
  "domain_intersect DomAny domain = Some domain"
| "domain_intersect domain DomAny = Some domain"
| "domain_intersect DomInteger DomInteger = Some DomInteger"
| "domain_intersect DomFloat DomFloat = Some DomFloat"
| "domain_intersect DomInteger DomFloat = None"
| "domain_intersect DomFloat DomInteger = None"

fun domain_admits :: "infer_domain \<Rightarrow> ty \<Rightarrow> bool" where
  "domain_admits DomAny t = True"
| "domain_admits DomInteger t = (case t of TyInt _ \<Rightarrow> True | TyUint _ \<Rightarrow> True | TyError _ \<Rightarrow> True | _ \<Rightarrow> False)"
| "domain_admits DomFloat t = (case t of TyFloat _ \<Rightarrow> True | TyError _ \<Rightarrow> True | _ \<Rightarrow> False)"

section \<open>The version tree\<close>

type_synonym version = nat
type_synonym universe = nat

definition ROOT :: version where
  "ROOT = 0"

record var_info =
  vi_owner :: version
  vi_creation_universe :: universe
  vi_initial_domain :: infer_domain

record version_node =
  vn_parent :: "version option"
  vn_children :: "version list"
  vn_owned_variables :: "infer_var_index list"
  vn_removed :: bool

definition root_node :: version_node where
  "root_node = \<lparr>vn_parent = None, vn_children = [], vn_owned_variables = [], vn_removed = False\<rparr>"

definition child_node :: "version \<Rightarrow> version_node" where
  "child_node parent =
     \<lparr>vn_parent = Some parent, vn_children = [], vn_owned_variables = [], vn_removed = False\<rparr>"

record version_tree =
  vt_nodes :: "version_node list"
  vt_variables :: "var_info list"

definition tree_new :: version_tree where
  "tree_new = \<lparr>vt_nodes = [root_node], vt_variables = []\<rparr>"

definition is_live :: "version_tree \<Rightarrow> version \<Rightarrow> bool" where
  "is_live t v = (case nth_opt (vt_nodes t) v of Some n \<Rightarrow> \<not> vn_removed n | None \<Rightarrow> False)"

definition assert_live :: "version_tree \<Rightarrow> version \<Rightarrow> unit option" where
  "assert_live t v = check (is_live t v)"

definition is_leaf :: "version_tree \<Rightarrow> version \<Rightarrow> bool option" where
  "is_leaf t v = do {
     assert_live t v;
     n \<leftarrow> nth_opt (vt_nodes t) v;
     Some (vn_children n = []) }"

definition tree_parent :: "version_tree \<Rightarrow> version \<Rightarrow> version option option" where
  "tree_parent t v = do {
     assert_live t v;
     n \<leftarrow> nth_opt (vt_nodes t) v;
     Some (vn_parent n) }"

definition tree_children :: "version_tree \<Rightarrow> version \<Rightarrow> version list option" where
  "tree_children t v = do {
     assert_live t v;
     n \<leftarrow> nth_opt (vt_nodes t) v;
     Some (vn_children n) }"

text \<open>The loop of \<open>is_ancestor\<close> and the iterator \<open>AncestorIter\<close>; they follow parents with no bound.\<close>

partial_function (option) ancestor_loop :: "version_node list \<Rightarrow> version \<Rightarrow> version \<Rightarrow> bool option" where
  "ancestor_loop ns ancestor v =
     (if ancestor = v then Some True
      else do {
        n \<leftarrow> nth_opt ns v;
        case vn_parent n of
          None \<Rightarrow> Some False
        | Some parent \<Rightarrow> ancestor_loop ns ancestor parent })"

definition is_ancestor :: "version_tree \<Rightarrow> version \<Rightarrow> version \<Rightarrow> bool option" where
  "is_ancestor t ancestor v = do {
     assert_live t ancestor;
     assert_live t v;
     ancestor_loop (vt_nodes t) ancestor v }"

partial_function (option) ancestor_iter :: "version_node list \<Rightarrow> version \<Rightarrow> version list option" where
  "ancestor_iter ns v = do {
     n \<leftarrow> nth_opt ns v;
     case vn_parent n of
       None \<Rightarrow> Some [v]
     | Some parent \<Rightarrow> do { vs \<leftarrow> ancestor_iter ns parent; Some (v # vs) } }"

definition ancestors :: "version_tree \<Rightarrow> version \<Rightarrow> version list option" where
  "ancestors t v = do { assert_live t v; ancestor_iter (vt_nodes t) v }"

definition assert_mutable :: "version_tree \<Rightarrow> version \<Rightarrow> unit option" where
  "assert_mutable t v = do {
     assert_live t v;
     n \<leftarrow> nth_opt (vt_nodes t) v;
     check (vn_children n = []) }"

definition tree_branch_from :: "version_tree \<Rightarrow> version \<Rightarrow> (version_tree \<times> version) option" where
  "tree_branch_from t parent = do {
     assert_live t parent;
     let child = u32_of (length (vt_nodes t));
     let ns = vt_nodes t @ [child_node parent];
     n \<leftarrow> nth_opt ns parent;
     Some (t\<lparr>vt_nodes := ns[parent := n\<lparr>vn_children := vn_children n @ [child]\<rparr>]\<rparr>, child) }"

definition tree_alloc_var_in_domain ::
  "version_tree \<Rightarrow> version \<Rightarrow> universe \<Rightarrow> infer_domain \<Rightarrow> (version_tree \<times> infer_var_index) option" where
  "tree_alloc_var_in_domain t v creation_universe initial_domain = do {
     assert_mutable t v;
     let index = u32_of (length (vt_variables t));
     n \<leftarrow> nth_opt (vt_nodes t) v;
     Some (t\<lparr>vt_variables := vt_variables t @
               [\<lparr>vi_owner = v, vi_creation_universe = creation_universe, vi_initial_domain = initial_domain\<rparr>],
             vt_nodes := (vt_nodes t)[v := n\<lparr>vn_owned_variables := vn_owned_variables n @ [index]\<rparr>]\<rparr>, index) }"

definition tree_alloc_var :: "version_tree \<Rightarrow> version \<Rightarrow> universe \<Rightarrow> (version_tree \<times> infer_var_index) option" where
  "tree_alloc_var t v creation_universe = tree_alloc_var_in_domain t v creation_universe DomAny"

definition get_variable :: "version_tree \<Rightarrow> version \<Rightarrow> infer_var_index \<Rightarrow> var_info option" where
  "get_variable t v index = do {
     assert_live t v;
     info \<leftarrow> nth_opt (vt_variables t) index;
     a \<leftarrow> is_ancestor t (vi_owner info) v;
     check a;
     Some info }"

definition variable_visible :: "version_tree \<Rightarrow> version \<Rightarrow> nat \<times> var_info \<Rightarrow> bool option" where
  "variable_visible t v iv =
     (if is_live t (vi_owner (snd iv)) then is_ancestor t (vi_owner (snd iv)) v else Some False)"

definition visible_variables :: "version_tree \<Rightarrow> version \<Rightarrow> infer_var_index list option" where
  "visible_variables t v = do {
     assert_live t v;
     (bs, _) \<leftarrow> map_state (\<lambda>iv s. do { b \<leftarrow> variable_visible t v iv; Some (b, s) })
       (enumerate 0 (vt_variables t)) ();
     Some [fst iv. (iv, b) \<leftarrow> zip (enumerate 0 (vt_variables t)) bs, b] }"

definition reown_variables :: "version_tree \<Rightarrow> version \<Rightarrow> version \<Rightarrow> version_tree option" where
  "reown_variables t child parent = do {
     assert_live t child;
     assert_live t parent;
     p \<leftarrow> tree_parent t child;
     check (p = Some parent);
     c \<leftarrow> nth_opt (vt_nodes t) child;
     let variables = vn_owned_variables c;
     let ns = (vt_nodes t)[child := c\<lparr>vn_owned_variables := []\<rparr>];
     vs \<leftarrow> fold_state (\<lambda>index vs. do {
         info \<leftarrow> nth_opt vs index;
         Some (vs[index := info\<lparr>vi_owner := parent\<rparr>]) }) variables (vt_variables t);
     n \<leftarrow> nth_opt ns parent;
     Some (t\<lparr>vt_nodes := ns[parent := n\<lparr>vn_owned_variables := vn_owned_variables n @ variables\<rparr>],
             vt_variables := vs\<rparr>) }"

definition kill :: "version_node \<Rightarrow> version_node" where
  "kill n = n\<lparr>vn_children := [], vn_removed := True\<rparr>"

partial_function (option) remove_subtree ::
  "version \<Rightarrow> version_node list \<times> version list \<Rightarrow> (version_node list \<times> version list) option" where
  "remove_subtree v s = do {
     n \<leftarrow> nth_opt (fst s) v;
     (ns, removed) \<leftarrow> fold_state remove_subtree (vn_children n) s;
     n \<leftarrow> nth_opt ns v;
     Some (ns[v := kill n], removed @ [v]) }"

definition tree_remove :: "version_tree \<Rightarrow> version \<Rightarrow> (version_tree \<times> version list) option" where
  "tree_remove t v = do {
     check (v \<noteq> ROOT);
     assert_live t v;
     p \<leftarrow> tree_parent t v;
     parent \<leftarrow> p;
     (ns, removed) \<leftarrow> remove_subtree v (vt_nodes t, []);
     n \<leftarrow> nth_opt ns parent;
     Some (t\<lparr>vt_nodes := ns[parent := n\<lparr>vn_children := filter (\<lambda>child. child \<noteq> v) (vn_children n)\<rparr>]\<rparr>, removed) }"

declare ancestor_loop.simps [simp del, code] and ancestor_iter.simps [simp del, code] and remove_subtree.simps [simp del, code]

end
