(* ===== verification/EGraph.thy ===== *)
theory EGraph
  imports Skeleton Versions "HOL-Library.Word"
begin

text \<open>
  \<open>check/infer/egraph.rs\<close>: the versioned union-find with bounds, domains and universes.

  Every version has a sparse state; a lookup walks the ancestors of a version and takes the first
  entry it meets.  A hash set is a set; where the code iterates over one, the order is the
  parameter \<open>ord\<close>.  A loop with no syntactic bound is a partial function, so that \<open>None\<close> is also a
  run that does not end.
\<close>

section \<open>State\<close>

datatype bound = BoundNone | AtLeast ptr | Exactly ptr

fun bound_ty :: "bound \<Rightarrow> ptr option" where
  "bound_ty BoundNone = None"
| "bound_ty (AtLeast t) = Some t"
| "bound_ty (Exactly t) = Some t"

definition bound_is_none :: "bound \<Rightarrow> bool" where
  "bound_is_none b \<longleftrightarrow> b = BoundNone"

fun bound_is_exactly :: "bound \<Rightarrow> bool" where
  "bound_is_exactly (Exactly _) = True"
| "bound_is_exactly _ = False"

record version_state =
  vs_parents :: "ptr \<rightharpoonup> ptr"
  vs_bounds :: "ptr \<rightharpoonup> bound"
  vs_domains :: "ptr \<rightharpoonup> infer_domain"
  vs_universe_ceilings :: "infer_var_index \<rightharpoonup> universe"
  vs_dependents :: "ptr \<rightharpoonup> ptr set"
  vs_worklist :: "ptr list"
  vs_wakes :: "infer_var_index set"
  vs_semantic_revision :: "64 word"

definition default_state :: version_state where
  "default_state = \<lparr>vs_parents = Map.empty, vs_bounds = Map.empty, vs_domains = Map.empty,
     vs_universe_ceilings = Map.empty, vs_dependents = Map.empty, vs_worklist = [], vs_wakes = {},
     vs_semantic_revision = 0\<rparr>"

record commit_effects =
  ce_wakes :: "infer_var_index list"
  ce_semantic_revision :: "64 word"

record egraph =
  eg_versions :: version_tree
  eg_states :: "version_state list"
  eg_placeholder_universes :: "generic_param \<rightharpoonup> universe"

definition egraph_new :: egraph where
  "egraph_new = \<lparr>eg_versions = tree_new, eg_states = [default_state],
     eg_placeholder_universes = Map.empty\<rparr>"

definition modify_state :: "egraph \<Rightarrow> version \<Rightarrow> (version_state \<Rightarrow> version_state) \<Rightarrow> egraph option" where
  "modify_state g v f = do {
     s \<leftarrow> nth_opt (eg_states g) v;
     Some (g\<lparr>eg_states := (eg_states g)[v := f s]\<rparr>) }"

text \<open>\<open>for ancestor in ancestors(version) { if let Some(x) = .. { return x } }\<close>\<close>

fun search_up :: "version_state list \<Rightarrow> (version_state \<Rightarrow> 'b option) \<Rightarrow> version list \<Rightarrow> 'b option option" where
  "search_up ss f [] = Some None"
| "search_up ss f (v # vs) = do {
     s \<leftarrow> nth_opt ss v;
     case f s of Some b \<Rightarrow> Some (Some b) | None \<Rightarrow> search_up ss f vs }"

definition search_from :: "egraph \<Rightarrow> version \<Rightarrow> (version_state \<Rightarrow> 'b option) \<Rightarrow> 'b option option" where
  "search_from g v f = do { vs \<leftarrow> ancestors (eg_versions g) v; search_up (eg_states g) f vs }"

definition semantic_revision :: "egraph \<Rightarrow> version \<Rightarrow> 64 word option" where
  "semantic_revision g v = do {
     assert_live (eg_versions g) v;
     s \<leftarrow> nth_opt (eg_states g) v;
     Some (vs_semantic_revision s) }"

definition mark_semantic_change :: "egraph \<Rightarrow> version \<Rightarrow> infer_var_index option \<Rightarrow> egraph option" where
  "mark_semantic_change g v wake = modify_state g v (\<lambda>s.
     s\<lparr>vs_semantic_revision := vs_semantic_revision s + 1,
       vs_wakes := (case wake of Some i \<Rightarrow> insert i (vs_wakes s) | None \<Rightarrow> vs_wakes s)\<rparr>)"

section \<open>Variables and universes\<close>

definition alloc_var_in_domain ::
  "egraph \<Rightarrow> version \<Rightarrow> universe \<Rightarrow> infer_domain \<Rightarrow> (egraph \<times> infer_var_index) option" where
  "alloc_var_in_domain g v u domain = do {
     (t, index) \<leftarrow> tree_alloc_var_in_domain (eg_versions g) v u domain;
     g \<leftarrow> modify_state (g\<lparr>eg_versions := t\<rparr>) v
       (\<lambda>s. s\<lparr>vs_universe_ceilings := (vs_universe_ceilings s)(index \<mapsto> u)\<rparr>);
     Some (g, index) }"

definition alloc_var :: "egraph \<Rightarrow> version \<Rightarrow> universe \<Rightarrow> (egraph \<times> infer_var_index) option" where
  "alloc_var g v u = alloc_var_in_domain g v u DomAny"

definition get_var_info :: "egraph \<Rightarrow> version \<Rightarrow> infer_var_index \<Rightarrow> var_info option" where
  "get_var_info g v index = get_variable (eg_versions g) v index"

definition current_universe :: "egraph \<Rightarrow> version \<Rightarrow> infer_var_index \<Rightarrow> universe option" where
  "current_universe g v index = do {
     info \<leftarrow> get_variable (eg_versions g) v index;
     r \<leftarrow> search_from g v (\<lambda>s. vs_universe_ceilings s index);
     Some (case r of Some u \<Rightarrow> u | None \<Rightarrow> vi_creation_universe info) }"

definition lower_universe :: "egraph \<Rightarrow> version \<Rightarrow> infer_var_index \<Rightarrow> universe \<Rightarrow> (egraph \<times> bool) option" where
  "lower_universe g v index ceiling = do {
     assert_mutable (eg_versions g) v;
     get_variable (eg_versions g) v index;
     old \<leftarrow> current_universe g v index;
     if ceiling \<ge> old then Some (g, False)
     else do {
       g \<leftarrow> modify_state g v (\<lambda>s. s\<lparr>vs_universe_ceilings := (vs_universe_ceilings s)(index \<mapsto> ceiling)\<rparr>);
       g \<leftarrow> mark_semantic_change g v (Some index);
       Some (g, True) } }"

definition register_placeholder :: "egraph \<Rightarrow> generic_param \<Rightarrow> universe \<Rightarrow> egraph option" where
  "register_placeholder g param u = do {
     (case eg_placeholder_universes g param of Some previous \<Rightarrow> check (previous = u) | None \<Rightarrow> Some ());
     Some (g\<lparr>eg_placeholder_universes := (eg_placeholder_universes g)(param \<mapsto> u)\<rparr>) }"

definition placeholder_universe :: "egraph \<Rightarrow> generic_param \<Rightarrow> universe" where
  "placeholder_universe g param =
     (case eg_placeholder_universes g param of Some u \<Rightarrow> u | None \<Rightarrow> 0)"

section \<open>Union-find\<close>

definition get_parent :: "egraph \<Rightarrow> version \<Rightarrow> ptr \<Rightarrow> ptr option" where
  "get_parent g v t = do {
     r \<leftarrow> search_from g v (\<lambda>s. vs_parents s t);
     Some (case r of Some p \<Rightarrow> p | None \<Rightarrow> t) }"

definition set_parent :: "egraph \<Rightarrow> version \<Rightarrow> ptr \<Rightarrow> ptr \<Rightarrow> egraph option" where
  "set_parent g v t parent = do {
     assert_mutable (eg_versions g) v;
     modify_state g v (\<lambda>s. s\<lparr>vs_parents := (vs_parents s)(t \<mapsto> parent)\<rparr>) }"

partial_function (option) find_loop :: "egraph \<Rightarrow> version \<Rightarrow> ptr \<Rightarrow> ptr option" where
  "find_loop g v t = do {
     parent \<leftarrow> get_parent g v t;
     if parent = t then Some t else find_loop g v parent }"

definition find :: "egraph \<Rightarrow> version \<Rightarrow> ptr \<Rightarrow> ptr option" where
  "find g v t = do { assert_live (eg_versions g) v; find_loop g v t }"

partial_function (option) compress_path :: "version \<Rightarrow> ptr \<Rightarrow> ptr \<Rightarrow> egraph \<Rightarrow> egraph option" where
  "compress_path v t root g = do {
     parent \<leftarrow> get_parent g v t;
     if parent = root \<or> parent = t then Some g
     else do { g \<leftarrow> set_parent g v t root; compress_path v parent root g } }"

definition find_mut :: "egraph \<Rightarrow> version \<Rightarrow> ptr \<Rightarrow> (egraph \<times> ptr) option" where
  "find_mut g v t = do {
     assert_mutable (eg_versions g) v;
     root \<leftarrow> find g v t;
     g \<leftarrow> compress_path v t root g;
     Some (g, root) }"

fun is_infer_var :: "ty \<Rightarrow> bool" where
  "is_infer_var (TyInferVar _) = True"
| "is_infer_var _ = False"

fun infer_var_of :: "ty \<Rightarrow> infer_var_index option" where
  "infer_var_of (TyInferVar i) = Some i"
| "infer_var_of _ = None"

definition union :: "egraph \<Rightarrow> ir \<Rightarrow> version \<Rightarrow> ptr \<Rightarrow> ptr \<Rightarrow> (egraph \<times> ptr) option" where
  "union g st v left right = do {
     assert_mutable (eg_versions g) v;
     left_root \<leftarrow> find g v left;
     right_root \<leftarrow> find g v right;
     if left_root = right_root then Some (g, left_root)
     else do {
       tl \<leftarrow> get_ty st left_root;
       get_ty st right_root;
       let (child, parent) = (if is_infer_var tl then (left_root, right_root) else (right_root, left_root));
       g \<leftarrow> set_parent g v child parent;
       g \<leftarrow> modify_state g v (\<lambda>s. s\<lparr>vs_worklist := vs_worklist s @ [child]\<rparr>);
       tc \<leftarrow> get_ty st child;
       g \<leftarrow> mark_semantic_change g v (infer_var_of tc);
       Some (g, parent) } }"

section \<open>Domains and bounds\<close>

definition effective_domain :: "egraph \<Rightarrow> ir \<Rightarrow> version \<Rightarrow> ptr \<Rightarrow> infer_domain option option" where
  "effective_domain g st v t = do {
     root \<leftarrow> find g v t;
     tr \<leftarrow> get_ty st root;
     case infer_var_of tr of
       None \<Rightarrow> Some None
     | Some index \<Rightarrow> do {
         info \<leftarrow> get_variable (eg_versions g) v index;
         r \<leftarrow> search_from g v (\<lambda>s. vs_domains s root);
         Some (Some (case r of Some d \<Rightarrow> d | None \<Rightarrow> vi_initial_domain info)) } }"

definition set_domain_in :: "egraph \<Rightarrow> ir \<Rightarrow> version \<Rightarrow> ptr \<Rightarrow> infer_domain \<Rightarrow> (egraph \<times> bool) option" where
  "set_domain_in g st v t domain = do {
     assert_mutable (eg_versions g) v;
     root \<leftarrow> find g v t;
     tr \<leftarrow> get_ty st root;
     index \<leftarrow> infer_var_of tr;
     d \<leftarrow> effective_domain g st v root;
     previous \<leftarrow> d;
     check (domain_intersect previous domain = Some domain);
     if previous = domain then Some (g, False)
     else do {
       g \<leftarrow> modify_state g v (\<lambda>s. s\<lparr>vs_domains := (vs_domains s)(root \<mapsto> domain)\<rparr>);
       g \<leftarrow> mark_semantic_change g v (Some index);
       Some (g, True) } }"

definition get_bound :: "egraph \<Rightarrow> version \<Rightarrow> ptr \<Rightarrow> bound option" where
  "get_bound g v t = do {
     assert_live (eg_versions g) v;
     r \<leftarrow> search_from g v (\<lambda>s. vs_bounds s t);
     Some (case r of Some b \<Rightarrow> b | None \<Rightarrow> BoundNone) }"

definition set_bound_in :: "egraph \<Rightarrow> ir \<Rightarrow> version \<Rightarrow> ptr \<Rightarrow> bound \<Rightarrow> (egraph \<times> bool) option" where
  "set_bound_in g st v t bound = do {
     assert_mutable (eg_versions g) v;
     tt \<leftarrow> get_ty st t;
     index \<leftarrow> infer_var_of tt;
     get_variable (eg_versions g) v index;
     old \<leftarrow> get_bound g v t;
     if old = bound then Some (g, False)
     else do {
       g \<leftarrow> modify_state g v (\<lambda>s. s\<lparr>vs_bounds := (vs_bounds s)(t \<mapsto> bound)\<rparr>);
       g \<leftarrow> mark_semantic_change g v (Some index);
       Some (g, True) } }"

section \<open>Version lifecycle\<close>

definition branch_from :: "egraph \<Rightarrow> version \<Rightarrow> (egraph \<times> version) option" where
  "branch_from g parent = do {
     revision \<leftarrow> semantic_revision g parent;
     (t, child) \<leftarrow> tree_branch_from (eg_versions g) parent;
     check (child = length (eg_states g));
     Some (g\<lparr>eg_versions := t,
             eg_states := eg_states g @ [default_state\<lparr>vs_semantic_revision := revision\<rparr>]\<rparr>, child) }"

definition merge_dependents :: "(ptr \<rightharpoonup> ptr set) \<Rightarrow> (ptr \<rightharpoonup> ptr set) \<Rightarrow> (ptr \<rightharpoonup> ptr set)" where
  "merge_dependents p c = (\<lambda>t. case c t of
     None \<Rightarrow> p t
   | Some d \<Rightarrow> Some ((case p t of None \<Rightarrow> {} | Some e \<Rightarrow> e) \<union> d))"

definition merge_state :: "version_state \<Rightarrow> version_state \<Rightarrow> version_state" where
  "merge_state p c = p\<lparr>
     vs_parents := vs_parents p ++ vs_parents c,
     vs_bounds := vs_bounds p ++ vs_bounds c,
     vs_domains := vs_domains p ++ vs_domains c,
     vs_universe_ceilings := vs_universe_ceilings p ++ vs_universe_ceilings c,
     vs_dependents := merge_dependents (vs_dependents p) (vs_dependents c),
     vs_worklist := vs_worklist p @ vs_worklist c,
     vs_wakes := vs_wakes p \<union> vs_wakes c,
     vs_semantic_revision := vs_semantic_revision c\<rparr>"

definition collapse_into :: "egraph \<Rightarrow> version \<Rightarrow> version \<Rightarrow> (egraph \<times> commit_effects) option" where
  "collapse_into g child parent = do {
     let t = eg_versions g;
     assert_live t child;
     assert_live t parent;
     p \<leftarrow> tree_parent t child;
     check (p = Some parent);
     lf \<leftarrow> is_leaf t child;
     check lf;
     cs \<leftarrow> tree_children t parent;
     check (cs = [child]);
     child_state \<leftarrow> nth_opt (eg_states g) child;
     let states = (eg_states g)[child := default_state];
     parent_state \<leftarrow> nth_opt states parent;
     let states = states[parent := merge_state parent_state child_state];
     t \<leftarrow> reown_variables t child parent;
     (t, removed) \<leftarrow> tree_remove t child;
     check (removed = [child]);
     Some (g\<lparr>eg_versions := t, eg_states := states\<rparr>,
           \<lparr>ce_wakes = sorted_list_of_set (vs_wakes child_state),
            ce_semantic_revision = vs_semantic_revision child_state\<rparr>) }"

definition discard :: "egraph \<Rightarrow> version \<Rightarrow> egraph option" where
  "discard g v = do {
     (t, removed) \<leftarrow> tree_remove (eg_versions g) v;
     fold_state (\<lambda>w g. modify_state g w (\<lambda>_. default_state)) removed (g\<lparr>eg_versions := t\<rparr>) }"

section \<open>Congruence closure\<close>

definition add_dependent :: "egraph \<Rightarrow> version \<Rightarrow> ptr \<Rightarrow> ptr \<Rightarrow> egraph option" where
  "add_dependent g v arg_ty parent_ty = do {
     assert_mutable (eg_versions g) v;
     modify_state g v (\<lambda>s. s\<lparr>vs_dependents := (vs_dependents s)(arg_ty \<mapsto>
       insert parent_ty (case vs_dependents s arg_ty of None \<Rightarrow> {} | Some d \<Rightarrow> d))\<rparr>) }"

definition collect_dependents :: "(ptr set \<Rightarrow> ptr list) \<Rightarrow> egraph \<Rightarrow> version \<Rightarrow> ptr \<Rightarrow> ptr list option" where
  "collect_dependents ord g v t = do {
     vs \<leftarrow> ancestors (eg_versions g) v;
     d \<leftarrow> fold_state (\<lambda>a d. do {
         s \<leftarrow> nth_opt (eg_states g) a;
         Some (case vs_dependents s t of None \<Rightarrow> d | Some found \<Rightarrow> d \<union> found) }) vs {};
     Some (ord d) }"

definition find_all :: "egraph \<Rightarrow> version \<Rightarrow> ptr list \<Rightarrow> ptr list option" where
  "find_all g v ts = do {
     (rs, _) \<leftarrow> map_state (\<lambda>t s. do { r \<leftarrow> find g v t; Some (r, s) }) ts ();
     Some rs }"

definition recanonicalize :: "egraph \<Rightarrow> version \<Rightarrow> ir \<Rightarrow> ptr \<Rightarrow> (ir \<times> ptr option) option" where
  "recanonicalize g v st t = do {
     d \<leftarrow> decompose st t;
     if de_children d = [] then Some (st, None)
     else do {
       new_children \<leftarrow> find_all g v (de_children d);
       if new_children = de_children d then Some (st, None)
       else do {
         (st, p) \<leftarrow> recompose st (de_skeleton d) new_children;
         Some (st, Some p) } } }"

type_synonym rebuild_state = "egraph \<times> ir \<times> ptr list"

definition rebuild_dependent :: "version \<Rightarrow> ptr \<Rightarrow> rebuild_state \<Rightarrow> rebuild_state option" where
  "rebuild_dependent v dependent = (\<lambda>(g, st, changed). do {
     old_canonical \<leftarrow> find g v dependent;
     (st, r) \<leftarrow> recanonicalize g v st dependent;
     case r of
       None \<Rightarrow> Some (g, st, changed)
     | Some new_ty \<Rightarrow> do {
         new_canonical \<leftarrow> find g v new_ty;
         if new_canonical \<noteq> old_canonical then do {
           g \<leftarrow> set_parent g v dependent new_canonical;
           g \<leftarrow> modify_state g v (\<lambda>s. s\<lparr>vs_worklist := vs_worklist s @ [dependent]\<rparr>);
           Some (g, st, changed @ [dependent]) }
         else Some (g, st, changed) } })"

definition rebuild_merged ::
  "(ptr set \<Rightarrow> ptr list) \<Rightarrow> version \<Rightarrow> ptr \<Rightarrow> rebuild_state \<Rightarrow> rebuild_state option" where
  "rebuild_merged ord v merged s = do {
     ds \<leftarrow> collect_dependents ord (fst s) v merged;
     fold_state (rebuild_dependent v) ds s }"

partial_function (option) rebuild_loop ::
  "(ptr set \<Rightarrow> ptr list) \<Rightarrow> version \<Rightarrow> rebuild_state \<Rightarrow> rebuild_state option" where
  "rebuild_loop ord v s = (case s of (g, st, changed) \<Rightarrow> do {
     vst \<leftarrow> nth_opt (eg_states g) v;
     g \<leftarrow> modify_state g v (\<lambda>s. s\<lparr>vs_worklist := []\<rparr>);
     if vs_worklist vst = [] then Some (g, st, changed)
     else do {
       s \<leftarrow> fold_state (rebuild_merged ord v) (vs_worklist vst) (g, st, changed);
       rebuild_loop ord v s } })"

definition rebuild :: "(ptr set \<Rightarrow> ptr list) \<Rightarrow> egraph \<Rightarrow> version \<Rightarrow> ir \<Rightarrow> rebuild_state option" where
  "rebuild ord g v st = do {
     assert_mutable (eg_versions g) v;
     rebuild_loop ord v (g, st, []) }"

declare find_loop.simps [simp del, code] and compress_path.simps [simp del, code] and rebuild_loop.simps [simp del, code]

end
