(* ===== verification/VersionsCorrect.thy ===== *)
theory VersionsCorrect
  imports Versions
begin

text \<open>
  Correctness of the version tree: the loops over ancestors return, every operation keeps the tree
  well-formed, and removal kills exactly a subtree.
\<close>

section \<open>Domains form a meet-semilattice\<close>

definition domain_le :: "infer_domain \<Rightarrow> infer_domain \<Rightarrow> bool" where
  "domain_le d e \<longleftrightarrow> e = DomAny \<or> d = e"

lemma domain_intersect_simps [simp]:
  "domain_intersect d DomAny = Some d" "domain_intersect d d = Some d"
  by (cases d; simp)+

lemma domain_intersect_comm: "domain_intersect d e = domain_intersect e d"
  by (cases d; cases e) simp_all

lemma domain_intersect_Some:
  "domain_intersect d e = Some f \<longleftrightarrow> (domain_le f d \<and> domain_le f e \<and> (\<forall>g. domain_le g d \<longrightarrow> domain_le g e \<longrightarrow> domain_le g f))"
  by (cases d; cases e; cases f) (auto simp: domain_le_def dest: spec [of _ DomInteger] spec [of _ DomFloat])

lemma domain_intersect_admits:
  "domain_intersect d e = Some f \<Longrightarrow> domain_admits f t \<longleftrightarrow> domain_admits d t \<and> domain_admits e t"
  by (cases d; cases e) auto

lemma domain_narrow: "domain_intersect d e = Some e \<longleftrightarrow> domain_le e d"
  by (cases d; cases e) (auto simp: domain_le_def)

lemma domain_le_refl [simp]: "domain_le d d" by (simp add: domain_le_def)
lemma domain_le_trans: "domain_le d e \<Longrightarrow> domain_le e f \<Longrightarrow> domain_le d f" by (auto simp: domain_le_def)

section \<open>Well-formed trees\<close>

text \<open>A parent is always older than its child.\<close>

definition parents_ok :: "version_node list \<Rightarrow> bool" where
  "parents_ok ns \<longleftrightarrow> ns \<noteq> [] \<and> vn_parent (ns ! 0) = None \<and>
     (\<forall>v<length ns. v \<noteq> 0 \<longrightarrow> (\<exists>p<v. vn_parent (ns ! v) = Some p))"

definition links_ok :: "version_node list \<Rightarrow> bool" where
  "links_ok ns \<longleftrightarrow> \<not> vn_removed (ns ! 0) \<and>
     (\<forall>v<length ns. distinct (vn_children (ns ! v)) \<and> (vn_removed (ns ! v) \<longrightarrow> vn_children (ns ! v) = []) \<and>
        (\<forall>c \<in> set (vn_children (ns ! v)). c < length ns \<and> vn_parent (ns ! c) = Some v \<and> \<not> vn_removed (ns ! c))) \<and>
     (\<forall>c<length ns. \<not> vn_removed (ns ! c) \<longrightarrow> c \<noteq> 0 \<longrightarrow>
        (\<exists>p. vn_parent (ns ! c) = Some p \<and> \<not> vn_removed (ns ! p) \<and> c \<in> set (vn_children (ns ! p))))"

definition owned_ok :: "version_tree \<Rightarrow> bool" where
  "owned_ok t \<longleftrightarrow> (\<forall>i<length (vt_variables t). vi_owner (vt_variables t ! i) < length (vt_nodes t)) \<and>
     (\<forall>v<length (vt_nodes t). set (vn_owned_variables (vt_nodes t ! v)) =
        {i. i < length (vt_variables t) \<and> vi_owner (vt_variables t ! i) = v})"

definition tree_ok :: "version_tree \<Rightarrow> bool" where
  "tree_ok t \<longleftrightarrow> parents_ok (vt_nodes t) \<and> links_ok (vt_nodes t) \<and> owned_ok t"

text \<open>The path from a version to the root.\<close>

function anc :: "version_node list \<Rightarrow> version \<Rightarrow> version list" where
  "anc ns v = v # (case vn_parent (ns ! v) of Some p \<Rightarrow> if p < v then anc ns p else [] | None \<Rightarrow> [])"
  by pat_completeness auto
termination by (relation "measure snd") auto

declare anc.simps [simp del]

lemma anc_self [simp]: "v \<in> set (anc ns v)"
  by (subst anc.simps) simp

lemma hd_anc: "\<exists>vs. anc ns v = v # vs"
  by (subst anc.simps) simp

lemma anc_le: "w \<in> set (anc ns v) \<Longrightarrow> w \<le> v"
proof (induction v rule: less_induct)
  case (less v)
  then show ?case by (subst (asm) anc.simps) (fastforce split: option.splits if_splits)
qed

lemma anc_cong:
  "(\<And>w. w \<le> v \<Longrightarrow> vn_parent (ns ! w) = vn_parent (ns' ! w)) \<Longrightarrow> anc ns v = anc ns' v"
proof (induction v rule: less_induct)
  case (less v)
  then have "vn_parent (ns ! v) = vn_parent (ns' ! v)"
    and "p < v \<Longrightarrow> anc ns p = anc ns' p" for p by auto
  then show ?case by (subst (1 2) anc.simps) (simp split: option.split)
qed

lemma parents_okD:
  assumes "parents_ok ns" and "v < length ns"
  shows "vn_parent (ns ! v) = None \<Longrightarrow> v = 0" and "vn_parent (ns ! v) = Some p \<Longrightarrow> p < v"
  using assms by (fastforce simp: parents_ok_def)+

lemma anc_root: "parents_ok ns \<Longrightarrow> anc ns 0 = [0]"
  by (subst anc.simps) (simp add: parents_ok_def)

lemma anc_step: "parents_ok ns \<Longrightarrow> v < length ns \<Longrightarrow> vn_parent (ns ! v) = Some p \<Longrightarrow> anc ns v = v # anc ns p"
  using parents_okD(2) by (subst anc.simps) simp

lemma ancestor_iter_eq: "parents_ok ns \<Longrightarrow> v < length ns \<Longrightarrow> ancestor_iter ns v = Some (anc ns v)"
proof (induction v rule: less_induct)
  case (less v)
  then show ?case
    using parents_okD [OF less.prems]
    by (subst ancestor_iter.simps, subst anc.simps) (auto split: option.split)
qed

lemma ancestor_loop_eq: "parents_ok ns \<Longrightarrow> v < length ns \<Longrightarrow> ancestor_loop ns a v = Some (a \<in> set (anc ns v))"
proof (induction v rule: less_induct)
  case (less v)
  then show ?case
    using parents_okD [OF less.prems]
    by (subst ancestor_loop.simps, subst anc.simps) (auto split: option.split)
qed

lemma anc_trans: "parents_ok ns \<Longrightarrow> v < length ns \<Longrightarrow> w \<in> set (anc ns v) \<Longrightarrow> set (anc ns w) \<subseteq> set (anc ns v)"
proof (induction v rule: less_induct)
  case (less v)
  show ?case
  proof (cases "vn_parent (ns ! v)")
    case None
    then have "w = v" using less.prems by (subst (asm) anc.simps) simp
    then show ?thesis by simp
  next
    case (Some p)
    note p = parents_okD(2) [OF less.prems(1,2) Some]
    from less.prems anc_step [OF less.prems(1,2) Some] have "w = v \<or> w \<in> set (anc ns p)" by simp
    then show ?thesis
      using less.IH [OF p less.prems(1)] anc_step [OF less.prems(1,2) Some] p less.prems(2) by fastforce
  qed
qed

lemma distinct_anc: "distinct (anc ns v)"
proof (induction v rule: less_induct)
  case (less v)
  have "v \<notin> set (anc ns p)" if "p < v" for p using anc_le that by fastforce
  then show ?case using less by (subst anc.simps) (auto split: option.split)
qed

lemma is_live_iff: "is_live t v \<longleftrightarrow> v < length (vt_nodes t) \<and> \<not> vn_removed (vt_nodes t ! v)"
  by (auto simp: is_live_def nth_opt_def)

lemma assert_live_Some [opt_simps]: "assert_live t v = Some u \<longleftrightarrow> is_live t v"
  by (simp add: assert_live_def opt_simps)

lemma tree_okD:
  assumes "tree_ok t"
  shows "parents_ok (vt_nodes t)" and "links_ok (vt_nodes t)" and "owned_ok t"
  using assms by (simp_all add: tree_ok_def)

lemma links_parent:
  "links_ok ns \<Longrightarrow> c < length ns \<Longrightarrow> \<not> vn_removed (ns ! c) \<Longrightarrow> vn_parent (ns ! c) = Some p \<Longrightarrow> c \<noteq> 0 \<Longrightarrow>
     \<not> vn_removed (ns ! p) \<and> c \<in> set (vn_children (ns ! p))"
  unfolding links_ok_def by (metis option.inject)

lemma links_child:
  "links_ok ns \<Longrightarrow> v < length ns \<Longrightarrow> c \<in> set (vn_children (ns ! v)) \<Longrightarrow>
     c < length ns \<and> vn_parent (ns ! c) = Some v \<and> \<not> vn_removed (ns ! c) \<and> \<not> vn_removed (ns ! v)"
  unfolding links_ok_def by (metis empty_iff list.set(1))

lemma links_distinct: "links_ok ns \<Longrightarrow> v < length ns \<Longrightarrow> distinct (vn_children (ns ! v))"
  unfolding links_ok_def by blast

lemma links_removed: "links_ok ns \<Longrightarrow> v < length ns \<Longrightarrow> vn_removed (ns ! v) \<Longrightarrow> vn_children (ns ! v) = []"
  unfolding links_ok_def by blast

lemma links_root: "links_ok ns \<Longrightarrow> \<not> vn_removed (ns ! 0)"
  unfolding links_ok_def by blast

lemma anc_live:
  assumes "tree_ok t"
  shows "is_live t v \<Longrightarrow> w \<in> set (anc (vt_nodes t) v) \<Longrightarrow> is_live t w"
proof (induction v rule: less_induct)
  case (less v)
  note ok = tree_okD [OF assms]
  have v: "v < length (vt_nodes t)" "\<not> vn_removed (vt_nodes t ! v)" using less.prems by (auto simp: is_live_iff)
  show ?case
  proof (cases "vn_parent (vt_nodes t ! v)")
    case None
    then show ?thesis using less.prems by (subst (asm) anc.simps) simp
  next
    case (Some p)
    note p = parents_okD(2) [OF ok(1) v(1) Some]
    have "is_live t p" using links_parent [OF ok(2) v Some] p v(1) by (simp add: is_live_iff)
    then show ?thesis
      using less.IH [OF p] less.prems anc_step [OF ok(1) v(1) Some] by auto
  qed
qed

lemma is_ancestor_eq:
  "tree_ok t \<Longrightarrow> is_ancestor t a v = (if is_live t a \<and> is_live t v then Some (a \<in> set (anc (vt_nodes t) v)) else None)"
  using ancestor_loop_eq [OF tree_okD(1)] by (auto simp: is_ancestor_def assert_live_def is_live_iff)

lemma ancestors_eq:
  "tree_ok t \<Longrightarrow> ancestors t v = (if is_live t v then Some (anc (vt_nodes t) v) else None)"
  using ancestor_iter_eq [OF tree_okD(1)] by (auto simp: ancestors_def assert_live_def is_live_iff)

lemma get_variable_eq:
  "tree_ok t \<Longrightarrow> get_variable t v i = Some info \<longleftrightarrow>
     is_live t v \<and> i < length (vt_variables t) \<and> info = vt_variables t ! i \<and>
     vi_owner info \<in> set (anc (vt_nodes t) v)"
proof -
  assume ok: "tree_ok t"
  have "is_live t (vi_owner info)" if "is_live t v" "vi_owner info \<in> set (anc (vt_nodes t) v)" for info :: var_info
    using anc_live [OF ok that] .
  then show ?thesis
    unfolding get_variable_def is_ancestor_eq [OF ok] by (simp add: opt_simps cong: conj_cong) blast
qed

lemma assert_mutable_Some [opt_simps]:
  "assert_mutable t v = Some u \<longleftrightarrow> is_live t v \<and> vn_children (vt_nodes t ! v) = []"
  by (auto simp: assert_mutable_def opt_simps is_live_iff)

section \<open>Allocation of variables, branching\<close>

lemma tree_ok_new: "tree_ok tree_new"
  by (auto simp: tree_ok_def parents_ok_def links_ok_def owned_ok_def tree_new_def root_node_def)

text \<open>Two node tables with the same links.\<close>

definition same_links :: "version_node list \<Rightarrow> version_node list \<Rightarrow> bool" where
  "same_links ns ns' \<longleftrightarrow> length ns = length ns' \<and>
     (\<forall>v<length ns. vn_parent (ns ! v) = vn_parent (ns' ! v) \<and> vn_children (ns ! v) = vn_children (ns' ! v) \<and>
        vn_removed (ns ! v) = vn_removed (ns' ! v))"

lemma same_links_ok:
  assumes "same_links ns ns'"
  shows "parents_ok ns \<Longrightarrow> parents_ok ns'" and "parents_ok ns \<Longrightarrow> links_ok ns \<Longrightarrow> links_ok ns'"
proof -
  have s: "length ns' = length ns" "\<And>v. v < length ns \<Longrightarrow> vn_parent (ns' ! v) = vn_parent (ns ! v)"
    "\<And>v. v < length ns \<Longrightarrow> vn_children (ns' ! v) = vn_children (ns ! v)"
    "\<And>v. v < length ns \<Longrightarrow> vn_removed (ns' ! v) = vn_removed (ns ! v)"
    using assms by (simp_all add: same_links_def)
  show "parents_ok ns \<Longrightarrow> parents_ok ns'"
    using s(1,2) unfolding parents_ok_def by (metis length_0_conv length_greater_0_conv)
  assume p: "parents_ok ns" and l: "links_ok ns"
  then have 0: "0 < length ns" by (simp add: parents_ok_def)
  have "\<exists>q. vn_parent (ns' ! c) = Some q \<and> \<not> vn_removed (ns' ! q) \<and> c \<in> set (vn_children (ns' ! q))"
    if c: "c < length ns" "\<not> vn_removed (ns' ! c)" "c \<noteq> 0" for c
  proof -
    obtain q where q: "q < c" "vn_parent (ns ! c) = Some q" using p c by (auto simp: parents_ok_def)
    then show ?thesis using links_parent [OF l c(1) _ q(2) c(3)] c s by auto
  qed
  then show "links_ok ns'" using l 0 s unfolding links_ok_def by (metis)
qed

lemma same_links_anc: "same_links ns ns' \<Longrightarrow> v < length ns \<Longrightarrow> anc ns' v = anc ns v"
  by (rule anc_cong) (simp add: same_links_def)

lemma same_links_owned [simp]:
  "v < length ns \<Longrightarrow> same_links ns (ns[v := (ns ! v)\<lparr>vn_owned_variables := xs\<rparr>])"
  by (auto simp: same_links_def nth_list_update)

lemma alloc_var_facts:
  assumes ok: "tree_ok t" and r: "tree_alloc_var_in_domain t v u d = Some (t', i)"
    and fits: "length (vt_variables t) < 2 ^ 32"
  shows "tree_ok t'" and "same_links (vt_nodes t) (vt_nodes t')" and "i = length (vt_variables t)"
    and "vt_variables t' = vt_variables t @ [\<lparr>vi_owner = v, vi_creation_universe = u, vi_initial_domain = d\<rparr>]"
    and "is_live t v" and "vn_children (vt_nodes t ! v) = []"
proof -
  note ok' = tree_okD [OF ok]
  let ?info = "\<lparr>vi_owner = v, vi_creation_universe = u, vi_initial_domain = d\<rparr>"
  let ?n = "vt_nodes t ! v"
  from r show live: "is_live t v" and leaf: "vn_children ?n = []"
    by (auto simp: tree_alloc_var_in_domain_def opt_simps Let_def)
  then have v: "v < length (vt_nodes t)" by (simp add: is_live_iff)
  from r fits v show i: "i = length (vt_variables t)"
    and vars: "vt_variables t' = vt_variables t @ [?info]"
    by (auto simp: tree_alloc_var_in_domain_def opt_simps Let_def)
  have ns: "vt_nodes t' = (vt_nodes t)[v := ?n\<lparr>vn_owned_variables := vn_owned_variables ?n @ [i]\<rparr>]"
    using r v by (auto simp: tree_alloc_var_in_domain_def opt_simps Let_def)
  show sl: "same_links (vt_nodes t) (vt_nodes t')" using v by (simp add: ns)
  have "owned_ok t'"
    unfolding owned_ok_def vars ns
    using ok'(3) v i by (auto simp: owned_ok_def nth_append nth_list_update less_Suc_eq)
  then show "tree_ok t'" using same_links_ok [OF sl] ok' by (simp add: tree_ok_def)
qed

lemma links_ok_branch:
  assumes par: "parents_ok ns" and ok: "links_ok ns" and p: "p < length ns" "\<not> vn_removed (ns ! p)"
    and len: "length ns' = Suc (length ns)"
    and kids: "\<And>v. v \<le> length ns \<Longrightarrow> vn_children (ns' ! v) = (if v = length ns then []
        else if v = p then vn_children (ns ! p) @ [length ns] else vn_children (ns ! v))"
    and rem: "\<And>v. v \<le> length ns \<Longrightarrow> vn_removed (ns' ! v) \<longleftrightarrow> v \<noteq> length ns \<and> vn_removed (ns ! v)"
    and parv: "\<And>v. v \<le> length ns \<Longrightarrow> vn_parent (ns' ! v) = (if v = length ns then Some p else vn_parent (ns ! v))"
  shows "links_ok ns'"
  unfolding links_ok_def len
proof (intro conjI allI impI ballI)
  show "\<not> vn_removed (ns' ! 0)" using links_root [OF ok] rem [of 0] by simp
next
  fix v assume v: "v < Suc (length ns)"
  have old: "distinct (vn_children (ns ! v)) \<and> length ns \<notin> set (vn_children (ns ! v)) \<and>
      (vn_removed (ns ! v) \<longrightarrow> vn_children (ns ! v) = [])" if "v < length ns"
    using ok that links_child [OF ok that, of "length ns"] unfolding links_ok_def by blast
  have v': "v < length ns" if "v \<noteq> length ns" using v that by simp
  show "distinct (vn_children (ns' ! v))"
    using kids [of v] v old v' by (cases "v = length ns") auto
  show "vn_removed (ns' ! v) \<Longrightarrow> vn_children (ns' ! v) = []"
    using kids [of v] rem [of v] v p old v' by (cases "v = length ns") auto
  fix w assume w: "w \<in> set (vn_children (ns' ! v))"
  have "w = length ns \<and> v = p \<or> v < length ns \<and> w \<in> set (vn_children (ns ! v))"
    using w v kids [of v] p v' by (auto split: if_splits)
  then show "w < Suc (length ns)" and "vn_parent (ns' ! w) = Some v" and "\<not> vn_removed (ns' ! w)"
    using links_child [OF ok, of v w] rem [of w] parv [of w] by auto
next
  fix w assume w: "w < Suc (length ns)" "\<not> vn_removed (ns' ! w)" "w \<noteq> 0"
  show "\<exists>q. vn_parent (ns' ! w) = Some q \<and> \<not> vn_removed (ns' ! q) \<and> w \<in> set (vn_children (ns' ! q))"
  proof (cases "w = length ns")
    case True
    then show ?thesis using parv [of w] rem [of p] kids [of p] p by auto
  next
    case False
    then have wl: "w < length ns" "\<not> vn_removed (ns ! w)" using w rem [of w] by auto
    then obtain q where q: "vn_parent (ns ! w) = Some q" "q < w"
      using par w(3) by (auto simp: parents_ok_def)
    then show ?thesis
      using links_parent [OF ok wl q(1) w(3)] False wl parv [of w] rem [of q] kids [of q] by auto
  qed
qed

lemma branch_facts:
  assumes ok: "tree_ok t" and r: "tree_branch_from t p = Some (t', c)"
    and fits: "length (vt_nodes t) < 2 ^ 32"
  shows "tree_ok t'" and "c = length (vt_nodes t)" and "length (vt_nodes t') = Suc c" and "is_live t p"
    and "vt_variables t' = vt_variables t"
    and "\<And>v. v < c \<Longrightarrow> anc (vt_nodes t') v = anc (vt_nodes t) v"
    and "anc (vt_nodes t') c = c # anc (vt_nodes t) p"
    and "\<And>v. is_live t' v \<longleftrightarrow> is_live t v \<or> v = c"
    and "\<And>v. v \<le> c \<Longrightarrow> vn_children (vt_nodes t' ! v) =
       (if v = c then [] else if v = p then vn_children (vt_nodes t ! p) @ [c] else vn_children (vt_nodes t ! v))"
    and "vn_parent (vt_nodes t' ! c) = Some p"
proof -
  note ok' = tree_okD [OF ok]
  let ?ns = "vt_nodes t"
  from r fits show live: "is_live t p" and c: "c = length ?ns"
    by (auto simp: tree_branch_from_def opt_simps Let_def)
  then have p: "p < length ?ns" "\<not> vn_removed (?ns ! p)" by (simp_all add: is_live_iff)
  have ns: "vt_nodes t' = (?ns @ [child_node p])[p := (?ns ! p)\<lparr>vn_children := vn_children (?ns ! p) @ [c]\<rparr>]"
    and vars: "vt_variables t' = vt_variables t"
    using r fits p c by (auto simp: tree_branch_from_def opt_simps Let_def nth_append)
  show "vt_variables t' = vt_variables t" by (rule vars)
  show len: "length (vt_nodes t') = Suc c" by (simp add: ns c)
  have nth: "vt_nodes t' ! v = (if v = c then child_node p else if v = p then
      (?ns ! p)\<lparr>vn_children := vn_children (?ns ! p) @ [c]\<rparr> else ?ns ! v)" if "v \<le> c" for v
    using that p c by (auto simp: ns nth_append nth_list_update)
  show anc: "anc (vt_nodes t') v = anc ?ns v" if "v < c" for v
    by (rule anc_cong) (use that p nth in auto)
  show par: "vn_parent (vt_nodes t' ! c) = Some p" using nth [of c] by (simp add: child_node_def)
  have par': "parents_ok (vt_nodes t')"
    using ok'(1) nth len p c by (auto simp: parents_ok_def less_Suc_eq child_node_def)
  show "anc (vt_nodes t') c = c # anc ?ns p"
    using anc_step [OF par' _ par] anc [of p] len p c by simp
  show kids: "vn_children (vt_nodes t' ! v) =
       (if v = c then [] else if v = p then vn_children (?ns ! p) @ [c] else vn_children (?ns ! v))" if "v \<le> c" for v
    using nth [OF that] by (simp add: child_node_def)
  have rem: "vn_removed (vt_nodes t' ! v) \<longleftrightarrow> v \<noteq> c \<and> vn_removed (?ns ! v)" if "v \<le> c" for v
    using nth [OF that] p by (auto simp: child_node_def)
  show "is_live t' v \<longleftrightarrow> is_live t v \<or> v = c" for v
    using rem [of v] len c by (auto simp: is_live_iff less_Suc_eq)
  have parv: "vn_parent (vt_nodes t' ! v) = (if v = c then Some p else vn_parent (?ns ! v))" if "v \<le> c" for v
    using nth [OF that] by (auto simp: child_node_def)
  have "links_ok (vt_nodes t')"
    by (rule links_ok_branch [OF ok'(1,2) p len [unfolded c]
          kids [unfolded c] rem [unfolded c] parv [unfolded c]])
  moreover have "owned_ok t'"
    unfolding owned_ok_def vars len
  proof (intro conjI allI impI)
    show "vi_owner (vt_variables t ! i) < Suc c" if "i < length (vt_variables t)" for i
      using ok'(3) that c by (auto simp: owned_ok_def less_Suc_eq)
    fix v assume v: "v < Suc c"
    have "\<forall>i<length (vt_variables t). vi_owner (vt_variables t ! i) \<noteq> c" using ok'(3) c by (auto simp: owned_ok_def)
    moreover have "vn_owned_variables (vt_nodes t' ! v) = (if v = c then [] else vn_owned_variables (?ns ! v))"
      using nth [of v] v by (auto simp: child_node_def)
    ultimately show "set (vn_owned_variables (vt_nodes t' ! v)) =
        {i. i < length (vt_variables t) \<and> vi_owner (vt_variables t ! i) = v}"
      using ok'(3) v c by (auto simp: owned_ok_def)
  qed
  ultimately show "tree_ok t'" using par' by (simp add: tree_ok_def)
qed

section \<open>Re-owning variables\<close>

lemma reown_loop:
  assumes "\<forall>i \<in> set xs. i < length vs"
  shows "\<exists>vs'. fold_state (\<lambda>index vs. do { info \<leftarrow> nth_opt vs index; Some (vs[index := info\<lparr>vi_owner := p\<rparr>]) }) xs vs
      = Some vs' \<and> length vs' = length vs \<and>
    (\<forall>i<length vs. vs' ! i = (if i \<in> set xs then (vs ! i)\<lparr>vi_owner := p\<rparr> else vs ! i))"
  using assms
proof (induction xs arbitrary: vs)
  case Nil
  then show ?case by simp
next
  case (Cons x xs)
  let ?vs = "vs[x := (vs ! x)\<lparr>vi_owner := p\<rparr>]"
  have "\<forall>i \<in> set xs. i < length ?vs" using Cons.prems by simp
  from Cons.IH [OF this] show ?case using Cons.prems by (auto simp: nth_list_update)
qed

lemma reown_facts:
  assumes ok: "tree_ok t" and r: "reown_variables t c p = Some t'"
  shows "tree_ok t'" and "same_links (vt_nodes t) (vt_nodes t')"
    and "length (vt_variables t') = length (vt_variables t)"
    and "\<And>i. i < length (vt_variables t) \<Longrightarrow> vt_variables t' ! i =
      (if vi_owner (vt_variables t ! i) = c then (vt_variables t ! i)\<lparr>vi_owner := p\<rparr> else vt_variables t ! i)"
proof -
  note ok' = tree_okD [OF ok]
  let ?ns = "vt_nodes t" and ?vs = "vt_variables t"
  let ?xs = "vn_owned_variables (?ns ! c)"
  from r have live: "is_live t c" "is_live t p" and par: "vn_parent (?ns ! c) = Some p"
    by (auto simp: reown_variables_def tree_parent_def opt_simps Let_def)
  then have cp: "c < length ?ns" "p < length ?ns" by (auto simp: is_live_iff)
  then have "p < c" using parents_okD [OF ok'(1) cp(1)] par by simp
  have xs: "set ?xs = {i. i < length ?vs \<and> vi_owner (?vs ! i) = c}" using ok'(3) cp by (simp add: owned_ok_def)
  then have "\<forall>i \<in> set ?xs. i < length ?vs" by auto
  from reown_loop [OF this, of p] obtain vs' where vs': "length vs' = length ?vs"
    "\<forall>i<length ?vs. vs' ! i = (if i \<in> set ?xs then (?vs ! i)\<lparr>vi_owner := p\<rparr> else ?vs ! i)"
    and l: "fold_state (\<lambda>index vs. do { info \<leftarrow> nth_opt vs index; Some (vs[index := info\<lparr>vi_owner := p\<rparr>]) }) ?xs ?vs = Some vs'"
    by blast
  let ?ns1 = "?ns[c := (?ns ! c)\<lparr>vn_owned_variables := []\<rparr>]"
  let ?ns2 = "?ns1[p := (?ns1 ! p)\<lparr>vn_owned_variables := vn_owned_variables (?ns ! p) @ ?xs\<rparr>]"
  have t': "vt_nodes t' = ?ns2" "vt_variables t' = vs'"
    using r cp l \<open>p < c\<close> by (auto simp: reown_variables_def opt_simps Let_def)
  show "length (vt_variables t') = length ?vs" by (simp add: t' vs')
  show vars: "vt_variables t' ! i =
      (if vi_owner (?vs ! i) = c then (?vs ! i)\<lparr>vi_owner := p\<rparr> else ?vs ! i)" if "i < length ?vs" for i
    using that vs'(2) xs by (auto simp: t')
  show sl: "same_links ?ns (vt_nodes t')"
    using cp \<open>p < c\<close> by (auto simp: t' same_links_def nth_list_update)
  have "owned_ok t'"
    unfolding owned_ok_def
  proof (intro conjI allI impI)
    fix i assume "i < length (vt_variables t')"
    then show "vi_owner (vt_variables t' ! i) < length (vt_nodes t')"
      using ok'(3) vars [of i] cp by (auto simp: t' vs'(1) owned_ok_def)
  next
    fix v assume v: "v < length (vt_nodes t')"
    have "vn_owned_variables (vt_nodes t' ! v) = (if v = p then vn_owned_variables (?ns ! p) @ ?xs
        else if v = c then [] else vn_owned_variables (?ns ! v))"
      using v cp \<open>p < c\<close> by (auto simp: t' nth_list_update)
    moreover have "set (vn_owned_variables (?ns ! v)) = {i. i < length ?vs \<and> vi_owner (?vs ! i) = v}"
      using ok'(3) v by (simp add: owned_ok_def t')
    ultimately show "set (vn_owned_variables (vt_nodes t' ! v)) =
        {i. i < length (vt_variables t') \<and> vi_owner (vt_variables t' ! i) = v}"
      using vars xs \<open>p < c\<close> by (auto simp: t'(2) vs'(1) split: if_splits)
  qed
  then show "tree_ok t'" using same_links_ok [OF sl] ok' by (simp add: tree_ok_def)
qed

section \<open>Removal\<close>

definition subtree :: "version_node list \<Rightarrow> version \<Rightarrow> version set" where
  "subtree ns v = {w. w < length ns \<and> \<not> vn_removed (ns ! w) \<and> v \<in> set (anc ns w)}"

lemma anc_via_child:
  "parents_ok ns \<Longrightarrow> w < length ns \<Longrightarrow> v \<in> set (anc ns w) \<Longrightarrow> v \<noteq> w \<Longrightarrow>
     \<exists>c \<in> set (anc ns w). vn_parent (ns ! c) = Some v"
proof (induction w rule: less_induct)
  case (less w)
  show ?case
  proof (cases "vn_parent (ns ! w)")
    case None
    then have "anc ns w = [w]" by (subst anc.simps) simp
    then show ?thesis using less.prems by simp
  next
    case (Some p)
    note p = parents_okD(2) [OF less.prems(1,2) Some] and a = anc_step [OF less.prems(1,2) Some]
    show ?thesis
    proof (cases "v = p")
      case True
      then show ?thesis using Some by (intro bexI [of _ w]) simp_all
    next
      case False
      then have "\<exists>c \<in> set (anc ns p). vn_parent (ns ! c) = Some v"
        using less.IH [OF p less.prems(1)] p less.prems a by auto
      then show ?thesis by (auto simp: a)
    qed
  qed
qed

lemma anc_chain:
  "parents_ok ns \<Longrightarrow> w < length ns \<Longrightarrow> a \<in> set (anc ns w) \<Longrightarrow> b \<in> set (anc ns w) \<Longrightarrow>
     a \<in> set (anc ns b) \<or> b \<in> set (anc ns a)"
proof (induction w rule: less_induct)
  case (less w)
  show ?case
  proof (cases "vn_parent (ns ! w)")
    case None
    then have "anc ns w = [w]" by (subst anc.simps) simp
    then show ?thesis using less.prems by auto
  next
    case (Some p)
    note p = parents_okD(2) [OF less.prems(1,2) Some] and a = anc_step [OF less.prems(1,2) Some]
    then show ?thesis using less.IH [OF p less.prems(1)] less.prems by auto
  qed
qed

lemma subtree_step:
  assumes par: "parents_ok ns" and ok: "links_ok ns" and v: "v < length ns" "\<not> vn_removed (ns ! v)"
  shows "subtree ns v = insert v (\<Union>c \<in> set (vn_children (ns ! v)). subtree ns c)"
proof (intro equalityI subsetI)
  fix w assume "w \<in> subtree ns v"
  then have w: "w < length ns" "\<not> vn_removed (ns ! w)" "v \<in> set (anc ns w)" by (auto simp: subtree_def)
  show "w \<in> insert v (\<Union>c \<in> set (vn_children (ns ! v)). subtree ns c)"
  proof (cases "v = w")
    case False
    obtain c where c: "c \<in> set (anc ns w)" "vn_parent (ns ! c) = Some v"
      using anc_via_child [OF par w(1,3) False] by blast
    have cl: "c < length ns" using anc_le [OF c(1)] w(1) by simp
    have "\<not> vn_removed (ns ! c)"
      using c(1) w(1,2)
    proof (induction w rule: less_induct)
      case (less w)
      show ?case
      proof (cases "vn_parent (ns ! w)")
        case None
        then show ?thesis using less.prems by (subst (asm) anc.simps) simp
      next
        case (Some p)
        note p = parents_okD(2) [OF par less.prems(2) Some] and a = anc_step [OF par less.prems(2) Some]
        have "\<not> vn_removed (ns ! p)" using links_parent [OF ok less.prems(2,3) Some] p by simp
        then show ?thesis using less.IH [OF p] less.prems a p by auto
      qed
    qed
    moreover have "c \<noteq> 0" using c(2) par by (cases "c = 0") (auto simp: parents_ok_def)
    ultimately have "c \<in> set (vn_children (ns ! v))" using links_parent [OF ok cl _ c(2)] by simp
    then show ?thesis using w c(1) by (auto simp: subtree_def)
  qed simp
next
  fix w assume "w \<in> insert v (\<Union>c \<in> set (vn_children (ns ! v)). subtree ns c)"
  then consider "w = v" | c where "c \<in> set (vn_children (ns ! v))" "w \<in> subtree ns c" by auto
  then show "w \<in> subtree ns v"
  proof cases
    case 1
    then show ?thesis using v by (simp add: subtree_def)
  next
    case 2
    then have w: "w < length ns" "\<not> vn_removed (ns ! w)" "c \<in> set (anc ns w)" by (auto simp: subtree_def)
    note c = links_child [OF ok v(1) 2(1)]
    have "v \<in> set (anc ns c)" using anc_step [OF par _ , of c v] c by simp
    then show ?thesis using w anc_trans [OF par w(1,3)] by (auto simp: subtree_def)
  qed
qed

lemma subtree_siblings:
  assumes par: "parents_ok ns" and ok: "links_ok ns" and v: "v < length ns"
    and c: "c \<in> set (vn_children (ns ! v))" "d \<in> set (vn_children (ns ! v))" "c \<noteq> d"
  shows "subtree ns c \<inter> subtree ns d = {}"
proof -
  have False if "c \<in> set (anc ns d)" "c \<in> set (vn_children (ns ! v))" "d \<in> set (vn_children (ns ! v))" "c \<noteq> d" for c d
  proof -
    note cc = links_child [OF ok v that(2)] and dd = links_child [OF ok v that(3)]
    have "c \<in> set (anc ns v)" using anc_step [OF par, of d v] dd that(1,4) by simp
    then have "c \<le> v" by (rule anc_le)
    moreover have "v < c" using parents_okD(2) [OF par, of c v] cc by simp
    ultimately show False by simp
  qed
  then show ?thesis using anc_chain [OF par] c unfolding subtree_def by blast
qed

text \<open>The table with the nodes of a set killed.\<close>

definition mark :: "version set \<Rightarrow> version_node list \<Rightarrow> version_node list" where
  "mark S ns = map (\<lambda>i. if i \<in> S then kill (ns ! i) else ns ! i) [0..<length ns]"

lemma mark_simps [simp]:
  "length (mark S ns) = length ns" "i < length ns \<Longrightarrow> mark S ns ! i = (if i \<in> S then kill (ns ! i) else ns ! i)"
  "mark {} ns = ns"
  by (simp_all add: mark_def map_nth)

lemma mark_insert: "v < length ns \<Longrightarrow> (mark S ns)[v := kill (ns ! v)] = mark (insert v S) ns"
  by (intro nth_equalityI) (auto simp: nth_list_update)

lemma remove_children_mark:
  assumes "\<And>c S rem. c \<in> set cs \<Longrightarrow> S \<inter> subtree ns c = {} \<Longrightarrow>
      \<exists>rs. remove_subtree c (mark S ns, rem) = Some (mark (S \<union> subtree ns c) ns, rem @ rs) \<and> set rs = subtree ns c"
    and "distinct cs" and "\<And>c d. c \<in> set cs \<Longrightarrow> d \<in> set cs \<Longrightarrow> c \<noteq> d \<Longrightarrow> subtree ns c \<inter> subtree ns d = {}"
    and "S \<inter> (\<Union>c \<in> set cs. subtree ns c) = {}"
  shows "\<exists>rs. fold_state remove_subtree cs (mark S ns, rem) =
      Some (mark (S \<union> (\<Union>c \<in> set cs. subtree ns c)) ns, rem @ rs) \<and> set rs = (\<Union>c \<in> set cs. subtree ns c)"
  using assms
proof (induction cs arbitrary: S rem)
  case Nil
  then show ?case by simp
next
  case (Cons c cs)
  have "S \<inter> subtree ns c = {}" using Cons.prems(4) by auto
  then obtain rs1 where 1: "remove_subtree c (mark S ns, rem) = Some (mark (S \<union> subtree ns c) ns, rem @ rs1)"
    "set rs1 = subtree ns c" using Cons.prems(1) [of c S rem] by auto
  have "subtree ns c \<inter> subtree ns d = {}" if "d \<in> set cs" for d
    using Cons.prems(3) [of c d] Cons.prems(2) that by auto
  then have "(S \<union> subtree ns c) \<inter> (\<Union>c \<in> set cs. subtree ns c) = {}" using Cons.prems(4) by auto
  then obtain rs2 where "fold_state remove_subtree cs (mark (S \<union> subtree ns c) ns, rem @ rs1) =
      Some (mark (S \<union> subtree ns c \<union> (\<Union>c \<in> set cs. subtree ns c)) ns, (rem @ rs1) @ rs2)"
    "set rs2 = (\<Union>c \<in> set cs. subtree ns c)"
    using Cons.IH [of "S \<union> subtree ns c" "rem @ rs1"] Cons.prems(1,2,3) by auto
  with 1 show ?case by (intro exI [of _ "rs1 @ rs2"]) (simp add: Un_assoc)
qed

lemma remove_subtree_mark:
  assumes par: "parents_ok ns" and ok: "links_ok ns"
  shows "v < length ns \<Longrightarrow> \<not> vn_removed (ns ! v) \<Longrightarrow> S \<inter> subtree ns v = {} \<Longrightarrow>
    \<exists>rs. remove_subtree v (mark S ns, rem) = Some (mark (S \<union> subtree ns v) ns, rem @ rs) \<and> set rs = subtree ns v"
proof (induction "length ns - v" arbitrary: v S rem rule: less_induct)
  case less
  let ?cs = "vn_children (ns ! v)"
  let ?U = "\<Union>c \<in> set ?cs. subtree ns c"
  note step = subtree_step [OF par ok less.prems(1,2)]
  have "v \<in> subtree ns v" using less.prems(1,2) by (simp add: subtree_def)
  then have vS: "v \<notin> S" using less.prems(3) by auto
  have SU: "S \<inter> ?U = {}" using less.prems(3) step by auto
  have kids: "\<exists>rs. remove_subtree c (mark S ns, rem) = Some (mark (S \<union> subtree ns c) ns, rem @ rs) \<and>
      set rs = subtree ns c" if c: "c \<in> set ?cs" and S: "S \<inter> subtree ns c = {}" for c S rem
  proof -
    note cc = links_child [OF ok less.prems(1) c]
    have "v < c" using parents_okD(2) [OF par, of c v] cc by simp
    then have "length ns - c < length ns - v" using cc by (simp add: diff_less_mono2)
    then show ?thesis using less.hyps [of c S rem] cc S by simp
  qed
  have dist: "distinct ?cs" using ok less.prems(1) by (rule links_distinct)
  note sib = subtree_siblings [OF par ok less.prems(1)]
  obtain rs where f: "fold_state remove_subtree ?cs (mark S ns, rem) = Some (mark (S \<union> ?U) ns, rem @ rs)"
    "set rs = ?U"
    using remove_children_mark [OF kids dist sib SU, of rem] by auto
  have vU: "v \<notin> ?U"
  proof
    assume "v \<in> ?U"
    then obtain c where c: "c \<in> set ?cs" "c \<in> set (anc ns v)" by (auto simp: subtree_def)
    then have "c \<le> v" by (simp add: anc_le)
    moreover have "v < c" using parents_okD(2) [OF par, of c v] links_child [OF ok less.prems(1) c(1)] by simp
    ultimately show False by simp
  qed
  have "remove_subtree v (mark S ns, rem) = Some (mark (insert v (S \<union> ?U)) ns, rem @ rs @ [v])"
  proof -
    have "nth_opt (mark S ns) v = Some (ns ! v)" "nth_opt (mark (S \<union> ?U) ns) v = Some (ns ! v)"
      using less.prems(1) vS vU by simp_all
    then have "remove_subtree v (mark S ns, rem) =
        Some ((mark (S \<union> ?U) ns)[v := kill (ns ! v)], (rem @ rs) @ [v])"
      by (subst remove_subtree.simps) (simp only: fst_conv bind.simps f(1) case_prod_conv)
    then show ?thesis using less.prems(1) by (simp add: mark_insert)
  qed
  moreover have "insert v (S \<union> ?U) = S \<union> subtree ns v" unfolding step by blast
  moreover have "set (rs @ [v]) = subtree ns v" unfolding step using f(2) by simp
  ultimately show ?case by metis
qed

lemma remove_facts:
  assumes ok: "tree_ok t" and r: "tree_remove t v = Some (t', removed)"
  shows "set removed = subtree (vt_nodes t) v" and "vt_variables t' = vt_variables t"
    and "length (vt_nodes t') = length (vt_nodes t)"
    and "\<And>w. w < length (vt_nodes t) \<Longrightarrow> vn_parent (vt_nodes t' ! w) = vn_parent (vt_nodes t ! w)"
    and "\<And>w. w < length (vt_nodes t) \<Longrightarrow> vn_owned_variables (vt_nodes t' ! w) = vn_owned_variables (vt_nodes t ! w)"
    and "\<And>w. is_live t' w \<longleftrightarrow> is_live t w \<and> w \<notin> subtree (vt_nodes t) v"
    and "\<And>w. is_live t' w \<Longrightarrow> vn_children (vt_nodes t' ! w) = filter (\<lambda>c. c \<noteq> v) (vn_children (vt_nodes t ! w))"
    and "v \<noteq> 0" and "is_live t v"
    and "\<And>w. w < length (vt_nodes t) \<Longrightarrow> \<not> is_live t' w \<Longrightarrow> vn_children (vt_nodes t' ! w) = []"
proof -
  let ?ns = "vt_nodes t"
  note ok' = tree_okD [OF ok]
  let ?S = "subtree ?ns v"
  from r show live: "is_live t v" and nz: "v \<noteq> 0"
    by (auto simp: tree_remove_def opt_simps ROOT_def)
  then have v: "v < length ?ns" "\<not> vn_removed (?ns ! v)" by (auto simp: is_live_iff)
  then obtain p where p: "vn_parent (?ns ! v) = Some p" "p < v" using ok'(1) nz by (auto simp: parents_ok_def)
  obtain rs where rs: "remove_subtree v (?ns, []) = Some (mark ?S ?ns, rs)" "set rs = ?S"
    using remove_subtree_mark [OF ok'(1,2) v, of "{}" "[]"] by auto
  have pS: "p \<notin> ?S" using anc_le p(2) by (fastforce simp: subtree_def)
  let ?n = "?ns ! p"
  have t': "vt_nodes t' = (mark ?S ?ns)[p := ?n\<lparr>vn_children := filter (\<lambda>c. c \<noteq> v) (vn_children ?n)\<rparr>]"
    and rem: "removed = rs" and vars: "vt_variables t' = vt_variables t"
    using r rs p v pS by (auto simp: tree_remove_def tree_parent_def opt_simps)
  show "set removed = ?S" and "vt_variables t' = vt_variables t" and len: "length (vt_nodes t') = length ?ns"
    using rem rs(2) vars by (simp_all add: t')
  have nth: "vt_nodes t' ! w = (if w = p then ?n\<lparr>vn_children := filter (\<lambda>c. c \<noteq> v) (vn_children ?n)\<rparr>
      else if w \<in> ?S then kill (?ns ! w) else ?ns ! w)" if "w < length ?ns" for w
    using that p v pS by (auto simp: t' nth_list_update)
  show "vn_parent (vt_nodes t' ! w) = vn_parent (?ns ! w)" if "w < length ?ns" for w
    using nth [OF that] by (simp add: kill_def)
  show "vn_owned_variables (vt_nodes t' ! w) = vn_owned_variables (?ns ! w)" if "w < length ?ns" for w
    using nth [OF that] by (simp add: kill_def)
  show lv: "is_live t' w \<longleftrightarrow> is_live t w \<and> w \<notin> ?S" for w
  proof (cases "w < length ?ns")
    case True
    then have "vn_removed (vt_nodes t' ! w) \<longleftrightarrow> vn_removed (?ns ! w) \<or> w \<in> ?S"
      using nth [OF True] pS by (auto simp: kill_def)
    then show ?thesis using len True by (simp add: is_live_iff)
  qed (simp add: is_live_iff len)
  show "vn_children (vt_nodes t' ! w) = []" if w: "w < length ?ns" "\<not> is_live t' w" for w
  proof -
    have "is_live t' p" using lv [of p] pS p v links_parent [OF ok'(2) v p(1) nz] by (simp add: is_live_iff)
    then have "w \<noteq> p" using w(2) by auto
    moreover have "vn_children (?ns ! w) = []" if "\<not> is_live t w"
      using links_removed [OF ok'(2) w(1)] that w(1) by (simp add: is_live_iff)
    ultimately show ?thesis using nth [OF w(1)] lv [of w] w(2) by (auto simp: kill_def)
  qed
  show "vn_children (vt_nodes t' ! w) = filter (\<lambda>c. c \<noteq> v) (vn_children (?ns ! w))" if w: "is_live t' w" for w
  proof (cases "w = p")
    case True
    then show ?thesis using nth [of p] p(2) v(1) by simp
  next
    case False
    have wl: "w < length ?ns" "w \<notin> ?S" using w lv [of w] by (auto simp: is_live_iff)
    have "v \<notin> set (vn_children (?ns ! w))"
      using links_child [OF ok'(2) wl(1), of v] p(1) False by auto
    then have "filter (\<lambda>c. c \<noteq> v) (vn_children (?ns ! w)) = vn_children (?ns ! w)"
      by (auto simp: filter_id_conv)
    then show ?thesis using nth [OF wl(1)] False wl(2) by simp
  qed
qed

lemma remove_ok:
  assumes ok: "tree_ok t" and r: "tree_remove t v = Some (t', removed)"
  shows "tree_ok t'"
proof -
  let ?ns = "vt_nodes t" and ?ns' = "vt_nodes t'"
  note ok' = tree_okD [OF ok]
  note f = remove_facts [OF ok r]
  have par: "parents_ok ?ns'"
    using ok'(1) f(3,4) unfolding parents_ok_def by (metis length_0_conv length_greater_0_conv)
  have outside: "w \<in> subtree ?ns v" if "vn_parent (?ns ! c) = Some w" "c < length ?ns" "c \<noteq> v" "is_live t w"
    "c \<in> subtree ?ns v" for c w
    using that anc_step [OF ok'(1) that(2,1)] by (auto simp: subtree_def is_live_iff)
  have inside: "c \<in> subtree ?ns v" if "vn_parent (?ns ! c) = Some w" "is_live t c" "w \<in> subtree ?ns v" for c w
    using that anc_step [OF ok'(1) _ that(1)] by (auto simp: subtree_def is_live_iff)
  have "links_ok ?ns'"
    unfolding links_ok_def
  proof (intro conjI allI impI ballI)
    have "0 \<notin> subtree ?ns v" using anc_le f(8) by (fastforce simp: subtree_def)
    moreover have "is_live t 0" using ok'(1) links_root [OF ok'(2)] by (simp add: is_live_iff parents_ok_def)
    ultimately show "\<not> vn_removed (?ns' ! 0)" using f(6) [of 0] by (simp add: is_live_iff)
  next
    fix w assume w: "w < length ?ns'"
    then have wl: "w < length ?ns" using f(3) by simp
    show "distinct (vn_children (?ns' ! w))"
    proof (cases "is_live t' w")
      case True
      then have "distinct (vn_children (?ns ! w))" using links_distinct [OF ok'(2) wl] by simp
      then show ?thesis using f(7) [OF True] by simp
    qed (use f(10) [OF wl] in simp)
    show "vn_removed (?ns' ! w) \<Longrightarrow> vn_children (?ns' ! w) = []"
      using f(10) [OF wl] by (simp add: is_live_iff)
    fix c assume c: "c \<in> set (vn_children (?ns' ! w))"
    have live: "is_live t' w" using c f(10) [OF wl] by (cases "is_live t' w") auto
    then have c': "c \<in> set (vn_children (?ns ! w))" "c \<noteq> v" using c f(7) [OF live] by auto
    note cc = links_child [OF ok'(2) wl c'(1)]
    have "w \<notin> subtree ?ns v" "is_live t w" using f(6) [of w] live by auto
    then have "c \<notin> subtree ?ns v" using outside [of c w] cc c'(2) by blast
    then have "is_live t' c" using f(6) [of c] cc by (simp add: is_live_iff)
    then show "c < length ?ns'" and "vn_parent (?ns' ! c) = Some w" and "\<not> vn_removed (?ns' ! c)"
      using cc f(4) [of c] by (simp_all add: is_live_iff)
  next
    fix c assume c: "c < length ?ns'" "\<not> vn_removed (?ns' ! c)" "c \<noteq> 0"
    then have live: "is_live t' c" by (simp add: is_live_iff)
    then have old: "is_live t c" "c \<notin> subtree ?ns v" using f(6) [of c] by auto
    then have cl: "c < length ?ns" "\<not> vn_removed (?ns ! c)" by (auto simp: is_live_iff)
    obtain p where p: "vn_parent (?ns ! c) = Some p" "p < c"
      using ok'(1) cl(1) c(3) by (auto simp: parents_ok_def)
    note pp = links_parent [OF ok'(2) cl p(1) c(3)]
    have "p \<notin> subtree ?ns v" using inside [OF p(1) old(1)] old(2) by blast
    then have "is_live t' p" using f(6) [of p] pp p(2) cl(1) by (simp add: is_live_iff)
    moreover have "c \<noteq> v" using old(2) cl by (auto simp: subtree_def)
    ultimately have "\<not> vn_removed (?ns' ! p) \<and> c \<in> set (vn_children (?ns' ! p))"
      using pp f(7) [of p] by (simp add: is_live_iff)
    then show "\<exists>p. vn_parent (?ns' ! c) = Some p \<and> \<not> vn_removed (?ns' ! p) \<and> c \<in> set (vn_children (?ns' ! p))"
      using p(1) f(4) [OF cl(1)] by simp
  qed
  moreover have "owned_ok t'" using ok'(3) f(2,3,5) by (simp add: owned_ok_def)
  ultimately show ?thesis using par by (simp add: tree_ok_def)
qed

lemma remove_anc:
  "tree_ok t \<Longrightarrow> tree_remove t v = Some (t', removed) \<Longrightarrow> w < length (vt_nodes t) \<Longrightarrow>
     anc (vt_nodes t') w = anc (vt_nodes t) w"
  using remove_facts(4) by (intro anc_cong) auto

end
