(* ===== verification/EGraphCorrect.thy ===== *)
theory EGraphCorrect
  imports EGraph VersionsCorrect
begin

text \<open>
  Lookups through the ancestors as total functions, the invariant of the graph, and what each
  operation changes of a version's view.
\<close>

section \<open>Union-find forests\<close>

text \<open>A parent function without cycles other than self-loops at the roots.\<close>

definition uf_ok :: "('a \<Rightarrow> 'a) \<Rightarrow> bool" where
  "uf_ok f \<longleftrightarrow> wf {(f p, p) | p. f p \<noteq> p}"

inductive to_root :: "('a \<Rightarrow> 'a) \<Rightarrow> 'a \<Rightarrow> 'a \<Rightarrow> bool" for f where
  root: "f p = p \<Longrightarrow> to_root f p p"
| step: "f p \<noteq> p \<Longrightarrow> to_root f (f p) q \<Longrightarrow> to_root f p q"

lemma to_root_root: "to_root f p q \<Longrightarrow> f q = q"
  by (induction rule: to_root.induct)

lemma to_root_unique: "to_root f p q \<Longrightarrow> to_root f p r \<Longrightarrow> q = r"
proof (induction rule: to_root.induct)
  case (root p)
  then show ?case by (auto elim: to_root.cases)
next
  case (step p q)
  from step.prems step.hyps(1) have "to_root f (f p) r" by (auto elim: to_root.cases)
  then show ?case by (rule step.IH)
qed

lemma to_root_ex: "uf_ok f \<Longrightarrow> \<exists>q. to_root f p q"
  unfolding uf_ok_def
proof (induction p rule: wf_induct_rule)
  case (less p)
  then show ?case by (cases "f p = p") (auto intro: to_root.intros)
qed

lemma uf_ok_id [simp]: "uf_ok (\<lambda>p. p)"
  by (simp add: uf_ok_def)

text \<open>Linking any node to a root keeps the forest, whether the node was a root or not.\<close>

lemma uf_ok_link:
  assumes ok: "uf_ok f" and q: "f q = q" and pq: "p \<noteq> q"
  shows "uf_ok (f(p := q))"
proof -
  let ?r = "{(f p, p) | p. f p \<noteq> p}"
  have "(p, q) \<notin> ?r\<^sup>*"
  proof
    assume "(p, q) \<in> ?r\<^sup>*"
    then show False using q pq by (cases rule: rtrancl.cases) auto
  qed
  then have "wf (insert (q, p) ?r)" using ok by (simp add: uf_ok_def)
  then show ?thesis unfolding uf_ok_def by (rule wf_subset) auto
qed

text \<open>What linking a root to another root does to the roots.\<close>

lemma to_root_link:
  assumes "to_root f x r" and "f c = c" and p: "f p = p" and "c \<noteq> p"
  shows "to_root (f(c := p)) x (if r = c then p else r)"
  using assms(1)
proof (induction rule: to_root.induct)
  case (root x)
  have "to_root (f(c := p)) p p" using p assms(4) by (intro to_root.root) simp
  then have "to_root (f(c := p)) c p" using assms(4) by (intro to_root.step [of "f(c := p)" c p]) simp_all
  moreover have "to_root (f(c := p)) x x" if "x \<noteq> c" using root that by (intro to_root.root) simp
  ultimately show ?case by metis
next
  case (step x r)
  then have "(f(c := p)) x = f x" using assms(2) by auto
  then show ?case using step by (metis to_root.step)
qed

text \<open>Linking a node to its own root changes no root.\<close>

lemma to_root_compress:
  assumes "to_root f x r" and t: "to_root f t q" and tq: "t \<noteq> q"
  shows "to_root (f(t := q)) x r"
  using assms(1)
proof (induction rule: to_root.induct)
  case (root x)
  have "x \<noteq> t"
  proof
    assume "x = t"
    then have "to_root f t t" using root.hyps by (simp add: to_root.root)
    then show False using to_root_unique [OF t] tq by metis
  qed
  then show ?case using root by (intro to_root.root) simp
next
  case (step x r)
  show ?case
  proof (cases "x = t")
    case True
    have "to_root f x r" using step.hyps by (rule to_root.step)
    then have "r = q" using to_root_unique [OF t] True by metis
    have "to_root (f(t := q)) q q" using to_root_root [OF t] tq by (intro to_root.root) simp
    then show ?thesis
      using tq True \<open>r = q\<close> by (intro to_root.step [of "f(t := q)" x]) simp_all
  next
    case False
    then have "(f(t := q)) x = f x" by simp
    then show ?thesis using step by (metis to_root.step)
  qed
qed

section \<open>Lookups\<close>

fun first_some :: "('a \<Rightarrow> 'b option) \<Rightarrow> 'a list \<Rightarrow> 'b option" where
  "first_some f [] = None"
| "first_some f (x # xs) = (case f x of Some b \<Rightarrow> Some b | None \<Rightarrow> first_some f xs)"

lemma first_some_cong [fundef_cong]:
  "xs = ys \<Longrightarrow> (\<And>x. x \<in> set ys \<Longrightarrow> f x = g x) \<Longrightarrow> first_some f xs = first_some g ys"
  by (induction xs arbitrary: ys) (auto split: option.split)

abbreviation path :: "egraph \<Rightarrow> version \<Rightarrow> version list" where
  "path g v \<equiv> anc (vt_nodes (eg_versions g)) v"

definition lookup :: "egraph \<Rightarrow> version \<Rightarrow> (version_state \<Rightarrow> 'b option) \<Rightarrow> 'b option" where
  "lookup g v f = first_some (\<lambda>a. f (eg_states g ! a)) (path g v)"

definition par :: "egraph \<Rightarrow> version \<Rightarrow> ptr \<Rightarrow> ptr" where
  "par g v t = (case lookup g v (\<lambda>s. vs_parents s t) of Some p \<Rightarrow> p | None \<Rightarrow> t)"

definition bound_of :: "egraph \<Rightarrow> version \<Rightarrow> ptr \<Rightarrow> bound" where
  "bound_of g v t = (case lookup g v (\<lambda>s. vs_bounds s t) of Some b \<Rightarrow> b | None \<Rightarrow> BoundNone)"

abbreviation live :: "egraph \<Rightarrow> version \<Rightarrow> bool" where
  "live g v \<equiv> is_live (eg_versions g) v"

abbreviation kids :: "egraph \<Rightarrow> version \<Rightarrow> version list" where
  "kids g v \<equiv> vn_children (vt_nodes (eg_versions g) ! v)"

section \<open>Invariant\<close>

definition egraph_ok :: "egraph \<Rightarrow> bool" where
  "egraph_ok g \<longleftrightarrow> tree_ok (eg_versions g) \<and> length (eg_states g) = length (vt_nodes (eg_versions g)) \<and>
     (\<forall>v. live g v \<longrightarrow> uf_ok (par g v))"

lemma egraph_okD:
  assumes "egraph_ok g"
  shows "tree_ok (eg_versions g)" and "length (eg_states g) = length (vt_nodes (eg_versions g))"
    and "live g v \<Longrightarrow> uf_ok (par g v)"
  using assms by (simp_all add: egraph_ok_def)

lemma live_less: "egraph_ok g \<Longrightarrow> live g v \<Longrightarrow> v < length (eg_states g)"
  using egraph_okD(2) by (metis is_live_iff)

lemma egraph_ok_new: "egraph_ok egraph_new"
proof -
  have p: "path egraph_new v = [0]" if "live egraph_new v" for v
    using that anc_root [OF tree_okD(1) [OF tree_ok_new]] by (auto simp: is_live_iff egraph_new_def tree_new_def)
  have "par egraph_new v = (\<lambda>t. t)" if "live egraph_new v" for v
    using p [OF that] by (auto simp: par_def lookup_def egraph_new_def default_state_def)
  then show ?thesis using tree_ok_new by (simp add: egraph_ok_def) (simp add: egraph_new_def tree_new_def)
qed

lemma search_up_eq:
  "\<forall>v \<in> set vs. v < length ss \<Longrightarrow> search_up ss f vs = Some (first_some (\<lambda>a. f (ss ! a)) vs)"
  by (induction vs) (auto split: option.split)

lemma search_from_eq:
  assumes "egraph_ok g"
  shows "search_from g v f = (if live g v then Some (lookup g v f) else None)"
proof (cases "live g v")
  case True
  have "\<forall>w \<in> set (path g v). w < length (eg_states g)"
    using anc_live [OF egraph_okD(1) [OF assms] True] live_less [OF assms] by blast
  then have "search_up (eg_states g) f (path g v) = Some (lookup g v f)"
    unfolding lookup_def by (rule search_up_eq)
  then show ?thesis
    using True by (simp add: search_from_def ancestors_eq [OF egraph_okD(1) [OF assms]])
qed (simp add: search_from_def ancestors_eq [OF egraph_okD(1) [OF assms]])

lemma get_parent_eq: "egraph_ok g \<Longrightarrow> get_parent g v t = (if live g v then Some (par g v t) else None)"
  by (simp add: get_parent_def search_from_eq par_def)

lemma get_bound_eq: "egraph_ok g \<Longrightarrow> get_bound g v t = (if live g v then Some (bound_of g v t) else None)"
  by (simp add: get_bound_def assert_live_def search_from_eq bound_of_def)

text \<open>\<open>find\<close> always returns, and returns the root.\<close>

lemma find_loop_root:
  assumes "egraph_ok g" and "live g v"
  shows "to_root (par g v) t r \<Longrightarrow> find_loop g v t = Some r"
proof (induction rule: to_root.induct)
  case (root p)
  then show ?case using assms by (subst find_loop.simps) (simp add: get_parent_eq)
next
  case (step p q)
  then show ?case using assms by (subst find_loop.simps) (simp add: get_parent_eq)
qed

lemma find_iff:
  assumes "egraph_ok g"
  shows "find g v t = Some r \<longleftrightarrow> live g v \<and> to_root (par g v) t r"
proof
  assume f: "find g v t = Some r"
  then have l: "live g v" by (auto simp: find_def opt_simps)
  obtain q where "to_root (par g v) t q" using to_root_ex [OF egraph_okD(3) [OF assms l]] by blast
  with find_loop_root [OF assms l this] f l show "live g v \<and> to_root (par g v) t r"
    by (auto simp: find_def opt_simps)
next
  assume "live g v \<and> to_root (par g v) t r"
  then show "find g v t = Some r"
    using find_loop_root [OF assms] by (simp add: find_def assert_live_def)
qed

lemma find_returns: "egraph_ok g \<Longrightarrow> live g v \<Longrightarrow> \<exists>r. find g v t = Some r"
  using to_root_ex [OF egraph_okD(3), of g v t] by (simp add: find_iff)

section \<open>Changing one version\<close>

text \<open>\<open>g'\<close> differs from \<open>g\<close> in the state of \<open>v\<close> only.\<close>

definition only_at :: "version \<Rightarrow> egraph \<Rightarrow> egraph \<Rightarrow> bool" where
  "only_at v g g' \<longleftrightarrow> eg_versions g' = eg_versions g \<and>
     eg_placeholder_universes g' = eg_placeholder_universes g \<and>
     length (eg_states g') = length (eg_states g) \<and> (\<forall>w. w \<noteq> v \<longrightarrow> eg_states g' ! w = eg_states g ! w)"

lemma only_at_refl [simp]: "only_at v g g"
  by (simp add: only_at_def)

lemma only_at_trans [trans]: "only_at v g h \<Longrightarrow> only_at v h k \<Longrightarrow> only_at v g k"
  by (simp add: only_at_def)

lemma only_atD:
  assumes "only_at v g g'"
  shows "eg_versions g' = eg_versions g" and "eg_placeholder_universes g' = eg_placeholder_universes g"
    and "length (eg_states g') = length (eg_states g)"
  using assms by (simp_all add: only_at_def)

lemma only_at_lookup: "only_at v g g' \<Longrightarrow> v \<notin> set (path g w) \<Longrightarrow> lookup g' w f = lookup g w f"
  unfolding lookup_def by (auto simp: only_at_def intro!: first_some_cong)

lemma modify_state_only: "modify_state g v f = Some g' \<Longrightarrow> only_at v g g'"
  by (auto simp: modify_state_def only_at_def opt_simps)

lemma modify_state_at: "modify_state g v f = Some g' \<Longrightarrow> eg_states g' ! v = f (eg_states g ! v) \<and> v < length (eg_states g)"
  by (auto simp: modify_state_def opt_simps)

lemma modify_lookup_same:
  assumes "modify_state g v f = Some g'" and "\<And>s. sel (f s) = sel s"
  shows "lookup g' w sel = lookup g w sel"
proof -
  have "sel (eg_states g' ! a) = sel (eg_states g ! a)" for a
    using assms modify_state_at [OF assms(1)] modify_state_only [OF assms(1)]
    by (cases "a = v") (auto simp: only_at_def)
  then show ?thesis
    using only_atD(1) [OF modify_state_only [OF assms(1)]] by (simp add: lookup_def)
qed

lemma modify_lookup_set:
  assumes "modify_state g v f = Some g'" and "\<And>s. sel (f s) = Some b"
  shows "lookup g' v sel = Some b"
  using assms modify_state_at [OF assms(1)] only_atD(1) [OF modify_state_only [OF assms(1)]]
    hd_anc [of "vt_nodes (eg_versions g)" v] by (auto simp: lookup_def)

text \<open>Children of a leaf: nobody else sees it.\<close>

lemma leaf_path:
  assumes ok: "egraph_ok g" and v: "live g v" "kids g v = []" and w: "live g w" "v \<in> set (path g w)"
  shows "w = v"
proof (rule ccontr)
  note t = tree_okD [OF egraph_okD(1) [OF ok]]
  assume "w \<noteq> v"
  then obtain c where c: "c \<in> set (path g w)" "vn_parent (vt_nodes (eg_versions g) ! c) = Some v"
    using anc_via_child [OF t(1) _ w(2)] w(1) by (auto simp: is_live_iff)
  have "live g c" using anc_live [OF egraph_okD(1) [OF ok] w(1) c(1)] .
  moreover have "c \<noteq> 0" using c(2) t(1) by (cases "c = 0") (auto simp: parents_ok_def)
  ultimately have "c \<in> set (kids g v)" using links_parent [OF t(2) _ _ c(2)] by (auto simp: is_live_iff)
  then show False using v(2) by simp
qed

text \<open>A change at a leaf keeps the invariant when it keeps the leaf's forest.\<close>

lemma only_at_ok:
  assumes ok: "egraph_ok g" and o: "only_at v g g'" and v: "live g v" "kids g v = []"
    and uf: "uf_ok (par g' v)"
  shows "egraph_ok g'"
  unfolding egraph_ok_def only_atD [OF o]
proof (intro conjI allI impI)
  show "tree_ok (eg_versions g)" and "length (eg_states g) = length (vt_nodes (eg_versions g))"
    using ok by (simp_all add: egraph_ok_def)
  fix w assume w: "live g w"
  show "uf_ok (par g' w)"
  proof (cases "w = v")
    case False
    then have "v \<notin> set (path g w)" using leaf_path [OF ok v w] by blast
    then have "par g' w = par g w" unfolding par_def by (simp add: only_at_lookup [OF o])
    then show ?thesis using egraph_okD(3) [OF ok w] by simp
  qed (use uf in simp)
qed

section \<open>Effects of the operations\<close>

text \<open>\<open>quiet v g g'\<close>: a change at \<open>v\<close> that keeps its forest.\<close>

definition quiet :: "version \<Rightarrow> egraph \<Rightarrow> egraph \<Rightarrow> bool" where
  "quiet v g g' \<longleftrightarrow> only_at v g g' \<and> par g' v = par g v"

lemma quiet_refl [simp]: "quiet v g g"
  by (simp add: quiet_def)

lemma quiet_trans [trans]: "quiet v g h \<Longrightarrow> quiet v h k \<Longrightarrow> quiet v g k"
  by (auto simp: quiet_def intro: only_at_trans)

lemma quiet_only: "quiet v g g' \<Longrightarrow> only_at v g g'"
  by (simp add: quiet_def)

lemma quiet_par: "quiet v g g' \<Longrightarrow> par g' v = par g v"
  by (simp add: quiet_def)

lemma quiet_ok: "egraph_ok g \<Longrightarrow> quiet v g g' \<Longrightarrow> live g v \<Longrightarrow> kids g v = [] \<Longrightarrow> egraph_ok g'"
  by (rule only_at_ok) (auto simp: quiet_def egraph_okD(3))

lemma modify_quiet:
  "modify_state g v f = Some g' \<Longrightarrow> (\<And>s. vs_parents (f s) = vs_parents s) \<Longrightarrow> quiet v g g'"
  using modify_state_only [of g v f g'] modify_lookup_same [of g v f g' "\<lambda>s. vs_parents s t" v for t]
  by (auto simp: quiet_def par_def fun_eq_iff)

lemma mark_quiet: "mark_semantic_change g v w = Some g' \<Longrightarrow> quiet v g g'"
  unfolding mark_semantic_change_def by (erule modify_quiet) simp

lemma modify_mark_quiet:
  "mark_semantic_change h v w = Some g' \<Longrightarrow> modify_state g v f = Some h \<Longrightarrow>
     (\<And>s. vs_parents (f s) = vs_parents s) \<Longrightarrow> quiet v g g'"
  by (rule quiet_trans [OF modify_quiet mark_quiet])

lemma lower_universe_quiet: "lower_universe g v i u = Some (g', b) \<Longrightarrow> quiet v g g'"
  unfolding lower_universe_def
  by (auto simp: opt_simps split: if_splits elim!: modify_mark_quiet)

lemma set_domain_quiet: "set_domain_in g st v t d = Some (g', b) \<Longrightarrow> quiet v g g'"
  unfolding set_domain_in_def
  by (auto simp: opt_simps split: if_splits elim!: modify_mark_quiet)

lemma set_bound_quiet: "set_bound_in g st v t d = Some (g', b) \<Longrightarrow> quiet v g g'"
  unfolding set_bound_in_def
  by (auto simp: opt_simps split: if_splits elim!: modify_mark_quiet)

lemma add_dependent_quiet: "add_dependent g v a b = Some g' \<Longrightarrow> quiet v g g'"
  unfolding add_dependent_def by (auto simp: opt_simps intro: modify_quiet)

lemma set_parent_facts:
  assumes "set_parent g v t p = Some g'"
  shows "only_at v g g'" and "par g' v = (par g v)(t := p)" and "live g v" and "kids g v = []"
proof -
  let ?f = "\<lambda>s. s\<lparr>vs_parents := (vs_parents s)(t \<mapsto> p)\<rparr>"
  from assms have m: "modify_state g v ?f = Some g'"
    by (auto simp: set_parent_def opt_simps)
  show "only_at v g g'" using m by (rule modify_state_only)
  show "live g v" and "kids g v = []" using assms by (auto simp: set_parent_def opt_simps)
  show "par g' v = (par g v)(t := p)"
  proof
    fix x
    show "par g' v x = ((par g v)(t := p)) x"
    proof (cases "x = t")
      case True
      then show ?thesis using modify_lookup_set [OF m, of "\<lambda>s. vs_parents s t" p] by (simp add: par_def)
    next
      case False
      then show ?thesis using modify_lookup_same [OF m, of "\<lambda>s. vs_parents s x" v] by (simp add: par_def)
    qed
  qed
qed

lemma compress_facts:
  "compress_path v t root g = Some g' \<Longrightarrow> egraph_ok g \<Longrightarrow> live g v \<Longrightarrow> kids g v = [] \<Longrightarrow>
     to_root (par g v) t root \<Longrightarrow>
     only_at v g g' \<and> egraph_ok g' \<and> (\<forall>x r. to_root (par g v) x r \<longrightarrow> to_root (par g' v) x r) \<and>
     (\<forall>x. par g' v x = par g v x \<or> to_root (par g v) x (par g' v x))"
proof (induction rule: compress_path.raw_induct [rotated 1, consumes 1, case_names step])
  case (step comp v t root g g')
  note ok = step.prems(1-3) and tr = step.prems(4)
  from step.hyps obtain p where p: "get_parent g v t = Some p"
    and c: "(if p = root \<or> p = t then Some g else do { g \<leftarrow> set_parent g v t root; comp v p root g }) = Some g'"
    by (auto simp: opt_simps)
  have pp: "p = par g v t" using p ok by (simp add: get_parent_eq)
  show ?case
  proof (cases "p = root \<or> p = t")
    case True
    then show ?thesis using c ok by simp
  next
    case False
    with c obtain h where h: "set_parent g v t root = Some h" and r: "comp v p root h = Some g'"
      by (auto simp: opt_simps)
    note f = set_parent_facts [OF h]
    have tn: "t \<noteq> root" using tr False pp by (auto dest: to_root_root)
    have uf: "uf_ok (par h v)"
      unfolding f(2) using uf_ok_link [OF egraph_okD(3) [OF ok(1,2)] to_root_root [OF tr] tn] .
    have okh: "egraph_ok h" using only_at_ok [OF ok(1) f(1) ok(2,3) uf] .
    have keep: "to_root (par h v) x s" if "to_root (par g v) x s" for x s
      unfolding f(2) using to_root_compress [OF that tr tn] .
    have "to_root (par g v) p root" using tr False pp by (auto elim: to_root.cases)
    then have "to_root (par h v) p root" by (rule keep)
    then have ih: "only_at v h g' \<and> egraph_ok g' \<and> (\<forall>x r. to_root (par h v) x r \<longrightarrow> to_root (par g' v) x r) \<and>
        (\<forall>x. par g' v x = par h v x \<or> to_root (par h v) x (par g' v x))"
      using step.IH [OF r okh] ok f(1) by (simp add: only_at_def)
    have undo: "to_root (par g v) x s" if "to_root (par h v) x s" for x s
      using keep that to_root_ex [OF egraph_okD(3) [OF ok(1,2)], of x] to_root_unique by metis
    have "par g' v x = par g v x \<or> to_root (par g v) x (par g' v x)" for x
      using ih undo [of x] tr f(2) by (metis fun_upd_apply)
    then show ?thesis using ih keep f(1) by (blast intro: only_at_trans)
  qed
qed

lemma find_mut_facts:
  assumes ok: "egraph_ok g" and r: "find_mut g v t = Some (g', r)"
  shows "only_at v g g'" and "egraph_ok g'" and "live g v" and "kids g v = []"
    and "to_root (par g v) t r" and "\<And>x s. to_root (par g' v) x s \<longleftrightarrow> to_root (par g v) x s"
    and "\<And>x. par g' v x = par g v x \<or> to_root (par g v) x (par g' v x)"
proof -
  from r have lv: "live g v" and leaf: "kids g v = []" and f: "find g v t = Some r"
    and c: "compress_path v t r g = Some g'"
    by (auto simp: find_mut_def opt_simps)
  show "live g v" and "kids g v = []" by fact+
  show tr: "to_root (par g v) t r" using f ok by (simp add: find_iff)
  note cf = compress_facts [OF c ok lv leaf tr]
  then show "only_at v g g'" and "egraph_ok g'" by blast+
  show "par g' v x = par g v x \<or> to_root (par g v) x (par g' v x)" for x using cf by blast
  show "to_root (par g' v) x s \<longleftrightarrow> to_root (par g v) x s" for x s
    using cf to_root_ex [OF egraph_okD(3) [OF ok lv], of x] to_root_unique by metis
qed

lemma union_facts:
  assumes ok: "egraph_ok g" and r: "union g st v a b = Some (g', r)"
  obtains ra rb where "to_root (par g v) a ra" and "to_root (par g v) b rb"
    and "only_at v g g'" and "live g v" and "kids g v = []"
    and "ra = rb \<Longrightarrow> g' = g \<and> r = ra"
    and "ra \<noteq> rb \<Longrightarrow> get_ty st ra \<noteq> None \<and> get_ty st rb \<noteq> None"
    and "ra \<noteq> rb \<Longrightarrow> map_option is_infer_var (get_ty st ra) = Some True \<Longrightarrow>
      par g' v = (par g v)(ra := rb) \<and> r = rb"
    and "ra \<noteq> rb \<Longrightarrow> map_option is_infer_var (get_ty st ra) = Some False \<Longrightarrow>
      par g' v = (par g v)(rb := ra) \<and> r = ra"
    and "egraph_ok g'"
proof -
  from r have lv: "live g v" and leaf: "kids g v = []" by (auto simp: union_def opt_simps)
  from r obtain ra rb where fa: "find g v a = Some ra" and fb: "find g v b = Some rb"
    by (auto simp: union_def opt_simps)
  then have ta: "to_root (par g v) a ra" and tb: "to_root (par g v) b rb"
    using ok by (simp_all add: find_iff)
  show ?thesis
  proof (cases "ra = rb")
    case True
    then have "g' = g \<and> r = ra" using r fa fb by (auto simp: union_def opt_simps)
    then show ?thesis using that [OF ta tb] True lv leaf ok by simp
  next
    case False
    obtain tx ty where tx: "get_ty st ra = Some tx" and ty: "get_ty st rb = Some ty"
      using r fa fb False by (auto simp: union_def opt_simps)
    define c where "c = (if is_infer_var tx then ra else rb)"
    define p where "p = (if is_infer_var tx then rb else ra)"
    obtain h k tc where h: "set_parent g v c p = Some h"
      and k: "modify_state h v (\<lambda>s. s\<lparr>vs_worklist := vs_worklist s @ [c]\<rparr>) = Some k"
      and m: "mark_semantic_change k v (infer_var_of tc) = Some g'" and rp: "r = p"
      using r fa fb False tx ty unfolding c_def p_def
      by (auto simp: union_def opt_simps Let_def split: if_splits)
    note f = set_parent_facts [OF h]
    have q: "quiet v h g'" by (rule modify_mark_quiet [OF m k]) simp
    have pg: "par g' v = (par g v)(c := p)" using q f(2) by (simp add: quiet_def)
    have o: "only_at v g g'" using f(1) quiet_only [OF q] by (rule only_at_trans)
    have "par g v p = p" "c \<noteq> p" using to_root_root [OF ta] to_root_root [OF tb] False by (auto simp: c_def p_def)
    then have "egraph_ok g'"
      using only_at_ok [OF ok o lv leaf] uf_ok_link [OF egraph_okD(3) [OF ok lv]] pg by simp
    then show ?thesis
      using that [OF ta tb o lv leaf] False tx ty pg rp by (simp add: c_def p_def)
  qed
qed

end
