(* ===== verification/Solutions.thy ===== *)
theory Solutions
  imports EGraphCorrect
begin

text \<open>
  The meaning of a version: the assignments of (possibly infinite) trees to types that respect the
  structure of the arena and every link of the union-find.  Unification is correct when it adds
  exactly the equation it was asked for to this set (theory UnifyCorrect).

  The links that the code keeps do not determine the meaning step by step: path compression and
  the rebuild overwrite links of compound types.  The invariant is therefore a congruence: an
  equivalence that contains the links, identifies compound types only with equal skeletons and
  related children, and leaves the class of an unresolved variable to the union-find.
\<close>

section \<open>Trees and solutions\<close>

codatatype itree = INode (tree_skeleton: skeleton) (subtrees: "itree list")

definition rigid :: "ir \<Rightarrow> ptr \<Rightarrow> bool" where
  "rigid st p \<longleftrightarrow> (\<exists>t. get_ty st p = Some t \<and> \<not> is_infer_var t)"

definition flex :: "ir \<Rightarrow> ptr \<Rightarrow> bool" where
  "flex st p \<longleftrightarrow> (\<exists>t. get_ty st p = Some t \<and> is_infer_var t)"

definition structural :: "ir \<Rightarrow> (ptr \<Rightarrow> itree) \<Rightarrow> bool" where
  "structural st I \<longleftrightarrow> (\<forall>p d. rigid st p \<longrightarrow> decompose st p = Some d \<longrightarrow>
     I p = INode (de_skeleton d) (map I (de_children d)))"

definition solutions :: "ir \<Rightarrow> egraph \<Rightarrow> version \<Rightarrow> (ptr \<Rightarrow> itree) set" where
  "solutions st g v = {I. structural st I \<and> (\<forall>p. I (par g v p) = I p)}"

section \<open>The congruence behind a forest\<close>

definition congruence :: "ir \<Rightarrow> (ptr \<Rightarrow> ptr) \<Rightarrow> (ptr \<Rightarrow> ptr \<Rightarrow> bool) \<Rightarrow> bool" where
  "congruence st f S \<longleftrightarrow>
     equivp S \<and> (\<forall>p. S p (f p)) \<and>
     (\<forall>p q. S p q \<longrightarrow> p \<noteq> q \<longrightarrow> get_ty st p \<noteq> None) \<and>
     (\<forall>p. rigid st p \<longrightarrow> rigid st (f p)) \<and>
     (\<forall>p q d e. S p q \<longrightarrow> rigid st p \<longrightarrow> rigid st q \<longrightarrow> decompose st p = Some d \<longrightarrow> decompose st q = Some e \<longrightarrow>
        de_skeleton d = de_skeleton e \<and> list_all2 S (de_children d) (de_children e)) \<and>
     (\<forall>u q. S u q \<longrightarrow> flex st u \<longrightarrow> f u = u \<longrightarrow> to_root f q u)"

lemma congruenceD:
  assumes "congruence st f S"
  shows "equivp S" and "S p (f p)" and "S p q \<Longrightarrow> p \<noteq> q \<Longrightarrow> get_ty st p \<noteq> None"
    and "rigid st p \<Longrightarrow> rigid st (f p)"
    and "S p q \<Longrightarrow> rigid st p \<Longrightarrow> rigid st q \<Longrightarrow> decompose st p = Some d \<Longrightarrow> decompose st q = Some e \<Longrightarrow>
      de_skeleton d = de_skeleton e \<and> list_all2 S (de_children d) (de_children e)"
    and "S u q \<Longrightarrow> flex st u \<Longrightarrow> f u = u \<Longrightarrow> to_root f q u"
  using assms unfolding congruence_def by blast+

lemma congruence_refl: "congruence st f S \<Longrightarrow> S p p"
  by (meson congruenceD(1) equivp_reflp)

lemma congruence_sym: "congruence st f S \<Longrightarrow> S p q \<Longrightarrow> S q p"
  by (meson congruenceD(1) equivp_symp)

lemma congruence_trans: "congruence st f S \<Longrightarrow> S p q \<Longrightarrow> S q r \<Longrightarrow> S p r"
  by (meson congruenceD(1) equivp_transp)

lemma congruence_root:
  assumes c: "congruence st f S"
  shows "to_root f p r \<Longrightarrow> S p r"
proof (induction rule: to_root.induct)
  case (root p)
  then show ?case using congruence_refl [OF c] by simp
next
  case (step p q)
  then show ?case using congruence_trans [OF c congruenceD(2) [OF c]] by blast
qed

lemma congruence_rigid_root:
  assumes c: "congruence st f S"
  shows "to_root f p r \<Longrightarrow> rigid st p \<Longrightarrow> rigid st r"
proof (induction rule: to_root.induct)
  case (step p q)
  then show ?case using congruenceD(4) [OF c] by blast
qed

lemma rigid_flex: "get_ty st p \<noteq> None \<longleftrightarrow> rigid st p \<or> flex st p" "rigid st p \<Longrightarrow> \<not> flex st p"
  by (auto simp: rigid_def flex_def)

section \<open>Solutions are constant on the congruence\<close>

text \<open>It is enough that a structural assignment obeys the links of the variables.\<close>

lemma congruence_head:
  assumes c: "congruence st f S" and uf: "uf_ok f" and I: "\<And>p. flex st p \<Longrightarrow> I (f p) = I p"
  shows "\<exists>h. I p = I h \<and> S p h \<and> (get_ty st p = None \<longrightarrow> h = p) \<and>
    (rigid st h \<or> flex st h \<and> f h = h \<or> get_ty st p = None)"
  using uf [unfolded uf_ok_def]
proof (induction p rule: wf_induct_rule)
  case (less p)
  show ?case
  proof (cases "flex st p \<and> f p \<noteq> p")
    case True
    then have "get_ty st (f p) \<noteq> None"
      using congruenceD(2,3) [OF c] congruence_sym [OF c] by metis
    then obtain h where "I (f p) = I h" "S (f p) h" "rigid st h \<or> flex st h \<and> f h = h"
      using less True by auto
    then show ?thesis
      using True I [of p] congruence_trans [OF c congruenceD(2) [OF c]] by (metis rigid_flex(1))
  next
    case False
    then show ?thesis using congruence_refl [OF c] rigid_flex(1) [of st p] by metis
  qed
qed

lemma solution_constant:
  assumes c: "congruence st f S" and uf: "uf_ok f" and wf: "ir_wf st"
    and str: "structural st I" and I: "\<And>p. flex st p \<Longrightarrow> I (f p) = I p" and pq: "S p q"
  shows "I p = I q"
proof -
  define R where "R a b \<longleftrightarrow> a = b \<or> (\<exists>p q. S p q \<and> a = I p \<and> b = I q)" for a b
  have node: "tree_skeleton (I h) = tree_skeleton (I k) \<and> list_all2 R (subtrees (I h)) (subtrees (I k))"
    if hk: "S h k" "rigid st h" "rigid st k" for h k
  proof -
    obtain d where d: "decompose st h = Some d" using decompose_wf [OF wf, of h] hk(2) by (auto simp: rigid_def)
    obtain e where e: "decompose st k = Some e" using decompose_wf [OF wf, of k] hk(3) by (auto simp: rigid_def)
    note de = congruenceD(5) [OF c hk d e]
    have "I h = INode (de_skeleton d) (map I (de_children d))" "I k = INode (de_skeleton e) (map I (de_children e))"
      using str hk d e by (simp_all add: structural_def)
    moreover have "list_all2 R (map I (de_children d)) (map I (de_children e))"
      unfolding list_all2_map1 list_all2_map2
      by (rule list_all2_mono [OF conjunct2 [OF de]]) (auto simp: R_def)
    ultimately show ?thesis using de by simp
  qed
  have step: "tree_skeleton a = tree_skeleton b \<and> list_all2 R (subtrees a) (subtrees b)" if "R a b" for a b
  proof (cases "a = b")
    case True
    then show ?thesis by (simp add: R_def list_all2_refl)
  next
    case False
    with that obtain p q where s: "S p q" and a: "a = I p" and b: "b = I q" by (auto simp: R_def)
    obtain h where h: "I p = I h" "S p h" "rigid st h \<or> flex st h \<and> f h = h \<or> get_ty st p = None"
      using congruence_head [OF c uf, of I] I by blast
    obtain k where k: "I q = I k" "S q k" "rigid st k \<or> flex st k \<and> f k = k \<or> get_ty st q = None"
      using congruence_head [OF c uf, of I] I by blast
    have hk: "S h k" using s h(2) k(2) congruence_sym [OF c] congruence_trans [OF c] by blast
    have "p \<noteq> q" using False a b by auto
    then have ty: "get_ty st p \<noteq> None" "get_ty st q \<noteq> None"
      using congruenceD(3) [OF c] s congruence_sym [OF c s] by blast+
    have h': "rigid st h \<or> flex st h \<and> f h = h" using h(3) ty(1) by blast
    have k': "rigid st k \<or> flex st k \<and> f k = k" using k(3) ty(2) by blast
    have ne: "h \<noteq> k" using False a b h(1) k(1) by auto
    have no: "\<not> (flex st x \<and> f x = x \<and> (rigid st y \<or> flex st y \<and> f y = y))" if "S x y" "x \<noteq> y" for x y
    proof
      assume x: "flex st x \<and> f x = x \<and> (rigid st y \<or> flex st y \<and> f y = y)"
      then have r: "to_root f y x" using congruenceD(6) [OF c that(1)] by blast
      show False
      proof (cases "rigid st y")
        case True
        then show ?thesis using congruence_rigid_root [OF c r] x rigid_flex(2) by blast
      next
        case False
        then have "to_root f y y" using x by (simp add: to_root.root)
        then show ?thesis using to_root_unique [OF r] that(2) by metis
      qed
    qed
    have "rigid st h" "rigid st k"
      using no [OF hk ne] no [OF congruence_sym [OF c hk]] ne h' k' by blast+
    then show ?thesis using node [OF hk] a b h(1) k(1) by simp
  qed
  have "R (I p) (I q)" using pq by (auto simp: R_def)
  then show ?thesis by (rule itree.coinduct [of R]) (rule step)
qed

text \<open>So the solutions are the structural assignments that are constant on the congruence.\<close>

definition obeys :: "ir \<Rightarrow> (ptr \<Rightarrow> ptr \<Rightarrow> bool) \<Rightarrow> (ptr \<Rightarrow> itree) \<Rightarrow> bool" where
  "obeys st S I \<longleftrightarrow> structural st I \<and> (\<forall>p q. S p q \<longrightarrow> I p = I q)"

lemma solutions_obey:
  assumes "congruence st (par g v) S" and "uf_ok (par g v)" and "ir_wf st"
  shows "I \<in> solutions st g v \<longleftrightarrow> obeys st S I"
proof
  assume "I \<in> solutions st g v"
  then show "obeys st S I"
    using solution_constant [OF assms(1,2,3)] by (auto simp: solutions_def obeys_def)
next
  assume "obeys st S I"
  moreover have "I (par g v p) = I p" if "obeys st S I" for p
    using congruenceD(2) [OF assms(1), of p] that by (simp add: obeys_def)
  ultimately show "I \<in> solutions st g v" by (simp add: solutions_def obeys_def)
qed

section \<open>Merging two classes of a congruence\<close>

definition merge :: "('a \<Rightarrow> 'a \<Rightarrow> bool) \<Rightarrow> 'a \<Rightarrow> 'a \<Rightarrow> 'a \<Rightarrow> 'a \<Rightarrow> bool" where
  "merge S a b p q \<longleftrightarrow> S p q \<or> (S p a \<and> S q b) \<or> (S p b \<and> S q a)"

lemma equivp_merge:
  assumes "equivp S"
  shows "equivp (merge S a b)"
proof (rule equivpI)
  show "reflp (merge S a b)" using assms by (simp add: reflp_def merge_def equivp_reflp)
  show "symp (merge S a b)" using equivp_symp [OF assms] by (auto simp: symp_def merge_def)
  show "transp (merge S a b)"
    using equivp_symp [OF assms] equivp_transp [OF assms] unfolding transp_def merge_def by blast
qed

lemma merge_mono: "S p q \<Longrightarrow> merge S a b p q"
  by (simp add: merge_def)

lemma merge_pair: "equivp S \<Longrightarrow> merge S a b a b"
  by (simp add: merge_def equivp_reflp)

lemma obeys_merge:
  "obeys st S I \<Longrightarrow> I a = I b \<Longrightarrow> obeys st (merge S a b) I"
  by (auto simp: obeys_def merge_def)

section \<open>Changes of the forest that keep a congruence\<close>

lemma congruence_compress:
  assumes c: "congruence st f S" and uf: "uf_ok f"
    and roots: "\<And>x r. to_root f' x r \<longleftrightarrow> to_root f x r"
    and near: "\<And>x. f' x = f x \<or> to_root f x (f' x)"
  shows "congruence st f' S"
  unfolding congruence_def
proof (intro conjI allI impI)
  show "equivp S" using congruenceD(1) [OF c] .
  show "S p (f' p)" for p using near [of p] congruenceD(2) [OF c, of p] congruence_root [OF c] by metis
  show "get_ty st p \<noteq> None" if "S p q" "p \<noteq> q" for p q using congruenceD(3) [OF c that] .
  show "rigid st (f' p)" if "rigid st p" for p
    using near [of p] congruenceD(4) [OF c that] congruence_rigid_root [OF c _ that] by metis
  show "de_skeleton d = de_skeleton e" and "list_all2 S (de_children d) (de_children e)"
    if "S p q" "rigid st p" "rigid st q" "decompose st p = Some d" "decompose st q = Some e" for p q d e
    using congruenceD(5) [OF c that] by simp_all
  show "to_root f' q u" if "S u q" "flex st u" "f' u = u" for u q
  proof -
    have "to_root f u u" using roots [of u u] that(3) by (simp add: to_root.root)
    then have "f u = u" by (rule to_root_root)
    then show ?thesis using congruenceD(6) [OF c that(1,2)] roots by blast
  qed
qed

lemma flex_class:
  assumes c: "congruence st f S" and u: "flex st u" "f u = u" and s: "S u x"
  shows "to_root f x u" and "\<not> rigid st x"
proof -
  show r: "to_root f x u" using congruenceD(6) [OF c s u] .
  show "\<not> rigid st x" using congruence_rigid_root [OF c r] u(1) rigid_flex(2) by blast
qed

text \<open>Linking an unresolved variable to another class.\<close>

lemma congruence_bind:
  assumes c: "congruence st f S" and a: "flex st a" "f a = a" and b: "f b = b" "get_ty st b \<noteq> None"
    and ab: "a \<noteq> b"
  shows "congruence st (f(a := b)) (merge S a b)"
  unfolding congruence_def
proof (intro conjI allI impI)
  note sym = congruence_sym [OF c]
  have ta: "get_ty st a \<noteq> None" using a(1) by (auto simp: flex_def)
  show "equivp (merge S a b)" using equivp_merge congruenceD(1) [OF c] .
  show "merge S a b p ((f(a := b)) p)" for p
    using congruenceD(2) [OF c, of p] merge_pair [OF congruenceD(1) [OF c], of a b] by (auto simp: merge_def)
  show "get_ty st p \<noteq> None" if "merge S a b p q" "p \<noteq> q" for p q
    using that congruenceD(3) [OF c] ta b(2) unfolding merge_def by metis
  show "rigid st ((f(a := b)) p)" if "rigid st p" for p
    using that congruenceD(4) [OF c that] rigid_flex(2) [OF that] a(1) by (cases "p = a") auto
  show "de_skeleton d = de_skeleton e" and "list_all2 (merge S a b) (de_children d) (de_children e)"
    if m: "merge S a b p q" and r: "rigid st p" "rigid st q"
      and d: "decompose st p = Some d" "decompose st q = Some e" for p q d e
  proof -
    have "S p q" using m flex_class(2) [OF c a] r sym unfolding merge_def by blast
    note de = congruenceD(5) [OF c this r d]
    then show "de_skeleton d = de_skeleton e" by simp
    show "list_all2 (merge S a b) (de_children d) (de_children e)"
      by (rule list_all2_mono [OF conjunct2 [OF de]]) (rule merge_mono)
  qed
  show "to_root (f(a := b)) q u" if m: "merge S a b u q" and u: "flex st u" "(f(a := b)) u = u" for u q
  proof -
    have ua: "u \<noteq> a" "f u = u" using u(2) ab by (auto split: if_splits)
    consider "S u q" | "S u a" | "S u b" "S q a" using m by (auto simp: merge_def)
    then show ?thesis
    proof cases
      case 1
      have "to_root f q u" using flex_class(1) [OF c u(1) ua(2) 1] .
      from to_root_link [OF this a(2) b(1) ab] show ?thesis using ua(1) by simp
    next
      case 2
      have "to_root f a u" using flex_class(1) [OF c u(1) ua(2) 2] .
      then show ?thesis using to_root_unique a(2) ua(1) by (metis to_root.root)
    next
      case 3
      have "to_root f b u" using flex_class(1) [OF c u(1) ua(2) 3(1)] .
      then have "u = b" using to_root_unique b(1) by (metis to_root.root)
      moreover have "to_root f q a" using flex_class(1) [OF c a sym [OF 3(2)]] .
      ultimately show ?thesis using to_root_link [OF _ a(2) b(1) ab, of q a] by simp
    qed
  qed
qed

text \<open>Linking a compound type to the root of a congruent one.\<close>

definition congruent :: "ir \<Rightarrow> (ptr \<Rightarrow> ptr \<Rightarrow> bool) \<Rightarrow> ptr \<Rightarrow> ptr \<Rightarrow> bool" where
  "congruent st S a b \<longleftrightarrow> rigid st a \<and> rigid st b \<and>
     (\<exists>d e. decompose st a = Some d \<and> decompose st b = Some e \<and> de_skeleton d = de_skeleton e \<and>
        list_all2 S (de_children d) (de_children e))"

lemma equivp_list_all2_sym: "equivp S \<Longrightarrow> list_all2 S xs ys \<Longrightarrow> list_all2 S ys xs"
  by (rule list_all2_all_nthI) (auto simp: list_all2_lengthD list_all2_nthD2 intro: equivp_symp)

lemma equivp_list_all2_trans: "equivp S \<Longrightarrow> list_all2 S xs ys \<Longrightarrow> list_all2 S ys zs \<Longrightarrow> list_all2 S xs zs"
  by (rule list_all2_trans [of S S S]) (auto intro: equivp_transp)

lemma congruent_sym: "congruence st f S \<Longrightarrow> congruent st S a b \<Longrightarrow> congruent st S b a"
  unfolding congruent_def using equivp_list_all2_sym [OF congruenceD(1)] by metis

lemma congruent_step:
  assumes c: "congruence st f S" and ab: "congruent st S a b" and bx: "S b x" and x: "rigid st x"
    and wf: "ir_wf st"
  shows "congruent st S a x"
proof -
  obtain d e where d: "rigid st a" "rigid st b" "decompose st a = Some d" "decompose st b = Some e"
    "de_skeleton d = de_skeleton e" "list_all2 S (de_children d) (de_children e)"
    using ab by (auto simp: congruent_def)
  obtain y where y: "decompose st x = Some y" using decompose_wf [OF wf, of x] x by (auto simp: rigid_def)
  note s = congruenceD(5) [OF c bx d(2) x d(4) y]
  have "list_all2 S (de_children d) (de_children y)"
    using equivp_list_all2_trans [OF congruenceD(1) [OF c] d(6)] s by blast
  then show ?thesis using d(1,3,5) x y s by (auto simp: congruent_def)
qed

lemma congruence_rigid:
  assumes c: "congruence st f S" and ab: "congruent st S a b" and wf: "ir_wf st"
  shows "congruence st (f(a := b)) (merge S a b)"
  unfolding congruence_def
proof (intro conjI allI impI)
  note sym = congruence_sym [OF c]
  have ra: "rigid st a" and rb: "rigid st b" using ab by (simp_all add: congruent_def)
  then have ty: "get_ty st a \<noteq> None" "get_ty st b \<noteq> None" by (auto simp: rigid_def)
  show "equivp (merge S a b)" using equivp_merge congruenceD(1) [OF c] .
  show "merge S a b p ((f(a := b)) p)" for p
    using congruenceD(2) [OF c, of p] merge_pair [OF congruenceD(1) [OF c], of a b] by (auto simp: merge_def)
  show "get_ty st p \<noteq> None" if "merge S a b p q" "p \<noteq> q" for p q
    using that congruenceD(3) [OF c] ty unfolding merge_def by metis
  show "rigid st ((f(a := b)) p)" if "rigid st p" for p
    using congruenceD(4) [OF c that] rb by simp
  have cases: "congruent st S x y \<or> S x y" if "merge S a b x y" "rigid st x" "rigid st y" for x y
    using that congruent_step [OF c ab _ _ wf] congruent_step [OF c congruent_sym [OF c ab] _ _ wf]
      congruent_step [OF c congruent_sym [OF c] _ _ wf] congruent_sym [OF c] sym
    unfolding merge_def by metis
  have de: "de_skeleton d = de_skeleton e \<and> list_all2 S (de_children d) (de_children e)"
    if m: "merge S a b p q" and r: "rigid st p" "rigid st q"
      and d: "decompose st p = Some d" "decompose st q = Some e" for p q d e
    using cases [OF m r] congruenceD(5) [OF c _ r d] d by (auto simp: congruent_def)
  show "de_skeleton d = de_skeleton e" and "list_all2 (merge S a b) (de_children d) (de_children e)"
    if "merge S a b p q" "rigid st p" "rigid st q" "decompose st p = Some d" "decompose st q = Some e" for p q d e
    using de [OF that] by (auto elim: list_all2_mono intro: merge_mono)
  show "to_root (f(a := b)) q u" if m: "merge S a b u q" and u: "flex st u" "(f(a := b)) u = u" for u q
  proof -
    have ua: "f u = u" using u ra rigid_flex(2) by (auto split: if_splits)
    have "\<not> S u a" "\<not> S u b" using flex_class(2) [OF c u(1) ua] ra rb by blast+
    then have "to_root f q u" using m flex_class(1) [OF c u(1) ua] by (auto simp: merge_def)
    then show ?thesis using u(1)
    proof (induction rule: to_root.induct)
      case (root p)
      then have "p \<noteq> a" using ra rigid_flex(2) by blast
      then show ?case using root.hyps by (simp add: to_root.root)
    next
      case (step p q)
      have "p \<noteq> a"
        using congruence_rigid_root [OF c to_root.step [OF step.hyps]] ra rigid_flex(2) step.prems by blast
      then show ?case using step.hyps(1) step.IH [OF step.prems]
        by (metis fun_upd_other to_root.step)
    qed
  qed
qed

end
