(* ===== verification/Unify.thy ===== *)
theory Unify
  imports EGraph
begin

text \<open>
  \<open>check/infer/unify.rs\<close>: structural unification inside a child version, the transactions that
  commit or discard it, and error recovery.

  The operations that return a \<open>Result\<close> give back the mutated graph on both outcomes: an error
  leaves the child version half-changed, and the caller discards it.
\<close>

section \<open>Errors\<close>

datatype unify_error =
    Mismatch ptr ptr
  | OccursCheck infer_var_index ptr
  | UniverseLeak infer_var_index universe
  | DomainConflict ptr "infer_domain option" ptr "infer_domain option"
  | Reported error_reported

section \<open>Domains\<close>

definition semantic_domain :: "egraph \<Rightarrow> ir \<Rightarrow> version \<Rightarrow> ptr \<Rightarrow> infer_domain option option" where
  "semantic_domain g st v t = do {
     root \<leftarrow> find g v t;
     d \<leftarrow> effective_domain g st v root;
     case d of
       Some domain \<Rightarrow> Some (Some domain)
     | None \<Rightarrow> do {
         tr \<leftarrow> get_ty st root;
         Some (case tr of TyInt _ \<Rightarrow> Some DomInteger | TyUint _ \<Rightarrow> Some DomInteger
               | TyFloat _ \<Rightarrow> Some DomFloat | _ \<Rightarrow> None) } }"

definition domain_conflict :: "egraph \<Rightarrow> ir \<Rightarrow> version \<Rightarrow> ptr \<Rightarrow> ptr \<Rightarrow> unify_error option" where
  "domain_conflict g st v left right = do {
     dl \<leftarrow> semantic_domain g st v left;
     dr \<leftarrow> semantic_domain g st v right;
     Some (DomainConflict left dl right dr) }"

definition compatible_domain ::
  "egraph \<Rightarrow> ir \<Rightarrow> version \<Rightarrow> ptr \<Rightarrow> ptr \<Rightarrow> (unify_error, infer_domain option) result option" where
  "compatible_domain g st v left right = do {
     left \<leftarrow> find g v left;
     right \<leftarrow> find g v right;
     left_domain \<leftarrow> effective_domain g st v left;
     right_domain \<leftarrow> effective_domain g st v right;
     case (left_domain, right_domain) of
       (Some dl, Some dr) \<Rightarrow>
         (case domain_intersect dl dr of
            Some d \<Rightarrow> Some (Inr (Some d))
          | None \<Rightarrow> do { e \<leftarrow> domain_conflict g st v left right; Some (Inl e) })
     | (Some domain, None) \<Rightarrow> do {
         t \<leftarrow> get_ty st right;
         if domain_admits domain t then Some (Inr None)
         else do { e \<leftarrow> domain_conflict g st v left right; Some (Inl e) } }
     | (None, Some domain) \<Rightarrow> do {
         t \<leftarrow> get_ty st left;
         if domain_admits domain t then Some (Inr None)
         else do { e \<leftarrow> domain_conflict g st v left right; Some (Inl e) } }
     | (None, None) \<Rightarrow> Some (Inr None) }"

section \<open>Binding a variable\<close>

partial_function (option) occurs_in ::
  "egraph \<Rightarrow> ir \<Rightarrow> version \<Rightarrow> infer_var_index \<Rightarrow> ptr \<Rightarrow> ptr set \<Rightarrow> (bool \<times> ptr set) option" where
  "occurs_in g st v needle t visited = do {
     t \<leftarrow> find g v t;
     if t \<in> visited then Some (False, visited)
     else do {
       tt \<leftarrow> get_ty st t;
       case infer_var_of tt of
         Some index \<Rightarrow>
           (if index = needle then Some (True, insert t visited)
            else do {
              b \<leftarrow> get_bound g v t;
              case bound_ty b of
                None \<Rightarrow> Some (False, insert t visited)
              | Some bound \<Rightarrow> occurs_in g st v needle bound (insert t visited) })
       | None \<Rightarrow> do {
           d \<leftarrow> decompose st t;
           any_state (occurs_in g st v needle) (de_children d) (insert t visited) } } }"

type_synonym 'a attempt = "(unify_error, 'a) result \<times> egraph"

text \<open>The rigid parameter that a type mentions itself, as a type or as the length of an array.\<close>

fun own_param :: "ty \<Rightarrow> generic_param option" where
  "own_param (TyParam param) = Some param"
| "own_param (TyArray _ (ConstParam param)) = Some param"
| "own_param _ = None"

definition universe_check :: "egraph \<Rightarrow> infer_var_index \<Rightarrow> universe \<Rightarrow> generic_param \<Rightarrow> (unify_error, unit) result" where
  "universe_check g outer_variable ceiling param =
     (if placeholder_universe g param > ceiling then Inl (UniverseLeak outer_variable ceiling) else Inr ())"

partial_function (option) make_accessible ::
  "ir \<Rightarrow> version \<Rightarrow> infer_var_index \<Rightarrow> universe \<Rightarrow> ptr \<Rightarrow> egraph \<times> ptr set \<Rightarrow>
     ((unify_error, unit) result \<times> egraph \<times> ptr set) option" where
  "make_accessible st v outer_variable ceiling t s = (case s of (g, visited) \<Rightarrow> do {
     t \<leftarrow> find g v t;
     if t \<in> visited then Some (Inr (), g, visited)
     else do {
       tt \<leftarrow> get_ty st t;
       (r, s) \<leftarrow> (case own_param tt of
           Some param \<Rightarrow> Some (universe_check g outer_variable ceiling param, g, insert t visited)
         | None \<Rightarrow>
             (case infer_var_of tt of
                None \<Rightarrow> Some (Inr (), g, insert t visited)
              | Some variable \<Rightarrow> do {
                  (g, _) \<leftarrow> lower_universe g v variable ceiling;
                  b \<leftarrow> get_bound g v t;
                  case bound_ty b of
                    None \<Rightarrow> Some (Inr (), g, insert t visited)
                  | Some bound \<Rightarrow> make_accessible st v outer_variable ceiling bound (g, insert t visited) }));
       case r of
         Inl e \<Rightarrow> Some (Inl e, s)
       | Inr _ \<Rightarrow> do {
           d \<leftarrow> decompose st t;
           try_each (make_accessible st v outer_variable ceiling) (de_children d) s } } })"

definition bind_variable ::
  "egraph \<Rightarrow> ir \<Rightarrow> version \<Rightarrow> ptr \<Rightarrow> infer_var_index \<Rightarrow> ptr \<Rightarrow> unit attempt option" where
  "bind_variable g st v variable_ty variable val = do {
     (occ, _) \<leftarrow> occurs_in g st v variable val {};
     if occ then Some (Inl (OccursCheck variable val), g)
     else do {
       ceiling \<leftarrow> current_universe g v variable;
       (r, g, _) \<leftarrow> make_accessible st v variable ceiling val (g, {});
       case r of
         Inl e \<Rightarrow> Some (Inl e, g)
       | Inr _ \<Rightarrow> do {
           (g, _) \<leftarrow> set_bound_in g st v variable_ty (Exactly val);
           (g, _) \<leftarrow> union g st v variable_ty val;
           Some (Inr (), g) } } }"

section \<open>Unification\<close>

definition unify_vars ::
  "egraph \<Rightarrow> ir \<Rightarrow> version \<Rightarrow> ptr \<Rightarrow> infer_var_index \<Rightarrow> ptr \<Rightarrow> infer_var_index \<Rightarrow> unit attempt option" where
  "unify_vars g st v left left_var right right_var = do {
     r \<leftarrow> compatible_domain g st v left right;
     case r of
       Inl e \<Rightarrow> Some (Inl e, g)
     | Inr d \<Rightarrow> do {
         domain \<leftarrow> d;
         ul \<leftarrow> current_universe g v left_var;
         ur \<leftarrow> current_universe g v right_var;
         let common_ceiling = min ul ur;
         (g, _) \<leftarrow> lower_universe g v left_var common_ceiling;
         (g, _) \<leftarrow> lower_universe g v right_var common_ceiling;
         (g, root) \<leftarrow> union g st v left right;
         (g, _) \<leftarrow> set_domain_in g st v root domain;
         Some (Inr (), g) } }"

definition unify_var ::
  "egraph \<Rightarrow> ir \<Rightarrow> version \<Rightarrow> ptr \<Rightarrow> ptr \<Rightarrow> ptr \<Rightarrow> infer_var_index \<Rightarrow> ptr \<Rightarrow> unit attempt option" where
  "unify_var g st v left right variable_ty variable val = do {
     r \<leftarrow> compatible_domain g st v left right;
     case r of
       Inl e \<Rightarrow> Some (Inl e, g)
     | Inr _ \<Rightarrow> bind_variable g st v variable_ty variable val }"

text \<open>The arms of \<open>match (stash[left], stash[right])\<close>.\<close>

datatype pair_case =
    PairError error_reported
  | PairVars infer_var_index infer_var_index
  | PairVarLeft infer_var_index
  | PairVarRight infer_var_index
  | PairRigid

definition classify_pair :: "ty \<Rightarrow> ty \<Rightarrow> pair_case" where
  "classify_pair lt rt =
     (if lt = TyError () \<or> rt = TyError () then PairError ()
      else case (infer_var_of lt, infer_var_of rt) of
        (Some left_var, Some right_var) \<Rightarrow> PairVars left_var right_var
      | (Some variable, None) \<Rightarrow> PairVarLeft variable
      | (None, Some variable) \<Rightarrow> PairVarRight variable
      | (None, None) \<Rightarrow> PairRigid)"

definition add_dependents :: "version \<Rightarrow> ptr \<Rightarrow> ptr list \<Rightarrow> egraph \<Rightarrow> egraph option" where
  "add_dependents v parent cs g = fold_state (\<lambda>c g. add_dependent g v c parent) cs g"

partial_function (option) unify_in_probe ::
  "ir \<Rightarrow> version \<Rightarrow> ptr \<times> ptr \<Rightarrow> egraph \<Rightarrow> unit attempt option" where
  "unify_in_probe st v eq g = do {
     (g, left) \<leftarrow> find_mut g v (fst eq);
     (g, right) \<leftarrow> find_mut g v (snd eq);
     if left = right then Some (Inr (), g)
     else do {
       tl \<leftarrow> get_ty st left;
       tr \<leftarrow> get_ty st right;
       case classify_pair tl tr of
         PairError error \<Rightarrow> Some (Inl (Reported error), g)
       | PairVars left_var right_var \<Rightarrow> unify_vars g st v left left_var right right_var
       | PairVarLeft variable \<Rightarrow> unify_var g st v left right left variable right
       | PairVarRight variable \<Rightarrow> unify_var g st v left right right variable left
       | PairRigid \<Rightarrow> do {
           dl \<leftarrow> decompose st left;
           dr \<leftarrow> decompose st right;
           if de_skeleton dl \<noteq> de_skeleton dr \<or> length (de_children dl) \<noteq> length (de_children dr)
           then Some (Inl (Mismatch left right), g)
           else do {
             g \<leftarrow> add_dependents v left (de_children dl) g;
             g \<leftarrow> add_dependents v right (de_children dr) g;
             (r, g) \<leftarrow> try_each (unify_in_probe st v) (zip (de_children dl) (de_children dr)) g;
             case r of
               Inl e \<Rightarrow> Some (Inl e, g)
             | Inr _ \<Rightarrow> do {
                 (g, _) \<leftarrow> union g st v left right;
                 Some (Inr (), g) } } } } }"

section \<open>Transactions\<close>

definition try_probe ::
  "(ptr set \<Rightarrow> ptr list) \<Rightarrow> egraph \<Rightarrow> ir \<Rightarrow> version \<Rightarrow>
     (egraph \<Rightarrow> ir \<Rightarrow> version \<Rightarrow> ((unify_error, 'a) result \<times> egraph \<times> ir) option) \<Rightarrow>
     ((unify_error, 'a \<times> commit_effects) result \<times> egraph \<times> ir) option" where
  "try_probe ord g st parent operation = do {
     (g, child) \<leftarrow> branch_from g parent;
     (r, g, st) \<leftarrow> operation g st child;
     case r of
       Inr val \<Rightarrow> do {
         (g, st, _) \<leftarrow> rebuild ord g child st;
         (g, effects) \<leftarrow> collapse_into g child parent;
         Some (Inr (val, effects), g, st) }
     | Inl e \<Rightarrow> do {
         g \<leftarrow> discard g child;
         Some (Inl e, g, st) } }"

definition map_ok :: "('a \<Rightarrow> 'b) \<Rightarrow> ('e, 'a) result \<Rightarrow> ('e, 'b) result" where
  "map_ok f r = (case r of Inl e \<Rightarrow> Inl e | Inr x \<Rightarrow> Inr (f x))"

definition try_unify_batch ::
  "(ptr set \<Rightarrow> ptr list) \<Rightarrow> egraph \<Rightarrow> ir \<Rightarrow> version \<Rightarrow> (ptr \<times> ptr) list \<Rightarrow>
     ((unify_error, commit_effects) result \<times> egraph \<times> ir) option" where
  "try_unify_batch ord g st parent equalities = do {
     (r, g, st) \<leftarrow> try_probe ord g st parent (\<lambda>g st child. do {
         (r, g) \<leftarrow> try_each (unify_in_probe st child) equalities g;
         Some (r, g, st) });
     Some (map_ok snd r, g, st) }"

definition try_unify ::
  "(ptr set \<Rightarrow> ptr list) \<Rightarrow> egraph \<Rightarrow> ir \<Rightarrow> version \<Rightarrow> ptr \<Rightarrow> ptr \<Rightarrow>
     ((unify_error, commit_effects) result \<times> egraph \<times> ir) option" where
  "try_unify ord g st parent left right = try_unify_batch ord g st parent [(left, right)]"

definition set_bound_operation ::
  "ptr \<Rightarrow> bound \<Rightarrow> egraph \<Rightarrow> ir \<Rightarrow> version \<Rightarrow> ((unify_error, unit) result \<times> egraph \<times> ir) option" where
  "set_bound_operation variable_ty bound g st child = do {
     variable_ty \<leftarrow> find g child variable_ty;
     t \<leftarrow> get_ty st variable_ty;
     case infer_var_of t of
       None \<Rightarrow> Some (Inl (Mismatch variable_ty
                 (case bound_ty bound of Some b \<Rightarrow> b | None \<Rightarrow> variable_ty)), g, st)
     | Some variable \<Rightarrow> do {
         (r, g) \<leftarrow> (case bound of
             BoundNone \<Rightarrow> Some (Inr (), g)
           | AtLeast bt \<Rightarrow> do {
               ceiling \<leftarrow> current_universe g child variable;
               (r, g, _) \<leftarrow> make_accessible st child variable ceiling bt (g, {});
               Some (r, g) }
           | Exactly bt \<Rightarrow> unify_in_probe st child (variable_ty, bt) g);
         case r of
           Inl e \<Rightarrow> Some (Inl e, g, st)
         | Inr _ \<Rightarrow> do {
             (g, _) \<leftarrow> set_bound_in g st child variable_ty bound;
             Some (Inr (), g, st) } } }"

definition try_set_bound ::
  "(ptr set \<Rightarrow> ptr list) \<Rightarrow> egraph \<Rightarrow> ir \<Rightarrow> version \<Rightarrow> ptr \<Rightarrow> bound \<Rightarrow>
     ((unify_error, commit_effects) result \<times> egraph \<times> ir) option" where
  "try_set_bound ord g st parent variable_ty bound = do {
     (r, g, st) \<leftarrow> try_probe ord g st parent (set_bound_operation variable_ty bound);
     Some (map_ok snd r, g, st) }"

definition recovery_operation ::
  "ptr \<Rightarrow> ptr \<Rightarrow> egraph \<Rightarrow> ir \<Rightarrow> version \<Rightarrow> ((unify_error, unit) result \<times> egraph \<times> ir) option" where
  "recovery_operation variable_ty error_ty g st child = do {
     variable_ty \<leftarrow> find g child variable_ty;
     error_ty \<leftarrow> find g child error_ty;
     tv \<leftarrow> get_ty st variable_ty;
     if \<not> is_infer_var tv then Some (Inl (Mismatch variable_ty error_ty), g, st)
     else do {
       te \<leftarrow> get_ty st error_ty;
       if te \<noteq> TyError () then Some (Inl (Mismatch variable_ty error_ty), g, st)
       else do {
         d \<leftarrow> effective_domain g st child variable_ty;
         domain \<leftarrow> d;
         check (domain_admits domain te);
         (g, _) \<leftarrow> set_bound_in g st child variable_ty (Exactly error_ty);
         (g, _) \<leftarrow> union g st child variable_ty error_ty;
         Some (Inr (), g, st) } } }"

definition install_error_recovery ::
  "(ptr set \<Rightarrow> ptr list) \<Rightarrow> egraph \<Rightarrow> ir \<Rightarrow> version \<Rightarrow> ptr \<Rightarrow> ptr \<Rightarrow>
     ((unify_error, commit_effects) result \<times> egraph \<times> ir) option" where
  "install_error_recovery ord g st parent variable_ty error_ty = do {
     (r, g, st) \<leftarrow> try_probe ord g st parent (recovery_operation variable_ty error_ty);
     Some (map_ok snd r, g, st) }"

section \<open>Required equalities\<close>

record required_unify_failure =
  rf_error :: unify_error
  rf_affected :: "infer_var_index list"

definition unresolved_root :: "egraph \<Rightarrow> ir \<Rightarrow> version \<Rightarrow> ptr \<Rightarrow> ptr list option" where
  "unresolved_root g st v t = do {
     root \<leftarrow> find g v t;
     tr \<leftarrow> get_ty st root;
     Some (if is_infer_var tr then [root] else []) }"

definition affected_variables ::
  "egraph \<Rightarrow> ir \<Rightarrow> version \<Rightarrow> version \<Rightarrow> ptr \<Rightarrow> ptr \<Rightarrow> (infer_var_index list \<times> ir) option" where
  "affected_variables g st parent child left right = do {
     rl \<leftarrow> unresolved_root g st child left;
     rr \<leftarrow> unresolved_root g st child right;
     let roots = rl @ rr;
     visible \<leftarrow> visible_variables (eg_versions g) parent;
     (found, st) \<leftarrow> map_state (\<lambda>variable st. do {
         let (st, t) = alloc_ty st (TyInferVar variable);
         r \<leftarrow> find g child t;
         Some (if r \<in> set roots then [variable] else [], st) }) visible st;
     Some (concat found, st) }"

definition try_unify_required ::
  "(ptr set \<Rightarrow> ptr list) \<Rightarrow> egraph \<Rightarrow> ir \<Rightarrow> version \<Rightarrow> ptr \<Rightarrow> ptr \<Rightarrow>
     ((required_unify_failure, commit_effects) result \<times> egraph \<times> ir) option" where
  "try_unify_required ord g st parent left right = do {
     (g, child) \<leftarrow> branch_from g parent;
     (r, g) \<leftarrow> unify_in_probe st child (left, right) g;
     case r of
       Inr _ \<Rightarrow> do {
         (g, st, _) \<leftarrow> rebuild ord g child st;
         (g, effects) \<leftarrow> collapse_into g child parent;
         Some (Inr effects, g, st) }
     | Inl error \<Rightarrow> do {
         (affected, st) \<leftarrow> (case error of
             DomainConflict left _ right _ \<Rightarrow> affected_variables g st parent child left right
           | _ \<Rightarrow> Some ([], st));
         g \<leftarrow> discard g child;
         Some (Inl \<lparr>rf_error = error, rf_affected = affected\<rparr>, g, st) } }"

declare occurs_in.simps [simp del, code] and make_accessible.simps [simp del, code] and unify_in_probe.simps [simp del, code]

end
