(* ===== verification/UnifyCorrect.thy ===== *)
theory UnifyCorrect
  imports Solutions Unify
begin

text \<open>
  Unification is sound and most general: an accepted equation adds itself, and nothing else, to the
  solutions of the version it works on; a mismatch is reported only when no solution satisfies the
  equation.  The rebuild of a committed version changes no solution.
\<close>

section \<open>Larger arenas\<close>

lemma rigid_ext: "arena_ext st st' \<Longrightarrow> rigid st p \<Longrightarrow> rigid st' p"
  by (auto simp: rigid_def dest: get_ty_ext)

lemma flex_ext: "arena_ext st st' \<Longrightarrow> flex st p \<Longrightarrow> flex st' p"
  by (auto simp: flex_def dest: get_ty_ext)

lemma typed_ext:
  assumes "arena_ext st st'" and "get_ty st p \<noteq> None"
  shows "rigid st' p \<longleftrightarrow> rigid st p" and "flex st' p \<longleftrightarrow> flex st p"
  using assms get_ty_ext [OF assms(1)] by (auto simp: rigid_def flex_def)

lemma structural_ext: "arena_ext st st' \<Longrightarrow> structural st' I \<Longrightarrow> structural st I"
  unfolding structural_def using rigid_ext decompose_ext by blast

lemma congruence_ext:
  assumes c: "congruence st f S" and ext: "arena_ext st st'" and wf: "ir_wf st"
  shows "congruence st' f S"
  unfolding congruence_def
proof (intro conjI allI impI)
  note new = congruenceD(3) [OF c]
  have fix1: "f p = p" if "get_ty st p = None" for p
    using new [OF congruenceD(2) [OF c, of p]] that by metis
  show "equivp S" using congruenceD(1) [OF c] .
  show "S p (f p)" for p using congruenceD(2) [OF c] .
  show "get_ty st' p \<noteq> None" if "S p q" "p \<noteq> q" for p q
    using new [OF that] get_ty_ext [OF ext] by fastforce
  show "rigid st' (f p)" if "rigid st' p" for p
    using that congruenceD(4) [OF c] typed_ext(1) [OF ext] rigid_ext [OF ext] fix1 by metis
  have "de_skeleton d = de_skeleton e \<and> list_all2 S (de_children d) (de_children e)"
    if s: "S p q" and r: "rigid st' p" "rigid st' q" and d: "decompose st' p = Some d" "decompose st' q = Some e" for p q d e
  proof (cases "p = q")
    case True
    then show ?thesis using d congruence_refl [OF c] by (simp add: list_all2_refl)
  next
    case False
    then have ty: "get_ty st p \<noteq> None" "get_ty st q \<noteq> None"
      using new s congruence_sym [OF c s] by blast+
    then obtain d' e' where "decompose st p = Some d'" "decompose st q = Some e'"
      using decompose_wf [OF wf] by metis
    moreover from this have "d' = d" "e' = e" using d decompose_ext [OF ext] by fastforce+
    moreover have "rigid st p" "rigid st q" using r typed_ext(1) [OF ext] ty by auto
    ultimately show ?thesis using congruenceD(5) [OF c s] by blast
  qed
  then show "de_skeleton d = de_skeleton e" and "list_all2 S (de_children d) (de_children e)"
    if "S p q" "rigid st' p" "rigid st' q" "decompose st' p = Some d" "decompose st' q = Some e" for p q d e
    using that by blast+
  show "to_root f q u" if s: "S u q" and u: "flex st' u" "f u = u" for u q
  proof (cases "u = q")
    case True
    then show ?thesis using u(2) by (simp add: to_root.root)
  next
    case False
    then have "flex st u" using new [OF s] u(1) typed_ext(2) [OF ext] by blast
    then show ?thesis using congruenceD(6) [OF c s _ u(2)] by blast
  qed
qed

section \<open>Steps that add equations\<close>

text \<open>From \<open>g\<close> to \<open>g'\<close> the version \<open>v\<close> gains the equations \<open>E\<close> and nothing more.\<close>

definition gains :: "ir \<Rightarrow> egraph \<Rightarrow> ir \<Rightarrow> egraph \<Rightarrow> version \<Rightarrow> (ptr \<times> ptr) set \<Rightarrow> bool" where
  "gains st g st' g' v E \<longleftrightarrow> (\<forall>S. congruence st (par g v) S \<longrightarrow>
     (\<exists>S'. congruence st' (par g' v) S' \<and> (\<forall>p q. S p q \<longrightarrow> S' p q) \<and> (\<forall>(a, b) \<in> E. S' a b) \<and>
        (\<forall>I. obeys st' S I \<longrightarrow> (\<forall>(a, b) \<in> E. I a = I b) \<longrightarrow> obeys st' S' I)))"

definition refutes :: "ir \<Rightarrow> egraph \<Rightarrow> version \<Rightarrow> (ptr \<times> ptr) set \<Rightarrow> bool" where
  "refutes st g v E \<longleftrightarrow>
     (\<forall>S I. congruence st (par g v) S \<longrightarrow> obeys st S I \<longrightarrow> (\<exists>(a, b) \<in> E. I a \<noteq> I b))"

lemma gainsI:
  "(\<And>S. congruence st (par g v) S \<Longrightarrow>
      \<exists>S'. congruence st' (par g' v) S' \<and> (\<forall>p q. S p q \<longrightarrow> S' p q) \<and> (\<forall>(a, b) \<in> E. S' a b) \<and>
        (\<forall>I. obeys st' S I \<longrightarrow> (\<forall>(a, b) \<in> E. I a = I b) \<longrightarrow> obeys st' S' I)) \<Longrightarrow> gains st g st' g' v E"
  by (simp add: gains_def)

lemma gainsE:
  assumes "gains st g st' g' v E" and "congruence st (par g v) S"
  obtains S' where "congruence st' (par g' v) S'" and "\<And>p q. S p q \<Longrightarrow> S' p q"
    and "\<And>a b. (a, b) \<in> E \<Longrightarrow> S' a b"
    and "\<And>I. obeys st' S I \<Longrightarrow> (\<And>a b. (a, b) \<in> E \<Longrightarrow> I a = I b) \<Longrightarrow> obeys st' S' I"
proof -
  obtain S' where s: "congruence st' (par g' v) S' \<and> (\<forall>p q. S p q \<longrightarrow> S' p q) \<and> (\<forall>(a, b) \<in> E. S' a b) \<and>
        (\<forall>I. obeys st' S I \<longrightarrow> (\<forall>(a, b) \<in> E. I a = I b) \<longrightarrow> obeys st' S' I)"
    using assms unfolding gains_def by blast
  show thesis by (rule that [of S']) (use s in auto)
qed

lemma gains_same: "par g' v = par g v \<Longrightarrow> gains st g st g' v {}"
  by (rule gainsI) (auto intro: exI)

lemma gains_refl: "gains st g st g v {(a, a)}"
proof (rule gainsI)
  fix S assume c: "congruence st (par g v) S"
  then show "\<exists>S'. congruence st (par g v) S' \<and> (\<forall>p q. S p q \<longrightarrow> S' p q) \<and> (\<forall>(b, c) \<in> {(a, a)}. S' b c) \<and>
      (\<forall>I. obeys st S I \<longrightarrow> (\<forall>(b, c) \<in> {(a, a)}. I b = I c) \<longrightarrow> obeys st S' I)"
    using congruence_refl [OF c] by (intro exI [of _ S]) simp
qed

lemma gains_quiet: "quiet v g g' \<Longrightarrow> gains st g st g' v {}"
  by (simp add: gains_same quiet_par)

lemma gains_ext: "arena_ext st st' \<Longrightarrow> ir_wf st \<Longrightarrow> gains st g st' g v {}"
  by (rule gainsI) (auto intro: congruence_ext)

lemma gains_trans:
  assumes 1: "gains st g st1 g1 v E" and 2: "gains st1 g1 st2 g2 v F" and ext: "arena_ext st1 st2"
  shows "gains st g st2 g2 v (E \<union> F)"
proof (rule gainsI)
  fix S assume "congruence st (par g v) S"
  with 1 obtain S1 where s1: "congruence st1 (par g1 v) S1" "\<And>p q. S p q \<Longrightarrow> S1 p q"
    "\<And>a b. (a, b) \<in> E \<Longrightarrow> S1 a b"
    "\<And>I. obeys st1 S I \<Longrightarrow> (\<And>a b. (a, b) \<in> E \<Longrightarrow> I a = I b) \<Longrightarrow> obeys st1 S1 I" by (rule gainsE) blast
  from 2 s1(1) obtain S2 where s2: "congruence st2 (par g2 v) S2" "\<And>p q. S1 p q \<Longrightarrow> S2 p q"
    "\<And>a b. (a, b) \<in> F \<Longrightarrow> S2 a b"
    "\<And>I. obeys st2 S1 I \<Longrightarrow> (\<And>a b. (a, b) \<in> F \<Longrightarrow> I a = I b) \<Longrightarrow> obeys st2 S2 I" by (rule gainsE) blast
  have "obeys st2 S2 I" if o: "obeys st2 S I" "\<forall>(a, b) \<in> E \<union> F. I a = I b" for I
  proof (rule s2(4))
    have "obeys st1 S I" using o(1) structural_ext [OF ext] by (simp add: obeys_def)
    then have "obeys st1 S1 I" using o(2) s1(4) by blast
    then show "obeys st2 S1 I" using o(1) by (simp add: obeys_def)
  qed (use o in blast)
  then show "\<exists>S'. congruence st2 (par g2 v) S' \<and> (\<forall>p q. S p q \<longrightarrow> S' p q) \<and> (\<forall>(a, b) \<in> E \<union> F. S' a b) \<and>
        (\<forall>I. obeys st2 S I \<longrightarrow> (\<forall>(a, b) \<in> E \<union> F. I a = I b) \<longrightarrow> obeys st2 S' I)"
    using s1 s2 by blast
qed

lemma refutes_later:
  assumes 1: "gains st g st g1 v E" and 2: "refutes st g1 v F"
  shows "refutes st g v (E \<union> F)"
  unfolding refutes_def
proof (intro allI impI)
  fix S I assume c: "congruence st (par g v) S" and o: "obeys st S I"
  from 1 c obtain S1 where "congruence st (par g1 v) S1"
    "\<And>I. obeys st S I \<Longrightarrow> (\<And>a b. (a, b) \<in> E \<Longrightarrow> I a = I b) \<Longrightarrow> obeys st S1 I" by (rule gainsE) blast
  then show "\<exists>(a, b) \<in> E \<union> F. I a \<noteq> I b" using 2 o unfolding refutes_def by blast
qed

lemma refutes_mono: "refutes st g v E \<Longrightarrow> E \<subseteq> F \<Longrightarrow> refutes st g v F"
  unfolding refutes_def by blast

text \<open>Equations may be moved along a congruence.\<close>

lemma gains_find_mut:
  assumes ok: "egraph_ok g" and f: "find_mut g v t = Some (g', r)"
  shows "gains st g st g' v {}"
proof (rule gainsI)
  note ff = find_mut_facts [OF ok f]
  fix S assume "congruence st (par g v) S"
  then have "congruence st (par g' v) S"
    by (rule congruence_compress [OF _ egraph_okD(3) [OF ok ff(3)] ff(6,7)])
  then show "\<exists>S'. congruence st (par g' v) S' \<and> (\<forall>p q. S p q \<longrightarrow> S' p q) \<and> (\<forall>(a, b) \<in> {}. S' a b) \<and>
        (\<forall>I. obeys st S I \<longrightarrow> (\<forall>(a, b) \<in> {}. I a = I b) \<longrightarrow> obeys st S' I)" by auto
qed

text \<open>The union of two classes, when rigid roots are congruent.\<close>

lemma union_step:
  assumes ok: "egraph_ok g" and wf: "ir_wf st" and r: "union g st v a b = Some (g', root)"
    and c: "congruence st (par g v) S"
    and H: "\<And>x y. S a x \<Longrightarrow> S b y \<Longrightarrow> rigid st x \<Longrightarrow> rigid st y \<Longrightarrow> congruent st S x y"
  shows "\<exists>S'. congruence st (par g' v) S' \<and> (\<forall>p q. S p q \<longrightarrow> S' p q) \<and> S' a b \<and>
    (\<forall>I. obeys st S I \<longrightarrow> I a = I b \<longrightarrow> obeys st S' I)"
proof -
  obtain ra rb where ta: "to_root (par g v) a ra" and tb: "to_root (par g v) b rb"
    and same: "ra = rb \<Longrightarrow> g' = g \<and> root = ra"
    and ty: "ra \<noteq> rb \<Longrightarrow> get_ty st ra \<noteq> None \<and> get_ty st rb \<noteq> None"
    and var: "ra \<noteq> rb \<Longrightarrow> map_option is_infer_var (get_ty st ra) = Some True \<Longrightarrow> par g' v = (par g v)(ra := rb) \<and> root = rb"
    and rig: "ra \<noteq> rb \<Longrightarrow> map_option is_infer_var (get_ty st ra) = Some False \<Longrightarrow> par g' v = (par g v)(rb := ra) \<and> root = ra"
    by (rule union_facts [OF ok r]) blast
  have s: "S a ra" "S b rb" using ta tb congruence_root [OF c] by blast+
  show ?thesis
  proof (cases "ra = rb")
    case True
    then have "S a b" using s congruence_trans [OF c] congruence_sym [OF c] by blast
    then show ?thesis using c same True by blast
  next
    case False
    note roots = to_root_root [OF ta] to_root_root [OF tb]
    have link: "\<exists>x y. (x = ra \<and> y = rb \<or> x = rb \<and> y = ra) \<and> congruence st (par g' v) (merge S x y)"
    proof (cases "flex st ra")
      case True
      then have "par g' v = (par g v)(ra := rb)" using var [OF False] by (auto simp: flex_def)
      then show ?thesis using congruence_bind [OF c True roots _ False] ty [OF False] by auto
    next
      case ra: False
      then have rra: "rigid st ra" using ty [OF False] rigid_flex(1) by blast
      then have p: "par g' v = (par g v)(rb := ra)" using rig [OF False] by (auto simp: rigid_def)
      show ?thesis
      proof (cases "flex st rb")
        case True
        then show ?thesis using congruence_bind [OF c True roots(2,1)] ty [OF False] False p by auto
      next
        case rb: False
        then have "rigid st rb" using ty [OF False] rigid_flex(1) by blast
        then have "congruent st S rb ra" using congruent_sym [OF c H [OF s rra]] by blast
        then show ?thesis using congruence_rigid [OF c _ wf] p by auto
      qed
    qed
    then obtain x y where xy: "x = ra \<and> y = rb \<or> x = rb \<and> y = ra" and m: "congruence st (par g' v) (merge S x y)" by blast
    have "merge S x y a b" using s xy by (auto simp: merge_def)
    moreover have "obeys st (merge S x y) I" if "obeys st S I" "I a = I b" for I
    proof -
      have "I a = I ra" "I b = I rb" using that(1) s by (auto simp: obeys_def)
      then show ?thesis using obeys_merge [OF that(1), of x y] that(2) xy by auto
    qed
    ultimately show ?thesis using m merge_mono [of S] by blast
  qed
qed

section \<open>What the parts of unification change\<close>

definition leak :: "(unify_error, unit) result \<Rightarrow> bool" where
  "leak r \<longleftrightarrow> (\<forall>e. r = Inl e \<longrightarrow> (\<exists>i u. e = UniverseLeak i u))"

lemma make_accessible_facts:
  "make_accessible st v ov u t s = Some y \<Longrightarrow> quiet v (fst s) (fst (snd y)) \<and> leak (fst y)"
proof (induction rule: make_accessible.raw_induct [rotated 1, consumes 1, case_names step])
  case (step ma st v ov u t s y)
  obtain g vis where s: "s = (g, vis)" by (cases s)
  obtain r g' vis' where y: "y = (r, g', vis')" by (cases y)
  from step.hyps [unfolded s y] obtain t' where f: "find g v t = Some t'" by (auto simp: opt_simps)
  show ?case
  proof (cases "t' \<in> vis")
    case True
    then show ?thesis using step.hyps f unfolding s y by (auto simp: leak_def)
  next
    case False
    obtain tt r1 g1 vis1 where tt: "get_ty st t' = Some tt"
      and m: "(case own_param tt of
           Some param \<Rightarrow> Some (universe_check g ov u param, g, insert t' vis)
         | None \<Rightarrow> (case infer_var_of tt of
                None \<Rightarrow> Some (Inr (), g, insert t' vis)
              | Some variable \<Rightarrow> do {
                  (g, _) \<leftarrow> lower_universe g v variable u;
                  b \<leftarrow> get_bound g v t';
                  case bound_ty b of
                    None \<Rightarrow> Some (Inr (), g, insert t' vis)
                  | Some bound \<Rightarrow> ma st v ov u bound (g, insert t' vis) })) = Some (r1, g1, vis1)"
      and rest: "(case r1 of
         Inl e \<Rightarrow> Some (Inl e, g1, vis1)
       | Inr _ \<Rightarrow> do {
           d \<leftarrow> decompose st t';
           try_each (ma st v ov u) (de_children d) (g1, vis1) }) = Some (r, g', vis')"
      using step.hyps f False unfolding s y by (auto simp: opt_simps)
    have 1: "quiet v g g1 \<and> leak r1"
    proof (cases "own_param tt")
      case (Some param)
      then show ?thesis using m by (auto simp: universe_check_def leak_def split: if_splits)
    next
      case None
      show ?thesis
      proof (cases "infer_var_of tt")
        case None
        then show ?thesis using m \<open>own_param tt = None\<close> by (auto simp: leak_def)
      next
        case (Some i)
        then obtain g0 b bd where l: "lower_universe g v i u = Some (g0, b)"
          and k: "(case bound_ty bd of None \<Rightarrow> Some (Inr (), g0, insert t' vis)
                  | Some bound \<Rightarrow> ma st v ov u bound (g0, insert t' vis)) = Some (r1, g1, vis1)"
          using m None by (auto simp: opt_simps)
        have "quiet v g0 g1 \<and> leak r1"
        proof (cases "bound_ty bd")
          case None
          then show ?thesis using k by (auto simp: leak_def)
        next
          case (Some c)
          with k have "ma st v ov u c (g0, insert t' vis) = Some (r1, g1, vis1)" by simp
          from step.IH [OF this] show ?thesis by simp
        qed
        then show ?thesis using quiet_trans [OF lower_universe_quiet [OF l]] by blast
      qed
    qed
    have "quiet v g1 g' \<and> leak r"
    proof (cases r1)
      case (Inl e)
      then show ?thesis using rest 1 by (auto simp: leak_def)
    next
      case (Inr x)
      with rest obtain d :: decomposed where t: "try_each (ma st v ov u) (de_children d) (g1, vis1) = Some (r, g', vis')"
        by (cases "decompose st t'") auto
      have each: "quiet v (fst w) (fst w') \<and> leak q" if "ma st v ov u x w = Some (q, w')" for x w q w'
        using step.IH [OF that] by simp
      have "quiet v g1 (fst (g', vis'))"
      proof (rule try_each_inv [OF t, where P = "\<lambda>s. quiet v g1 (fst s)"])
        show "quiet v g1 (fst w')" if "quiet v g1 (fst w)" "ma st v ov u x w = Some (q, w')" for x w q w'
          using quiet_trans [OF that(1)] each [OF that(2)] by blast
      qed simp
      moreover have "leak r"
        unfolding leak_def
      proof (intro allI impI)
        fix e assume "r = Inl e"
        with try_each_error [of "ma st v ov u"] t
        obtain x w where "ma st v ov u x w = Some (Inl e, g', vis')" by blast
        then show "\<exists>i u. e = UniverseLeak i u" using each by (simp add: leak_def)
      qed
      ultimately show ?thesis by simp
    qed
    then show ?thesis using 1 quiet_trans unfolding s y by auto
  qed
qed

lemma union_keeps: "egraph_ok g \<Longrightarrow> union g st v a b = Some (g', r) \<Longrightarrow> only_at v g g' \<and> egraph_ok g' \<and> live g v \<and> kids g v = []"
  by (erule (1) union_facts) blast

lemma union_var_gains:
  assumes ok: "egraph_ok g" and wf: "ir_wf st" and r: "union g st v a b = Some (g', r)"
    and a: "flex st a" "par g v a = a"
  shows "gains st g st g' v {(a, b)}"
proof (rule gainsI)
  fix S assume c: "congruence st (par g v) S"
  have "\<not> rigid st x" if "S a x" for x using flex_class(2) [OF c a that] .
  then have "\<exists>S'. congruence st (par g' v) S' \<and> (\<forall>p q. S p q \<longrightarrow> S' p q) \<and> S' a b \<and>
    (\<forall>I. obeys st S I \<longrightarrow> I a = I b \<longrightarrow> obeys st S' I)"
    by (intro union_step [OF ok wf r c]) blast
  then show "\<exists>S'. congruence st (par g' v) S' \<and> (\<forall>p q. S p q \<longrightarrow> S' p q) \<and> (\<forall>(a, b) \<in> {(a, b)}. S' a b) \<and>
        (\<forall>I. obeys st S I \<longrightarrow> (\<forall>(a, b) \<in> {(a, b)}. I a = I b) \<longrightarrow> obeys st S' I)" by simp
qed

definition explains :: "ir \<Rightarrow> egraph \<Rightarrow> version \<Rightarrow> (ptr \<times> ptr) set \<Rightarrow> (unify_error, 'a) result \<Rightarrow> bool" where
  "explains st g v E r \<longleftrightarrow> (\<forall>a b. r = Inl (Mismatch a b) \<longrightarrow> refutes st g v E)"

definition outcome :: "ir \<Rightarrow> version \<Rightarrow> (ptr \<times> ptr) set \<Rightarrow> egraph \<Rightarrow> unit attempt \<Rightarrow> bool" where
  "outcome st v E g y \<longleftrightarrow> only_at v g (snd y) \<and> egraph_ok (snd y) \<and>
     (fst y = Inr () \<longrightarrow> gains st g st (snd y) v E) \<and> explains st g v E (fst y)"

lemma outcome_before:
  assumes "only_at v g h" and "gains st g st h v {}" and "outcome st v E h y"
  shows "outcome st v E g y"
  unfolding outcome_def
proof (intro conjI impI)
  note o = assms(3) [unfolded outcome_def]
  show "only_at v g (snd y)" using assms(1) o by (blast intro: only_at_trans)
  show "egraph_ok (snd y)" using o by blast
  show "gains st g st (snd y) v E" if "fst y = Inr ()"
    using gains_trans [OF assms(2), of st "snd y" E] o that by simp
  show "explains st g v E (fst y)"
    using o refutes_later [OF assms(2), of E] by (auto simp: explains_def)
qed

lemma outcome_quiet:
  "quiet v g h \<Longrightarrow> outcome st v E h y \<Longrightarrow> outcome st v E g y"
  by (rule outcome_before [OF quiet_only gains_quiet])

lemma outcome_after:
  assumes "outcome st v E g (Inr (), h)" and "quiet v h k" and "live g v" and "kids g v = []"
  shows "outcome st v E g (Inr (), k)"
  using assms gains_trans [OF _ gains_quiet [OF assms(2)], of st g st E]
    quiet_ok [OF _ assms(2)] only_at_trans [OF _ quiet_only [OF assms(2)], of g]
  by (auto simp: outcome_def explains_def only_at_def)

lemma outcome_failed:
  "quiet v g h \<Longrightarrow> egraph_ok g \<Longrightarrow> live g v \<Longrightarrow> kids g v = [] \<Longrightarrow> (\<And>a b. e \<noteq> Mismatch a b) \<Longrightarrow> outcome st v E g (Inl e, h)"
  using quiet_ok [of g v h] by (auto simp: outcome_def explains_def quiet_only)

lemma outcome_union:
  assumes "egraph_ok g" and "ir_wf st" and "union g st v a b = Some (g', r)" and "flex st a" and "par g v a = a"
  shows "outcome st v {(a, b)} g (Inr (), g')"
  using union_keeps [OF assms(1,3)] union_var_gains [OF assms] by (simp add: outcome_def explains_def)

lemma compatible_domain_error:
  "compatible_domain g st v a b = Some (Inl e) \<Longrightarrow> e \<noteq> Mismatch x y"
  by (auto simp: compatible_domain_def domain_conflict_def opt_simps split: option.splits if_splits)

lemma bind_variable_outcome:
  assumes ok: "egraph_ok g" and wf: "ir_wf st" and v: "live g v" "kids g v = []"
    and t: "get_ty st a = Some (TyInferVar i)" "par g v a = a"
    and r: "bind_variable g st v a i b = Some y"
  shows "outcome st v {(a, b)} g y"
proof -
  from r obtain occ vis where o: "occurs_in g st v i b {} = Some (occ, vis)" by (auto simp: bind_variable_def opt_simps)
  show ?thesis
  proof (cases occ)
    case True
    then show ?thesis using r o v ok by (auto simp: bind_variable_def opt_simps intro!: outcome_failed)
  next
    case False
    then obtain u q h vis' where a: "make_accessible st v i u b (g, {}) = Some (q, h, vis')"
      and rest: "(case q of
         Inl e \<Rightarrow> Some (Inl e, h)
       | Inr _ \<Rightarrow> do {
           (g, _) \<leftarrow> set_bound_in h st v a (Exactly b);
           (g, _) \<leftarrow> union g st v a b;
           Some (Inr (), g) }) = Some y"
      using r o by (auto simp: bind_variable_def opt_simps)
    have q: "quiet v g h" and l: "leak q" using make_accessible_facts [OF a] by simp_all
    show ?thesis
    proof (cases q)
      case (Inl e)
      then show ?thesis using rest l outcome_failed [OF q ok v, of e] by (auto simp: leak_def)
    next
      case (Inr x)
      then obtain h1 b1 h2 b2 where s: "set_bound_in h st v a (Exactly b) = Some (h1, b1)"
        and un: "union h1 st v a b = Some (h2, b2)" and y: "y = (Inr (), h2)"
        using rest by (auto simp: opt_simps)
      have q1: "quiet v g h1" using quiet_trans [OF q set_bound_quiet [OF s]] .
      have "outcome st v {(a, b)} h1 (Inr (), h2)"
        using outcome_union [OF quiet_ok [OF ok q1 v] wf un] t quiet_par [OF q1] by (simp add: flex_def)
      then show ?thesis unfolding y by (rule outcome_quiet [OF q1])
    qed
  qed
qed

lemma unify_var_outcome:
  assumes ok: "egraph_ok g" and wf: "ir_wf st" and v: "live g v" "kids g v = []"
    and t: "get_ty st a = Some (TyInferVar i)" "par g v a = a"
    and r: "unify_var g st v l r' a i b = Some y"
  shows "outcome st v {(a, b)} g y"
proof -
  from r obtain d where d: "compatible_domain g st v l r' = Some d"
    and rest: "(case d of Inl e \<Rightarrow> Some (Inl e, g) | Inr _ \<Rightarrow> bind_variable g st v a i b) = Some y"
    by (auto simp: unify_var_def opt_simps)
  show ?thesis
  proof (cases d)
    case (Inl e)
    then show ?thesis
      using rest d outcome_failed [OF quiet_refl ok v, of e] compatible_domain_error by auto
  next
    case (Inr x)
    then show ?thesis using rest bind_variable_outcome [OF ok wf v t] by simp
  qed
qed

lemma unify_vars_outcome:
  assumes ok: "egraph_ok g" and wf: "ir_wf st" and v: "live g v" "kids g v = []"
    and t: "get_ty st a = Some (TyInferVar i)" "par g v a = a"
    and r: "unify_vars g st v a i b j = Some y"
  shows "outcome st v {(a, b)} g y"
proof -
  from r obtain d where d: "compatible_domain g st v a b = Some d" by (auto simp: unify_vars_def opt_simps)
  show ?thesis
  proof (cases d)
    case (Inl e)
    then show ?thesis
      using r d outcome_failed [OF quiet_refl ok v, of e] compatible_domain_error
      by (auto simp: unify_vars_def opt_simps)
  next
    case (Inr x)
    then obtain dom u h1 b1 h2 b2 h3 root h4 b4 where
      l1: "lower_universe g v i u = Some (h1, b1)" and l2: "lower_universe h1 v j u = Some (h2, b2)"
      and un: "union h2 st v a b = Some (h3, root)" and sd: "set_domain_in h3 st v root dom = Some (h4, b4)"
      and y: "y = (Inr (), h4)"
      using r d by (auto simp: unify_vars_def opt_simps Let_def)
    have q: "quiet v g h2" using quiet_trans [OF lower_universe_quiet [OF l1] lower_universe_quiet [OF l2]] .
    have "outcome st v {(a, b)} h2 (Inr (), h3)"
      using outcome_union [OF quiet_ok [OF ok q v] wf un] t quiet_par [OF q] by (simp add: flex_def)
    then have "outcome st v {(a, b)} g (Inr (), h3)" by (rule outcome_quiet [OF q])
    then show ?thesis unfolding y using outcome_after set_domain_quiet [OF sd] v by blast
  qed
qed

section \<open>Unification\<close>

lemma gains_move:
  assumes g: "gains st g st' g' v {(a', b')}"
    and t: "\<And>S. congruence st (par g v) S \<Longrightarrow> S a a' \<and> S b b'" and wf: "ir_wf st" and ext: "arena_ext st st'"
  shows "gains st g st' g' v {(a, b)}"
proof (rule gainsI)
  fix S assume c: "congruence st (par g v) S"
  from g c obtain S' where s: "congruence st' (par g' v) S'" "\<And>p q. S p q \<Longrightarrow> S' p q"
    and e: "\<And>p q. (p, q) \<in> {(a', b')} \<Longrightarrow> S' p q"
    and o: "\<And>I. obeys st' S I \<Longrightarrow> (\<And>p q. (p, q) \<in> {(a', b')} \<Longrightarrow> I p = I q) \<Longrightarrow> obeys st' S' I"
    by (rule gainsE) blast
  have m: "S a a'" "S b b'" using t [OF c] by simp_all
  have "S' a' b'" using e by simp
  then have "S' a b'" using congruence_trans [OF s(1) s(2) [OF m(1)]] by blast
  then have "S' a b" using congruence_trans [OF s(1) _ congruence_sym [OF s(1) s(2) [OF m(2)]]] by blast
  moreover have "obeys st' S' I" if "obeys st' S I" "I a = I b" for I
  proof (rule o [OF that(1)])
    have "I a = I a'" "I b = I b'" using that(1) m by (simp_all add: obeys_def)
    then show "I p = I q" if "(p, q) \<in> {(a', b')}" for p q using that \<open>I a = I b\<close> by simp
  qed
  ultimately show "\<exists>S'. congruence st' (par g' v) S' \<and> (\<forall>p q. S p q \<longrightarrow> S' p q) \<and> (\<forall>(a, b) \<in> {(a, b)}. S' a b) \<and>
        (\<forall>I. obeys st' S I \<longrightarrow> (\<forall>(a, b) \<in> {(a, b)}. I a = I b) \<longrightarrow> obeys st' S' I)"
    using s(1,2) by (intro exI [of _ S']) simp
qed

lemma outcome_along:
  assumes o: "outcome st v {(a', b')} g y" and wf: "ir_wf st"
    and s: "\<And>S. congruence st (par g v) S \<Longrightarrow> S a a' \<and> S b b'"
  shows "outcome st v {(a, b)} g y"
proof -
  have "refutes st g v {(a, b)}" if "refutes st g v {(a', b')}"
    unfolding refutes_def
  proof (intro allI impI)
    fix S I assume c: "congruence st (par g v) S" and I: "obeys st S I"
    then have "I a' \<noteq> I b'" using that by (auto simp: refutes_def)
    then show "\<exists>(a, b) \<in> {(a, b)}. I a \<noteq> I b" using s [OF c] I by (auto simp: obeys_def)
  qed
  then show ?thesis
    using o gains_move [OF _ s wf arena_ext_refl] by (auto simp: outcome_def explains_def)
qed

lemma outcome_move:
  assumes o: "outcome st v {(a', b')} g y" and wf: "ir_wf st"
    and t: "to_root (par g v) a a'" "to_root (par g v) b b'"
  shows "outcome st v {(a, b)} g y"
  by (rule outcome_along [OF o wf]) (use t congruence_root in blast)

lemma outcome_swap: "outcome st v {(b, a)} g y \<Longrightarrow> outcome st v {(a, b)} g y"
proof -
  assume o: "outcome st v {(b, a)} g y"
  have "gains st g st (snd y) v {(a, b)}" if n: "gains st g st (snd y) v {(b, a)}"
  proof (rule gainsI)
    fix S assume c: "congruence st (par g v) S"
    from n c obtain S' where s: "congruence st (par (snd y) v) S'" "\<And>p q. S p q \<Longrightarrow> S' p q"
      and e: "\<And>p q. (p, q) \<in> {(b, a)} \<Longrightarrow> S' p q"
      and ob: "\<And>I. obeys st S I \<Longrightarrow> (\<And>p q. (p, q) \<in> {(b, a)} \<Longrightarrow> I p = I q) \<Longrightarrow> obeys st S' I"
      by (rule gainsE) blast
    have "S' a b" using congruence_sym [OF s(1) e] by simp
    moreover have "obeys st S' I" if "obeys st S I" "I a = I b" for I
      by (rule ob [OF that(1)]) (use that(2) in simp)
    ultimately show "\<exists>S'. congruence st (par (snd y) v) S' \<and> (\<forall>p q. S p q \<longrightarrow> S' p q) \<and> (\<forall>(a, b) \<in> {(a, b)}. S' a b) \<and>
        (\<forall>I. obeys st S I \<longrightarrow> (\<forall>(a, b) \<in> {(a, b)}. I a = I b) \<longrightarrow> obeys st S' I)"
      using s by (intro exI [of _ S']) simp
  qed
  moreover have "refutes st g v {(a, b)}" if "refutes st g v {(b, a)}"
    using that unfolding refutes_def by (simp add: eq_commute [of "_ a"])
  ultimately show ?thesis using o by (auto simp: outcome_def explains_def)
qed

lemma only_at_view: "only_at v g h \<Longrightarrow> live h v = live g v \<and> kids h v = kids g v"
  by (simp add: only_at_def)

lemma try_each_outcome:
  assumes "\<And>x u y. x \<in> set xs \<Longrightarrow> egraph_ok u \<Longrightarrow> live u v \<Longrightarrow> kids u v = [] \<Longrightarrow> f x u = Some y \<Longrightarrow> outcome st v {x} u y"
    and "try_each f xs g = Some y" and "egraph_ok g" and "live g v" and "kids g v = []"
  shows "outcome st v (set xs) g y"
  using assms
proof (induction xs arbitrary: g)
  case Nil
  then show ?case by (auto simp: outcome_def explains_def gains_same)
next
  case (Cons x xs)
  then obtain r1 g1 where f: "f x g = Some (r1, g1)"
    and rest: "(case r1 of Inl e \<Rightarrow> Some (Inl e, g1) | Inr _ \<Rightarrow> try_each f xs g1) = Some y"
    by (auto simp: opt_simps)
  have o: "outcome st v {x} g (r1, g1)" using Cons.prems f by simp
  show ?case
  proof (cases r1)
    case (Inl e)
    then show ?thesis using o rest refutes_mono [of st g v "{x}" "set (x # xs)"] by (auto simp: outcome_def explains_def)
  next
    case (Inr u)
    then have g: "gains st g st g1 v {x}" and a: "only_at v g g1" and ok: "egraph_ok g1"
      using o by (simp_all add: outcome_def)
    have "outcome st v (set xs) g1 y"
      by (rule Cons.IH) (use Cons.prems rest Inr ok only_at_view [OF a] in auto)
    then show ?thesis
      using gains_trans [OF g, of st "snd y" "set xs"] refutes_later [OF g, of "set xs"] only_at_trans [OF a]
      by (auto simp: outcome_def explains_def)
  qed
qed

lemma structural_eq:
  assumes "structural st I" and "rigid st a" and "rigid st b" and "decompose st a = Some d" and "decompose st b = Some e"
  shows "I a = I b \<longleftrightarrow> de_skeleton d = de_skeleton e \<and> map I (de_children d) = map I (de_children e)"
  using assms by (simp add: structural_def)

lemma zip_eq: "map I xs = map I ys \<Longrightarrow> (a, b) \<in> set (zip xs ys) \<Longrightarrow> I a = I b"
  by (induction xs ys rule: list_induct2') auto

lemma add_dependents_quiet: "add_dependents v t cs g = Some g' \<Longrightarrow> quiet v g g'"
  unfolding add_dependents_def
  by (induction cs arbitrary: g) (auto simp: opt_simps intro: quiet_trans add_dependent_quiet)

lemma rigid_pair_outcome:
  assumes ok: "egraph_ok g" and wf: "ir_wf st" and v: "live g v" "kids g v = []"
    and rig: "rigid st a" "rigid st b" and d: "decompose st a = Some d" "decompose st b = Some e"
    and eq: "de_skeleton d = de_skeleton e" "length (de_children d) = length (de_children e)"
    and o: "outcome st v (set (zip (de_children d) (de_children e))) g (r, h)"
    and rest: "(case r of Inl e \<Rightarrow> Some (Inl e, h) | Inr _ \<Rightarrow> do { (g, _) \<leftarrow> union h st v a b; Some (Inr (), g) }) = Some y"
  shows "outcome st v {(a, b)} g y"
proof (cases r)
  case (Inl x)
  have "refutes st g v {(a, b)}" if n: "refutes st g v (set (zip (de_children d) (de_children e)))"
    unfolding refutes_def
  proof (intro allI impI)
    fix S I assume c: "congruence st (par g v) S" and I: "obeys st S I"
    then obtain p q where "(p, q) \<in> set (zip (de_children d) (de_children e))" "I p \<noteq> I q"
      using n unfolding refutes_def by blast
    then have "map I (de_children d) \<noteq> map I (de_children e)" using zip_eq by metis
    moreover have "structural st I" using I by (simp add: obeys_def)
    ultimately have "I a \<noteq> I b" using structural_eq [OF _ rig d] by blast
    then show "\<exists>(a, b) \<in> {(a, b)}. I a \<noteq> I b" by simp
  qed
  then show ?thesis using o rest Inl by (auto simp: outcome_def explains_def)
next
  case (Inr x)
  then obtain k root where u: "union h st v a b = Some (k, root)" and y: "y = (Inr (), k)"
    using rest by (auto simp: opt_simps)
  have g: "gains st g st h v (set (zip (de_children d) (de_children e)))" and a: "only_at v g h" and okh: "egraph_ok h"
    using o Inr by (simp_all add: outcome_def)
  have "gains st g st k v {(a, b)}"
  proof (rule gainsI)
    fix S assume c: "congruence st (par g v) S"
    from g c obtain S1 where c1: "congruence st (par h v) S1" and le: "\<And>p q. S p q \<Longrightarrow> S1 p q"
      and pairs: "\<And>p q. (p, q) \<in> set (zip (de_children d) (de_children e)) \<Longrightarrow> S1 p q"
      and ob: "\<And>I. obeys st S I \<Longrightarrow> (\<And>p q. (p, q) \<in> set (zip (de_children d) (de_children e)) \<Longrightarrow> I p = I q) \<Longrightarrow> obeys st S1 I"
      by (rule gainsE) blast
    have ab: "congruent st S1 a b"
      using rig d eq pairs by (auto simp: congruent_def list_all2_iff)
    have "congruent st S1 x y" if "S1 a x" "S1 b y" "rigid st x" "rigid st y" for x y
      using congruent_step [OF c1 ab that(2,4) wf] congruent_sym [OF c1]
        congruent_step [OF c1 _ that(1,3) wf, of y] by blast
    from union_step [OF okh wf u c1 this] obtain S2 where s2: "congruence st (par k v) S2"
      "\<forall>p q. S1 p q \<longrightarrow> S2 p q" "S2 a b" "\<forall>I. obeys st S1 I \<longrightarrow> I a = I b \<longrightarrow> obeys st S2 I" by blast
    have "obeys st S2 I" if I: "obeys st S I" "I a = I b" for I
    proof -
      have "structural st I" using I(1) by (simp add: obeys_def)
      then have "map I (de_children d) = map I (de_children e)" using structural_eq [OF _ rig d] I(2) by blast
      then have "obeys st S1 I" using ob [OF I(1)] zip_eq by metis
      then show ?thesis using s2(4) I(2) by blast
    qed
    then show "\<exists>S'. congruence st (par k v) S' \<and> (\<forall>p q. S p q \<longrightarrow> S' p q) \<and> (\<forall>(a, b) \<in> {(a, b)}. S' a b) \<and>
        (\<forall>I. obeys st S I \<longrightarrow> (\<forall>(a, b) \<in> {(a, b)}. I a = I b) \<longrightarrow> obeys st S' I)"
      using s2(1,2,3) le by (intro exI [of _ S2]) simp
  qed
  then show ?thesis
    using union_keeps [OF okh u] only_at_trans [OF a, of k] by (auto simp: outcome_def explains_def y)
qed

lemma refutes_skeleton:
  assumes rig: "rigid st a" "rigid st b" and d: "decompose st a = Some d" "decompose st b = Some e"
    and ne: "de_skeleton d \<noteq> de_skeleton e \<or> length (de_children d) \<noteq> length (de_children e)"
  shows "refutes st g v {(a, b)}"
proof -
  have "I a \<noteq> I b" if "structural st I" for I
    using structural_eq [OF that rig d] ne by (auto dest: map_eq_imp_length_eq)
  then show ?thesis by (auto simp: refutes_def obeys_def)
qed

lemma classify_pairD:
  "classify_pair s t = PairVars i j \<Longrightarrow> s = TyInferVar i \<and> t = TyInferVar j"
  "classify_pair s t = PairVarLeft i \<Longrightarrow> s = TyInferVar i"
  "classify_pair s t = PairVarRight i \<Longrightarrow> t = TyInferVar i"
  "classify_pair s t = PairRigid \<Longrightarrow> \<not> is_infer_var s \<and> \<not> is_infer_var t"
  by (cases s; cases t; simp add: classify_pair_def split: if_splits)+

text \<open>The ways through the body of \<open>unify_in_probe\<close>, whatever the recursive calls do.\<close>

lemma unify_body_cases:
  assumes "do {
     (g, left) \<leftarrow> find_mut g v (fst eq);
     (g, right) \<leftarrow> find_mut g v (snd eq);
     if left = right then Some (Inr (), g)
     else do {
       tl \<leftarrow> get_ty st left;
       tr \<leftarrow> get_ty st right;
       case classify_pair tl tr of
         PairError error \<Rightarrow> Some (Inl (Reported error), g)
       | PairVars left_var right_var \<Rightarrow> unify_vars g st v left left_var right right_var
       | PairVarLeft variable \<Rightarrow> unify_var g st v left right left variable right
       | PairVarRight variable \<Rightarrow> unify_var g st v left right right variable left
       | PairRigid \<Rightarrow> do {
           dl \<leftarrow> decompose st left;
           dr \<leftarrow> decompose st right;
           if de_skeleton dl \<noteq> de_skeleton dr \<or> length (de_children dl) \<noteq> length (de_children dr)
           then Some (Inl (Mismatch left right), g)
           else do {
             g \<leftarrow> add_dependents v left (de_children dl) g;
             g \<leftarrow> add_dependents v right (de_children dr) g;
             (r, g) \<leftarrow> try_each unify (zip (de_children dl) (de_children dr)) g;
             case r of
               Inl e \<Rightarrow> Some (Inl e, g)
             | Inr _ \<Rightarrow> do {
                 (g, _) \<leftarrow> union g st v left right;
                 Some (Inr (), g) } } } } } = Some y"
  obtains g1 a g2 b where "find_mut g v (fst eq) = Some (g1, a)" and "find_mut g1 v (snd eq) = Some (g2, b)"
    and "a = b \<and> y = (Inr (), g2) \<or>
      (\<exists>e. y = (Inl (Reported e), g2)) \<or>
      (\<exists>i j. get_ty st a = Some (TyInferVar i) \<and> unify_vars g2 st v a i b j = Some y) \<or>
      (\<exists>i. get_ty st a = Some (TyInferVar i) \<and> unify_var g2 st v a b a i b = Some y) \<or>
      (\<exists>i. get_ty st b = Some (TyInferVar i) \<and> unify_var g2 st v a b b i a = Some y) \<or>
      (\<exists>d e. rigid st a \<and> rigid st b \<and> decompose st a = Some d \<and> decompose st b = Some e \<and>
         (de_skeleton d \<noteq> de_skeleton e \<or> length (de_children d) \<noteq> length (de_children e)) \<and>
         y = (Inl (Mismatch a b), g2)) \<or>
      (\<exists>d e h1 h2 r h. rigid st a \<and> rigid st b \<and> decompose st a = Some d \<and> decompose st b = Some e \<and>
         de_skeleton d = de_skeleton e \<and> length (de_children d) = length (de_children e) \<and>
         add_dependents v a (de_children d) g2 = Some h1 \<and> add_dependents v b (de_children e) h1 = Some h2 \<and>
         try_each unify (zip (de_children d) (de_children e)) h2 = Some (r, h) \<and>
         (case r of Inl e \<Rightarrow> Some (Inl e, h)
          | Inr _ \<Rightarrow> do { (g, _) \<leftarrow> union h st v a b; Some (Inr (), g) }) = Some y)"
proof -
  from assms obtain g1 a g2 b where fa: "find_mut g v (fst eq) = Some (g1, a)"
    and fb: "find_mut g1 v (snd eq) = Some (g2, b)"
    and body: "(if a = b then Some (Inr (), g2)
     else do {
       tl \<leftarrow> get_ty st a;
       tr \<leftarrow> get_ty st b;
       case classify_pair tl tr of
         PairError error \<Rightarrow> Some (Inl (Reported error), g2)
       | PairVars left_var right_var \<Rightarrow> unify_vars g2 st v a left_var b right_var
       | PairVarLeft variable \<Rightarrow> unify_var g2 st v a b a variable b
       | PairVarRight variable \<Rightarrow> unify_var g2 st v a b b variable a
       | PairRigid \<Rightarrow> do {
           dl \<leftarrow> decompose st a;
           dr \<leftarrow> decompose st b;
           if de_skeleton dl \<noteq> de_skeleton dr \<or> length (de_children dl) \<noteq> length (de_children dr)
           then Some (Inl (Mismatch a b), g2)
           else do {
             g \<leftarrow> add_dependents v a (de_children dl) g2;
             g \<leftarrow> add_dependents v b (de_children dr) g;
             (r, g) \<leftarrow> try_each unify (zip (de_children dl) (de_children dr)) g;
             case r of
               Inl e \<Rightarrow> Some (Inl e, g)
             | Inr _ \<Rightarrow> do {
                 (g, _) \<leftarrow> union g st v a b;
                 Some (Inr (), g) } } } }) = Some y"
    by (auto simp: opt_simps simp del: bind_assoc)
  show thesis
  proof (cases "a = b")
    case True
    then show thesis using that [OF fa fb] body by simp
  next
    case False
    then obtain tl tr where tl: "get_ty st a = Some tl" and tr: "get_ty st b = Some tr"
      using body by (auto simp: opt_simps)
    note body = body [unfolded if_not_P [OF False] tl tr, simplified]
    note cls = classify_pairD [of tl tr]
    show thesis
    proof (cases "classify_pair tl tr")
      case (PairError e)
      then have "y = (Inl (Reported e), g2)" using body by simp
      then show ?thesis using that [OF fa fb] by blast
    next
      case (PairVars i j)
      then have "get_ty st a = Some (TyInferVar i)" and "unify_vars g2 st v a i b j = Some y"
        using body tl cls(1) [OF PairVars] by simp_all
      then show ?thesis using that [OF fa fb] by blast
    next
      case (PairVarLeft i)
      then have "get_ty st a = Some (TyInferVar i)" and "unify_var g2 st v a b a i b = Some y"
        using body tl cls(2) [OF PairVarLeft] by simp_all
      then show ?thesis using that [OF fa fb] by blast
    next
      case (PairVarRight i)
      then have "get_ty st b = Some (TyInferVar i)" and "unify_var g2 st v a b b i a = Some y"
        using body tr cls(3) [OF PairVarRight] by simp_all
      then show ?thesis using that [OF fa fb] by blast
    next
      case PairRigid
      then have rig: "rigid st a" "rigid st b" using cls(4) tl tr by (auto simp: rigid_def)
      obtain d e :: decomposed where d: "decompose st a = Some d" "decompose st b = Some e"
        using body PairRigid by (auto simp: opt_simps)
      show ?thesis
      proof (cases "de_skeleton d \<noteq> de_skeleton e \<or> length (de_children d) \<noteq> length (de_children e)")
        case True
        then have "y = (Inl (Mismatch a b), g2)" using body PairRigid d by auto
        then show ?thesis using that [OF fa fb] rig d True by blast
      next
        case False
        then obtain h1 h2 r h where q1: "add_dependents v a (de_children d) g2 = Some h1"
          and q2: "add_dependents v b (de_children e) h1 = Some h2"
          and t: "try_each unify (zip (de_children d) (de_children e)) h2 = Some (r, h)"
          and rest: "(case r of Inl e \<Rightarrow> Some (Inl e, h)
             | Inr _ \<Rightarrow> do { (g, _) \<leftarrow> union h st v a b; Some (Inr (), g) }) = Some y"
          using body PairRigid d by (auto simp: opt_simps simp del: bind_assoc)
        show ?thesis using that [OF fa fb] rig d False q1 q2 t rest by blast
      qed
    qed
  qed
qed

lemma unify_outcome:
  "unify_in_probe st v eq g = Some y \<Longrightarrow> egraph_ok g \<Longrightarrow> ir_wf st \<Longrightarrow> outcome st v {eq} g y"
proof (induction rule: unify_in_probe.raw_induct [rotated 1, consumes 1, case_names step])
  case (step unify st v eq g y)
  note ok = step.prems(1) and wf = step.prems(2)
  from step.hyps show ?case
  proof (rule unify_body_cases)
    fix g1 a g2 b
    assume fa: "find_mut g v (fst eq) = Some (g1, a)" and fb: "find_mut g1 v (snd eq) = Some (g2, b)"
    note A = find_mut_facts [OF ok fa]
    note B = find_mut_facts [OF A(2) fb]
    have o2: "only_at v g g2" using A(1) B(1) by (rule only_at_trans)
    have g2: "gains st g st g2 v {}"
      using gains_trans [OF gains_find_mut [OF ok fa] gains_find_mut [OF A(2) fb] arena_ext_refl] by simp
    have ta: "to_root (par g2 v) (fst eq) a" and tb: "to_root (par g2 v) (snd eq) b"
      using A(5,6) B(5,6) by simp_all
    note ra = to_root_root [OF ta] and rb = to_root_root [OF tb]
    have v2: "live g2 v" "kids g2 v = []" using A(3,4) only_at_view [OF o2] by simp_all
    assume cases: "a = b \<and> y = (Inr (), g2) \<or>
      (\<exists>e. y = (Inl (Reported e), g2)) \<or>
      (\<exists>i j. get_ty st a = Some (TyInferVar i) \<and> unify_vars g2 st v a i b j = Some y) \<or>
      (\<exists>i. get_ty st a = Some (TyInferVar i) \<and> unify_var g2 st v a b a i b = Some y) \<or>
      (\<exists>i. get_ty st b = Some (TyInferVar i) \<and> unify_var g2 st v a b b i a = Some y) \<or>
      (\<exists>d e. rigid st a \<and> rigid st b \<and> decompose st a = Some d \<and> decompose st b = Some e \<and>
         (de_skeleton d \<noteq> de_skeleton e \<or> length (de_children d) \<noteq> length (de_children e)) \<and>
         y = (Inl (Mismatch a b), g2)) \<or>
      (\<exists>d e h1 h2 r h. rigid st a \<and> rigid st b \<and> decompose st a = Some d \<and> decompose st b = Some e \<and>
         de_skeleton d = de_skeleton e \<and> length (de_children d) = length (de_children e) \<and>
         add_dependents v a (de_children d) g2 = Some h1 \<and> add_dependents v b (de_children e) h1 = Some h2 \<and>
         try_each (unify st v) (zip (de_children d) (de_children e)) h2 = Some (r, h) \<and>
         (case r of Inl e \<Rightarrow> Some (Inl e, h)
          | Inr _ \<Rightarrow> do { (g, _) \<leftarrow> union h st v a b; Some (Inr (), g) }) = Some y)"
    have "outcome st v {(a, b)} g2 y"
      using cases
    proof (elim disjE exE conjE)
      assume "a = b" and y: "y = (Inr (), g2)"
      then show ?thesis unfolding y using B(2) gains_refl by (simp add: outcome_def explains_def)
    next
      show ?thesis if "y = (Inl (Reported e), g2)" for e
        using outcome_failed [OF quiet_refl B(2) v2] that by simp
      show ?thesis if "get_ty st a = Some (TyInferVar i)" "unify_vars g2 st v a i b j = Some y" for i j
        by (rule unify_vars_outcome [OF B(2) wf v2 that(1) ra that(2)])
      show ?thesis if "get_ty st a = Some (TyInferVar i)" "unify_var g2 st v a b a i b = Some y" for i
        by (rule unify_var_outcome [OF B(2) wf v2 that(1) ra that(2)])
      show ?thesis if "get_ty st b = Some (TyInferVar i)" "unify_var g2 st v a b b i a = Some y" for i
        by (rule outcome_swap [OF unify_var_outcome [OF B(2) wf v2 that(1) rb that(2)]])
      show ?thesis if "rigid st a" "rigid st b" "decompose st a = Some d" "decompose st b = Some e"
        "de_skeleton d \<noteq> de_skeleton e" "y = (Inl (Mismatch a b), g2)" for d e
        using refutes_skeleton [OF that(1-4)] that(5) B(2) by (simp add: outcome_def explains_def that(6))
      show ?thesis if "rigid st a" "rigid st b" "decompose st a = Some d" "decompose st b = Some e"
        "length (de_children d) \<noteq> length (de_children e)" "y = (Inl (Mismatch a b), g2)" for d e
        using refutes_skeleton [OF that(1-4)] that(5) B(2) by (simp add: outcome_def explains_def that(6))
    next
      fix d e h1 h2 r h
      assume rig: "rigid st a" "rigid st b" and d: "decompose st a = Some d" "decompose st b = Some e"
        and eq: "de_skeleton d = de_skeleton e" "length (de_children d) = length (de_children e)"
        and q1: "add_dependents v a (de_children d) g2 = Some h1"
        and q2: "add_dependents v b (de_children e) h1 = Some h2"
        and t: "try_each (unify st v) (zip (de_children d) (de_children e)) h2 = Some (r, h)"
        and rest: "(case r of Inl e \<Rightarrow> Some (Inl e, h)
           | Inr _ \<Rightarrow> do { (g, _) \<leftarrow> union h st v a b; Some (Inr (), g) }) = Some y"
      have q: "quiet v g2 h2" using q1 q2 by (intro quiet_trans [OF add_dependents_quiet add_dependents_quiet])
      have ok2: "egraph_ok h2" by (rule quiet_ok [OF B(2) q v2])
      have vh: "live h2 v" "kids h2 v = []" using v2 only_at_view [OF quiet_only [OF q]] by simp_all
      have "outcome st v (set (zip (de_children d) (de_children e))) h2 (r, h)"
        by (rule try_each_outcome [OF _ t ok2 vh]) (rule step.IH [OF _ _ wf])
      from rigid_pair_outcome [OF ok2 wf vh rig d eq this rest]
      show ?thesis by (rule outcome_quiet [OF q])
    qed
    then have "outcome st v {(fst eq, snd eq)} g2 y" by (rule outcome_move [OF _ wf ta tb])
    then show ?case using outcome_before [OF o2 g2] by simp
  qed
qed

section \<open>Rebuilding\<close>

text \<open>What a rebuild step needs, and what it keeps.\<close>

definition ready :: "version \<Rightarrow> ir \<Rightarrow> egraph \<Rightarrow> bool" where
  "ready v st g \<longleftrightarrow> egraph_ok g \<and> ir_wf st \<and> live g v \<and> kids g v = [] \<and> (\<exists>S. congruence st (par g v) S)"

definition preserves :: "version \<Rightarrow> ir \<Rightarrow> egraph \<Rightarrow> ir \<Rightarrow> egraph \<Rightarrow> bool" where
  "preserves v st g st' g' \<longleftrightarrow>
     ir_wf st' \<and> arena_ext st st' \<and> only_at v g g' \<and> egraph_ok g' \<and> gains st g st' g' v {}"

lemma readyD:
  assumes "ready v st g"
  shows "egraph_ok g" and "ir_wf st" and "live g v" and "kids g v = []" and "\<exists>S. congruence st (par g v) S"
  using assms by (simp_all add: ready_def)

lemma preserves_refl: "ready v st g \<Longrightarrow> preserves v st g st g"
  by (simp add: preserves_def ready_def gains_same)

lemma preserves_ready: "ready v st g \<Longrightarrow> preserves v st g st' g' \<Longrightarrow> ready v st' g'"
proof -
  assume rd: "ready v st g" and p: "preserves v st g st' g'"
  obtain S where "congruence st (par g v) S" using rd by (auto simp: ready_def)
  moreover have "gains st g st' g' v {}" using p by (simp add: preserves_def)
  ultimately have "\<exists>S. congruence st' (par g' v) S" by (metis gainsE)
  then show "ready v st' g'" using rd p only_at_view [of v g g'] by (simp add: ready_def preserves_def)
qed

lemma preserves_trans: "preserves v st g st1 g1 \<Longrightarrow> preserves v st1 g1 st2 g2 \<Longrightarrow> preserves v st g st2 g2"
  unfolding preserves_def using arena_ext_trans only_at_trans gains_trans [of st g st1 g1 v "{}" st2 g2 "{}"]
  by auto

lemma preserves_quiet: "ready v st g \<Longrightarrow> quiet v g g' \<Longrightarrow> preserves v st g st g'"
  using quiet_ok [of g v g'] by (auto simp: ready_def preserves_def quiet_only gains_quiet)

lemma congruence_typed_root:
  assumes c: "congruence st f S" and r: "to_root f p r" and p: "get_ty st p \<noteq> None"
  shows "get_ty st r \<noteq> None"
  using congruenceD(3) [OF c congruence_sym [OF c congruence_root [OF c r]]] p by metis

lemma find_all_roots:
  "find_all g v ts = Some rs \<Longrightarrow> egraph_ok g \<Longrightarrow> list_all2 (to_root (par g v)) ts rs"
  unfolding find_all_def
  by (induction ts arbitrary: rs) (auto simp: opt_simps find_iff)

lemma decompose_fits: "decompose st p = Some d \<Longrightarrow> skeleton_fits (de_skeleton d)"
  by (auto simp: decompose_def opt_simps decompose_ty_fits)

text \<open>The canonical form of a dependent is congruent to it.\<close>

lemma recanonicalize_facts:
  assumes rd: "ready v st g" and r: "recanonicalize g v st t = Some (st', Some new)"
  shows "ir_wf st' \<and> arena_ext st st' \<and> (\<forall>S. congruence st' (par g v) S \<longrightarrow> congruent st' S t new)"
proof -
  note R = readyD [OF rd]
  obtain d :: decomposed and cs where d: "decompose st t = Some d" and ne: "de_children d \<noteq> []"
    and cs: "find_all g v (de_children d) = Some cs" and rc: "recompose st (de_skeleton d) cs = Some (st', new)"
    using r by (auto simp: recanonicalize_def opt_simps split: if_splits)
  have roots: "list_all2 (to_root (par g v)) (de_children d) cs" by (rule find_all_roots [OF cs R(1)])
  obtain ty where ty: "get_ty st t = Some ty" using d by (auto simp: decompose_def opt_simps)
  obtain S where S: "congruence st (par g v) S" using R(5) by blast
  have kids: "\<forall>c \<in> set (de_children d). get_ty st c \<noteq> None" and ar: "length (de_children d) = skeleton_arity (de_skeleton d)"
    by (rule decompose_wf [OF R(2), of t]; use ty d in auto)+
  have "\<forall>c \<in> set cs. get_ty st c \<noteq> None"
    using roots kids congruence_typed_root [OF S] by (fastforce simp: list_all2_conv_all_nth in_set_conv_nth)
  then obtain w: "ir_wf st'" and x: "arena_ext st st'"
    and dn: "decompose st' new = Some \<lparr>de_skeleton = de_skeleton d, de_children = cs\<rparr>"
    using recompose_spec [OF R(2), of cs "de_skeleton d"] rc ar decompose_fits [OF d] list_all2_lengthD [OF roots] by auto
  have nv: "\<not> is_infer_var ty"
    using d ty ne by (cases ty) (auto simp: decompose_def leaf_def)
  have "\<exists>tn. get_ty st' new = Some tn \<and> \<not> is_infer_var tn"
  proof -
    obtain tn where tn: "get_ty st' new = Some tn" using dn by (auto simp: decompose_def opt_simps)
    moreover have "cs \<noteq> []" using ne list_all2_lengthD [OF roots] by auto
    ultimately show ?thesis using dn by (cases tn) (auto simp: decompose_def leaf_def)
  qed
  then have rn: "rigid st' new" by (simp add: rigid_def)
  have rt: "rigid st' t" using rigid_ext [OF x] ty nv by (auto simp: rigid_def)
  have "congruent st' S t new" if c: "congruence st' (par g v) S" for S
    unfolding congruent_def
    using rn rt dn decompose_ext [OF x d] list_all2_mono [OF roots congruence_root [OF c]] by simp
  then show ?thesis using w x by blast
qed

lemma recanonicalize_none: "recanonicalize g v st t = Some (st', None) \<Longrightarrow> st' = st"
  by (auto simp: recanonicalize_def opt_simps split: if_splits)

lemma link_congruent:
  assumes rd: "ready v st g" and s: "set_parent g v a b = Some g'" and b: "par g v b = b" "a \<noteq> b"
    and ab: "\<And>S. congruence st (par g v) S \<Longrightarrow> congruent st S a b"
  shows "preserves v st g st g'"
proof -
  note R = readyD [OF rd] and f = set_parent_facts [OF s]
  have "egraph_ok g'"
    using only_at_ok [OF R(1) f(1) R(3,4)] uf_ok_link [OF egraph_okD(3) [OF R(1,3)] b] f(2) by simp
  moreover have "gains st g st g' v {}"
  proof (rule gainsI)
    fix S assume c: "congruence st (par g v) S"
    note k = ab [OF c]
    have "congruence st (par g' v) (merge S a b)" using congruence_rigid [OF c k R(2)] f(2) by simp
    moreover have "obeys st (merge S a b) I" if o: "obeys st S I" for I
    proof (rule obeys_merge [OF o])
      obtain d e where "rigid st a" "rigid st b" "decompose st a = Some d" "decompose st b = Some e"
        "de_skeleton d = de_skeleton e" "list_all2 S (de_children d) (de_children e)"
        using k by (auto simp: congruent_def)
      moreover from this(6) have "map I (de_children d) = map I (de_children e)"
        using o by (auto simp: obeys_def list_all2_conv_all_nth intro: nth_equalityI)
      ultimately show "I a = I b" using o structural_eq [of st I a b d e] by (simp add: obeys_def)
    qed
    ultimately show "\<exists>S'. congruence st (par g' v) S' \<and> (\<forall>p q. S p q \<longrightarrow> S' p q) \<and> (\<forall>(a, b) \<in> {}. S' a b) \<and>
        (\<forall>I. obeys st S I \<longrightarrow> (\<forall>(a, b) \<in> {}. I a = I b) \<longrightarrow> obeys st S' I)"
      using merge_mono [of S] by (intro exI [of _ "merge S a b"]) simp
  qed
  ultimately show ?thesis using R f(1) by (simp add: preserves_def)
qed

lemma ready_ext: "ready v st g \<Longrightarrow> ir_wf st' \<Longrightarrow> arena_ext st st' \<Longrightarrow> preserves v st g st' g"
  by (simp add: ready_def preserves_def gains_ext)

lemma rebuild_dependent_facts:
  assumes rd: "ready v st g" and r: "rebuild_dependent v t (g, st, ch) = Some (g', st', ch')"
  shows "preserves v st g st' g'"
proof -
  obtain old st1 res where old: "find g v t = Some old" and rc: "recanonicalize g v st t = Some (st1, res)"
    and rest: "(case res of
       None \<Rightarrow> Some (g, st1, ch)
     | Some new_ty \<Rightarrow> do {
         new_canonical \<leftarrow> find g v new_ty;
         if new_canonical \<noteq> old then do {
           g \<leftarrow> set_parent g v t new_canonical;
           g \<leftarrow> modify_state g v (\<lambda>s. s\<lparr>vs_worklist := vs_worklist s @ [t]\<rparr>);
           Some (g, st1, ch @ [t]) }
         else Some (g, st1, ch) }) = Some (g', st', ch')"
    using r unfolding rebuild_dependent_def by (auto simp: opt_simps simp del: bind_assoc)
  show ?thesis
  proof (cases res)
    case None
    then show ?thesis using rest recanonicalize_none [of g v st t st1] rc preserves_refl [OF rd] by simp
  next
    case (Some new)
    note rf = recanonicalize_facts [OF rd rc [unfolded Some]]
    have p1: "preserves v st g st1 g" by (rule ready_ext [OF rd]) (use rf in simp_all)
    obtain canon where canon: "find g v new = Some canon" using rest Some by (auto simp: opt_simps)
    show ?thesis
    proof (cases "canon = old")
      case True
      then show ?thesis using rest Some canon p1 by simp
    next
      case False
      then obtain h where h: "set_parent g v t canon = Some h"
        and k: "modify_state h v (\<lambda>s. s\<lparr>vs_worklist := vs_worklist s @ [t]\<rparr>) = Some g'" and st: "st' = st1"
        using rest Some canon by (auto simp: opt_simps)
      have rd1: "ready v st1 g" by (rule preserves_ready [OF rd p1])
      note R = readyD [OF rd1]
      have tc: "to_root (par g v) new canon" and tt: "to_root (par g v) t old"
        using canon old R(1) by (simp_all add: find_iff)
      have ne: "t \<noteq> canon"
        using to_root_root [OF tc] tt False to_root_unique by (metis to_root.root)
      have "congruent st1 S t canon" if c: "congruence st1 (par g v) S" for S
      proof -
        have k: "congruent st1 S t new" using rf c by blast
        have "rigid st1 new" using k by (simp add: congruent_def)
        then have "rigid st1 canon" by (rule congruence_rigid_root [OF c tc])
        then show ?thesis using congruent_step [OF c k congruence_root [OF c tc] _ R(2)] by blast
      qed
      then have "preserves v st1 g st1 h" by (rule link_congruent [OF rd1 h to_root_root [OF tc] ne])
      moreover from this have "preserves v st1 h st1 g'"
        using preserves_ready [OF rd1] modify_quiet [OF k] preserves_quiet by fastforce
      ultimately show ?thesis unfolding st using p1 preserves_trans by blast
    qed
  qed
qed

abbreviation preserves_state :: "version \<Rightarrow> rebuild_state \<Rightarrow> rebuild_state \<Rightarrow> bool" where
  "preserves_state v s s' \<equiv> preserves v (fst (snd s)) (fst s) (fst (snd s')) (fst s')"

abbreviation ready_state :: "version \<Rightarrow> rebuild_state \<Rightarrow> bool" where
  "ready_state v s \<equiv> ready v (fst (snd s)) (fst s)"

lemma preserves_fold:
  assumes "fold_state f xs s = Some s'" and "ready_state v s"
    and "\<And>x u u'. x \<in> set xs \<Longrightarrow> ready_state v u \<Longrightarrow> f x u = Some u' \<Longrightarrow> preserves_state v u u'"
  shows "preserves_state v s s'"
proof (rule fold_state_inv [OF assms(1)])
  show "preserves_state v s s" using assms(2) by (rule preserves_refl)
  show "preserves_state v s u'" if "x \<in> set xs" "preserves_state v s u" "f x u = Some u'" for x u u'
    using preserves_trans [OF that(2) assms(3) [OF that(1) preserves_ready [OF assms(2) that(2)] that(3)]] .
qed

lemma rebuild_merged_facts:
  assumes "ready_state v s" and "rebuild_merged ord v m s = Some s'"
  shows "preserves_state v s s'"
proof -
  obtain ds where "fold_state (rebuild_dependent v) ds s = Some s'"
    using assms(2) by (auto simp: rebuild_merged_def opt_simps)
  then show ?thesis
  proof (rule preserves_fold [OF _ assms(1)])
    show "preserves_state v u u'" if "ready_state v u" "rebuild_dependent v x u = Some u'" for x u u'
      using that rebuild_dependent_facts [of v "fst (snd u)" "fst u" x "snd (snd u)" "fst u'" "fst (snd u')" "snd (snd u')"]
      by simp
  qed
qed

lemma rebuild_loop_facts:
  "rebuild_loop ord v s = Some s' \<Longrightarrow> ready_state v s \<Longrightarrow> preserves_state v s s'"
proof (induction rule: rebuild_loop.raw_induct [rotated 1, consumes 1, case_names step])
  case (step loop ord v s s')
  obtain g st ch where s: "s = (g, st, ch)" by (cases s)
  from step.hyps obtain w h where h: "modify_state g v (\<lambda>s. s\<lparr>vs_worklist := []\<rparr>) = Some h"
    and rest: "(if w = [] then Some (h, st, ch)
       else do { s \<leftarrow> fold_state (rebuild_merged ord v) w (h, st, ch); loop ord v s }) = Some s'"
    unfolding s by (auto simp: opt_simps simp del: bind_assoc)
  have q: "quiet v g h" by (rule modify_quiet [OF h]) simp
  have rd: "ready v st g" using step.prems by (simp add: s)
  have p: "preserves v st g st h" by (rule preserves_quiet [OF rd q])
  show ?case
  proof (cases "w = []")
    case True
    then show ?thesis using rest p by (auto simp: s)
  next
    case False
    then obtain u where u: "fold_state (rebuild_merged ord v) w (h, st, ch) = Some u" and l: "loop ord v u = Some s'"
      using rest by (auto simp: opt_simps)
    have rh: "ready_state v (h, st, ch)" using preserves_ready [OF rd p] by simp
    have pu: "preserves_state v (h, st, ch) u" by (rule preserves_fold [OF u rh rebuild_merged_facts])
    have "preserves_state v u s'" by (rule step.IH [OF l preserves_ready [OF rh pu]])
    then show ?thesis using preserves_trans [OF preserves_trans [OF p]] pu by (simp add: s)
  qed
qed

lemma rebuild_facts:
  assumes "ready v st g" and "rebuild ord g v st = Some (g', st', ch)"
  shows "preserves v st g st' g'"
  using rebuild_loop_facts [of ord v "(g, st, [])" "(g', st', ch)"] assms
  by (auto simp: rebuild_def opt_simps)

section \<open>Solutions of a version\<close>

lemma gains_solutions:
  assumes rd: "ready v st g" and ok: "egraph_ok g'" "ir_wf st'" "live g' v" and ext: "arena_ext st st'"
    and g: "gains st g st' g' v E"
  shows "solutions st' g' v = {I \<in> solutions st' g v. \<forall>(a, b) \<in> E. I a = I b}"
proof -
  note R = readyD [OF rd]
  obtain S where c: "congruence st (par g v) S" using R(5) by blast
  from g c obtain S' where c': "congruence st' (par g' v) S'" and le: "\<And>p q. S p q \<Longrightarrow> S' p q"
    and e: "\<And>a b. (a, b) \<in> E \<Longrightarrow> S' a b"
    and o: "\<And>I. obeys st' S I \<Longrightarrow> (\<And>a b. (a, b) \<in> E \<Longrightarrow> I a = I b) \<Longrightarrow> obeys st' S' I" by (rule gainsE) blast
  have 1: "I \<in> solutions st' g' v \<longleftrightarrow> obeys st' S' I" for I
    using solutions_obey [OF c' egraph_okD(3) [OF ok(1,3)] ok(2)] .
  have 2: "I \<in> solutions st' g v \<longleftrightarrow> obeys st' S I" for I
    using solutions_obey [OF congruence_ext [OF c ext R(2)] egraph_okD(3) [OF R(1,3)] ok(2)] .
  have 3: "obeys st' S' I \<longleftrightarrow> obeys st' S I \<and> (\<forall>(a, b) \<in> E. I a = I b)" for I
  proof
    assume "obeys st' S' I"
    then show "obeys st' S I \<and> (\<forall>(a, b) \<in> E. I a = I b)" using le e unfolding obeys_def by blast
  next
    assume "obeys st' S I \<and> (\<forall>(a, b) \<in> E. I a = I b)"
    then show "obeys st' S' I" using o [of I] by blast
  qed
  show ?thesis using 1 2 3 by blast
qed

lemma refutes_solutions:
  assumes rd: "ready v st g" and n: "refutes st g v E"
  shows "{I \<in> solutions st g v. \<forall>(a, b) \<in> E. I a = I b} = {}"
proof -
  note R = readyD [OF rd]
  obtain S where c: "congruence st (par g v) S" using R(5) by blast
  then show ?thesis
    using n solutions_obey [OF c egraph_okD(3) [OF R(1,3)] R(2)] unfolding refutes_def by blast
qed

end
