(* ===== verification/Transactions.thy ===== *)
theory Transactions
  imports UnifyCorrect
begin

text \<open>
  The life of a child version: what opening one, committing it into its parent and discarding it do
  to every other version.  A failed transaction leaves the graph as it was; a committed one gives
  the parent what the child saw and touches no other version.
\<close>

lemma outcome_start:
  assumes "outcome st v {(a', b)} g y" and "ir_wf st" and "to_root (par g v) a a'" and "to_root (par g v) b r"
  shows "outcome st v {(a, b)} g y"
proof -
  have s: "S a a' \<and> S b b" if "congruence st (par g v) S" for S
    using congruence_root [OF that assms(3)] congruence_refl [OF that] by blast
  show ?thesis by (rule outcome_along [OF assms(1,2) s])
qed

section \<open>Opening a child\<close>

lemma branch_ok:
  assumes ok: "egraph_ok g" and r: "branch_from g p = Some (g1, c)"
  shows "egraph_ok g1" and "c = length (eg_states g)" and "live g1 c" and "kids g1 c = []"
    and "live g p" and "\<And>w. live g1 w \<longleftrightarrow> live g w \<or> w = c"
    and "par g1 c = par g p" and "\<And>w. live g w \<Longrightarrow> par g1 w = par g w"
    and "vn_parent (vt_nodes (eg_versions g1) ! c) = Some p"
    and "kids g1 p = kids g p @ [c]"
    and "vt_nodes (eg_versions g1) = (vt_nodes (eg_versions g) @ [child_node p])
      [p := (vt_nodes (eg_versions g) ! p)\<lparr>vn_children := kids g p @ [c]\<rparr>]"
    and "vt_variables (eg_versions g1) = vt_variables (eg_versions g)"
    and "eg_placeholder_universes g1 = eg_placeholder_universes g"
    and "\<exists>s. eg_states g1 = eg_states g @ [s]"
proof -
  obtain rev t where t: "tree_branch_from (eg_versions g) p = Some (t, c)" and c: "c = length (eg_states g)"
    and g1: "g1 = g\<lparr>eg_versions := t, eg_states := eg_states g @ [default_state\<lparr>vs_semantic_revision := rev\<rparr>]\<rparr>"
    using r by (auto simp: branch_from_def opt_simps)
  note e = egraph_okD [OF ok]
  have "c = u32_of (length (vt_nodes (eg_versions g)))" using t by (auto simp: tree_branch_from_def opt_simps Let_def)
  then have fits: "length (vt_nodes (eg_versions g)) < 2 ^ 32" using c e(2) u32_of_less by metis
  note b = branch_facts [OF e(1) t fits]
  show "c = length (eg_states g)" by (rule c)
  show lp: "live g p" by (rule b(4))
  then have p: "p < length (vt_nodes (eg_versions g))" by (simp add: is_live_iff)
  show l: "live g1 w \<longleftrightarrow> live g w \<or> w = c" for w using b(8) by (simp add: g1)
  then show "live g1 c" by simp
  show "kids g1 c = []" using b(9) [of c] by (simp add: g1)
  show "vn_parent (vt_nodes (eg_versions g1) ! c) = Some p" using b(10) by (simp add: g1)
  show "kids g1 p = kids g p @ [c]" using b(9) [of p] p c e(2) by (simp add: g1)
  show ns: "vt_nodes (eg_versions g1) = (vt_nodes (eg_versions g) @ [child_node p])
      [p := (vt_nodes (eg_versions g) ! p)\<lparr>vn_children := kids g p @ [c]\<rparr>]"
    using t p by (auto simp: g1 tree_branch_from_def opt_simps Let_def nth_append)
  show "vt_variables (eg_versions g1) = vt_variables (eg_versions g)" using b(5) by (simp add: g1)
  show "eg_placeholder_universes g1 = eg_placeholder_universes g" by (simp add: g1)
  show "\<exists>s. eg_states g1 = eg_states g @ [s]" by (simp add: g1)
  have lt: "w < c" if "live g w" for w using that live_less [OF ok] c by simp
  have old: "lookup g1 w f = lookup g w f" if w: "live g w" for w and f :: "version_state \<Rightarrow> ptr option"
  proof -
    have "path g1 w = path g w" using b(6) [OF lt [OF w]] by (simp add: g1)
    moreover have "eg_states g1 ! a = eg_states g ! a" if "a \<in> set (path g w)" for a
      using anc_le [OF that] lt [OF w] c by (simp add: g1 nth_append)
    ultimately show ?thesis unfolding lookup_def by (auto intro: first_some_cong)
  qed
  show pw: "par g1 w = par g w" if "live g w" for w using old [OF that] by (simp add: par_def fun_eq_iff)
  have "lookup g1 c (\<lambda>s. vs_parents s x) = lookup g1 p (\<lambda>s. vs_parents s x)" for x
    unfolding lookup_def using b(6) [of p] b(7) lt [OF lp] c by (simp add: g1 default_state_def)
  then show pc: "par g1 c = par g p" using pw [OF lp] by (auto simp: par_def fun_eq_iff)
  have "uf_ok (par g1 w)" if "live g1 w" for w
    using that l pc pw e(3) lp by (cases "w = c") auto
  then show "egraph_ok g1" using b(1,3) c e(2) by (simp add: egraph_ok_def) (simp add: g1)
qed

section \<open>Discarding\<close>

text \<open>\<open>g'\<close> is \<open>g\<close> with some dead versions appended.\<close>

definition undone :: "egraph \<Rightarrow> egraph \<Rightarrow> bool" where
  "undone g g' \<longleftrightarrow> egraph_ok g' \<and> (\<forall>w. live g' w \<longleftrightarrow> live g w) \<and>
     take (length (eg_states g)) (vt_nodes (eg_versions g')) = vt_nodes (eg_versions g) \<and>
     take (length (eg_states g)) (eg_states g') = eg_states g \<and>
     vt_variables (eg_versions g') = vt_variables (eg_versions g) \<and>
     eg_placeholder_universes g' = eg_placeholder_universes g"

lemma remove_leaf:
  assumes "c < length ns" and "vn_children (ns ! c) = []"
  shows "remove_subtree c (ns, rem) = Some (ns[c := kill (ns ! c)], rem @ [c])"
  using assms by (subst remove_subtree.simps) (simp add: nth_opt_def)

lemma child_less:
  assumes ok: "egraph_ok g" and p: "live g p" and c: "c \<in> set (kids g p)"
  shows "c < length (eg_states g)"
  using links_child [OF tree_okD(2) [OF egraph_okD(1) [OF ok]] _ c] p egraph_okD(2) [OF ok]
  by (auto simp: is_live_iff)

lemma discard_child:
  assumes ok: "egraph_ok g" and b: "branch_from g p = Some (g1, c)" and o: "only_at c g1 g2" and ok2: "egraph_ok g2"
    and d: "discard g2 c = Some g3"
  shows "undone g g3"
proof -
  note B = branch_ok [OF ok b]
  let ?ns = "vt_nodes (eg_versions g)" and ?n = "length (eg_states g)"
  have n: "length ?ns = ?n" using egraph_okD(2) [OF ok] by simp
  have p: "p < ?n" using live_less [OF ok B(5)] .
  obtain t rem where t: "tree_remove (eg_versions g2) c = Some (t, rem)"
    and g3: "fold_state (\<lambda>w g. modify_state g w (\<lambda>_. default_state)) rem (g2\<lparr>eg_versions := t\<rparr>) = Some g3"
    using d by (auto simp: discard_def opt_simps)
  note v2 = only_atD(1) [OF o]
  let ?ns1 = "vt_nodes (eg_versions g1)"
  have len1: "length ?ns1 = Suc ?n" using B(11) n by simp
  have leaf: "remove_subtree c (?ns1, []) = Some (?ns1[c := kill (?ns1 ! c)], [c])"
    using remove_leaf [of c ?ns1 "[]"] B(2,4) len1 by simp
  have nc: "c \<notin> set (kids g p)" using child_less [OF ok B(5)] B(2) by blast
  have fl: "filter (\<lambda>child. child \<noteq> length (eg_states g)) (kids g p) = kids g p"
    using nc B(2) by (auto simp: filter_id_conv)
  have old: "?ns1 ! p = (?ns ! p)\<lparr>vn_children := kids g p @ [c]\<rparr>"
    using p n by (simp add: B(11))
  have rem: "rem = [c]" and t': "vt_nodes t = ?ns1[c := kill (?ns1 ! c),
        p := (?ns ! p)]" and tv: "vt_variables t = vt_variables (eg_versions g1)"
    using t v2 leaf B(2,9) p n len1 old fl unfolding tree_remove_def
    by (auto simp: opt_simps tree_parent_def)
  have s3: "eg_states g3 = (eg_states g2)[c := default_state]" and v3: "eg_versions g3 = t"
    and p3: "eg_placeholder_universes g3 = eg_placeholder_universes g2"
    using g3 by (auto simp: rem modify_state_def opt_simps)
  note rm = remove_facts [OF egraph_okD(1) [OF ok2] t] and rok = remove_ok [OF egraph_okD(1) [OF ok2] t]
  have len2: "length (eg_states g2) = Suc ?n" using only_atD(3) [OF o] B(14) by auto
  have states: "take ?n (eg_states g3) = eg_states g"
  proof (rule nth_equalityI)
    show "length (take ?n (eg_states g3)) = ?n" by (simp add: s3 len2)
    fix i assume "i < length (take ?n (eg_states g3))"
    then have i: "i < ?n" by (simp add: s3 len2)
    obtain s where "eg_states g1 = eg_states g @ [s]" using B(14) by blast
    then have "eg_states g1 ! i = eg_states g ! i" using i by (simp add: nth_append)
    moreover have "eg_states g2 ! i = eg_states g1 ! i" using o i B(2) by (simp add: only_at_def)
    ultimately show "take ?n (eg_states g3) ! i = eg_states g ! i" using i B(2) by (simp add: s3)
  qed
  have nodes: "take ?n (vt_nodes (eg_versions g3)) = ?ns"
    using p n by (intro nth_equalityI) (auto simp: v3 t' B(2,11) nth_list_update nth_append)
  have sub: "subtree (vt_nodes (eg_versions g2)) c = {c}"
    using rm(1) rem by simp
  have live3: "live g3 w \<longleftrightarrow> live g w" for w
  proof -
    have "live g3 w \<longleftrightarrow> live g1 w \<and> w \<noteq> c" using rm(6) sub v2 by (simp add: v3)
    moreover have "\<not> live g c" using live_less [OF ok] B(2) by blast
    ultimately show ?thesis using B(6) by metis
  qed
  have "egraph_ok g3"
    unfolding egraph_ok_def
  proof (intro conjI allI impI)
    show "tree_ok (eg_versions g3)" using rok by (simp add: v3)
    show "length (eg_states g3) = length (vt_nodes (eg_versions g3))" using len1 len2 by (simp add: s3 v3 t')
    fix w assume "live g3 w"
    then have w: "live g w" using live3 by simp
    have wl: "w < ?n" using live_less [OF ok w] .
    have "path g3 w = path g2 w"
      using remove_anc [OF egraph_okD(1) [OF ok2] t, of w] wl len1 v2 by (simp add: v3)
    moreover have "eg_states g3 ! a = eg_states g2 ! a" if "a \<in> set (path g2 w)" for a
      using anc_le [OF that] wl B(2) by (simp add: s3)
    ultimately have "lookup g3 w f = lookup g2 w f" for f :: "version_state \<Rightarrow> ptr option"
      unfolding lookup_def by (auto intro: first_some_cong)
    then have "par g3 w = par g2 w" by (simp add: par_def fun_eq_iff)
    then show "uf_ok (par g3 w)" using egraph_okD(3) [OF ok2, of w] w B(6) v2 by simp
  qed
  then show ?thesis
    using live3 nodes states tv B(12,13) p3 only_atD(2) [OF o] by (simp add: undone_def v3)
qed

section \<open>Committing\<close>

lemma collapse_parts:
  assumes ok: "egraph_ok g" and r: "collapse_into g c p = Some (g', eff)"
  shows "live g c" and "live g p" and "vn_parent (vt_nodes (eg_versions g) ! c) = Some p" and "kids g c = []"
    and "kids g p = [c]" and "p < c"
    and "eg_states g' = (eg_states g)[c := default_state, p := merge_state (eg_states g ! p) (eg_states g ! c)]"
    and "\<exists>t1 rem. reown_variables (eg_versions g) c p = Some t1 \<and> tree_remove t1 c = Some (eg_versions g', rem)"
    and "eg_placeholder_universes g' = eg_placeholder_universes g"
    and "eff = \<lparr>ce_wakes = sorted_list_of_set (vs_wakes (eg_states g ! c)),
       ce_semantic_revision = vs_semantic_revision (eg_states g ! c)\<rparr>"
proof -
  note t = tree_okD [OF egraph_okD(1) [OF ok]]
  show l: "live g c" and lp: "live g p" using r by (auto simp: collapse_into_def opt_simps Let_def)
  show par: "vn_parent (vt_nodes (eg_versions g) ! c) = Some p" and "kids g c = []" and "kids g p = [c]"
    using r by (auto simp: collapse_into_def opt_simps Let_def tree_parent_def is_leaf_def tree_children_def)
  show pc: "p < c" using parents_okD(2) [OF t(1) _ par] l by (simp add: is_live_iff)
  show "eg_states g' = (eg_states g)[c := default_state, p := merge_state (eg_states g ! p) (eg_states g ! c)]"
    using r pc by (auto simp: collapse_into_def opt_simps Let_def)
  show "\<exists>t1 rem. reown_variables (eg_versions g) c p = Some t1 \<and> tree_remove t1 c = Some (eg_versions g', rem)"
    using r by (auto simp: collapse_into_def opt_simps Let_def)
  show "eg_placeholder_universes g' = eg_placeholder_universes g"
    using r by (auto simp: collapse_into_def opt_simps Let_def)
  show "eff = \<lparr>ce_wakes = sorted_list_of_set (vs_wakes (eg_states g ! c)),
       ce_semantic_revision = vs_semantic_revision (eg_states g ! c)\<rparr>"
    using r by (auto simp: collapse_into_def opt_simps Let_def)
qed

lemma collapse_tree:
  assumes ok: "egraph_ok g" and r: "collapse_into g c p = Some (g', eff)"
  shows "tree_ok (eg_versions g')" and "length (vt_nodes (eg_versions g')) = length (vt_nodes (eg_versions g))"
    and "\<And>w. live g' w \<longleftrightarrow> live g w \<and> w \<noteq> c"
    and "\<And>w. w < length (eg_states g) \<Longrightarrow> path g' w = path g w"
proof -
  note P = collapse_parts [OF ok r] and e = egraph_okD [OF ok]
  obtain t1 rem where o: "reown_variables (eg_versions g) c p = Some t1" and m: "tree_remove t1 c = Some (eg_versions g', rem)"
    using P(8) by blast
  note O = reown_facts [OF e(1) o]
  note M = remove_facts [OF O(1) m]
  show "tree_ok (eg_versions g')" by (rule remove_ok [OF O(1) m])
  have len: "length (vt_nodes t1) = length (vt_nodes (eg_versions g))"
    and same: "\<And>v. v < length (vt_nodes (eg_versions g)) \<Longrightarrow> vn_removed (vt_nodes (eg_versions g) ! v) = vn_removed (vt_nodes t1 ! v) \<and>
      vn_children (vt_nodes (eg_versions g) ! v) = vn_children (vt_nodes t1 ! v)"
    using O(2) by (auto simp: same_links_def)
  show "length (vt_nodes (eg_versions g')) = length (vt_nodes (eg_versions g))" using M(3) len by simp
  have l1: "is_live t1 w \<longleftrightarrow> live g w" for w using len same by (auto simp: is_live_iff)
  have cl: "c < length (vt_nodes t1)" "\<not> vn_removed (vt_nodes t1 ! c)" using P(1) l1 [of c] by (simp_all add: is_live_iff)
  have "vn_children (vt_nodes t1 ! c) = []" using P(4) same [of c] cl len by simp
  then have "subtree (vt_nodes t1) c = {c}"
    using subtree_step [OF tree_okD(1,2) [OF O(1)] cl] by simp
  then show "live g' w \<longleftrightarrow> live g w \<and> w \<noteq> c" for w using M(6) l1 by simp
  show "path g' w = path g w" if "w < length (eg_states g)" for w
    using that remove_anc [OF O(1) m, of w] same_links_anc [OF O(2), of w] len e(2) by simp
qed

lemma collapse_parent_path:
  assumes ok: "egraph_ok g" and r: "collapse_into g c p = Some (g', eff)" and w: "live g w" "w \<noteq> p" "w \<noteq> c"
  shows "p \<notin> set (path g w)" and "c \<notin> set (path g w)"
proof -
  note P = collapse_parts [OF ok r] and e = egraph_okD [OF ok] and t = tree_okD [OF egraph_okD(1) [OF ok]]
  show c: "c \<notin> set (path g w)" using leaf_path [OF ok P(1,4) w(1)] w(3) by blast
  show "p \<notin> set (path g w)"
  proof
    assume "p \<in> set (path g w)"
    then obtain d where d: "d \<in> set (path g w)" "vn_parent (vt_nodes (eg_versions g) ! d) = Some p"
      using anc_via_child [OF t(1) _ _ w(2) [symmetric]] w(1) by (auto simp: is_live_iff)
    have "live g d" using anc_live [OF e(1) w(1) d(1)] .
    moreover have "d \<noteq> 0" using d(2) t(1) by (cases "d = 0") (auto simp: parents_ok_def)
    ultimately have "d \<in> set (kids g p)" using links_parent [OF t(2) _ _ d(2)] by (auto simp: is_live_iff)
    then show False using P(5) d(1) c by simp
  qed
qed

text \<open>After the commit the parent looks everything up as the child did.\<close>

lemma collapse_lookup_parent:
  assumes ok: "egraph_ok g" and r: "collapse_into g c p = Some (g', eff)"
    and sel: "\<And>a b. sel (merge_state a b) = (case sel b of Some x \<Rightarrow> Some x | None \<Rightarrow> sel a)"
  shows "lookup g' p sel = lookup g c sel"
proof -
  note P = collapse_parts [OF ok r] and e = egraph_okD [OF ok] and t = tree_okD [OF egraph_okD(1) [OF ok]]
  have cl: "c < length (eg_states g)" using live_less [OF ok P(1)] .
  then have path: "path g c = c # path g p" using anc_step [OF t(1) _ P(3)] e(2) by simp
  obtain vs where vs: "path g p = p # vs" using hd_anc by blast
  have same: "eg_states g' ! a = eg_states g ! a" if "a \<in> set vs" for a
  proof -
    have "a \<noteq> p" using distinct_anc [of "vt_nodes (eg_versions g)" p] that vs by auto
    moreover have "a \<le> p" using anc_le [of a "vt_nodes (eg_versions g)" p] that vs by simp
    ultimately show ?thesis using P(6) by (simp add: P(7))
  qed
  have "path g' p = p # vs" using collapse_tree(4) [OF ok r, of p] P(6) cl vs by simp
  moreover have "eg_states g' ! p = merge_state (eg_states g ! p) (eg_states g ! c)"
    using P(6) cl by (simp add: P(7))
  moreover have "first_some (\<lambda>a. sel (eg_states g' ! a)) vs = first_some (\<lambda>a. sel (eg_states g ! a)) vs"
    using same by (auto intro: first_some_cong)
  ultimately show ?thesis by (simp add: lookup_def path vs sel split: option.split)
qed

lemma collapse_lookup_other:
  assumes ok: "egraph_ok g" and r: "collapse_into g c p = Some (g', eff)" and w: "live g' w" "w \<noteq> p"
  shows "lookup g' w f = lookup g w f"
proof -
  note P = collapse_parts [OF ok r] and T = collapse_tree [OF ok r]
  have l: "live g w" "w \<noteq> c" using w T(3) by simp_all
  note n = collapse_parent_path [OF ok r l(1) w(2) l(2)]
  have "eg_states g' ! a = eg_states g ! a" if "a \<in> set (path g w)" for a
    using n that by (metis P(7) nth_list_update_neq)
  then show ?thesis
    unfolding lookup_def using T(4) [OF live_less [OF ok l(1)]] by (auto intro: first_some_cong)
qed

lemma collapse_ok:
  assumes ok: "egraph_ok g" and r: "collapse_into g c p = Some (g', eff)"
  shows "egraph_ok g'" and "par g' p = par g c" and "\<And>w. live g' w \<Longrightarrow> w \<noteq> p \<Longrightarrow> par g' w = par g w"
proof -
  note P = collapse_parts [OF ok r] and T = collapse_tree [OF ok r]
  have "lookup g' p (\<lambda>s. vs_parents s x) = lookup g c (\<lambda>s. vs_parents s x)" for x
    by (rule collapse_lookup_parent [OF ok r]) (simp add: merge_state_def map_add_simp)
  then show p: "par g' p = par g c" by (simp add: par_def fun_eq_iff)
  show o: "par g' w = par g w" if "live g' w" "w \<noteq> p" for w
    by (simp add: par_def fun_eq_iff collapse_lookup_other [OF ok r that])
  have "uf_ok (par g' w)" if w: "live g' w" for w
  proof (cases "w = p")
    case True
    then show ?thesis using p egraph_okD(3) [OF ok P(1)] by simp
  next
    case False
    then show ?thesis using o [OF w False] egraph_okD(3) [OF ok, of w] w T(3) by simp
  qed
  then show "egraph_ok g'" using T(1,2) egraph_okD(2) [OF ok] by (simp add: egraph_ok_def P(7))
qed

section \<open>Transactions\<close>

text \<open>The invariant of a graph over an arena: every live version has a congruence.\<close>

definition coherent :: "ir \<Rightarrow> egraph \<Rightarrow> bool" where
  "coherent st g \<longleftrightarrow> egraph_ok g \<and> ir_wf st \<and> (\<forall>w. live g w \<longrightarrow> (\<exists>S. congruence st (par g w) S))"

lemma coherentD:
  assumes "coherent st g"
  shows "egraph_ok g" and "ir_wf st" and "live g w \<Longrightarrow> \<exists>S. congruence st (par g w) S"
  using assms by (simp_all add: coherent_def)

lemma congruence_eq: "ir_wf st \<Longrightarrow> congruence st (\<lambda>p. p) (=)"
  by (auto simp: congruence_def identity_equivp list.rel_eq to_root.root)

lemma coherent_new: "ir_wf st \<Longrightarrow> coherent st egraph_new"
proof -
  assume wf: "ir_wf st"
  have "par egraph_new w = (\<lambda>t. t)" if "live egraph_new w" for w
  proof -
    have "w = 0" using that by (auto simp: is_live_iff egraph_new_def tree_new_def)
    then show ?thesis
      using anc_root [OF tree_okD(1) [OF tree_ok_new]]
      by (simp add: par_def lookup_def egraph_new_def default_state_def fun_eq_iff)
  qed
  then show "coherent st egraph_new" using wf egraph_ok_new congruence_eq [OF wf] by (auto simp: coherent_def)
qed

lemma branch_ready:
  assumes co: "coherent st g" and b: "branch_from g p = Some (g1, c)"
  shows "ready c st g1"
  using branch_ok [OF coherentD(1) [OF co] b] coherentD [OF co] by (auto simp: ready_def)

text \<open>What a committed transaction on \<open>v\<close> leaves: the equations \<open>E\<close> at \<open>v\<close>, nothing elsewhere.\<close>

definition committed :: "ir \<Rightarrow> egraph \<Rightarrow> version \<Rightarrow> (ptr \<times> ptr) set \<Rightarrow> ir \<Rightarrow> egraph \<Rightarrow> bool" where
  "committed st g v E st' g' \<longleftrightarrow> coherent st' g' \<and> arena_ext st st' \<and> (\<forall>w. live g' w \<longleftrightarrow> live g w) \<and>
     solutions st' g' v = {I \<in> solutions st' g v. \<forall>(a, b) \<in> E. I a = I b} \<and>
     (\<forall>w. live g w \<longrightarrow> w \<noteq> v \<longrightarrow> (\<forall>t. find g' w t = find g w t))"

lemma commit_transaction:
  assumes co: "coherent st g" and b: "branch_from g v = Some (g1, c)"
    and o: "only_at c g1 g2" and ok2: "egraph_ok g2" and G: "gains st g1 st g2 c E"
    and rb: "rebuild ord g2 c st = Some (g3, st', ch)"
    and k: "collapse_into g3 c v = Some (g4, eff)"
  shows "committed st g v E st' g4"
proof -
  note C = coherentD [OF co] and B = branch_ok [OF coherentD(1) [OF co] b]
  have rd1: "ready c st g1" by (rule branch_ready [OF co b])
  obtain S where "congruence st (par g1 c) S" using rd1 by (auto simp: ready_def)
  then have "\<exists>S. congruence st (par g2 c) S" using G by (metis gainsE)
  then have rd2: "ready c st g2" using rd1 ok2 only_at_view [OF o] by (simp add: ready_def)
  note P = rebuild_facts [OF rd2 rb]
  have o3: "only_at c g1 g3" using o P by (auto simp: preserves_def intro: only_at_trans)
  have ok3: "egraph_ok g3" and wf': "ir_wf st'" and x: "arena_ext st st'" using P by (simp_all add: preserves_def)
  have rd3: "ready c st' g3" by (rule preserves_ready [OF rd2 P])
  note K = collapse_ok [OF ok3 k] and T = collapse_tree [OF ok3 k]
  have nl: "\<not> live g c" using live_less [OF C(1)] B(2) by blast
  have live4: "live g4 w \<longleftrightarrow> live g w" for w
    using T(3) B(6) only_atD(1) [OF o3] nl by metis
  have vc: "v \<noteq> c" using nl B(5) by auto
  have other: "par g4 w = par g w" if w: "live g w" "w \<noteq> v" for w
  proof -
    have wc: "w \<noteq> c" "live g1 w" using w(1) nl B(6) by auto
    have "par g4 w = par g3 w" using K(3) w live4 by simp
    moreover have "c \<notin> set (path g1 w)" using leaf_path [OF B(1,3,4) wc(2)] wc(1) by blast
    then have "par g3 w = par g1 w" by (simp add: par_def fun_eq_iff only_at_lookup [OF o3])
    ultimately show ?thesis using B(8) [OF w(1)] by simp
  qed
  have gain: "gains st g1 st' g3 c E"
    using gains_trans [OF G, of st' g3 "{}"] P by (simp add: preserves_def)
  have sols: "solutions st' g4 v = {I \<in> solutions st' g v. \<forall>(a, b) \<in> E. I a = I b}"
  proof -
    have "solutions st' g3 c = {I \<in> solutions st' g1 c. \<forall>(a, b) \<in> E. I a = I b}"
      using gains_solutions [OF rd1 ok3 wf' readyD(3) [OF rd3] x gain] .
    then show ?thesis using K(2) B(7) by (simp add: solutions_def)
  qed
  have "\<exists>S. congruence st' (par g4 w) S" if "live g4 w" for w
  proof (cases "w = v")
    case True
    then show ?thesis using K(2) rd3 by (simp add: ready_def)
  next
    case False
    have w: "live g w" using that live4 by simp
    then show ?thesis using other [OF w False] C(3) [OF w] congruence_ext [OF _ x C(2)] by metis
  qed
  then have co': "coherent st' g4" using K(1) wf' by (simp add: coherent_def)
  have "find g4 w t = find g w t" if w: "live g w" "w \<noteq> v" for w t
  proof -
    obtain r where "find g w t = Some r" using find_returns [OF C(1) w(1)] by blast
    moreover from this have "find g4 w t = Some r"
      using find_iff [OF C(1)] find_iff [OF K(1)] other [OF w] live4 by simp
    ultimately show ?thesis by simp
  qed
  then show ?thesis using co' x live4 sols by (simp add: committed_def)
qed

text \<open>Probes: a transaction whose operation is a sequence of equations.\<close>

lemma unify_all_outcome:
  assumes "try_each (unify_in_probe st v) eqs g = Some y" and "ready v st g"
  shows "outcome st v (set eqs) g y"
  using assms by (intro try_each_outcome [OF _ assms(1)] unify_outcome) (auto simp: ready_def)

lemma try_probe_cases:
  assumes "try_probe ord g st v operation = Some (res, g', st')"
  obtains (commit) g1 c g2 st2 x g3 ch eff where "branch_from g v = Some (g1, c)"
      and "operation g1 st c = Some (Inr x, g2, st2)" and "rebuild ord g2 c st2 = Some (g3, st', ch)"
      and "collapse_into g3 c v = Some (g', eff)" and "res = Inr (x, eff)"
    | (abort) g1 c g2 e where "branch_from g v = Some (g1, c)"
      and "operation g1 st c = Some (Inl e, g2, st')" and "discard g2 c = Some g'" and "res = Inl e"
  using assms unfolding try_probe_def by (auto simp: opt_simps case_sum_Some)

lemma batch_cases:
  assumes "try_unify_batch ord g st v eqs = Some (res, g', st')"
  obtains (commit) g1 c g2 g3 ch eff where "branch_from g v = Some (g1, c)"
      and "try_each (unify_in_probe st c) eqs g1 = Some (Inr (), g2)" and "rebuild ord g2 c st = Some (g3, st', ch)"
      and "collapse_into g3 c v = Some (g', eff)" and "res = Inr eff"
    | (abort) g1 c g2 e where "branch_from g v = Some (g1, c)"
      and "try_each (unify_in_probe st c) eqs g1 = Some (Inl e, g2)" and "discard g2 c = Some g'" and "res = Inl e"
      and "st' = st"
proof -
  let ?op = "\<lambda>g st child. do { (r, g) \<leftarrow> try_each (unify_in_probe st child) eqs g; Some (r, g, st) }"
  obtain r where p: "try_probe ord g st v ?op = Some (r, g', st')" and res: "res = map_ok snd r"
    using assms by (auto simp: try_unify_batch_def opt_simps)
  show thesis
    using p
  proof (cases rule: try_probe_cases)
    case (commit g1 c g2 st2 x g3 ch eff)
    then have "try_each (unify_in_probe st c) eqs g1 = Some (Inr (), g2)" and "st2 = st"
      by (auto simp: opt_simps)
    then show ?thesis using that(1) commit res by (simp add: map_ok_def)
  next
    case (abort g1 c g2 e)
    then have "try_each (unify_in_probe st c) eqs g1 = Some (Inl e, g2)" and "st' = st"
      by (auto simp: opt_simps)
    then show ?thesis using that(2) abort res by (simp add: map_ok_def)
  qed
qed

lemma batch_ok:
  assumes co: "coherent st g" and r: "try_unify_batch ord g st v eqs = Some (Inr eff, g', st')"
  shows "committed st g v (set eqs) st' g'"
proof -
  from r obtain g1 c g2 g3 ch where b: "branch_from g v = Some (g1, c)"
    and u: "try_each (unify_in_probe st c) eqs g1 = Some (Inr (), g2)" and rb: "rebuild ord g2 c st = Some (g3, st', ch)"
    and k: "collapse_into g3 c v = Some (g', eff)"
    by (rule batch_cases) simp_all
  have o: "outcome st c (set eqs) g1 (Inr (), g2)" by (rule unify_all_outcome [OF u branch_ready [OF co b]])
  then show ?thesis by (intro commit_transaction [OF co b _ _ _ rb k]) (simp_all add: outcome_def)
qed

lemma batch_error:
  assumes co: "coherent st g" and r: "try_unify_batch ord g st v eqs = Some (Inl e, g', st')"
  shows "undone g g'" and "st' = st"
    and "e = Mismatch a b \<Longrightarrow> {I \<in> solutions st g v. \<forall>(a, b) \<in> set eqs. I a = I b} = {}"
proof -
  from r obtain g1 c g2 where b: "branch_from g v = Some (g1, c)"
    and u: "try_each (unify_in_probe st c) eqs g1 = Some (Inl e, g2)" and d: "discard g2 c = Some g'" and st: "st' = st"
    by (rule batch_cases) simp_all
  have rd: "ready c st g1" by (rule branch_ready [OF co b])
  have o: "outcome st c (set eqs) g1 (Inl e, g2)" by (rule unify_all_outcome [OF u rd])
  show "undone g g'"
    using o by (intro discard_child [OF coherentD(1) [OF co] b _ _ d]) (simp_all add: outcome_def)
  show "st' = st" by (rule st)
  show "{I \<in> solutions st g v. \<forall>(a, b) \<in> set eqs. I a = I b} = {}" if "e = Mismatch a b"
  proof -
    have "refutes st g1 c (set eqs)" using o that by (auto simp: outcome_def explains_def)
    then have "{I \<in> solutions st g1 c. \<forall>(a, b) \<in> set eqs. I a = I b} = {}" by (rule refutes_solutions [OF rd])
    then show ?thesis
      using branch_ok(7) [OF coherentD(1) [OF co] b] by (simp add: solutions_def)
  qed
qed

section \<open>Bounds, recovery, required equations\<close>

definition bound_equation :: "ptr \<Rightarrow> bound \<Rightarrow> (ptr \<times> ptr) set" where
  "bound_equation t b = (case b of Exactly s \<Rightarrow> {(t, s)} | _ \<Rightarrow> {})"

definition effect :: "version \<Rightarrow> ir \<Rightarrow> (ptr \<times> ptr) set \<Rightarrow> egraph \<Rightarrow> unit attempt \<Rightarrow> bool" where
  "effect v st E g y \<longleftrightarrow> only_at v g (snd y) \<and> egraph_ok (snd y) \<and> (fst y = Inr () \<longrightarrow> gains st g st (snd y) v E)"

lemma outcome_effect: "outcome st v E g y \<Longrightarrow> effect v st E g y"
  by (simp add: outcome_def effect_def)

lemma effect_quiet: "ready v st g \<Longrightarrow> quiet v g h \<Longrightarrow> effect v st {} g (r, h)"
  using preserves_quiet [of v st g h] by (simp add: effect_def preserves_def)

lemma effect_after:
  assumes "effect v st E g (Inr (), h)" and "quiet v h k" and "ready v st g"
  shows "effect v st E g (Inr (), k)"
  using assms gains_trans [OF _ gains_quiet [OF assms(2)], of st g st E]
    quiet_ok [OF _ assms(2)] only_at_trans [OF _ quiet_only [OF assms(2)], of g]
  by (auto simp: effect_def only_at_def ready_def)

lemma set_bound_effect:
  assumes rd: "ready c st g" and r: "set_bound_operation t b g st c = Some (q, g', st')"
  shows "st' = st \<and> effect c st (bound_equation t b) g (q, g')"
proof -
  note R = readyD [OF rd]
  obtain root ty where f: "find g c t = Some root" and ty: "get_ty st root = Some ty"
    using r by (auto simp: set_bound_operation_def opt_simps)
  have tr: "to_root (par g c) t root" using f R(1) by (simp add: find_iff)
  show ?thesis
  proof (cases "infer_var_of ty")
    case None
    then show ?thesis
      using r f ty R by (auto simp: set_bound_operation_def opt_simps effect_def)
  next
    case (Some i)
    then obtain q1 h where a: "(case b of
             BoundNone \<Rightarrow> Some (Inr (), g)
           | AtLeast bt \<Rightarrow> do {
               ceiling \<leftarrow> current_universe g c i;
               (r, g, _) \<leftarrow> make_accessible st c i ceiling bt (g, {});
               Some (r, g) }
           | Exactly bt \<Rightarrow> unify_in_probe st c (root, bt) g) = Some (q1, h)"
      and rest: "(case q1 of
           Inl e \<Rightarrow> Some (Inl e, h, st)
         | Inr _ \<Rightarrow> do { (g, _) \<leftarrow> set_bound_in h st c root b; Some (Inr (), g, st) }) = Some (q, g', st')"
      using r f ty by (auto simp: set_bound_operation_def opt_simps simp del: bind_assoc)
    have 1: "effect c st (bound_equation t b) g (q1, h)"
    proof (cases b)
      case BoundNone
      then show ?thesis using a effect_quiet [OF rd quiet_refl] by (simp add: bound_equation_def)
    next
      case (AtLeast bt)
      then obtain u vis where "make_accessible st c i u bt (g, {}) = Some (q1, h, vis)"
        using a by (auto simp: opt_simps)
      then have "quiet c g h" using make_accessible_facts by fastforce
      then show ?thesis using AtLeast effect_quiet [OF rd] by (simp add: bound_equation_def)
    next
      case (Exactly bt)
      have "outcome st c {(root, bt)} g (q1, h)" using a Exactly unify_outcome R(1,2) by simp
      moreover obtain rb where "to_root (par g c) bt rb" using to_root_ex [OF egraph_okD(3) [OF R(1,3)]] by blast
      ultimately have "outcome st c {(t, bt)} g (q1, h)" by (rule outcome_start [OF _ R(2) tr])
      then show ?thesis using Exactly by (simp add: bound_equation_def outcome_effect)
    qed
    show ?thesis
    proof (cases q1)
      case (Inl e)
      then have "q = Inl e" "g' = h" "st' = st" using rest by simp_all
      then show ?thesis using 1 Inl by simp
    next
      case (Inr x)
      with rest obtain d where d: "set_bound_in h st c root b = Some (g', d)" and "q = Inr ()" and "st' = st"
        by (cases "set_bound_in h st c root b") auto
      moreover have "effect c st (bound_equation t b) g (Inr (), g')"
        by (rule effect_after [OF _ set_bound_quiet [OF d] rd]) (use 1 Inr in simp)
      ultimately show ?thesis by simp
    qed
  qed
qed

lemma recovery_effect:
  assumes rd: "ready c st g" and r: "recovery_operation t e g st c = Some (q, g', st')"
  shows "st' = st \<and> effect c st {(t, e)} g (q, g')"
proof -
  note R = readyD [OF rd]
  obtain a b ty where f: "find g c t = Some a" and fe: "find g c e = Some b" and ty: "get_ty st a = Some ty"
    using r by (auto simp: recovery_operation_def opt_simps)
  have ta: "to_root (par g c) t a" and tb: "to_root (par g c) e b" using f fe R(1) by (simp_all add: find_iff)
  show ?thesis
  proof (cases q)
    case (Inl x)
    then show ?thesis
      using r f fe ty R by (auto simp: recovery_operation_def opt_simps effect_def split: if_splits)
  next
    case (Inr x)
    then obtain h d root where s: "set_bound_in g st c a (Exactly b) = Some (h, d)"
      and u: "union h st c a b = Some (g', root)" and st: "st' = st" and fl: "is_infer_var ty"
      using r f fe ty by (auto simp: recovery_operation_def opt_simps split: if_splits)
    note qu = set_bound_quiet [OF s]
    have "outcome st c {(a, b)} h (Inr (), g')"
      using outcome_union [OF quiet_ok [OF R(1) qu R(3,4)] R(2) u] ty fl to_root_root [OF ta] quiet_par [OF qu]
      by (simp add: flex_def)
    then have "outcome st c {(a, b)} g (Inr (), g')" by (rule outcome_quiet [OF qu])
    then have "outcome st c {(t, e)} g (Inr (), g')" by (rule outcome_move [OF _ R(2) ta tb])
    then show ?thesis using Inr st by (simp add: outcome_effect)
  qed
qed

lemma probe_ok:
  assumes co: "coherent st g" and r: "try_probe ord g st v operation = Some (Inr x, g', st')"
    and op: "\<And>h c q h' s'. ready c st h \<Longrightarrow> operation h st c = Some (q, h', s') \<Longrightarrow>
      s' = st \<and> effect c st E h (map_ok (\<lambda>_. ()) q, h')"
  shows "committed st g v E st' g'"
  using r
proof (cases rule: try_probe_cases)
  case (commit g1 c g2 st2 x g3 ch eff)
  then have "st2 = st \<and> effect c st E g1 (Inr (), g2)"
    using op [OF branch_ready [OF co commit(1)] commit(2)] by (simp add: map_ok_def)
  then show ?thesis
    using commit by (intro commit_transaction [OF co commit(1) _ _ _ _ commit(4)]) (auto simp: effect_def)
qed simp

lemma probe_error:
  assumes co: "coherent st g" and r: "try_probe ord g st v operation = Some (Inl e, g', st')"
    and op: "\<And>h c q h' s'. ready c st h \<Longrightarrow> operation h st c = Some (q, h', s') \<Longrightarrow>
      s' = st \<and> effect c st E h (map_ok (\<lambda>_. ()) q, h')"
  shows "undone g g' \<and> st' = st"
  using r
proof (cases rule: try_probe_cases)
  case (abort g1 c g2 e)
  then have o: "st' = st \<and> effect c st E g1 (Inl e, g2)"
    using op [OF branch_ready [OF co abort(1)] abort(2)] by (simp add: map_ok_def)
  then show ?thesis
    using discard_child [OF coherentD(1) [OF co] abort(1) _ _ abort(3)] by (simp add: effect_def)
qed simp

end
