(* ===== verification/Sessions.thy ===== *)
theory Sessions
  imports Transactions
begin

text \<open>
  Sequences of the graph's public operations, as a state machine, and their invariant: every state
  a checker can reach is coherent.  Coherence is what the theorems on unification assume.
\<close>

section \<open>Each operation keeps the graph coherent\<close>

lemma coherentI:
  assumes "egraph_ok g" and "ir_wf st" and "\<And>w. live g w \<Longrightarrow> \<exists>S. congruence st (par g w) S"
  shows "coherent st g"
  using assms by (simp add: coherent_def)

lemma coherent_ext: "coherent st g \<Longrightarrow> ir_wf st' \<Longrightarrow> arena_ext st st' \<Longrightarrow> coherent st' g"
  unfolding coherent_def using congruence_ext by blast

lemma coherent_at:
  assumes co: "coherent st g" and o: "only_at v g g'" and ok: "egraph_ok g'" and v: "live g v" "kids g v = []"
    and c: "\<exists>S. congruence st (par g' v) S"
  shows "coherent st g'"
proof (rule coherentI [OF ok coherentD(2) [OF co]])
  fix w assume "live g' w"
  then have w: "live g w" using only_atD(1) [OF o] by simp
  show "\<exists>S. congruence st (par g' w) S"
  proof (cases "w = v")
    case True
    then show ?thesis using c by simp
  next
    case False
    then have "v \<notin> set (path g w)" using leaf_path [OF coherentD(1) [OF co] v w] by blast
    then have "par g' w = par g w" by (simp add: par_def fun_eq_iff only_at_lookup [OF o])
    then show ?thesis using coherentD(3) [OF co w] by simp
  qed
qed

lemma coherent_quiet:
  assumes co: "coherent st g" and q: "quiet v g g'" and v: "live g v" "kids g v = []"
  shows "coherent st g'"
  using coherent_at [OF co quiet_only [OF q] quiet_ok [OF coherentD(1) [OF co] q v] v] coherentD(3) [OF co v(1)]
    quiet_par [OF q] by simp

lemma coherent_find_mut:
  assumes co: "coherent st g" and f: "find_mut g v t = Some (g', r)"
  shows "coherent st g'"
proof -
  note F = find_mut_facts [OF coherentD(1) [OF co] f]
  obtain S where "congruence st (par g v) S" using coherentD(3) [OF co F(3)] by blast
  with gains_find_mut [OF coherentD(1) [OF co] f] have "\<exists>S. congruence st (par g' v) S" by (metis gainsE)
  then show ?thesis by (rule coherent_at [OF co F(1,2,3,4)])
qed

lemma coherent_rebuild:
  assumes co: "coherent st g" and r: "rebuild ord g v st = Some (g', st', ch)"
  shows "coherent st' g'"
proof -
  have v: "live g v" "kids g v = []" using r by (auto simp: rebuild_def opt_simps)
  have rd: "ready v st g" using coherentD [OF co] v by (simp add: ready_def)
  note P = rebuild_facts [OF rd r]
  have "coherent st' g" using coherent_ext [OF co] P by (simp add: preserves_def)
  then show ?thesis
    using coherent_at [of st' g v g'] P v preserves_ready [OF rd P] by (simp add: preserves_def ready_def)
qed

lemma coherent_branch:
  assumes co: "coherent st g" and b: "branch_from g p = Some (g', c)"
  shows "coherent st g'"
proof (rule coherentI)
  note B = branch_ok [OF coherentD(1) [OF co] b]
  show "egraph_ok g'" by (rule B(1))
  show "ir_wf st" by (rule coherentD(2) [OF co])
  show "\<exists>S. congruence st (par g' w) S" if "live g' w" for w
    using that coherentD(3) [OF co] B(5,6,7,8) by (cases "w = c") auto
qed

lemma coherent_collapse:
  assumes co: "coherent st g" and k: "collapse_into g c p = Some (g', eff)"
  shows "coherent st g'"
proof (rule coherentI)
  note K = collapse_ok [OF coherentD(1) [OF co] k]
  show "egraph_ok g'" by (rule K(1))
  show "ir_wf st" by (rule coherentD(2) [OF co])
  show "\<exists>S. congruence st (par g' w) S" if "live g' w" for w
    using that coherentD(3) [OF co] K(2,3) collapse_parts(1) [OF coherentD(1) [OF co] k]
      collapse_tree(3) [OF coherentD(1) [OF co] k] by (cases "w = p") auto
qed

lemma reset_states:
  "fold_state (\<lambda>w g. modify_state g w (\<lambda>_. default_state)) ws g = Some g' \<Longrightarrow>
     eg_versions g' = eg_versions g \<and> length (eg_states g') = length (eg_states g) \<and>
     eg_placeholder_universes g' = eg_placeholder_universes g \<and>
     (\<forall>a. a \<notin> set ws \<longrightarrow> eg_states g' ! a = eg_states g ! a)"
  by (induction ws arbitrary: g) (fastforce simp: opt_simps modify_state_def)+

lemma coherent_discard:
  assumes co: "coherent st g" and d: "discard g v = Some g'"
  shows "coherent st g'"
proof -
  note C = coherentD [OF co]
  obtain t rem where t: "tree_remove (eg_versions g) v = Some (t, rem)"
    and f: "fold_state (\<lambda>w g. modify_state g w (\<lambda>_. default_state)) rem (g\<lparr>eg_versions := t\<rparr>) = Some g'"
    using d by (auto simp: discard_def opt_simps)
  note R = remove_facts [OF egraph_okD(1) [OF C(1)] t]
  note F = reset_states [OF f, simplified]
  have par: "par g' w = par g w" and l: "live g w" if w: "live g' w" for w
  proof -
    have w': "live g w" "w \<notin> subtree (vt_nodes (eg_versions g)) v" using w F R(6) by auto
    then show "live g w" by simp
    have "path g' w = path g w"
      using remove_anc [OF egraph_okD(1) [OF C(1)] t, of w] w'(1) F by (simp add: is_live_iff)
    moreover have "eg_states g' ! a = eg_states g ! a" if a: "a \<in> set (path g w)" for a
    proof -
      have "a \<notin> subtree (vt_nodes (eg_versions g)) v"
      proof
        assume "a \<in> subtree (vt_nodes (eg_versions g)) v"
        then have "v \<in> set (path g w)"
          using anc_trans [OF tree_okD(1) [OF egraph_okD(1) [OF C(1)]] _ a] w'(1)
          by (auto simp: subtree_def is_live_iff)
        then show False using w' by (auto simp: subtree_def is_live_iff)
      qed
      then show ?thesis using F R(1) by simp
    qed
    ultimately have "lookup g' w f = lookup g w f" for f :: "version_state \<Rightarrow> ptr option"
      unfolding lookup_def by (auto intro: first_some_cong)
    then show "par g' w = par g w" by (simp add: par_def fun_eq_iff)
  qed
  have "egraph_ok g'"
    using remove_ok [OF egraph_okD(1) [OF C(1)] t] F R(3) egraph_okD(2,3) [OF C(1)] par l by (simp add: egraph_ok_def)
  then show ?thesis using C(2,3) par l by (intro coherentI) auto
qed

lemma coherent_alloc_var:
  assumes co: "coherent st g" and r: "alloc_var_in_domain g v u d = Some (g', i)"
    and fits: "length (vt_variables (eg_versions g)) < 2 ^ 32"
  shows "coherent st g'"
proof -
  note C = coherentD [OF co]
  obtain t where t: "tree_alloc_var_in_domain (eg_versions g) v u d = Some (t, i)"
    and m: "modify_state (g\<lparr>eg_versions := t\<rparr>) v
       (\<lambda>s. s\<lparr>vs_universe_ceilings := (vs_universe_ceilings s)(i \<mapsto> u)\<rparr>) = Some g'"
    using r by (auto simp: alloc_var_in_domain_def opt_simps)
  note A = alloc_var_facts [OF egraph_okD(1) [OF C(1)] t fits]
  let ?h = "g\<lparr>eg_versions := t\<rparr>"
  have o: "only_at v ?h g'" using modify_state_only [OF m] .
  have v: "eg_versions g' = t" using only_atD(1) [OF o] by simp
  have len: "length (vt_nodes t) = length (vt_nodes (eg_versions g))" using A(2) by (simp add: same_links_def)
  have l: "live g' w \<longleftrightarrow> live g w" for w using A(2) len by (auto simp: v is_live_iff same_links_def)
  have p: "par g' w = par g w" if w: "live g w" for w
  proof -
    have "lookup g' w (\<lambda>s. vs_parents s x) = lookup ?h w (\<lambda>s. vs_parents s x)" for x
      by (rule modify_lookup_same [OF m]) simp
    moreover have "path ?h w = path g w" using same_links_anc [OF A(2)] w by (simp add: is_live_iff)
    then have "lookup ?h w f = lookup g w f" for f :: "version_state \<Rightarrow> ptr option" by (simp add: lookup_def)
    ultimately show ?thesis by (simp add: par_def fun_eq_iff)
  qed
  have "egraph_ok g'"
    using A(1) egraph_okD(2,3) [OF C(1)] only_atD(3) [OF o] p l len by (simp add: egraph_ok_def v)
  then show ?thesis using C(2,3) p l by (intro coherentI) auto
qed

lemma coherent_placeholder:
  "coherent st g \<Longrightarrow> coherent st (g\<lparr>eg_placeholder_universes := m\<rparr>)"
proof -
  have "par (g\<lparr>eg_placeholder_universes := m\<rparr>) = par g" by (simp add: par_def lookup_def fun_eq_iff)
  then show "coherent st g \<Longrightarrow> coherent st (g\<lparr>eg_placeholder_universes := m\<rparr>)"
    by (simp add: coherent_def egraph_ok_def)
qed

lemma undone_coherent:
  assumes co: "coherent st g" and u: "undone g g'"
  shows "coherent st g'"
proof (rule coherentI)
  note C = coherentD [OF co]
  show "egraph_ok g'" and "ir_wf st" using u C by (simp_all add: undone_def)
  fix w assume "live g' w"
  then have w: "live g w" using u by (simp add: undone_def)
  have wl: "w < length (eg_states g)" using live_less [OF C(1) w] .
  have node: "vt_nodes (eg_versions g') ! a = vt_nodes (eg_versions g) ! a"
    and state: "eg_states g' ! a = eg_states g ! a" if "a < length (eg_states g)" for a
    using u that by (metis undone_def nth_take)+
  have "path g' w = path g w" by (rule anc_cong) (use node wl in simp)
  moreover have "eg_states g' ! a = eg_states g ! a" if "a \<in> set (path g w)" for a
    using state anc_le [OF that] wl by simp
  ultimately have "lookup g' w f = lookup g w f" for f :: "version_state \<Rightarrow> ptr option"
    unfolding lookup_def by (auto intro: first_some_cong)
  then have "par g' w = par g w" by (simp add: par_def fun_eq_iff)
  then show "\<exists>S. congruence st (par g' w) S" using C(3) [OF w] by simp
qed

section \<open>Required equations\<close>

lemma alloc_var_ty:
  assumes "ir_wf st" and "alloc_ty st (TyInferVar i) = (st', p)"
  shows "ir_wf st' \<and> arena_ext st st'"
  using alloc_ty_wf [OF assms] by (simp add: ty_ok_def leaf_def)

lemma affected_variables_arena:
  assumes "affected_variables g st p c l r = Some (vs, st')" and wf: "ir_wf st"
  shows "ir_wf st' \<and> arena_ext st st'"
proof -
  obtain P visible found where m: "map_state (\<lambda>variable st. do {
         let (st, t) = alloc_ty st (TyInferVar variable);
         r \<leftarrow> find g c t;
         Some (if P r then [variable] else [], st) }) visible st = Some (found, st')"
    using assms(1) by (auto simp: affected_variables_def opt_simps Let_def simp del: bind_assoc)
  show ?thesis
    by (rule map_state_inv [OF m]) (use wf alloc_var_ty arena_ext_trans in \<open>fastforce simp: opt_simps Let_def split: prod.splits\<close>)+
qed

lemma required_cases:
  assumes "try_unify_required ord g st v l r = Some (res, g', st')"
  obtains (commit) g1 c g2 g3 ch eff where "branch_from g v = Some (g1, c)"
      and "unify_in_probe st c (l, r) g1 = Some (Inr (), g2)" and "rebuild ord g2 c st = Some (g3, st', ch)"
      and "collapse_into g3 c v = Some (g', eff)" and "res = Inr eff"
    | (abort) g1 c g2 e vs where "branch_from g v = Some (g1, c)"
      and "unify_in_probe st c (l, r) g1 = Some (Inl e, g2)" and "discard g2 c = Some g'"
      and "res = Inl \<lparr>rf_error = e, rf_affected = vs\<rparr>"
      and "st' = st \<or> (\<exists>l r. affected_variables g2 st v c l r = Some (vs, st'))"
proof -
  from assms obtain g1 c q g2 where b: "branch_from g v = Some (g1, c)" and u: "unify_in_probe st c (l, r) g1 = Some (q, g2)"
    and rest: "(case q of
       Inr _ \<Rightarrow> do {
         (g, st, _) \<leftarrow> rebuild ord g2 c st;
         (g, effects) \<leftarrow> collapse_into g c v;
         Some (Inr effects, g, st) }
     | Inl error \<Rightarrow> do {
         (affected, st) \<leftarrow> (case error of
             DomainConflict left _ right _ \<Rightarrow> affected_variables g2 st v c left right
           | _ \<Rightarrow> Some ([], st));
         g \<leftarrow> discard g2 c;
         Some (Inl \<lparr>rf_error = error, rf_affected = affected\<rparr>, g, st) }) = Some (res, g', st')"
    by (auto simp: try_unify_required_def opt_simps simp del: bind_assoc)
  show thesis
  proof (cases q)
    case (Inl e)
    then obtain vs where d: "discard g2 c = Some g'" "res = Inl \<lparr>rf_error = e, rf_affected = vs\<rparr>"
      and a: "(case e of DomainConflict left _ right _ \<Rightarrow> affected_variables g2 st v c left right
           | _ \<Rightarrow> Some ([], st)) = Some (vs, st')"
      using rest by (auto simp: opt_simps simp del: bind_assoc)
    have "st' = st \<or> (\<exists>l r. affected_variables g2 st v c l r = Some (vs, st'))" using a by (cases e) auto
    then show thesis using that(2) [OF b _ d] u Inl by simp
  next
    case (Inr x)
    then obtain g3 ch eff where "rebuild ord g2 c st = Some (g3, st', ch)" and "collapse_into g3 c v = Some (g', eff)"
      and "res = Inr eff"
      using rest by (auto simp: opt_simps simp del: bind_assoc)
    then show thesis using that(1) b u Inr by simp
  qed
qed

lemma required_ok:
  assumes co: "coherent st g" and r: "try_unify_required ord g st v a b = Some (Inr eff, g', st')"
  shows "committed st g v {(a, b)} st' g'"
  using r
proof (cases rule: required_cases)
  case (commit g1 c g2 g3 ch eff)
  have "outcome st c {(a, b)} g1 (Inr (), g2)"
    using unify_outcome [OF commit(2)] readyD [OF branch_ready [OF co commit(1)]] by simp
  then show ?thesis
    by (intro commit_transaction [OF co commit(1) _ _ _ commit(3,4)]) (simp_all add: outcome_def)
qed simp

lemma required_error:
  assumes co: "coherent st g" and r: "try_unify_required ord g st v a b = Some (Inl f, g', st')"
  shows "undone g g' \<and> ir_wf st' \<and> arena_ext st st'"
  using r
proof (cases rule: required_cases)
  case (abort g1 c g2 e vs)
  have "outcome st c {(a, b)} g1 (Inl e, g2)"
    using unify_outcome [OF abort(2)] readyD [OF branch_ready [OF co abort(1)]] by simp
  then have "undone g g'"
    by (intro discard_child [OF coherentD(1) [OF co] abort(1) _ _ abort(3)]) (simp_all add: outcome_def)
  moreover have "ir_wf st' \<and> arena_ext st st'"
    using abort(5) affected_variables_arena [OF _ coherentD(2) [OF co]] coherentD(2) [OF co] by auto
  ultimately show ?thesis by simp
qed simp

section \<open>The other transactions\<close>

lemma set_bound_cases:
  assumes co: "coherent st g" and r: "try_set_bound ord g st v t b = Some (res, g', st')"
  shows "(\<exists>eff. res = Inr eff \<and> committed st g v (bound_equation t b) st' g') \<or> (\<exists>e. res = Inl e \<and> undone g g' \<and> st' = st)"
proof -
  obtain q where p: "try_probe ord g st v (set_bound_operation t b) = Some (q, g', st')" and res: "res = map_ok snd q"
    using r by (auto simp: try_set_bound_def opt_simps)
  have op: "s' = st \<and> effect c st (bound_equation t b) h (map_ok (\<lambda>_. ()) y, h')"
    if "ready c st h" "set_bound_operation t b h st c = Some (y, h', s')" for h c y h' s'
    using set_bound_effect [OF that] by (cases y) (simp_all add: map_ok_def)
  show ?thesis
  proof (cases q)
    case (Inl e)
    then show ?thesis using probe_error [OF co p [unfolded Inl] op] res by (simp add: map_ok_def)
  next
    case (Inr x)
    then obtain u eff where "x = (u, eff)" by (cases x)
    then show ?thesis using probe_ok [OF co _ op] p Inr res by (simp add: map_ok_def)
  qed
qed

lemma recovery_cases:
  assumes co: "coherent st g" and r: "install_error_recovery ord g st v t e = Some (res, g', st')"
  shows "(\<exists>eff. res = Inr eff \<and> committed st g v {(t, e)} st' g') \<or> (\<exists>e. res = Inl e \<and> undone g g' \<and> st' = st)"
proof -
  obtain q where p: "try_probe ord g st v (recovery_operation t e) = Some (q, g', st')" and res: "res = map_ok snd q"
    using r by (auto simp: install_error_recovery_def opt_simps)
  have op: "s' = st \<and> effect c st {(t, e)} h (map_ok (\<lambda>_. ()) y, h')"
    if "ready c st h" "recovery_operation t e h st c = Some (y, h', s')" for h c y h' s'
    using recovery_effect [OF that] by (cases y) (simp_all add: map_ok_def)
  show ?thesis
  proof (cases q)
    case (Inl e)
    then show ?thesis using probe_error [OF co p [unfolded Inl] op] res by (simp add: map_ok_def)
  next
    case (Inr x)
    then obtain u eff where "x = (u, eff)" by (cases x)
    then show ?thesis using probe_ok [OF co _ op] p Inr res by (simp add: map_ok_def)
  qed
qed

end
