(* ===== verification/UnifyClasses.thy ===== *)
theory UnifyClasses
  imports UnifyCorrect
begin

text \<open>
  What unification does to the classes themselves: inside a probe classes only grow, and an
  accepted pair ends in one class.
\<close>

definition joined :: "egraph \<Rightarrow> version \<Rightarrow> ptr \<Rightarrow> ptr \<Rightarrow> bool" where
  "joined g v x y \<longleftrightarrow> (\<exists>r. to_root (par g v) x r \<and> to_root (par g v) y r)"

definition coarser :: "version \<Rightarrow> egraph \<Rightarrow> egraph \<Rightarrow> bool" where
  "coarser v g g' \<longleftrightarrow> (\<forall>x y. joined g v x y \<longrightarrow> joined g' v x y)"

lemma joined_find:
  assumes "egraph_ok g" and "live g v"
  shows "joined g v x y \<longleftrightarrow> find g v x = find g v y"
proof -
  obtain a b where "find g v x = Some a" and "find g v y = Some b" using find_returns [OF assms] by blast
  then show ?thesis using find_iff [OF assms(1), of v] to_root_unique unfolding joined_def by (metis option.inject)
qed

lemma coarser_trans: "coarser v g h \<Longrightarrow> coarser v h k \<Longrightarrow> coarser v g k"
  by (simp add: coarser_def)

lemma coarser_quiet: "quiet v g g' \<Longrightarrow> coarser v g g'"
  by (simp add: coarser_def joined_def quiet_par)

lemma coarser_find_mut: "egraph_ok g \<Longrightarrow> find_mut g v t = Some (g', r) \<Longrightarrow> coarser v g g'"
  using find_mut_facts(6) [of g v t g' r] by (simp add: coarser_def joined_def)

lemma union_joins:
  assumes ok: "egraph_ok g" and u: "union g st v a b = Some (g', r)"
  shows "coarser v g g'" and "joined g' v a b"
proof -
  obtain ra rb where ta: "to_root (par g v) a ra" and tb: "to_root (par g v) b rb"
    and same: "ra = rb \<Longrightarrow> g' = g \<and> r = ra"
    and ty: "ra \<noteq> rb \<Longrightarrow> get_ty st ra \<noteq> None \<and> get_ty st rb \<noteq> None"
    and var: "ra \<noteq> rb \<Longrightarrow> map_option is_infer_var (get_ty st ra) = Some True \<Longrightarrow> par g' v = (par g v)(ra := rb) \<and> r = rb"
    and rig: "ra \<noteq> rb \<Longrightarrow> map_option is_infer_var (get_ty st ra) = Some False \<Longrightarrow> par g' v = (par g v)(rb := ra) \<and> r = ra"
    by (rule union_facts [OF ok u]) blast
  have "coarser v g g' \<and> joined g' v a b"
  proof (cases "ra = rb")
    case True
    then show ?thesis using same ta tb by (auto simp: coarser_def joined_def)
  next
    case False
    note roots = to_root_root [OF ta] to_root_root [OF tb]
    obtain c p where p: "par g' v = (par g v)(c := p)" and cp: "c = ra \<and> p = rb \<or> c = rb \<and> p = ra"
      using var [OF False] rig [OF False] ty [OF False] by fastforce
    have link: "to_root (par g' v) x (if s = c then p else s)" if "to_root (par g v) x s" for x s
      unfolding p by (rule to_root_link [OF that]) (use cp roots False in auto)
    have "coarser v g g'" unfolding coarser_def joined_def using link by blast
    moreover have "joined g' v a b" unfolding joined_def using link [OF ta] link [OF tb] cp by auto
    ultimately show ?thesis by simp
  qed
  then show "coarser v g g'" and "joined g' v a b" by simp_all
qed

text \<open>A step at \<open>v\<close> that joins \<open>a\<close> and \<open>b\<close> when it succeeds.\<close>

definition joins :: "version \<Rightarrow> ptr \<Rightarrow> ptr \<Rightarrow> egraph \<Rightarrow> unit attempt \<Rightarrow> bool" where
  "joins v a b g y \<longleftrightarrow> coarser v g (snd y) \<and> only_at v g (snd y) \<and> egraph_ok (snd y) \<and>
     (fst y = Inr () \<longrightarrow> joined (snd y) v a b)"

lemma joins_stop: "egraph_ok g \<Longrightarrow> live g v \<Longrightarrow> kids g v = [] \<Longrightarrow> quiet v g h \<Longrightarrow> joins v a b g (Inl e, h)"
  by (simp add: joins_def coarser_quiet quiet_only quiet_ok)

lemma joins_union:
  "egraph_ok g \<Longrightarrow> union g st v a b = Some (h, r) \<Longrightarrow> joins v a b g (Inr (), h)"
  using union_joins [of g st v a b h r] union_keeps [of g st v a b h r] by (simp add: joins_def)

lemma joins_before: "quiet v g h \<Longrightarrow> joins v a b h y \<Longrightarrow> joins v a b g y"
  unfolding joins_def using coarser_trans [OF coarser_quiet] only_at_trans [OF quiet_only] by blast

lemma joins_after:
  assumes "joins v a b g (Inr (), h)" and q: "quiet v h k" and v: "live g v" "kids g v = []"
  shows "joins v a b g (Inr (), k)"
proof -
  note j = assms(1) [unfolded joins_def, simplified]
  have o: "only_at v g h" using j by blast
  have vh: "live h v" "kids h v = []" using v only_at_view [OF o] by simp_all
  have "joined k v a b" using coarser_quiet [OF q] j by (simp add: coarser_def)
  then show ?thesis
    using j quiet_ok [OF _ q vh] coarser_trans [OF _ coarser_quiet [OF q]] only_at_trans [OF o quiet_only [OF q]]
    by (simp add: joins_def)
qed

lemma bind_variable_joins:
  assumes ok: "egraph_ok g" and v: "live g v" "kids g v = []" and r: "bind_variable g st v a i b = Some y"
  shows "joins v a b g y"
proof -
  from r obtain occ vis where o: "occurs_in g st v i b {} = Some (occ, vis)" by (auto simp: bind_variable_def opt_simps)
  show ?thesis
  proof (cases occ)
    case True
    then show ?thesis using r o joins_stop [OF ok v quiet_refl] by (auto simp: bind_variable_def opt_simps)
  next
    case False
    then obtain u q h vis' where a: "make_accessible st v i u b (g, {}) = Some (q, h, vis')"
      and rest: "(case q of
         Inl e \<Rightarrow> Some (Inl e, h)
       | Inr _ \<Rightarrow> do {
           (g, _) \<leftarrow> set_bound_in h st v a (Exactly b);
           (g, _) \<leftarrow> union g st v a b;
           Some (Inr (), g) }) = Some y"
      using r o by (auto simp: bind_variable_def opt_simps)
    have q: "quiet v g h" using make_accessible_facts [OF a] by simp
    show ?thesis
    proof (cases q)
      case (Inl e)
      then show ?thesis using rest joins_stop [OF ok v q] by auto
    next
      case (Inr x)
      with rest obtain h1 b1 h2 b2 where s: "set_bound_in h st v a (Exactly b) = Some (h1, b1)"
        and un: "union h1 st v a b = Some (h2, b2)" and y: "y = (Inr (), h2)"
        by (auto simp: opt_simps)
      have q1: "quiet v g h1" using quiet_trans [OF q set_bound_quiet [OF s]] .
      show ?thesis
        unfolding y by (rule joins_before [OF q1 joins_union [OF quiet_ok [OF ok q1 v] un]])
    qed
  qed
qed

lemma unify_var_joins:
  assumes ok: "egraph_ok g" and v: "live g v" "kids g v = []" and r: "unify_var g st v l r' a i b = Some y"
  shows "joins v a b g y"
proof -
  from r obtain d where "compatible_domain g st v l r' = Some d"
    and rest: "(case d of Inl e \<Rightarrow> Some (Inl e, g) | Inr _ \<Rightarrow> bind_variable g st v a i b) = Some y"
    by (auto simp: unify_var_def opt_simps)
  show ?thesis
  proof (cases d)
    case (Inl e)
    then show ?thesis using rest joins_stop [OF ok v quiet_refl] by auto
  next
    case (Inr x)
    then show ?thesis using rest bind_variable_joins [OF ok v] by simp
  qed
qed

lemma unify_vars_joins:
  assumes ok: "egraph_ok g" and v: "live g v" "kids g v = []" and r: "unify_vars g st v a i b j = Some y"
  shows "joins v a b g y"
proof -
  from r obtain d where d: "compatible_domain g st v a b = Some d" by (auto simp: unify_vars_def opt_simps)
  show ?thesis
  proof (cases d)
    case (Inl e)
    then show ?thesis using r d joins_stop [OF ok v quiet_refl] by (auto simp: unify_vars_def opt_simps)
  next
    case (Inr x)
    then obtain dom u h1 b1 h2 b2 h3 root h4 b4 where
      l1: "lower_universe g v i u = Some (h1, b1)" and l2: "lower_universe h1 v j u = Some (h2, b2)"
      and un: "union h2 st v a b = Some (h3, root)" and sd: "set_domain_in h3 st v root dom = Some (h4, b4)"
      and y: "y = (Inr (), h4)"
      using r d by (auto simp: unify_vars_def opt_simps Let_def)
    have q: "quiet v g h2" using quiet_trans [OF lower_universe_quiet [OF l1] lower_universe_quiet [OF l2]] .
    have "joins v a b g (Inr (), h3)" by (rule joins_before [OF q joins_union [OF quiet_ok [OF ok q v] un]])
    then show ?thesis unfolding y by (rule joins_after [OF _ set_domain_quiet [OF sd] v])
  qed
qed

lemma coarser_joined: "coarser v g h \<Longrightarrow> joined g v x y \<Longrightarrow> joined h v x y"
  by (simp add: coarser_def)

lemma joined_trans: "joined g v x y \<Longrightarrow> joined g v y z \<Longrightarrow> joined g v x z"
  unfolding joined_def using to_root_unique by metis

lemma joined_sym: "joined g v x y \<Longrightarrow> joined g v y x"
  by (auto simp: joined_def)

lemma joined_root: "to_root (par g v) x r \<Longrightarrow> joined g v x r"
  unfolding joined_def using to_root_root by (metis to_root.root)

lemma try_each_coarser:
  assumes "try_each f xs g = Some y" and "egraph_ok g" and "live g v" and "kids g v = []"
    and "\<And>x u y. egraph_ok u \<Longrightarrow> live u v \<Longrightarrow> kids u v = [] \<Longrightarrow> f x u = Some y \<Longrightarrow>
      coarser v u (snd y) \<and> only_at v u (snd y) \<and> egraph_ok (snd y)"
  shows "coarser v g (snd y) \<and> only_at v g (snd y) \<and> egraph_ok (snd y)"
proof -
  let ?P = "\<lambda>h. coarser v g h \<and> only_at v g h \<and> egraph_ok h"
  obtain r h where y: "y = (r, h)" by (cases y)
  have "?P h"
  proof (rule try_each_inv [OF assms(1) [unfolded y], where P = ?P])
    show "?P g" using assms(2) by (simp add: coarser_def)
    show "?P h'" if P: "?P h" and s: "f x h = Some (q, h')" for x h q h'
    proof -
      have "live h v" "kids h v = []" using P assms(3,4) only_at_view [of v g h] by simp_all
      then show ?thesis using assms(5) [OF _ _ _ s] P by (auto intro: coarser_trans only_at_trans)
    qed
  qed
  then show ?thesis by (simp add: y)
qed

lemma unify_joins:
  "unify_in_probe st v eq g = Some y \<Longrightarrow> egraph_ok g \<Longrightarrow> live g v \<Longrightarrow> kids g v = [] \<Longrightarrow>
     joins v (fst eq) (snd eq) g y"
proof (induction rule: unify_in_probe.raw_induct [rotated 1, consumes 1, case_names step])
  case (step unify st v eq g y)
  note ok = step.prems(1)
  from step.hyps show ?case
  proof (rule unify_body_cases)
    fix g1 a g2 b
    assume fa: "find_mut g v (fst eq) = Some (g1, a)" and fb: "find_mut g1 v (snd eq) = Some (g2, b)"
    note A = find_mut_facts [OF ok fa]
    note B = find_mut_facts [OF A(2) fb]
    have o2: "only_at v g g2" using A(1) B(1) by (rule only_at_trans)
    have c2: "coarser v g g2"
      using coarser_trans [OF coarser_find_mut [OF ok fa] coarser_find_mut [OF A(2) fb]] .
    have ja: "joined g2 v (fst eq) a" and jb: "joined g2 v (snd eq) b"
      using A(5,6) B(5,6) by (simp_all add: joined_root)
    have v2: "live g2 v" "kids g2 v = []" using step.prems(2,3) only_at_view [OF o2] by simp_all
    assume cases: "a = b \<and> y = (Inr (), g2) \<or>
      (\<exists>e. y = (Inl (Reported e), g2)) \<or>
      (\<exists>i j. get_ty st a = Some (TyInferVar i) \<and> unify_vars g2 st v a i b j = Some y) \<or>
      (\<exists>i. get_ty st a = Some (TyInferVar i) \<and> unify_var g2 st v a b a i b = Some y) \<or>
      (\<exists>i. get_ty st b = Some (TyInferVar i) \<and> unify_var g2 st v a b b i a = Some y) \<or>
      (\<exists>d e. rigid st a \<and> rigid st b \<and> decompose st a = Some d \<and> decompose st b = Some e \<and>
         (de_skeleton d \<noteq> de_skeleton e \<or> length (de_children d) \<noteq> length (de_children e)) \<and>
         y = (Inl (Mismatch a b), g2)) \<or>
      (\<exists>d e h1 h2 r h. rigid st a \<and> rigid st b \<and> decompose st a = Some d \<and> decompose st b = Some e \<and>
         de_skeleton d = de_skeleton e \<and> length (de_children d) = length (de_children e) \<and>
         add_dependents v a (de_children d) g2 = Some h1 \<and> add_dependents v b (de_children e) h1 = Some h2 \<and>
         try_each (unify st v) (zip (de_children d) (de_children e)) h2 = Some (r, h) \<and>
         (case r of Inl e \<Rightarrow> Some (Inl e, h)
          | Inr _ \<Rightarrow> do { (g, _) \<leftarrow> union h st v a b; Some (Inr (), g) }) = Some y)"
    have "joins v a b g2 y"
      using cases
    proof (elim disjE exE conjE)
      assume "a = b" and y: "y = (Inr (), g2)"
      moreover obtain r where "to_root (par g2 v) a r" using to_root_ex [OF egraph_okD(3) [OF B(2) v2(1)]] by blast
      ultimately show ?thesis using B(2) by (auto simp: joins_def joined_def coarser_def)
    next
      show ?thesis if "y = (Inl (Reported e), g2)" for e using that joins_stop [OF B(2) v2 quiet_refl] by simp
      show ?thesis if "de_skeleton d \<noteq> de_skeleton e" "y = (Inl (Mismatch a b), g2)" for d e :: decomposed
        using that joins_stop [OF B(2) v2 quiet_refl] by simp
      show ?thesis if "length (de_children d) \<noteq> length (de_children e)" "y = (Inl (Mismatch a b), g2)" for d e :: decomposed
        using that joins_stop [OF B(2) v2 quiet_refl] by simp
      show ?thesis if "unify_vars g2 st v a i b j = Some y" for i j
        by (rule unify_vars_joins [OF B(2) v2 that])
      show ?thesis if "unify_var g2 st v a b a i b = Some y" for i
        by (rule unify_var_joins [OF B(2) v2 that])
      show ?thesis if "unify_var g2 st v a b b i a = Some y" for i
        using unify_var_joins [OF B(2) v2 that] joined_sym by (auto simp: joins_def)
    next
      fix d e h1 h2 r h
      assume q1: "add_dependents v a (de_children d) g2 = Some h1"
        and q2: "add_dependents v b (de_children e) h1 = Some h2"
        and t: "try_each (unify st v) (zip (de_children d) (de_children e)) h2 = Some (r, h)"
        and rest: "(case r of Inl e \<Rightarrow> Some (Inl e, h)
           | Inr _ \<Rightarrow> do { (g, _) \<leftarrow> union h st v a b; Some (Inr (), g) }) = Some y"
      have q: "quiet v g2 h2" using q1 q2 by (intro quiet_trans [OF add_dependents_quiet add_dependents_quiet])
      have ok2: "egraph_ok h2" by (rule quiet_ok [OF B(2) q v2])
      have vh: "live h2 v" "kids h2 v = []" using v2 only_at_view [OF quiet_only [OF q]] by simp_all
      have k: "coarser v h2 h \<and> only_at v h2 h \<and> egraph_ok h"
        using try_each_coarser [OF t ok2 vh] step.IH by (fastforce simp: joins_def)
      have "joins v a b h2 y"
      proof (cases r)
        case (Inl x)
        then show ?thesis using rest k by (auto simp: joins_def)
      next
        case (Inr x)
        with rest obtain u root where u: "union h st v a b = Some (u, root)" and y: "y = (Inr (), u)"
          by (auto simp: opt_simps)
        show ?thesis
          using joins_union [OF _ u] k coarser_trans only_at_trans by (fastforce simp: y joins_def)
      qed
      then show ?thesis by (rule joins_before [OF q])
    qed
    then have j: "coarser v g2 (snd y)" "only_at v g2 (snd y)" "egraph_ok (snd y)"
      "fst y = Inr () \<longrightarrow> joined (snd y) v a b" by (simp_all add: joins_def)
    have "joined (snd y) v (fst eq) (snd eq)" if "joined (snd y) v a b"
      using joined_trans [OF joined_trans [OF coarser_joined [OF j(1) ja] that] joined_sym [OF coarser_joined [OF j(1) jb]]] .
    then show ?case
      using coarser_trans [OF c2 j(1)] only_at_trans [OF o2 j(2)] j(3,4) by (simp add: joins_def)
  qed
qed

end
