(* ===== verification/UnifyProps.thy ===== *)
theory UnifyProps
  imports Sessions UnifyClasses "HOL-Library.Code_Target_Nat"
begin

text \<open>The properties of unification and of the versioned graph, over every sequence of operations.\<close>

section \<open>Reachable states\<close>

text \<open>
  The operations a body checker performs on its arena and graph.  The counters of versions and
  variables are \<open>u32\<close>: \<open>branch_from\<close> asserts that a version number was not truncated, for
  variables it is a premise here.
\<close>

inductive graph_step :: "(ptr set \<Rightarrow> ptr list) \<Rightarrow> ir \<times> egraph \<Rightarrow> ir \<times> egraph \<Rightarrow> bool" for ord where
  step_alloc_ty: "ty_ok st t \<Longrightarrow> alloc_ty st t = (st', p) \<Longrightarrow> graph_step ord (st, g) (st', g)"
| step_alloc_tys: "length ts < 2 ^ 32 \<Longrightarrow> alloc_tys st ts = (st', p) \<Longrightarrow> graph_step ord (st, g) (st', g)"
| step_alloc_var: "length (vt_variables (eg_versions g)) < 2 ^ 32 \<Longrightarrow>
    alloc_var_in_domain g v u d = Some (g', i) \<Longrightarrow> graph_step ord (st, g) (st, g')"
| step_placeholder: "register_placeholder g q u = Some g' \<Longrightarrow> graph_step ord (st, g) (st, g')"
| step_lower: "lower_universe g v i u = Some (g', b) \<Longrightarrow> graph_step ord (st, g) (st, g')"
| step_dependent: "add_dependent g v a b = Some g' \<Longrightarrow> graph_step ord (st, g) (st, g')"
| step_find_mut: "find_mut g v t = Some (g', r) \<Longrightarrow> graph_step ord (st, g) (st, g')"
| step_rebuild: "rebuild ord g v st = Some (g', st', ch) \<Longrightarrow> graph_step ord (st, g) (st', g')"
| step_branch: "branch_from g v = Some (g', c) \<Longrightarrow> graph_step ord (st, g) (st, g')"
| step_collapse: "collapse_into g c v = Some (g', eff) \<Longrightarrow> graph_step ord (st, g) (st, g')"
| step_discard: "discard g v = Some g' \<Longrightarrow> graph_step ord (st, g) (st, g')"
| step_unify: "try_unify_batch ord g st v eqs = Some (r, g', st') \<Longrightarrow> graph_step ord (st, g) (st', g')"
| step_required: "try_unify_required ord g st v a b = Some (q, g', st') \<Longrightarrow> graph_step ord (st, g) (st', g')"
| step_set_bound: "try_set_bound ord g st v t bd = Some (r, g', st') \<Longrightarrow> graph_step ord (st, g) (st', g')"
| step_recovery: "install_error_recovery ord g st v t e = Some (r, g', st') \<Longrightarrow> graph_step ord (st, g) (st', g')"

inductive reachable :: "(ptr set \<Rightarrow> ptr list) \<Rightarrow> ir \<times> egraph \<Rightarrow> bool" for ord where
  reachable_new: "reachable ord ([], egraph_new)"
| reachable_step: "reachable ord s \<Longrightarrow> graph_step ord s s' \<Longrightarrow> reachable ord s'"

lemma ir_wf_empty: "ir_wf []"
  by (simp add: ir_wf_def slices_fit_def get_ty_def get_tys_def nth_opt_def)

lemma committed_coherent: "committed st g v E st' g' \<Longrightarrow> coherent st' g'"
  by (simp add: committed_def)

lemma coherent_step:
  "graph_step ord s s' \<Longrightarrow> coherent (fst s) (snd s) \<Longrightarrow> coherent (fst s') (snd s')"
proof (induction rule: graph_step.induct)
  case (step_alloc_ty st t st' p g)
  then show ?case using alloc_ty_wf [OF coherentD(2) [of st g]] coherent_ext [of st g st'] by simp
next
  case (step_alloc_tys ts st st' p g)
  then show ?case using alloc_tys_wf(1,2) [OF coherentD(2) [of st g]] coherent_ext [of st g st'] by simp
next
  case (step_alloc_var g v u d g' i st)
  then show ?case using coherent_alloc_var by auto
next
  case (step_placeholder g q u g' st)
  then show ?case using coherent_placeholder by (auto simp: register_placeholder_def opt_simps)
next
  case (step_lower g v i u g' b st)
  moreover from this(1) have "live g v" "kids g v = []" by (auto simp: lower_universe_def opt_simps)
  ultimately show ?case using coherent_quiet [OF _ lower_universe_quiet] by simp
next
  case (step_dependent g v a b g' st)
  moreover from this(1) have "live g v" "kids g v = []" by (auto simp: add_dependent_def opt_simps)
  ultimately show ?case using coherent_quiet [OF _ add_dependent_quiet] by simp
next
  case (step_find_mut g v t g' r st)
  then show ?case using coherent_find_mut by simp
next
  case (step_rebuild g v st g' st' ch)
  then show ?case using coherent_rebuild by simp
next
  case (step_branch g v g' c st)
  then show ?case using coherent_branch by simp
next
  case (step_collapse g c v g' eff st)
  then show ?case using coherent_collapse by simp
next
  case (step_discard g v g' st)
  then show ?case using coherent_discard by simp
next
  case (step_unify g st v eqs r g' st')
  then have co: "coherent st g" by simp
  show ?case
  proof (cases r)
    case (Inl e)
    then have r: "try_unify_batch ord g st v eqs = Some (Inl e, g', st')" using step_unify(1) by simp
    show ?thesis using batch_error(1,2) [OF co r] undone_coherent [OF co] by simp
  next
    case (Inr eff)
    then show ?thesis using batch_ok [OF co] committed_coherent step_unify(1) by fastforce
  qed
next
  case (step_required g st v a b q g' st')
  then have co: "coherent st g" by simp
  show ?case
  proof (cases q)
    case (Inl e)
    then have "undone g g' \<and> ir_wf st' \<and> arena_ext st st'" using required_error [OF co] step_required(1) by blast
    then show ?thesis using undone_coherent [OF co] coherent_ext [of st g' st'] by simp
  next
    case (Inr eff)
    then show ?thesis using required_ok [OF co] committed_coherent step_required(1) by fastforce
  qed
next
  case (step_set_bound g st v t bd r g' st')
  then have co: "coherent st g" by simp
  show ?case using set_bound_cases [OF co step_set_bound(1)] undone_coherent [OF co] committed_coherent by auto
next
  case (step_recovery g st v t e r g' st')
  then have co: "coherent st g" by simp
  show ?case using recovery_cases [OF co step_recovery(1)] undone_coherent [OF co] committed_coherent by auto
qed

lemma reachable_coherent: "reachable ord s \<Longrightarrow> coherent (fst s) (snd s)"
proof (induction rule: reachable.induct)
  case reachable_new
  then show ?case using coherent_new [OF ir_wf_empty] by simp
next
  case (reachable_step s s')
  then show ?case using coherent_step by blast
qed

section \<open>Properties\<close>

text \<open>A concrete session: two variables at the root version, and the types they range over.\<close>

definition sample_arena :: ir where
  "sample_arena = [ETy (TyInferVar 0), ETy (TyInferVar 1), ETy (TyInt I32), ETy (TySlice 0), ETy (TySlice 2), ETy TyBool]"

definition sample_graph :: egraph where
  "sample_graph = (case alloc_var egraph_new 0 0 of None \<Rightarrow> egraph_new | Some (g, _) \<Rightarrow>
     (case alloc_var g 0 0 of None \<Rightarrow> egraph_new | Some (g, _) \<Rightarrow> g))"

definition sample_order :: "ptr set \<Rightarrow> ptr list" where
  "sample_order s = sorted_list_of_set s"

lemma sample_reachable: "reachable sample_order (sample_arena, sample_graph)"
proof -
  let ?r = "reachable sample_order"
  have al: "?r (st @ [ETy t], g)" if "?r (st, g)" "ty_ok st t" "ETy t \<notin> set st" for st g t
  proof (rule reachable_step [OF that(1)], rule step_alloc_ty [OF that(2)])
    have "index_of (ETy t) st = None" using that(3) by simp
    then show "alloc_ty st t = (st @ [ETy t], length st)" by (simp add: alloc_ty_def arena_intern_def del: index_of_None)
  qed
  have "?r (sample_arena, egraph_new)"
    unfolding sample_arena_def
    using al [OF al [OF al [OF al [OF al [OF al [OF reachable_new]]]]],
      of "TyInferVar 0" "TyInferVar 1" "TyInt I32" "TySlice 0" "TySlice 2" TyBool]
    by (simp add: ty_ok_def leaf_def get_ty_def nth_opt_def)
  then have r0: "?r (sample_arena, egraph_new)" .
  have vars: "vt_variables (eg_versions egraph_new) = []" by (simp add: egraph_new_def tree_new_def)
  obtain g1 i1 where g1: "alloc_var egraph_new 0 0 = Some (g1, i1)"
    and l1: "vt_variables (eg_versions g1) = [\<lparr>vi_owner = 0, vi_creation_universe = 0, vi_initial_domain = DomAny\<rparr>]"
    by (auto simp: alloc_var_def alloc_var_in_domain_def tree_alloc_var_in_domain_def egraph_new_def tree_new_def
        modify_state_def root_node_def assert_mutable_def assert_live_def is_live_def nth_opt_def Let_def)
  have "?r (sample_arena, g1)"
  proof (rule reachable_step [OF r0], rule step_alloc_var)
    show "alloc_var_in_domain egraph_new 0 0 DomAny = Some (g1, i1)" using g1 by (simp add: alloc_var_def)
  qed (simp add: vars)
  moreover have "?r (sample_arena, g2)" if "?r (sample_arena, g1)" "alloc_var g1 0 0 = Some (g2, i2)" for g2 i2
    using reachable_step [OF that(1)] step_alloc_var [of g1 0 0 DomAny g2 i2] that(2) l1 by (simp add: alloc_var_def)
  ultimately show ?thesis
    unfolding sample_graph_def using g1 r0
    by (auto split: option.split)
qed

definition outcome_of :: "((unify_error, 'a) result \<times> egraph \<times> ir) option \<Rightarrow> bool option" where
  "outcome_of r = (case r of Some (Inr _, _, _) \<Rightarrow> Some True | Some (Inl _, _, _) \<Rightarrow> Some False | None \<Rightarrow> None)"

lemma sample_coherent: "coherent sample_arena sample_graph"
  using reachable_coherent [OF sample_reachable] by simp



text \<open>C6: In every reachable state \<open>find\<close> returns for every live version and every pointer.  Its
  result is a root, and it denotes the same tree as the pointer in every solution of the version.\<close>

theorem find_total:
  assumes "reachable ord (st, g)" and "live g v"
  shows "\<exists>r. find g v t = Some r \<and> find g v r = Some r \<and> (\<forall>I \<in> solutions st g v. I r = I t)"
proof -
  have co: "coherent st g" using reachable_coherent [OF assms(1)] by simp
  note ok = coherentD(1) [OF co]
  obtain r where r: "find g v t = Some r" using find_returns [OF ok assms(2)] by blast
  then have tr: "to_root (par g v) t r" using find_iff [OF ok] by blast
  have "find g v r = Some r" using find_iff [OF ok] assms(2) to_root.root [of "par g v" r] to_root_root [OF tr] by blast
  moreover have "I r = I t" if "I \<in> solutions st g v" for I
    using tr that by (induction rule: to_root.induct) (auto simp: solutions_def)
  ultimately show ?thesis using r by blast
qed

theorem find_total_witness: "\<exists>r. find sample_graph 0 3 = Some r"
proof -
  have "live sample_graph 0" by code_simp
  from find_total [OF sample_reachable this, of 3] show ?thesis by blast
qed

text \<open>C1: A batch of equations that is accepted and committed adds exactly these equations to the
  solutions of its version: every solution of the new state is a solution of the old one that
  satisfies them, and every solution of the old state that satisfies them survives.  No other
  version is affected.  So unification is sound and most general.\<close>

theorem unify_most_general:
  assumes "reachable ord (st, g)" and "try_unify_batch ord g st v eqs = Some (Inr eff, g', st')"
  shows "solutions st' g' v = {I \<in> solutions st' g v. \<forall>(a, b) \<in> set eqs. I a = I b} \<and>
    (\<forall>w. live g' w \<longleftrightarrow> live g w) \<and> (\<forall>w t. live g w \<longrightarrow> w \<noteq> v \<longrightarrow> find g' w t = find g w t)"
  using batch_ok [OF _ assms(2)] reachable_coherent [OF assms(1)] by (simp add: committed_def)

theorem unify_most_general_witness:
  "\<exists>eff g' st'. try_unify_batch sample_order sample_graph sample_arena 0 [(3, 4)] = Some (Inr eff, g', st') \<and>
     solutions st' g' 0 = {I \<in> solutions st' sample_graph 0. I 3 = I 4}"
proof -
  have "outcome_of (try_unify_batch sample_order sample_graph sample_arena 0 [(3, 4)]) = Some True" by code_simp
  then obtain eff g' st' where r: "try_unify_batch sample_order sample_graph sample_arena 0 [(3, 4)] = Some (Inr eff, g', st')"
    by (auto simp: outcome_of_def split: option.splits sum.splits)
  show ?thesis using r unify_most_general [OF sample_reachable r] by auto
qed

text \<open>C2: A batch is rejected with a mismatch only when no solution of its version satisfies the
  equations.\<close>

theorem mismatch_unsatisfiable:
  assumes "reachable ord (st, g)" and "try_unify_batch ord g st v eqs = Some (Inl (Mismatch a b), g', st')"
  shows "{I \<in> solutions st g v. \<forall>(a, b) \<in> set eqs. I a = I b} = {}"
  using batch_error(3) [OF _ assms(2)] reachable_coherent [OF assms(1)] by simp

theorem mismatch_unsatisfiable_witness: "{I \<in> solutions sample_arena sample_graph 0. I 4 = I 5} = {}"
proof -
  have "(case try_unify_batch sample_order sample_graph sample_arena 0 [(4, 5)] of
      Some (Inl (Mismatch a b), _, _) \<Rightarrow> True | _ \<Rightarrow> False)" by code_simp
  then obtain a b g' st' where r: "try_unify_batch sample_order sample_graph sample_arena 0 [(4, 5)] = Some (Inl (Mismatch a b), g', st')"
    by (auto split: option.split_asm prod.split_asm sum.split_asm unify_error.split_asm)
  show ?thesis using mismatch_unsatisfiable [OF sample_reachable r] by simp
qed

text \<open>C3: A transaction that fails, be it a batch of equations, a bound, an error recovery or a
  required equation, leaves the graph as it was: every version, variable, link, bound, domain,
  universe and pending wake of the state before is there unchanged, and the only trace is dead
  versions at the end of the tables.  The arena at most grows.\<close>

theorem failed_transaction_undone:
  assumes "reachable ord (st, g)"
    and "try_unify_batch ord g st v eqs = Some (Inl e, g', st') \<or> try_set_bound ord g st v a bd = Some (Inl e, g', st') \<or>
      install_error_recovery ord g st v a b = Some (Inl e, g', st') \<or> try_unify_required ord g st v a b = Some (Inl f, g', st')"
  shows "undone g g' \<and> arena_ext st st'"
proof -
  have co: "coherent st g" using reachable_coherent [OF assms(1)] by simp
  show ?thesis
    using assms(2) batch_error(1,2) [OF co] set_bound_cases [OF co] recovery_cases [OF co] required_error [OF co]
    by fastforce
qed

theorem failed_transaction_undone_witness:
  "\<exists>e g' st'. try_unify_batch sample_order sample_graph sample_arena 0 [(0, 2), (0, 5)] = Some (Inl e, g', st') \<and>
     undone sample_graph g'"
proof -
  have "outcome_of (try_unify_batch sample_order sample_graph sample_arena 0 [(0, 2), (0, 5)]) = Some False" by code_simp
  then obtain e g' st' where r: "try_unify_batch sample_order sample_graph sample_arena 0 [(0, 2), (0, 5)] = Some (Inl e, g', st')"
    by (auto simp: outcome_of_def split: option.splits sum.splits)
  show ?thesis using r failed_transaction_undone [OF sample_reachable disjI1 [OF r]] by blast
qed

text \<open>C5: Committed bounds, recoveries and required equations add exactly the equation they stand
  for: an exact bound and a recovery identify the variable with the type, a lower bound adds no
  equation.\<close>

theorem committed_transaction:
  assumes "reachable ord (st, g)"
  shows "(try_set_bound ord g st v a bd = Some (Inr eff, g', st') \<longrightarrow> committed st g v (bound_equation a bd) st' g') \<and>
    (install_error_recovery ord g st v a b = Some (Inr eff, g', st') \<longrightarrow> committed st g v {(a, b)} st' g') \<and>
    (try_unify_required ord g st v a b = Some (Inr eff, g', st') \<longrightarrow> committed st g v {(a, b)} st' g')"
proof -
  have co: "coherent st g" using reachable_coherent [OF assms(1)] by simp
  show ?thesis
    using set_bound_cases [OF co] recovery_cases [OF co] required_ok [OF co] by fastforce
qed

theorem committed_transaction_witness:
  "\<exists>eff g' st'. try_set_bound sample_order sample_graph sample_arena 0 0 (Exactly 2) = Some (Inr eff, g', st') \<and>
     committed sample_arena sample_graph 0 {(0, 2)} st' g'"
proof -
  have "outcome_of (try_set_bound sample_order sample_graph sample_arena 0 0 (Exactly 2)) = Some True" by code_simp
  then obtain eff g' st' where r: "try_set_bound sample_order sample_graph sample_arena 0 0 (Exactly 2) = Some (Inr eff, g', st')"
    by (auto simp: outcome_of_def split: option.splits sum.splits)
  have "committed sample_arena sample_graph 0 (bound_equation 0 (Exactly 2)) st' g'"
    by (rule committed_transaction [OF sample_reachable, THEN conjunct1, THEN mp, OF r])
  then show ?thesis using r by (simp add: bound_equation_def)
qed

text \<open>C7: Inside a probe classes only grow, and an accepted pair ends in one class: \<open>find\<close> gives the
  same root for both sides.  A probe changes no other version.\<close>

theorem probe_joins_classes:
  assumes "reachable ord (st, g)" and "live g v" and "kids g v = []"
    and "unify_in_probe st v (a, b) g = Some (r, g')"
  shows "only_at v g g' \<and> (\<forall>x y. find g v x = find g v y \<longrightarrow> find g' v x = find g' v y) \<and>
    (r = Inr () \<longrightarrow> find g' v a = find g' v b)"
proof -
  have ok: "egraph_ok g" using reachable_coherent [OF assms(1)] coherentD(1) by fastforce
  have j: "joins v a b g (r, g')" using unify_joins [OF assms(4) ok assms(2,3)] by simp
  then have o: "only_at v g g'" and ok': "egraph_ok g'" by (simp_all add: joins_def)
  have v': "live g' v" using o assms(2) by (simp add: only_at_def)
  have c: "coarser v g g'" and jr: "r = Inr () \<Longrightarrow> joined g' v a b" using j by (simp_all add: joins_def)
  have "find g' v x = find g' v y" if "find g v x = find g v y" for x y
  proof -
    have "joined g v x y" using that joined_find [OF ok assms(2), of x y] by simp
    from coarser_joined [OF c this] show ?thesis using joined_find [OF ok' v', of x y] by simp
  qed
  then show ?thesis using o jr joined_find [OF ok' v', of a b] by blast
qed

theorem probe_joins_classes_witness:
  "\<exists>g'. unify_in_probe sample_arena 0 (3, 4) sample_graph = Some (Inr (), g') \<and> find g' 0 3 = find g' 0 4"
proof -
  have v: "live sample_graph 0" "kids sample_graph 0 = []" by code_simp+
  have "(case unify_in_probe sample_arena 0 (3, 4) sample_graph of Some (Inr _, _) \<Rightarrow> True | _ \<Rightarrow> False)" by code_simp
  then obtain g' where r: "unify_in_probe sample_arena 0 (3, 4) sample_graph = Some (Inr (), g')"
    by (auto split: option.splits sum.splits)
  show ?thesis using r probe_joins_classes [OF sample_reachable v r] by blast
qed

section \<open>A rebuild can split a class\<close>




end
