(* ===== verification/Goals.thy ===== *)
theory Goals
  imports Skeleton
begin

text \<open>
  Solver goals: \<open>check/solve/goal.rs\<close> (conjunctions, assumption environments, the validation of a
  canonical query) and \<open>check/solve/result.rs\<close> (query results and the validation of a substitution).

  Goals and assumptions refer to each other through the arena, so the functions that walk both are
  one partial function on a formula.
\<close>

section \<open>Allocation\<close>

definition alloc_goal :: "ir \<Rightarrow> goal \<Rightarrow> ir \<times> ptr" where
  "alloc_goal st g = arena_intern st (EGoal g)"

definition alloc_goals :: "ir \<Rightarrow> goal list \<Rightarrow> ir \<times> slice" where
  "alloc_goals st gs = arena_intern st (EGoals gs)"

definition alloc_assumptions :: "ir \<Rightarrow> assumption list \<Rightarrow> ir \<times> slice" where
  "alloc_assumptions st xs = arena_intern st (EAssumptions xs)"

definition alloc_predicate :: "ir \<Rightarrow> where_predicate \<Rightarrow> ir \<times> ptr" where
  "alloc_predicate st w = arena_intern st (EPredicate w)"

definition alloc_generics :: "ir \<Rightarrow> generic_param list \<Rightarrow> ir \<times> slice" where
  "alloc_generics st gs = arena_intern st (EGenerics gs)"

definition alloc_canonical_vars :: "ir \<Rightarrow> canonical_var_info list \<Rightarrow> ir \<times> slice" where
  "alloc_canonical_vars st xs = arena_intern st (ECanonicalVars xs)"

definition alloc_subst :: "ir \<Rightarrow> subst_entry list \<Rightarrow> ir \<times> slice" where
  "alloc_subst st xs = arena_intern st (ESubst xs)"

definition alloc_response_vars :: "ir \<Rightarrow> response_var_info list \<Rightarrow> ir \<times> slice" where
  "alloc_response_vars st xs = arena_intern st (EResponseVars xs)"

section \<open>Conjunctions\<close>

definition goal_true :: "ir \<Rightarrow> goal \<times> ir" where
  "goal_true st = (let (st, goals) = alloc_goals st [] in (GoalAll goals, st))"

definition is_trivially_true :: "ir \<Rightarrow> goal \<Rightarrow> bool option" where
  "is_trivially_true st g = (case g of
     GoalAll goals \<Rightarrow> do { gs \<leftarrow> get_goals st goals; Some (gs = []) }
   | _ \<Rightarrow> Some False)"

partial_function (option) push_goal :: "ir \<Rightarrow> goal \<Rightarrow> goal list \<Rightarrow> goal list option" where
  "push_goal st g output = (case g of
     GoalAll goals \<Rightarrow> do { gs \<leftarrow> get_goals st goals; fold_state (push_goal st) gs output }
   | other \<Rightarrow> Some (output @ [other]))"

definition goal_all :: "ir \<Rightarrow> goal list \<Rightarrow> (goal \<times> ir) option" where
  "goal_all st goals = do {
     flattened \<leftarrow> fold_state (push_goal st) goals [];
     let (st, p) = alloc_goals st flattened;
     Some (GoalAll p, st) }"

section \<open>Assumptions\<close>

partial_function (option) push_assumption :: "ir \<Rightarrow> assumption \<Rightarrow> assumption list \<Rightarrow> assumption list option" where
  "push_assumption st a output = (case a of
     AsmAll items \<Rightarrow> do { xs \<leftarrow> get_assumptions st items; fold_state (push_assumption st) xs output }
   | other \<Rightarrow> Some (output @ [other]))"

definition flatten_assumptions :: "ir \<Rightarrow> assumption list \<Rightarrow> (slice \<times> ir) option" where
  "flatten_assumptions st assumptions = do {
     flattened \<leftarrow> fold_state (push_assumption st) assumptions [];
     let (st, p) = alloc_assumptions st flattened;
     Some (p, st) }"

section \<open>Clauses\<close>

datatype clause_source = Environment | LocalImpl nat

record clause =
  cl_head :: where_predicate
  cl_body :: slice
  cl_source :: clause_source

section \<open>Validation of a query\<close>

type_synonym verdict = "(string, unit) result"

definition validate_head :: "alpha_equiv_param set \<Rightarrow> ty \<Rightarrow> verdict" where
  "validate_head visible t = (case t of
     TyInferVar _ \<Rightarrow> Inl ''canonical query contains a caller inference variable''
   | TyParam (AlphaEquiv q) \<Rightarrow>
       if q \<in> visible then Inr () else Inl ''canonical query contains a noncanonical parameter''
   | TyParam _ \<Rightarrow> Inl ''canonical query contains a noncanonical parameter''
   | TyArray _ (ConstParam (AlphaEquiv q)) \<Rightarrow>
       if q \<notin> visible then Inl ''canonical query contains an unbound const parameter''
       else Inl ''canonical query contains a noncanonical const parameter''
   | TyArray _ (ConstParam _) \<Rightarrow> Inl ''canonical query contains a noncanonical const parameter''
   | _ \<Rightarrow> Inr ())"

partial_function (option) validate_ty :: "ir \<Rightarrow> alpha_equiv_param set \<Rightarrow> ptr \<Rightarrow> verdict option" where
  "validate_ty st visible p = do {
     t \<leftarrow> get_ty st p;
     case validate_head visible t of
       Inl e \<Rightarrow> Some (Inl e)
     | Inr _ \<Rightarrow> do {
         d \<leftarrow> decompose st p;
         try_all (validate_ty st visible) (de_children d) } }"

definition and_then :: "verdict option \<Rightarrow> verdict option \<Rightarrow> verdict option" where
  "and_then m k = do { r \<leftarrow> m; case r of Inl e \<Rightarrow> Some (Inl e) | Inr _ \<Rightarrow> k }"

definition validate_trait_ref :: "ir \<Rightarrow> alpha_equiv_param set \<Rightarrow> trait_ref \<Rightarrow> verdict option" where
  "validate_trait_ref st visible tr = do {
     args \<leftarrow> get_tys st (tr_args tr);
     try_all (validate_ty st visible) args }"

definition validate_alias :: "ir \<Rightarrow> alpha_equiv_param set \<Rightarrow> alias_ty \<Rightarrow> verdict option" where
  "validate_alias st visible a = (case a of
     Named alias \<Rightarrow> do { args \<leftarrow> get_tys st (na_args alias); try_all (validate_ty st visible) args }
   | Associated p \<Rightarrow>
       and_then (validate_ty st visible (pr_self_ty p))
       (and_then (validate_trait_ref st visible (pr_trait_ref p))
       (do { args \<leftarrow> get_tys st (pr_args p); try_all (validate_ty st visible) args }))
   | Opaque alias \<Rightarrow> do { args \<leftarrow> get_tys st (oa_args alias); try_all (validate_ty st visible) args })"

definition validate_atom :: "ir \<Rightarrow> alpha_equiv_param set \<Rightarrow> atom \<Rightarrow> verdict option" where
  "validate_atom st visible a = (case a of
     AtomTraitImpl self_ty tr \<Rightarrow> and_then (validate_ty st visible self_ty) (validate_trait_ref st visible tr)
   | AtomEquals left right \<Rightarrow> and_then (validate_ty st visible left) (validate_ty st visible right))"

text \<open>The parameters of an existential binder, inserted one by one into \<open>visible\<close>.\<close>

fun insert_binder_params ::
  "nat \<Rightarrow> generic_param list \<Rightarrow> alpha_equiv_param list \<times> alpha_equiv_param set \<Rightarrow>
     (string, alpha_equiv_param list \<times> alpha_equiv_param set) result" where
  "insert_binder_params next_response_param [] s = Inr s"
| "insert_binder_params next_response_param (AlphaEquiv q # ps) (inserted, visible) =
     (if alpha_kind q \<noteq> KindType \<or> alpha_index q \<ge> next_response_param \<or> q \<in> visible
      then Inl ''invalid existential binder parameter''
      else insert_binder_params next_response_param ps (inserted @ [q], insert q visible))"
| "insert_binder_params next_response_param (_ # ps) s = Inl ''noncanonical existential binder''"

datatype formula = FGoal goal | FAssumption assumption

type_synonym validation = "verdict \<times> alpha_equiv_param set"

partial_function (option) validate_formula ::
  "ir \<Rightarrow> nat \<Rightarrow> formula \<Rightarrow> alpha_equiv_param set \<Rightarrow> validation option" where
  "validate_formula st next f visible = (case f of
     FGoal (GoalExists b) \<Rightarrow> do {
       parameters \<leftarrow> get_generics st (bi_generics b);
       case insert_binder_params next parameters ([], visible) of
         Inl e \<Rightarrow> Some (Inl e, visible)
       | Inr (inserted, inner) \<Rightarrow> do {
           g \<leftarrow> get_goal st (bi_value b);
           (r, inner) \<leftarrow> validate_formula st next (FGoal g) inner;
           case r of
             Inl e \<Rightarrow> Some (Inl e, inner)
           | Inr _ \<Rightarrow> Some (Inr (), inner - set inserted) } }
   | FGoal (GoalImplies assumptions goal) \<Rightarrow> do {
       xs \<leftarrow> get_assumptions st assumptions;
       (r, visible) \<leftarrow> try_each (\<lambda>a. validate_formula st next (FAssumption a)) xs visible;
       case r of
         Inl e \<Rightarrow> Some (Inl e, visible)
       | Inr _ \<Rightarrow> do {
           g \<leftarrow> get_goal st goal;
           validate_formula st next (FGoal g) visible } }
   | FGoal (GoalAll goals) \<Rightarrow> do {
       gs \<leftarrow> get_goals st goals;
       try_each (\<lambda>g. validate_formula st next (FGoal g)) gs visible }
   | FGoal (GoalAtom a) \<Rightarrow> do { r \<leftarrow> validate_atom st visible a; Some (r, visible) }
   | FGoal GoalMaybe \<Rightarrow> Some (Inr (), visible)
   | FAssumption (AsmTraitImpl self_ty tr) \<Rightarrow> do {
       r \<leftarrow> and_then (validate_ty st visible self_ty) (validate_trait_ref st visible tr);
       Some (r, visible) }
   | FAssumption (AsmNormalizesTo alias t) \<Rightarrow> do {
       r \<leftarrow> and_then (validate_alias st visible alias) (validate_ty st visible t);
       Some (r, visible) }
   | FAssumption (AsmImplies conditions consequence) \<Rightarrow> do {
       gs \<leftarrow> get_goals st conditions;
       (r, visible) \<leftarrow> try_each (\<lambda>g. validate_formula st next (FGoal g)) gs visible;
       case r of
         Inl e \<Rightarrow> Some (Inl e, visible)
       | Inr _ \<Rightarrow> do {
           w \<leftarrow> get_predicate st consequence;
           r \<leftarrow> and_then (validate_ty st visible (wp_self_ty w)) (validate_trait_ref st visible (wp_trait_ref w));
           Some (r, visible) } }
   | FAssumption (AsmAll items) \<Rightarrow> do {
       xs \<leftarrow> get_assumptions st items;
       try_each (\<lambda>a. validate_formula st next (FAssumption a)) xs visible })"

definition validate_assumptions :: "ir \<Rightarrow> nat \<Rightarrow> slice \<Rightarrow> alpha_equiv_param set \<Rightarrow> validation option" where
  "validate_assumptions st next assumptions visible = do {
     xs \<leftarrow> get_assumptions st assumptions;
     try_each (\<lambda>a. validate_formula st next (FAssumption a)) xs visible }"

definition validate_solver_goal :: "ir \<Rightarrow> nat \<Rightarrow> solver_goal \<Rightarrow> alpha_equiv_param set \<Rightarrow> validation option" where
  "validate_solver_goal st next g visible = (case g of
     Prove goal \<Rightarrow> validate_formula st next (FGoal goal) visible
   | Normalize alias \<Rightarrow> do { r \<leftarrow> validate_alias st visible alias; Some (r, visible) })"

fun validate_canonical_vars ::
  "goal_query_data \<Rightarrow> canonical_var_info list \<Rightarrow> alpha_equiv_param set \<Rightarrow> (string, alpha_equiv_param set) result" where
  "validate_canonical_vars q [] visible = Inr visible"
| "validate_canonical_vars q (info # infos) visible =
     (if cv_param info \<in> visible then Inl ''duplicate canonical variable''
      else if cv_role info = RigidPlaceholder \<and> cv_domain info \<noteq> DomAny
        then Inl ''rigid canonical input has an inference domain''
      else if cv_role info = ExistentialInput \<and> cv_kind info \<noteq> KindType
        then Inl ''non-type existential input''
      else if cv_relative_universe info > gq_canonical_universe q
        then Inl ''canonical input is newer than the query universe''
      else if alpha_kind (cv_param info) \<noteq> cv_kind info \<or> alpha_index (cv_param info) \<ge> gq_next_response_param q
        then Inl ''inconsistent canonical variable metadata''
      else validate_canonical_vars q infos (insert (cv_param info) visible))"

definition validate_goal_query :: "ir \<times> goal_query_data \<Rightarrow> verdict option" where
  "validate_goal_query query = (case query of (st, q) \<Rightarrow> do {
     infos \<leftarrow> get_canonical_vars st (gq_canonical_vars q);
     case validate_canonical_vars q infos {} of
       Inl e \<Rightarrow> Some (Inl e)
     | Inr visible \<Rightarrow> do {
         (r, visible) \<leftarrow> validate_assumptions st (gq_next_response_param q) (gq_assumptions q) visible;
         case r of
           Inl e \<Rightarrow> Some (Inl e)
         | Inr _ \<Rightarrow> do {
             (r, _) \<leftarrow> validate_solver_goal st (gq_next_response_param q) (gq_goal q) visible;
             Some r } } })"

section \<open>Results\<close>

datatype goal_output = Proven | OutputType ptr

datatype query_result_data =
    ResultYes goal_output slice goal
  | ResultMaybe slice
  | ResultNo

record query_result =
  qr_bound_vars :: slice
  qr_value :: query_result_data

datatype goal_result = GoalYes goal | GoalUndecided | GoalNo

datatype substitution_error =
    UnknownKey alpha_equiv_param
  | RigidKey alpha_equiv_param
  | NonTypeKey alpha_equiv_param
  | DuplicateKey alpha_equiv_param

definition find_canonical_var :: "canonical_var_info list \<Rightarrow> alpha_equiv_param \<Rightarrow> (nat \<times> canonical_var_info) option" where
  "find_canonical_var vars key = List.find (\<lambda>(_, info). cv_param info = key) (enumerate 0 vars)"

fun validate_entries ::
  "canonical_var_info list \<Rightarrow> (alpha_equiv_param \<times> ptr) list \<Rightarrow> alpha_equiv_param set \<Rightarrow>
     (nat \<times> alpha_equiv_param \<times> ptr) list \<Rightarrow> (substitution_error, (nat \<times> alpha_equiv_param \<times> ptr) list) result" where
  "validate_entries vars [] seen validated = Inr validated"
| "validate_entries vars ((key, v) # entries) seen validated = (case find_canonical_var vars key of
     None \<Rightarrow> Inl (UnknownKey key)
   | Some (position, info) \<Rightarrow>
       if cv_role info \<noteq> ExistentialInput then Inl (RigidKey key)
       else if cv_kind info \<noteq> KindType then Inl (NonTypeKey key)
       else if key \<in> seen then Inl (DuplicateKey key)
       else validate_entries vars entries (insert key seen) (validated @ [(position, key, v)]))"

definition validate_and_alloc_subst ::
  "ir \<Rightarrow> canonical_var_info list \<Rightarrow> (alpha_equiv_param \<times> ptr) list \<Rightarrow> (substitution_error, slice) result \<times> ir" where
  "validate_and_alloc_subst st vars entries = (case validate_entries vars entries {} [] of
     Inl e \<Rightarrow> (Inl e, st)
   | Inr validated \<Rightarrow>
       (let (st, p) = alloc_subst st (map (\<lambda>(_, key, v). \<lparr>se_key = key, se_value = v\<rparr>) (sort_key fst validated))
        in (Inr p, st)))"

declare push_goal.simps [simp del, code] and push_assumption.simps [simp del, code]
  and validate_ty.simps [simp del, code] and validate_formula.simps [simp del, code]

end
