(* ===== verification/GoalsCorrect.thy ===== *)
theory GoalsCorrect
  imports Goals "HOL-Library.Multiset" "HOL-Library.Code_Target_Nat"
begin

text \<open>
  Conjunctions are flattened in order and once; an accepted query is closed: every type it mentions
  is built from parameters that are canonical inputs or bound around it; an accepted substitution
  maps distinct existential inputs, in the order of the query.
\<close>

section \<open>Flattening\<close>

text \<open>The conjuncts of a goal, in source order.\<close>

inductive conjuncts :: "ir \<Rightarrow> goal \<Rightarrow> goal list \<Rightarrow> bool" for st where
  conjuncts_leaf: "(\<And>p. g \<noteq> GoalAll p) \<Longrightarrow> conjuncts st g [g]"
| conjuncts_all: "get_goals st p = Some gs \<Longrightarrow> list_all2 (conjuncts st) gs yss \<Longrightarrow>
    conjuncts st (GoalAll p) (concat yss)"

lemma fold_push_append:
  assumes "fold_state f xs out = Some r"
    and "\<And>x u w. x \<in> set xs \<Longrightarrow> f x u = Some w \<Longrightarrow> \<exists>ys. Q x ys \<and> w = u @ ys"
  shows "\<exists>yss. list_all2 Q xs yss \<and> r = out @ concat yss"
  using assms
proof (induction xs arbitrary: out)
  case Nil
  then show ?case by simp
next
  case (Cons x xs)
  then obtain u where u: "f x out = Some u" and r: "fold_state f xs u = Some r" by (auto simp: opt_simps)
  from Cons.prems(2) [OF _ u] obtain ys where ys: "Q x ys" "u = out @ ys" by auto
  from Cons.IH [OF r] Cons.prems(2) obtain yss where "list_all2 Q xs yss" "r = u @ concat yss" by auto
  then have "list_all2 Q (x # xs) (ys # yss)" "r = out @ concat (ys # yss)" using ys by simp_all
  then show ?case by blast
qed

lemma push_goal_conjuncts: "push_goal st g out = Some r \<Longrightarrow> \<exists>ys. conjuncts st g ys \<and> r = out @ ys"
proof (induction rule: push_goal.raw_induct [rotated 1, consumes 1, case_names step])
  case (step push st g out r)
  show ?case
  proof (cases "\<exists>p. g = GoalAll p")
    case True
    then obtain p gs where g: "g = GoalAll p" and gs: "get_goals st p = Some gs"
      and f: "fold_state (push st) gs out = Some r"
      using step.hyps by (auto simp: opt_simps)
    from fold_push_append [OF f, of "conjuncts st"] step.IH
    obtain yss where "list_all2 (conjuncts st) gs yss" "r = out @ concat yss" by blast
    then show ?thesis unfolding g using conjuncts_all [OF gs] by blast
  next
    case False
    then have "r = out @ [g]" using step.hyps by (cases g) auto
    then show ?thesis using False conjuncts_leaf by blast
  qed
qed

lemma conjuncts_flat: "conjuncts st g ys \<Longrightarrow> y \<in> set ys \<Longrightarrow> y \<noteq> GoalAll p"
proof (induction rule: conjuncts.induct)
  case (conjuncts_all p gs yss)
  then show ?case by (auto simp: list_all2_conv_all_nth in_set_conv_nth)
qed auto

lemma push_flat: "(\<And>y. y \<in> set ys \<Longrightarrow> \<forall>p. y \<noteq> GoalAll p) \<Longrightarrow> fold_state (push_goal st) ys out = Some (out @ ys)"
proof (induction ys arbitrary: out)
  case (Cons y ys)
  then have "push_goal st y out = Some (out @ [y])" by (subst push_goal.simps) (cases y; auto)
  then show ?case using Cons by simp
qed simp

lemma goal_all_spec:
  assumes "goal_all st gs = Some (g, st')" and "distinct st"
  shows "\<exists>p ys yss. g = GoalAll p \<and> get_goals st' p = Some ys \<and> list_all2 (conjuncts st) gs yss \<and> ys = concat yss \<and>
    (\<forall>y \<in> set ys. \<forall>q. y \<noteq> GoalAll q) \<and> distinct st' \<and> arena_ext st st'"
proof -
  obtain ys where f: "fold_state (push_goal st) gs [] = Some ys"
    and rest: "(let (st, p) = alloc_goals st ys in Some (GoalAll p, st)) = Some (g, st')"
    using assms(1) by (auto simp: goal_all_def opt_simps)
  obtain p where a: "alloc_goals st ys = (st', p)" and g: "g = GoalAll p"
    using rest by (cases "alloc_goals st ys") auto
  from fold_push_append [OF f, of "conjuncts st"] push_goal_conjuncts
  obtain yss where y: "list_all2 (conjuncts st) gs yss" "ys = concat yss" by auto
  have "\<forall>q. x \<noteq> GoalAll q" if "x \<in> set ys" for x
    using that y conjuncts_flat by (auto simp: list_all2_conv_all_nth in_set_conv_nth) blast
  moreover have "get_goals st' p = Some ys" "distinct st'" "arena_ext st st'"
    using a assms(2) by (auto simp: alloc_goals_def ir_access dest: arena_intern_get arena_intern_ext intro: arena_intern_distinct)
  ultimately show ?thesis using g y by blast
qed

text \<open>C30: \<open>Goal::all\<close> allocates one conjunction whose members are the conjuncts of the given goals in
  source order, none of them a conjunction itself; taking the conjunction of the result again
  changes nothing and allocates nothing.\<close>

theorem goal_all_flattens:
  assumes "goal_all st gs = Some (g, st')" and "distinct st"
  shows "\<exists>p ys yss. g = GoalAll p \<and> get_goals st' p = Some ys \<and> list_all2 (conjuncts st) gs yss \<and> ys = concat yss \<and>
    (\<forall>y \<in> set ys. \<forall>q. y \<noteq> GoalAll q) \<and> goal_all st' [g] = Some (g, st')"
proof -
  obtain p ys yss where s: "g = GoalAll p" "get_goals st' p = Some ys" "list_all2 (conjuncts st) gs yss" "ys = concat yss"
    "\<forall>y \<in> set ys. \<forall>q. y \<noteq> GoalAll q" "distinct st'"
    using goal_all_spec [OF assms] by blast
  have "push_goal st' g [] = Some ys"
    using s(1,2) push_flat [of ys st' "[]"] s(5) by (subst push_goal.simps) simp
  then have "goal_all st' [g] = Some (g, st')"
    using s(1,2,6) by (simp add: goal_all_def alloc_goals_def ir_access arena_intern_known)
  then show ?thesis using s by blast
qed

theorem goal_all_flattens_witness:
  "\<exists>st'. goal_all [EGoals [GoalMaybe], EGoals [GoalAll 0, GoalMaybe]] [GoalAll 1] = Some (GoalAll 2, st') \<and>
     goal_all st' [GoalAll 2] = Some (GoalAll 2, st')"
proof -
  let ?st = "[EGoals [GoalMaybe], EGoals [GoalAll 0, GoalMaybe]]"
  have "goal_all ?st [GoalAll 1] = Some (GoalAll 2, ?st @ [EGoals [GoalMaybe, GoalMaybe]])" by code_simp
  then show ?thesis using goal_all_flattens [of ?st "[GoalAll 1]" "GoalAll 2"] by auto
qed

section \<open>Closed queries\<close>

text \<open>A type whose parameters are all in \<open>vis\<close>.\<close>

inductive closed_ty :: "ir \<Rightarrow> alpha_equiv_param set \<Rightarrow> ptr \<Rightarrow> bool" for st vis where
  closed_tyI: "get_ty st p = Some t \<Longrightarrow> (\<And>i. t \<noteq> TyInferVar i) \<Longrightarrow> (\<And>q. t = TyParam q \<Longrightarrow> q \<in> AlphaEquiv ` vis) \<Longrightarrow>
    (\<And>e q. t \<noteq> TyArray e (ConstParam q)) \<Longrightarrow> decompose st p = Some d \<Longrightarrow>
    (\<And>c. c \<in> set (de_children d) \<Longrightarrow> closed_ty st vis c) \<Longrightarrow> closed_ty st vis p"

lemma validate_head_ok:
  "validate_head vis t = Inr () \<longleftrightarrow>
     (\<forall>i. t \<noteq> TyInferVar i) \<and> (\<forall>q. t = TyParam q \<longrightarrow> q \<in> AlphaEquiv ` vis) \<and> (\<forall>e q. t \<noteq> TyArray e (ConstParam q))"
  by (auto simp: validate_head_def split: ty.split generic_param.split const_ty.split)

lemma validate_ty_closed: "validate_ty st vis p = Some r \<Longrightarrow> r = Inr () \<Longrightarrow> closed_ty st vis p"
proof (induction rule: validate_ty.raw_induct [rotated 1, consumes 1, case_names step])
  case (step validate st vis p r)
  from step.hyps obtain t where t: "get_ty st p = Some t"
    and rest: "(case validate_head vis t of Inl e \<Rightarrow> Some (Inl e)
      | Inr _ \<Rightarrow> do { d \<leftarrow> decompose st p; try_all (validate st vis) (de_children d) }) = Some r"
    by (auto simp: opt_simps)
  then obtain h: "validate_head vis t = Inr ()" and d: "\<exists>d::decomposed. decompose st p = Some d \<and> try_all (validate st vis) (de_children d) = Some (Inr ())"
    using step.prems by (cases "validate_head vis t") (auto simp: opt_simps)
  then obtain d :: decomposed where d: "decompose st p = Some d" "\<forall>c \<in> set (de_children d). validate st vis c = Some (Inr ())"
    by (auto simp: try_all_ok)
  then show ?case using closed_tyI [OF t] h d step.IH unfolding validate_head_ok by blast
qed

lemma validate_ty_returns:
  assumes wf: "ir_wf st"
  shows "get_ty st p \<noteq> None \<Longrightarrow> \<exists>r. validate_ty st vis p = Some r"
proof (induction p rule: less_induct)
  case (less p)
  obtain t d where t: "get_ty st p = Some t" and d: "decompose st p = Some d"
    and c: "\<forall>c \<in> set (de_children d). c < p \<and> get_ty st c \<noteq> None"
    by (rule decompose_wf [OF wf less.prems])
  have "\<exists>r. try_all (validate_ty st vis) (de_children d) = Some r"
    using less.IH c by (intro try_all_returns) blast
  then show ?case using t d by (subst validate_ty.simps) (cases "validate_head vis t"; simp)
qed

lemma closed_validate:
  assumes wf: "ir_wf st"
  shows "closed_ty st vis p \<Longrightarrow> validate_ty st vis p = Some (Inr ())"
proof (induction rule: closed_ty.induct)
  case (closed_tyI p t d)
  then have "validate_head vis t = Inr ()" unfolding validate_head_ok by blast
  moreover have "try_all (validate_ty st vis) (de_children d) = Some (Inr ())"
    using closed_tyI by (simp add: try_all_ok)
  ultimately show ?case using closed_tyI by (subst validate_ty.simps) simp
qed

text \<open>C31: Validation of a type returns on every well-formed arena, and accepts exactly the types that
  contain no inference variable, no parameter outside the visible canonical ones, and no array whose
  length is a const parameter.\<close>

theorem validate_ty_spec:
  assumes "ir_wf st" and "get_ty st p \<noteq> None"
  shows "(\<exists>r. validate_ty st vis p = Some r) \<and> (validate_ty st vis p = Some (Inr ()) \<longleftrightarrow> closed_ty st vis p)"
  using validate_ty_returns [OF assms] validate_ty_closed closed_validate [OF assms(1)] by blast

lemma two_types_wf: "ir_wf [ETy TyBool, ETy (TyArray 0 (ConstParam (AlphaEquiv q)))]"
proof -
  have "ir_wf ([] @ [ETy TyBool])"
    by (rule ir_wf_snoc) (auto simp: ir_wf_def slices_fit_def get_ty_def get_tys_def nth_opt_def ty_ok_def leaf_def)
  from ir_wf_snoc [OF this, of "ETy (TyArray 0 (ConstParam (AlphaEquiv q)))"] show ?thesis
    by (simp add: ty_ok_def get_ty_def nth_opt_def)
qed

theorem validate_ty_spec_witness:
  "validate_ty [ETy TyBool, ETy (TyArray 0 (ConstParam (AlphaEquiv \<lparr>alpha_kind = KindConst, alpha_index = 0\<rparr>)))] {} 0 = Some (Inr ())"
proof -
  have "closed_ty [ETy TyBool, ETy (TyArray 0 (ConstParam (AlphaEquiv \<lparr>alpha_kind = KindConst, alpha_index = 0\<rparr>)))] {} 0"
    by (rule closed_tyI [where t = TyBool and d = "leaf SkBool"]) (simp_all add: get_ty_def nth_opt_def decompose_def leaf_def)
  then show ?thesis using validate_ty_spec [OF two_types_wf [of "\<lparr>alpha_kind = KindConst, alpha_index = 0\<rparr>"], where p = 0 and vis = "{}"] by (simp add: get_ty_def nth_opt_def)
qed



text \<open>A trait reference, alias, atom, goal or assumption over the parameters in \<open>vis\<close>.\<close>

definition closed_trait :: "ir \<Rightarrow> alpha_equiv_param set \<Rightarrow> trait_ref \<Rightarrow> bool" where
  "closed_trait st vis tr \<longleftrightarrow> (\<exists>args. get_tys st (tr_args tr) = Some args \<and> (\<forall>a \<in> set args. closed_ty st vis a))"

definition closed_args :: "ir \<Rightarrow> alpha_equiv_param set \<Rightarrow> slice \<Rightarrow> bool" where
  "closed_args st vis s \<longleftrightarrow> (\<exists>args. get_tys st s = Some args \<and> (\<forall>a \<in> set args. closed_ty st vis a))"

definition closed_alias :: "ir \<Rightarrow> alpha_equiv_param set \<Rightarrow> alias_ty \<Rightarrow> bool" where
  "closed_alias st vis a = (case a of
     Named n \<Rightarrow> closed_args st vis (na_args n)
   | Associated p \<Rightarrow> closed_ty st vis (pr_self_ty p) \<and> closed_trait st vis (pr_trait_ref p) \<and> closed_args st vis (pr_args p)
   | Opaque n \<Rightarrow> closed_args st vis (oa_args n))"

definition closed_atom :: "ir \<Rightarrow> alpha_equiv_param set \<Rightarrow> atom \<Rightarrow> bool" where
  "closed_atom st vis a = (case a of
     AtomTraitImpl s tr \<Rightarrow> closed_ty st vis s \<and> closed_trait st vis tr
   | AtomEquals l r \<Rightarrow> closed_ty st vis l \<and> closed_ty st vis r)"

inductive closed_formula :: "ir \<Rightarrow> alpha_equiv_param set \<Rightarrow> formula \<Rightarrow> bool" for st where
  closed_exists: "get_generics st (bi_generics b) = Some (map AlphaEquiv qs) \<Longrightarrow> distinct qs \<Longrightarrow> set qs \<inter> vis = {} \<Longrightarrow>
    get_goal st (bi_value b) = Some g \<Longrightarrow> closed_formula st (vis \<union> set qs) (FGoal g) \<Longrightarrow>
    closed_formula st vis (FGoal (GoalExists b))"
| closed_implies: "get_assumptions st xs = Some as \<Longrightarrow> (\<And>a. a \<in> set as \<Longrightarrow> closed_formula st vis (FAssumption a)) \<Longrightarrow>
    get_goal st p = Some g \<Longrightarrow> closed_formula st vis (FGoal g) \<Longrightarrow> closed_formula st vis (FGoal (GoalImplies xs p))"
| closed_all: "get_goals st p = Some gs \<Longrightarrow> (\<And>g. g \<in> set gs \<Longrightarrow> closed_formula st vis (FGoal g)) \<Longrightarrow>
    closed_formula st vis (FGoal (GoalAll p))"
| closed_atomic: "closed_atom st vis a \<Longrightarrow> closed_formula st vis (FGoal (GoalAtom a))"
| closed_maybe: "closed_formula st vis (FGoal GoalMaybe)"
| closed_trait_impl: "closed_ty st vis s \<Longrightarrow> closed_trait st vis tr \<Longrightarrow> closed_formula st vis (FAssumption (AsmTraitImpl s tr))"
| closed_normalizes: "closed_alias st vis a \<Longrightarrow> closed_ty st vis t \<Longrightarrow> closed_formula st vis (FAssumption (AsmNormalizesTo a t))"
| closed_conditional: "get_goals st p = Some gs \<Longrightarrow> (\<And>g. g \<in> set gs \<Longrightarrow> closed_formula st vis (FGoal g)) \<Longrightarrow>
    get_predicate st c = Some w \<Longrightarrow> closed_ty st vis (wp_self_ty w) \<Longrightarrow> closed_trait st vis (wp_trait_ref w) \<Longrightarrow>
    closed_formula st vis (FAssumption (AsmImplies p c))"
| closed_items: "get_assumptions st p = Some as \<Longrightarrow> (\<And>a. a \<in> set as \<Longrightarrow> closed_formula st vis (FAssumption a)) \<Longrightarrow>
    closed_formula st vis (FAssumption (AsmAll p))"

lemma and_then_ok: "and_then m k = Some (Inr ()) \<longleftrightarrow> m = Some (Inr ()) \<and> k = Some (Inr ())"
  by (auto simp: and_then_def opt_simps case_sum_Some)

lemma validate_trait_ok: "validate_trait_ref st vis tr = Some (Inr ()) \<Longrightarrow> closed_trait st vis tr"
  using validate_ty_closed by (auto simp: validate_trait_ref_def closed_trait_def opt_simps try_all_ok)

lemma validate_alias_ok: "validate_alias st vis a = Some (Inr ()) \<Longrightarrow> closed_alias st vis a"
  using validate_ty_closed validate_trait_ok
  by (cases a) (auto simp: validate_alias_def closed_alias_def closed_args_def opt_simps try_all_ok and_then_ok)

lemma validate_atom_ok: "validate_atom st vis a = Some (Inr ()) \<Longrightarrow> closed_atom st vis a"
  using validate_ty_closed validate_trait_ok by (cases a) (auto simp: validate_atom_def closed_atom_def and_then_ok)

lemma insert_binder_ok:
  "insert_binder_params n ps (ins, vis) = Inr (ins', vis') \<Longrightarrow>
     \<exists>qs. ps = map AlphaEquiv qs \<and> distinct qs \<and> set qs \<inter> vis = {} \<and> ins' = ins @ qs \<and> vis' = vis \<union> set qs \<and>
       (\<forall>q \<in> set qs. alpha_kind q = KindType \<and> alpha_index q < n)"
proof (induction n ps "(ins, vis)" arbitrary: ins vis rule: insert_binder_params.induct)
  case (2 n q ps ins vis)
  then obtain qs where "ps = map AlphaEquiv qs" "distinct qs" "set qs \<inter> insert q vis = {}"
    "ins' = (ins @ [q]) @ qs" "vis' = insert q vis \<union> set qs" "\<forall>q \<in> set qs. alpha_kind q = KindType \<and> alpha_index q < n"
    by (auto split: if_splits)
  moreover have "alpha_kind q = KindType" "alpha_index q < n" "q \<notin> vis" using 2(2) by (auto split: if_splits)
  ultimately show ?case by (intro exI [of _ "q # qs"]) auto
qed auto

lemma try_each_fixed:
  assumes "try_each f xs s = Some (Inr (), s')"
    and "\<And>x u w. x \<in> set xs \<Longrightarrow> f x u = Some (Inr (), w) \<Longrightarrow> w = u \<and> Q u x"
  shows "s' = s \<and> (\<forall>x \<in> set xs. Q s x)"
  using assms
proof (induction xs arbitrary: s)
  case (Cons x xs)
  then obtain r s1 where f: "f x s = Some (r, s1)"
    and rest: "(case r of Inl e \<Rightarrow> Some (Inl e, s1) | Inr _ \<Rightarrow> try_each f xs s1) = Some (Inr (), s')"
    by (auto simp: opt_simps)
  then have "r = Inr ()" "try_each f xs s1 = Some (Inr (), s')" by (cases r; simp)+
  moreover from this have s1: "s1 = s" "Q s x" using Cons.prems(2) [of x s s1] f by simp_all
  ultimately have "try_each f xs s = Some (Inr (), s')" by simp
  then have "s' = s \<and> (\<forall>x \<in> set xs. Q s x)"
  proof (rule Cons.IH)
    show "w = u \<and> Q u z" if "z \<in> set xs" "f z u = Some (Inr (), w)" for z u w
      using Cons.prems(2) [of z u w] that by simp
  qed
  then show ?case using s1(2) by simp
qed simp

lemma validate_formula_ok:
  "validate_formula st n f vis = Some y \<Longrightarrow> fst y = Inr () \<Longrightarrow> snd y = vis \<and> closed_formula st vis f"
proof (induction rule: validate_formula.raw_induct [rotated 1, consumes 1, case_names step])
  case (step validate st n f vis y)
  have each: "w = u \<and> closed_formula st u (c x)" if "validate st n (c x) u = Some (Inr (), w)" for c :: "'z \<Rightarrow> formula" and x u w
    using step.IH [OF that] by simp
  obtain s' where y: "y = (Inr (), s')" using step.prems by (cases y) auto
  show ?case
  proof (cases f)
    case (FGoal g)
    show ?thesis
    proof (cases g)
      case (GoalExists b)
      then obtain ps where ps: "get_generics st (bi_generics b) = Some ps"
        and rest: "(case insert_binder_params n ps ([], vis) of
           Inl e \<Rightarrow> Some (Inl e, vis)
         | Inr (inserted, inner) \<Rightarrow> do {
             g \<leftarrow> get_goal st (bi_value b);
             (r, inner) \<leftarrow> validate st n (FGoal g) inner;
             case r of Inl e \<Rightarrow> Some (Inl e, inner) | Inr _ \<Rightarrow> Some (Inr (), inner - set inserted) }) = Some (Inr (), s')"
        using step.hyps FGoal y by (auto simp: opt_simps)
      then obtain qs inner where i: "insert_binder_params n ps ([], vis) = Inr (qs, inner)"
        by (cases "insert_binder_params n ps ([], vis)") auto
      with rest obtain h r w where h: "get_goal st (bi_value b) = Some h" and v: "validate st n (FGoal h) inner = Some (r, w)"
        and k: "(case r of Inl e \<Rightarrow> Some (Inl e, w) | Inr _ \<Rightarrow> Some (Inr (), w - set qs)) = Some (Inr (), s')"
        by (auto simp: opt_simps)
      then have r: "r = Inr ()" "s' = w - set qs" by (cases r; simp)+
      note q = insert_binder_ok [OF i]
      have w: "w = inner" "closed_formula st inner (FGoal h)" using each [of FGoal h inner w] v r by simp_all
      have "closed_formula st vis (FGoal (GoalExists b))"
        using closed_exists [of st b qs vis h] ps h q w(2) by auto
      moreover have "s' = vis" using q r w by auto
      ultimately show ?thesis by (simp add: y FGoal GoalExists)
    next
      case (GoalImplies xs p)
      then obtain as r w where as: "get_assumptions st xs = Some as"
        and t: "try_each (\<lambda>a. validate st n (FAssumption a)) as vis = Some (r, w)"
        and k: "(case r of Inl e \<Rightarrow> Some (Inl e, w)
          | Inr _ \<Rightarrow> do { g \<leftarrow> get_goal st p; validate st n (FGoal g) w }) = Some (Inr (), s')"
        using step.hyps FGoal y by (auto simp: opt_simps)
      then have r: "r = Inr ()" by (cases r) auto
      from try_each_fixed [OF t [unfolded r], of "\<lambda>u a. closed_formula st u (FAssumption a)"] each [of FAssumption]
      have w: "w = vis" "\<forall>a \<in> set as. closed_formula st vis (FAssumption a)" by blast+
      obtain h where h: "get_goal st p = Some h" and v: "validate st n (FGoal h) vis = Some (Inr (), s')"
        using k r w(1) by (auto simp: opt_simps)
      show ?thesis
        using each [of FGoal, OF v] closed_implies [OF as _ h, of vis] w(2) by (simp add: y FGoal GoalImplies)
    next
      case (GoalAll p)
      then obtain gs where gs: "get_goals st p = Some gs"
        and t: "try_each (\<lambda>g. validate st n (FGoal g)) gs vis = Some (Inr (), s')"
        using step.hyps FGoal y by (auto simp: opt_simps)
      from try_each_fixed [OF t, of "\<lambda>u g. closed_formula st u (FGoal g)"] each [of FGoal]
      have "s' = vis \<and> (\<forall>g \<in> set gs. closed_formula st vis (FGoal g))" by blast
      then show ?thesis using closed_all [OF gs] by (simp add: y FGoal GoalAll)
    next
      case (GoalAtom a)
      then show ?thesis using step.hyps FGoal y validate_atom_ok closed_atomic by (auto simp: opt_simps)
    next
      case GoalMaybe
      then show ?thesis using step.hyps FGoal closed_maybe by auto
    qed
  next
    case (FAssumption a)
    show ?thesis
    proof (cases a)
      case (AsmTraitImpl t tr)
      then show ?thesis
        using step.hyps FAssumption y validate_ty_closed validate_trait_ok closed_trait_impl
        by (auto simp: opt_simps and_then_ok)
    next
      case (AsmNormalizesTo al t)
      then show ?thesis
        using step.hyps FAssumption y validate_ty_closed validate_alias_ok closed_normalizes
        by (auto simp: opt_simps and_then_ok)
    next
      case (AsmImplies p c)
      then obtain gs r w where gs: "get_goals st p = Some gs"
        and t: "try_each (\<lambda>g. validate st n (FGoal g)) gs vis = Some (r, w)"
        and k: "(case r of Inl e \<Rightarrow> Some (Inl e, w)
          | Inr _ \<Rightarrow> do {
              h \<leftarrow> get_predicate st c;
              r \<leftarrow> and_then (validate_ty st w (wp_self_ty h)) (validate_trait_ref st w (wp_trait_ref h));
              Some (r, w) }) = Some (Inr (), s')"
        using step.hyps FAssumption y by (auto simp: opt_simps)
      then have r: "r = Inr ()" by (cases r) auto
      from try_each_fixed [OF t [unfolded r], of "\<lambda>u g. closed_formula st u (FGoal g)"] each [of FGoal]
      have w: "w = vis" "\<forall>g \<in> set gs. closed_formula st vis (FGoal g)" by blast+
      obtain h where h: "get_predicate st c = Some h" "validate_ty st vis (wp_self_ty h) = Some (Inr ())"
        "validate_trait_ref st vis (wp_trait_ref h) = Some (Inr ())" and "s' = vis"
        using k r w(1) by (auto simp: opt_simps and_then_ok)
      then show ?thesis
        using closed_conditional [OF gs _ h(1), of vis] w(2) validate_ty_closed [OF h(2)] validate_trait_ok [OF h(3)]
        by (simp add: y FAssumption AsmImplies)
    next
      case (AsmAll p)
      then obtain as where as: "get_assumptions st p = Some as"
        and t: "try_each (\<lambda>a. validate st n (FAssumption a)) as vis = Some (Inr (), s')"
        using step.hyps FAssumption y by (auto simp: opt_simps)
      from try_each_fixed [OF t, of "\<lambda>u a. closed_formula st u (FAssumption a)"] each [of FAssumption]
      have "s' = vis \<and> (\<forall>a \<in> set as. closed_formula st vis (FAssumption a))" by blast
      then show ?thesis using closed_items [OF as] by (simp add: y FAssumption AsmAll)
    qed
  qed
qed

lemma validate_canonical_vars_ok:
  "validate_canonical_vars q infos vis = Inr vis' \<Longrightarrow>
     distinct (map cv_param infos) \<and> set (map cv_param infos) \<inter> vis = {} \<and> vis' = vis \<union> set (map cv_param infos) \<and>
     (\<forall>i \<in> set infos. (cv_role i = RigidPlaceholder \<longrightarrow> cv_domain i = DomAny) \<and>
        (cv_role i = ExistentialInput \<longrightarrow> cv_kind i = KindType) \<and> cv_relative_universe i \<le> gq_canonical_universe q \<and>
        alpha_kind (cv_param i) = cv_kind i \<and> alpha_index (cv_param i) < gq_next_response_param q)"
proof (induction infos arbitrary: vis)
  case (Cons i infos)
  from Cons.prems have c: "cv_param i \<notin> vis" "\<not> (cv_role i = RigidPlaceholder \<and> cv_domain i \<noteq> DomAny)"
    "\<not> (cv_role i = ExistentialInput \<and> cv_kind i \<noteq> KindType)" "\<not> cv_relative_universe i > gq_canonical_universe q"
    "\<not> (alpha_kind (cv_param i) \<noteq> cv_kind i \<or> alpha_index (cv_param i) \<ge> gq_next_response_param q)"
    and r: "validate_canonical_vars q infos (insert (cv_param i) vis) = Inr vis'"
    by (simp_all split: if_split_asm)
  show ?case using Cons.IH [OF r] c by auto
qed simp

text \<open>C28: An accepted query is closed.  Its canonical inputs are pairwise different parameters with
  consistent metadata, numbered below the next response parameter, no newer than the query; its
  assumptions and its goal mention, outside their own binders, no parameter but these inputs and no
  inference variable.\<close>

theorem valid_query_closed:
  assumes "validate_goal_query (st, q) = Some (Inr ())"
  shows "\<exists>infos as. get_canonical_vars st (gq_canonical_vars q) = Some infos \<and> distinct (map cv_param infos) \<and>
    (\<forall>i \<in> set infos. cv_relative_universe i \<le> gq_canonical_universe q \<and> alpha_kind (cv_param i) = cv_kind i \<and>
       alpha_index (cv_param i) < gq_next_response_param q) \<and>
    get_assumptions st (gq_assumptions q) = Some as \<and>
    (\<forall>a \<in> set as. closed_formula st (set (map cv_param infos)) (FAssumption a)) \<and>
    (case gq_goal q of
       Prove g \<Rightarrow> closed_formula st (set (map cv_param infos)) (FGoal g)
     | Normalize a \<Rightarrow> closed_alias st (set (map cv_param infos)) a)"
proof -
  obtain infos where infos: "get_canonical_vars st (gq_canonical_vars q) = Some infos"
    and rest: "(case validate_canonical_vars q infos {} of
       Inl e \<Rightarrow> Some (Inl e)
     | Inr visible \<Rightarrow> do {
         (r, visible) \<leftarrow> validate_assumptions st (gq_next_response_param q) (gq_assumptions q) visible;
         case r of
           Inl e \<Rightarrow> Some (Inl e)
         | Inr _ \<Rightarrow> do {
             (r, _) \<leftarrow> validate_solver_goal st (gq_next_response_param q) (gq_goal q) visible;
             Some r } }) = Some (Inr ())"
    using assms by (auto simp: validate_goal_query_def opt_simps)
  then obtain vis where c: "validate_canonical_vars q infos {} = Inr vis"
    by (cases "validate_canonical_vars q infos {}") auto
  note V = validate_canonical_vars_ok [OF c]
  obtain r w where a: "validate_assumptions st (gq_next_response_param q) (gq_assumptions q) vis = Some (r, w)"
    and k: "(case r of Inl e \<Rightarrow> Some (Inl e)
      | Inr _ \<Rightarrow> do { (r, _) \<leftarrow> validate_solver_goal st (gq_next_response_param q) (gq_goal q) w; Some r }) = Some (Inr ())"
    using rest c by (auto simp: opt_simps)
  then have r: "r = Inr ()" by (cases r) auto
  obtain as where as: "get_assumptions st (gq_assumptions q) = Some as"
    and t: "try_each (\<lambda>a. validate_formula st (gq_next_response_param q) (FAssumption a)) as vis = Some (Inr (), w)"
    using a r by (auto simp: validate_assumptions_def opt_simps)
  have "w = vis \<and> (\<forall>a \<in> set as. closed_formula st vis (FAssumption a))"
    using try_each_fixed [OF t, of "\<lambda>u a. closed_formula st u (FAssumption a)"] validate_formula_ok by fastforce
  moreover obtain w' where g: "validate_solver_goal st (gq_next_response_param q) (gq_goal q) w = Some (Inr (), w')"
    using k r by (auto simp: opt_simps)
  ultimately have "case gq_goal q of Prove g \<Rightarrow> closed_formula st vis (FGoal g) | Normalize a \<Rightarrow> closed_alias st vis a"
    using validate_formula_ok [of st "gq_next_response_param q"] validate_alias_ok
    by (fastforce simp: validate_solver_goal_def opt_simps split: solver_goal.split)
  moreover have "vis = set (map cv_param infos)" using V by simp
  ultimately show ?thesis using infos as V \<open>w = vis \<and> _\<close> by blast
qed

theorem valid_query_closed_witness:
  "closed_formula [ECanonicalVars [], EAssumptions [], EGoals []] {} (FGoal (GoalAll 2))"
proof -
  let ?q = "\<lparr>gq_local_crate = 0, gq_canonical_universe = 0, gq_canonical_vars = 0, gq_next_response_param = 0,
    gq_assumptions_complete = True, gq_assumptions = 1, gq_goal = Prove (GoalAll 2)\<rparr>"
  have "validate_goal_query ([ECanonicalVars [], EAssumptions [], EGoals []], ?q) = Some (Inr ())" by code_simp
  from valid_query_closed [OF this] show ?thesis by (auto simp: get_canonical_vars_def nth_opt_def)
qed

section \<open>Substitutions\<close>

definition bindable :: "canonical_var_info list \<Rightarrow> alpha_equiv_param \<Rightarrow> bool" where
  "bindable vars k \<longleftrightarrow> (\<exists>i info. find_canonical_var vars k = Some (i, info) \<and> cv_role info = ExistentialInput \<and> cv_kind info = KindType)"

definition input_position :: "canonical_var_info list \<Rightarrow> alpha_equiv_param \<Rightarrow> nat" where
  "input_position vars k = (case find_canonical_var vars k of Some (i, _) \<Rightarrow> i | None \<Rightarrow> 0)"

lemma find_canonical_var_Some:
  "find_canonical_var vars k = Some (i, info) \<Longrightarrow> i < length vars \<and> info = vars ! i \<and> cv_param info = k"
  by (auto simp: find_canonical_var_def find_Some_iff nth_enumerate_eq)

lemma validate_entries_ok:
  "validate_entries vars entries seen out = Inr res \<longleftrightarrow>
     (\<forall>e \<in> set entries. bindable vars (fst e)) \<and> distinct (map fst entries) \<and> set (map fst entries) \<inter> seen = {} \<and>
     res = out @ map (\<lambda>(k, v). (input_position vars k, k, v)) entries"
proof (induction entries arbitrary: seen out)
  case Nil
  then show ?case by auto
next
  case (Cons e entries)
  obtain k v where e: "e = (k, v)" by (cases e)
  show ?case
  proof (cases "bindable vars k \<and> k \<notin> seen")
    case True
    then obtain i info where "find_canonical_var vars k = Some (i, info)" "cv_role info = ExistentialInput" "cv_kind info = KindType"
      by (auto simp: bindable_def)
    then show ?thesis using True Cons.IH [of "insert k seen" "out @ [(i, k, v)]"] by (auto simp: e input_position_def)
  next
    case False
    then have "validate_entries vars (e # entries) seen out \<noteq> Inr res"
      by (auto simp: e bindable_def split: option.split prod.split)
    then show ?thesis using False by (auto simp: e)
  qed
qed

lemma filter_eq_replicate: "filter ((=) k) zs = replicate (count (mset zs) k) k"
  by (induction zs) auto

lemma sort_key_unique:
  assumes "mset xs = mset ys" and "inj_on f (set xs)"
  shows "sort_key f xs = sort_key f ys"
  using assms
proof -
  have "set xs = set ys" using assms(1) by (metis set_mset_mset)
  show ?thesis
  proof (rule properties_for_sort_key [symmetric])
    show "mset (sort_key f xs) = mset ys" using assms(1) by simp
    show "sorted (map f (sort_key f xs))" by simp
    show "filter (\<lambda>x. f k = f x) (sort_key f xs) = filter (\<lambda>x. f k = f x) ys" if "k \<in> set (sort_key f xs)" for k
    proof -
      have "\<forall>x \<in> set ys. f k = f x \<longrightarrow> x = k" using assms(2) that \<open>set xs = set ys\<close> by (auto simp: inj_on_def)
      then have e: "filter (\<lambda>x. f k = f x) zs = replicate (count (mset zs) k) k" if "mset zs = mset ys" for zs
      proof -
        have "set zs = set ys" using that by (metis set_mset_mset)
        then have "filter (\<lambda>x. f k = f x) zs = filter ((=) k) zs"
          using \<open>\<forall>x \<in> set ys. _\<close> by (intro filter_cong) auto
        then show ?thesis by (simp add: filter_eq_replicate)
      qed
      show ?thesis using e [of "sort_key f xs"] e [of ys] assms(1) by simp
    qed
  qed
qed


definition subst_entries :: "canonical_var_info list \<Rightarrow> (alpha_equiv_param \<times> ptr) list \<Rightarrow> subst_entry list" where
  "subst_entries vars entries =
     map (\<lambda>(k, v). \<lparr>se_key = k, se_value = v\<rparr>) (sort_key (\<lambda>e. input_position vars (fst e)) entries)"

lemma insort_key_map: "insort_key f (g x) (map g xs) = map g (insort_key (f \<circ> g) x xs)"
  by (induction xs) auto

lemma sort_key_map: "sort_key f (map g xs) = map g (sort_key (f \<circ> g) xs)"
  by (induction xs) (auto simp: insort_key_map comp_def)

lemma validate_and_alloc_subst_eq:
  "validate_and_alloc_subst st vars entries = (case validate_entries vars entries {} [] of
     Inl e \<Rightarrow> (Inl e, st)
   | Inr _ \<Rightarrow> (let (st, p) = alloc_subst st (subst_entries vars entries) in (Inr p, st)))"
proof (cases "validate_entries vars entries {} []")
  case (Inr res)
  then have "res = map (\<lambda>(k, v). (input_position vars k, k, v)) entries" by (simp add: validate_entries_ok)
  then have "map (\<lambda>(_, key, v). \<lparr>se_key = key, se_value = v\<rparr>) (sort_key fst res) = subst_entries vars entries"
    by (simp add: sort_key_map subst_entries_def comp_def case_prod_beta)
  then show ?thesis using Inr by (simp add: validate_and_alloc_subst_def)
qed (simp add: validate_and_alloc_subst_def)

lemma subst_entries_order:
  assumes "mset entries = mset entries'" and "\<forall>e \<in> set entries. bindable vars (fst e)" and "distinct (map fst entries)"
  shows "subst_entries vars entries = subst_entries vars entries'"
proof -
  have "inj_on (\<lambda>e. input_position vars (fst e)) (set entries)"
  proof (rule inj_onI)
    fix e e' assume m: "e \<in> set entries" "e' \<in> set entries" and p: "input_position vars (fst e) = input_position vars (fst e')"
    have "cv_param (vars ! input_position vars (fst x)) = fst x" if x: "x \<in> set entries" for x
    proof -
      obtain i info where f: "find_canonical_var vars (fst x) = Some (i, info)"
        using assms(2) x by (auto simp: bindable_def)
      then show ?thesis using find_canonical_var_Some [OF f] by (auto simp: input_position_def)
    qed
    then have "fst e = fst e'" using m p by metis
    then show "e = e'" using m assms(3) by (auto simp: distinct_map inj_on_def)
  qed
  then show ?thesis unfolding subst_entries_def using sort_key_unique [OF assms(1)] by metis
qed

text \<open>C29: A substitution is accepted exactly when its keys are pairwise different existential type
  inputs of the query.  A rejected one allocates nothing.  An accepted one is stored in the order of
  the inputs, with every entry given and no other, and the handle does not depend on the order in
  which the entries were given.\<close>

theorem validate_subst_spec:
  assumes "distinct st"
  shows "case validate_and_alloc_subst st vars entries of
      (Inl e, st') \<Rightarrow> st' = st \<and> \<not> ((\<forall>e \<in> set entries. bindable vars (fst e)) \<and> distinct (map fst entries))
    | (Inr p, st') \<Rightarrow> (\<forall>e \<in> set entries. bindable vars (fst e)) \<and> distinct (map fst entries) \<and>
        (\<exists>xs. get_subst st' p = Some xs \<and> sorted (map (input_position vars \<circ> se_key) xs) \<and>
           mset (map (\<lambda>x. (se_key x, se_value x)) xs) = mset entries) \<and>
        (\<forall>entries'. mset entries' = mset entries \<longrightarrow> validate_and_alloc_subst st vars entries' = (Inr p, st'))"
proof (cases "(\<forall>e \<in> set entries. bindable vars (fst e)) \<and> distinct (map fst entries)")
  case True
  obtain st' p where a: "alloc_subst st (subst_entries vars entries) = (st', p)" by fastforce
  have r: "validate_and_alloc_subst st vars entries' = (Inr p, st')" if m: "mset entries' = mset entries" for entries'
  proof -
    have "set entries' = set entries" using m by (metis set_mset_mset)
    moreover have "distinct (map fst entries')" using True m by (metis mset_eq_imp_distinct_iff mset_map)
    ultimately obtain res where "validate_entries vars entries' {} [] = Inr res"
      using True validate_entries_ok [of vars entries' "{}" "[]"] by simp
    moreover have "subst_entries vars entries' = subst_entries vars entries"
      using subst_entries_order [OF m [symmetric]] True by simp
    ultimately show ?thesis using a by (simp add: validate_and_alloc_subst_eq)
  qed
  have g: "get_subst st' p = Some (subst_entries vars entries)"
    using a assms by (auto simp: alloc_subst_def ir_access dest: arena_intern_get)
  have so: "sorted (map (input_position vars \<circ> se_key) (subst_entries vars entries))"
  proof -
    have "map (input_position vars \<circ> se_key) (subst_entries vars entries) =
        map (\<lambda>e. input_position vars (fst e)) (sort_key (\<lambda>e. input_position vars (fst e)) entries)"
      by (auto simp: subst_entries_def)
    then show ?thesis by simp
  qed
  have m: "mset (map (\<lambda>x. (se_key x, se_value x)) (subst_entries vars entries)) = mset entries"
    by (simp add: subst_entries_def comp_def case_prod_beta)
  show ?thesis using True r [of entries] r g so m by simp
next
  case False
  then have "validate_entries vars entries {} [] \<noteq> Inr res" for res by (simp only: validate_entries_ok) blast
  then obtain e where "validate_entries vars entries {} [] = Inl e" by (cases "validate_entries vars entries {} []") auto
  then show ?thesis using False by (simp add: validate_and_alloc_subst_eq)
qed

definition sample_vars :: "canonical_var_info list" where
  "sample_vars = map (\<lambda>i. \<lparr>cv_param = \<lparr>alpha_kind = KindType, alpha_index = i\<rparr>, cv_kind = KindType,
     cv_role = ExistentialInput, cv_relative_universe = 0, cv_domain = DomAny\<rparr>) [0, 1]"

theorem validate_subst_spec_witness:
  "validate_and_alloc_subst [] sample_vars [(cv_param (sample_vars ! 1), 5), (cv_param (sample_vars ! 0), 6)] =
   validate_and_alloc_subst [] sample_vars [(cv_param (sample_vars ! 0), 6), (cv_param (sample_vars ! 1), 5)]"
proof -
  let ?es = "[(cv_param (sample_vars ! 1), 5), (cv_param (sample_vars ! 0), 6)] :: (alpha_equiv_param \<times> ptr) list"
  let ?st = "[ESubst [\<lparr>se_key = cv_param (sample_vars ! 0), se_value = 6\<rparr>, \<lparr>se_key = cv_param (sample_vars ! 1), se_value = 5\<rparr>]]"
  have e: "validate_and_alloc_subst [] sample_vars ?es = (Inr 0, ?st)" by code_simp
  show ?thesis using validate_subst_spec [where st = "[]" and vars = sample_vars and entries = ?es] unfolding e by simp
qed

end
