(* ===== verification/Runtime.thy ===== *)
theory Runtime
  imports Prelude
begin

text \<open>
  \<open>check/infer/runtime.rs\<close>: the cooperative scheduler of body inference.

  A ready queue is shared between a scheduler and the wakers that it hands out, so the queues live in
  a store and are named by numbers (\<open>Arc<Mutex<..>>\<close>).  A future is foreign code: its state is a value
  of type \<open>'f\<close> and polling it is a parameter, which sees the waker it is given, changes the store and
  either returns the output or the state to resume from.  Wakers are compared by the identity of their
  \<open>Arc\<close>, as \<open>Waker::will_wake\<close> does.  \<open>None\<close> is a panic, or a run that does not return.
\<close>

section \<open>Ready queues\<close>

type_synonym task_id = nat

record 'a ready_queue =
  rq_queue :: "'a list"
  rq_queued :: "'a set"

definition ready_queue_new :: "'a ready_queue" where
  "ready_queue_new = \<lparr>rq_queue = [], rq_queued = {}\<rparr>"

definition enqueue :: "'a ready_queue \<Rightarrow> 'a \<Rightarrow> 'a ready_queue" where
  "enqueue q x = (if x \<notin> rq_queued q
     then q\<lparr>rq_queue := rq_queue q @ [x], rq_queued := insert x (rq_queued q)\<rparr> else q)"

definition pop :: "'a ready_queue \<Rightarrow> 'a option \<times> 'a ready_queue" where
  "pop q = (case rq_queue q of
     [] \<Rightarrow> (None, q)
   | x # xs \<Rightarrow> (Some x, q\<lparr>rq_queue := xs, rq_queued := rq_queued q - {x}\<rparr>))"

definition remove :: "'a ready_queue \<Rightarrow> 'a \<Rightarrow> 'a ready_queue" where
  "remove q x = (if x \<in> rq_queued q
     then q\<lparr>rq_queue := filter (\<lambda>y. y \<noteq> x) (rq_queue q), rq_queued := rq_queued q - {x}\<rparr> else q)"

definition is_empty :: "'a ready_queue \<Rightarrow> bool" where
  "is_empty q \<longleftrightarrow> rq_queue q = []"

section \<open>The store and the wakers\<close>

type_synonym queue_id = nat

datatype waker =
    TaskWake (wk_identity: nat) (wk_task: task_id) (wk_ready: queue_id) (wk_coordinator: "waker option")
  | OtherWaker (wk_identity: nat)

text \<open>\<open>wo_notified\<close> records the calls of wakers that do not belong to this file; \<open>wo_rest\<close> is all
  other state that futures share.\<close>

record 'x world =
  wo_queues :: "queue_id \<Rightarrow> task_id ready_queue"
  wo_next_queue :: nat
  wo_next_waker :: nat
  wo_current_task :: "task_id option"
  wo_notified :: "nat list"
  wo_rest :: 'x

definition set_queue :: "queue_id \<Rightarrow> task_id ready_queue \<Rightarrow> 'x world \<Rightarrow> 'x world" where
  "set_queue q r w = w\<lparr>wo_queues := (wo_queues w)(q := r)\<rparr>"

definition enqueue_in :: "queue_id \<Rightarrow> task_id \<Rightarrow> 'x world \<Rightarrow> 'x world" where
  "enqueue_in q t w = set_queue q (enqueue (wo_queues w q) t) w"

definition new_queue :: "'x world \<Rightarrow> queue_id \<times> 'x world" where
  "new_queue w = (let q = wo_next_queue w in (q, set_queue q ready_queue_new (w\<lparr>wo_next_queue := q + 1\<rparr>)))"

fun wake :: "waker \<Rightarrow> 'x world \<Rightarrow> 'x world" where
  "wake (TaskWake _ task ready None) w = enqueue_in ready task w"
| "wake (TaskWake _ task ready (Some coordinator)) w = wake coordinator (enqueue_in ready task w)"
| "wake (OtherWaker n) w = w\<lparr>wo_notified := wo_notified w @ [n]\<rparr>"

definition will_wake :: "waker \<Rightarrow> waker \<Rightarrow> bool" where
  "will_wake a b \<longleftrightarrow> wk_identity a = wk_identity b"

definition task_waker :: "task_id \<Rightarrow> queue_id \<Rightarrow> 'x world \<Rightarrow> waker \<times> 'x world" where
  "task_waker task ready w =
     (TaskWake (wo_next_waker w) task ready None, w\<lparr>wo_next_waker := wo_next_waker w + 1\<rparr>)"

definition scoped_task_waker :: "task_id \<Rightarrow> queue_id \<Rightarrow> waker \<Rightarrow> 'x world \<Rightarrow> waker \<times> 'x world" where
  "scoped_task_waker task ready coordinator w =
     (TaskWake (wo_next_waker w) task ready (Some coordinator), w\<lparr>wo_next_waker := wo_next_waker w + 1\<rparr>)"

section \<open>Futures\<close>

datatype ('f, 'o) poll_result = Pending 'f | Ready 'o

type_synonym ('f, 'o, 'x) poll = "'f \<Rightarrow> waker \<Rightarrow> 'x world \<Rightarrow> (('f, 'o) poll_result \<times> 'x world) option"

section \<open>The runtime\<close>

record 'f runtime =
  rt_next_id :: nat
  rt_ready :: queue_id
  rt_tasks :: "task_id \<Rightarrow> 'f option"
  rt_waiting :: "nat \<Rightarrow> (task_id \<times> waker) list option"

definition runtime_new :: "'x world \<Rightarrow> 'f runtime \<times> 'x world" where
  "runtime_new w = (let (q, w) = new_queue w in
     (\<lparr>rt_next_id = 0, rt_ready = q, rt_tasks = Map.empty, rt_waiting = Map.empty\<rparr>, w))"

definition alloc_task_id :: "'f runtime \<Rightarrow> (task_id \<times> 'f runtime) option" where
  "alloc_task_id rt = do {
     let tid = rt_next_id rt;
     check (tid + 1 < 2 ^ 32);
     Some (tid, rt\<lparr>rt_next_id := tid + 1\<rparr>) }"

definition spawn :: "'f \<Rightarrow> 'f runtime \<Rightarrow> 'x world \<Rightarrow> ('f runtime \<times> 'x world) option" where
  "spawn future rt w = do {
     (tid, rt) \<leftarrow> alloc_task_id rt;
     check (rt_tasks rt tid = None);
     let rt = rt\<lparr>rt_tasks := (rt_tasks rt)(tid \<mapsto> future)\<rparr>;
     Some (rt, enqueue_in (rt_ready rt) tid w) }"

definition wait_on :: "nat \<Rightarrow> task_id \<Rightarrow> waker \<Rightarrow> 'f runtime \<Rightarrow> 'f runtime" where
  "wait_on var task waker rt =
     (let waiters = (case rt_waiting rt var of Some ws \<Rightarrow> ws | None \<Rightarrow> []) in
      rt\<lparr>rt_waiting := (rt_waiting rt)(var \<mapsto>
        (if \<exists>(existing, registered) \<in> set waiters. existing = task \<and> will_wake registered waker
         then waiters else waiters @ [(task, waker)]))\<rparr>)"

definition wake_waiters :: "(task_id \<times> waker) list \<Rightarrow> 'x world \<Rightarrow> 'x world" where
  "wake_waiters waiters = fold (\<lambda>(_, waker). wake waker) waiters"

definition wake_variable :: "nat \<Rightarrow> 'f runtime \<Rightarrow> 'x world \<Rightarrow> 'f runtime \<times> 'x world" where
  "wake_variable var rt w = (case rt_waiting rt var of
     Some waiters \<Rightarrow> (rt\<lparr>rt_waiting := (rt_waiting rt)(var := None)\<rparr>, wake_waiters waiters w)
   | None \<Rightarrow> (rt, w))"

text \<open>\<open>order\<close> is the iteration order of the hash map.\<close>

definition variables_waited_on_by :: "(nat set \<Rightarrow> nat list) \<Rightarrow> 'f runtime \<Rightarrow> task_id \<Rightarrow> nat list" where
  "variables_waited_on_by order rt task =
     filter (\<lambda>variable. case rt_waiting rt variable of
         Some waiters \<Rightarrow> \<exists>(waiter, _) \<in> set waiters. waiter = task
       | None \<Rightarrow> False) (order (dom (rt_waiting rt)))"

definition wake_all :: "(nat set \<Rightarrow> nat list) \<Rightarrow> 'f runtime \<Rightarrow> 'x world \<Rightarrow> 'f runtime \<times> 'x world" where
  "wake_all order rt w =
     (let w = fold (\<lambda>var. wake_waiters (case rt_waiting rt var of Some ws \<Rightarrow> ws | None \<Rightarrow> []))
                (order (dom (rt_waiting rt))) w;
          w = fold (enqueue_in (rt_ready rt)) (order (dom (rt_tasks rt))) w
      in (rt\<lparr>rt_waiting := Map.empty\<rparr>, w))"

text \<open>A finished task leaves the task table and every waiting list.\<close>

definition complete :: "task_id \<Rightarrow> 'f runtime \<Rightarrow> 'f runtime" where
  "complete tid rt = rt\<lparr>rt_tasks := (rt_tasks rt)(tid := None),
     rt_waiting := (\<lambda>var. map_option (filter (\<lambda>(task, _). task \<noteq> tid)) (rt_waiting rt var))\<rparr>"

text \<open>One poll of a task, between the two writes of \<open>CURRENT_TASK\<close>.\<close>

definition poll_as :: "('f, 'o, 'x) poll \<Rightarrow> task_id \<Rightarrow> queue_id \<Rightarrow> 'f \<Rightarrow> 'x world \<Rightarrow> (('f, 'o) poll_result \<times> 'x world) option" where
  "poll_as poll tid ready future w = do {
     let (waker, w) = task_waker tid ready w;
     (r, w) \<leftarrow> poll future waker (w\<lparr>wo_current_task := Some tid\<rparr>);
     Some (r, w\<lparr>wo_current_task := None\<rparr>) }"

partial_function (option) drain :: "('f, unit, 'x) poll \<Rightarrow> 'f runtime \<Rightarrow> 'x world \<Rightarrow> ('f runtime \<times> 'x world) option" where
  "drain poll rt w = (case pop (wo_queues w (rt_ready rt)) of
     (None, _) \<Rightarrow> Some (rt, w)
   | (Some tid, q) \<Rightarrow>
       let w = set_queue (rt_ready rt) q w in
       (case rt_tasks rt tid of
          None \<Rightarrow> drain poll rt w
        | Some future \<Rightarrow> do {
            (r, w) \<leftarrow> poll_as poll tid (rt_ready rt) future w;
            case r of
              Ready _ \<Rightarrow> drain poll (complete tid rt) w
            | Pending future \<Rightarrow> drain poll (rt\<lparr>rt_tasks := (rt_tasks rt)(tid \<mapsto> future)\<rparr>) w }))"

datatype 'o blocked = Returned 'o | Deadlock

text \<open>The loop of \<open>block_on\<close>; \<open>Deadlock\<close> is its explicit panic.\<close>

partial_function (option) block_loop ::
  "('f, unit, 'x) poll \<Rightarrow> ('g, 'o, 'x) poll \<Rightarrow> task_id \<Rightarrow> queue_id \<Rightarrow> 'g \<Rightarrow> 'f runtime \<Rightarrow> 'x world \<Rightarrow>
     ('o blocked \<times> 'f runtime \<times> 'x world) option" where
  "block_loop poll poll_main main main_ready future rt w =
     (let (popped, q) = pop (wo_queues w main_ready);
          w = set_queue main_ready q w
      in do {
        (r, w) \<leftarrow> (if popped \<noteq> None then poll_as poll_main main main_ready future w else Some (Pending future, w));
        (rt, w) \<leftarrow> drain poll rt w;
        case r of
          Ready output \<Rightarrow> Some (Returned output, rt, w)
        | Pending future \<Rightarrow>
            if is_empty (wo_queues w main_ready) \<and> is_empty (wo_queues w (rt_ready rt))
            then Some (Deadlock, rt, w)
            else block_loop poll poll_main main main_ready future rt w })"

definition block_on ::
  "('f, unit, 'x) poll \<Rightarrow> ('g, 'o, 'x) poll \<Rightarrow> 'g \<Rightarrow> 'f runtime \<Rightarrow> 'x world \<Rightarrow> ('o blocked \<times> 'f runtime \<times> 'x world) option" where
  "block_on poll poll_main future rt w = do {
     (main, rt) \<leftarrow> alloc_task_id rt;
     let (main_ready, w) = new_queue w;
     block_loop poll poll_main main main_ready future rt (enqueue_in main_ready main w) }"

definition is_quiescent :: "'f runtime \<Rightarrow> 'x world \<Rightarrow> bool" where
  "is_quiescent rt w \<longleftrightarrow> dom (rt_tasks rt) = {} \<and> is_empty (wo_queues w (rt_ready rt))"

section \<open>Scoped tasks\<close>

record 'f scoped_tasks =
  sc_ready :: queue_id
  sc_tasks :: "'f option list"
  sc_live :: nat

definition scoped_new :: "'x world \<Rightarrow> 'f scoped_tasks \<times> 'x world" where
  "scoped_new w = (let (q, w) = new_queue w in (\<lparr>sc_ready = q, sc_tasks = [], sc_live = 0\<rparr>, w))"

definition scoped_spawn :: "'f \<Rightarrow> 'f scoped_tasks \<Rightarrow> 'x world \<Rightarrow> task_id \<times> 'f scoped_tasks \<times> 'x world" where
  "scoped_spawn future sc w =
     (let tid = u32_of (length (sc_tasks sc)) in
      (tid, sc\<lparr>sc_tasks := sc_tasks sc @ [Some future], sc_live := sc_live sc + 1\<rparr>, enqueue_in (sc_ready sc) tid w))"

definition scoped_is_empty :: "'f scoped_tasks \<Rightarrow> bool" where
  "scoped_is_empty sc \<longleftrightarrow> sc_live sc = 0"

datatype 'o next_poll = NextPending | NextReady "(task_id \<times> 'o) option"

partial_function (option) poll_next ::
  "('f, 'o, 'x) poll \<Rightarrow> waker \<Rightarrow> 'f scoped_tasks \<Rightarrow> 'x world \<Rightarrow> ('o next_poll \<times> 'f scoped_tasks \<times> 'x world) option" where
  "poll_next poll context sc w = (case pop (wo_queues w (sc_ready sc)) of
     (None, _) \<Rightarrow> Some (if sc_live sc = 0 then NextReady None else NextPending, sc, w)
   | (Some tid, q) \<Rightarrow> do {
       let w = set_queue (sc_ready sc) q w;
       task \<leftarrow> nth_opt (sc_tasks sc) tid;
       case task of
         None \<Rightarrow> poll_next poll context sc w
       | Some future \<Rightarrow> do {
           let (waker, w) = scoped_task_waker tid (sc_ready sc) context w;
           (r, w) \<leftarrow> poll future waker w;
           case r of
             Ready output \<Rightarrow> do {
               check (0 < sc_live sc);
               Some (NextReady (Some (tid, output)),
                 sc\<lparr>sc_tasks := (sc_tasks sc)[tid := None], sc_live := sc_live sc - 1\<rparr>, w) }
           | Pending future \<Rightarrow> poll_next poll context (sc\<lparr>sc_tasks := (sc_tasks sc)[tid := Some future]\<rparr>) w } })"

definition cancel_all :: "'f scoped_tasks \<Rightarrow> 'x world \<Rightarrow> 'f scoped_tasks \<times> 'x world" where
  "cancel_all sc w =
     (sc\<lparr>sc_tasks := map (\<lambda>_. None) (sc_tasks sc), sc_live := 0\<rparr>, set_queue (sc_ready sc) ready_queue_new w)"

declare drain.simps [simp del, code] and block_loop.simps [simp del, code] and poll_next.simps [simp del, code]

end
