(* ===== verification/RuntimeCorrect.thy ===== *)
theory RuntimeCorrect
  imports Runtime "HOL-Library.Code_Target_Nat"
begin

text \<open>
  The ready queue is a first-in first-out queue without duplicates; a scheduler that drains it polls
  every task that is woken, however the wake-ups interleave, and returns when the polls stop waking;
  a set of scoped tasks keeps its count of live tasks and never indexes outside its table.
\<close>

section \<open>Queues without duplicates\<close>

locale dedup_queue =
  fixes put :: "'q \<Rightarrow> 'a \<Rightarrow> 'q"
    and take_first :: "'q \<Rightarrow> 'a option \<times> 'q"
    and delete :: "'q \<Rightarrow> 'a \<Rightarrow> 'q"
    and items :: "'q \<Rightarrow> 'a list"
    and ok :: "'q \<Rightarrow> bool"
  assumes put_ok: "ok q \<Longrightarrow> ok (put q x)"
    and take_ok: "ok q \<Longrightarrow> take_first q = (r, q') \<Longrightarrow> ok q'"
    and delete_ok: "ok q \<Longrightarrow> ok (delete q x)"
    and ok_distinct: "ok q \<Longrightarrow> distinct (items q)"
    and items_put: "ok q \<Longrightarrow> items (put q x) = (if x \<in> set (items q) then items q else items q @ [x])"
    and items_take: "take_first q = (r, q') \<Longrightarrow>
      (case items q of [] \<Rightarrow> r = None \<and> items q' = [] | x # xs \<Rightarrow> r = Some x \<and> items q' = xs)"
    and items_delete: "ok q \<Longrightarrow> items (delete q x) = filter (\<lambda>y. y \<noteq> x) (items q)"
begin

definition puts :: "'a list \<Rightarrow> 'q \<Rightarrow> 'q" where
  "puts xs q = fold (\<lambda>x q. put q x) xs q"

lemma puts_simps [simp]: "puts [] q = q" "puts (x # xs) q = puts xs (put q x)"
  by (simp_all add: puts_def)

lemma puts_ok: "ok q \<Longrightarrow> ok (puts xs q)"
  by (induction xs arbitrary: q) (auto intro: put_ok)

lemma puts_items: "ok q \<Longrightarrow> \<exists>ys. items (puts xs q) = items q @ ys \<and> set (items q @ ys) = set (items q) \<union> set xs"
proof (induction xs arbitrary: q)
  case (Cons x xs)
  from Cons.IH [OF put_ok [OF Cons.prems]] obtain ys where
    "items (puts xs (put q x)) = items (put q x) @ ys" "set (items (put q x) @ ys) = set (items (put q x)) \<union> set xs" by blast
  then show ?case using items_put [OF Cons.prems, of x] by (auto split: if_splits)
qed simp

lemma puts_set: "ok q \<Longrightarrow> set (items (puts xs q)) = set (items q) \<union> set xs"
  by (metis puts_items set_append)

lemma take_some: "take_first q = (Some x, q') \<Longrightarrow> items q = x # items q'"
  using items_take [of q "Some x" q'] by (simp split: list.splits)

lemma take_none: "take_first q = (None, q') \<Longrightarrow> items q = []"
  using items_take [of q None q'] by (simp split: list.splits)

lemma not_stuck: "items q \<noteq> [] \<Longrightarrow> \<exists>x q'. take_first q = (Some x, q')"
  using items_take [of q "fst (take_first q)" "snd (take_first q)"] by (cases "take_first q") (auto split: list.splits)

lemma taken_gone: "ok q \<Longrightarrow> take_first q = (Some x, q') \<Longrightarrow> x \<notin> set (items q')"
  using ok_distinct [of q] take_some [of q x q'] by simp

end

lemma filter_neq [simp]: "x \<notin> set xs \<Longrightarrow> filter (\<lambda>y. y \<noteq> x) xs = xs"
  by (induction xs) auto

definition queue_ok :: "'a ready_queue \<Rightarrow> bool" where
  "queue_ok q \<longleftrightarrow> distinct (rq_queue q) \<and> rq_queued q = set (rq_queue q)"

interpretation ready: dedup_queue enqueue pop remove rq_queue queue_ok
  by unfold_locales
    (auto simp: queue_ok_def enqueue_def pop_def remove_def split: if_splits list.splits)

lemma queue_ok_new [simp]: "queue_ok ready_queue_new" "rq_queue ready_queue_new = []"
  by (simp_all add: queue_ok_def ready_queue_new_def)

text \<open>Operations and their observable results, on the code's queue and on a list.\<close>

datatype 'a queue_op = OpEnqueue 'a | OpPop | OpRemove 'a | OpIsEmpty

datatype 'a queue_obs = ObsNone | ObsPop "'a option" | ObsEmpty bool

fun queue_run :: "'a queue_op list \<Rightarrow> 'a ready_queue \<Rightarrow> 'a queue_obs list" where
  "queue_run [] q = []"
| "queue_run (OpEnqueue x # ops) q = ObsNone # queue_run ops (enqueue q x)"
| "queue_run (OpPop # ops) q = (let (r, q) = pop q in ObsPop r # queue_run ops q)"
| "queue_run (OpRemove x # ops) q = ObsNone # queue_run ops (remove q x)"
| "queue_run (OpIsEmpty # ops) q = ObsEmpty (is_empty q) # queue_run ops q"

fun list_run :: "'a queue_op list \<Rightarrow> 'a list \<Rightarrow> 'a queue_obs list" where
  "list_run [] xs = []"
| "list_run (OpEnqueue x # ops) xs = ObsNone # list_run ops (if x \<in> set xs then xs else xs @ [x])"
| "list_run (OpPop # ops) xs = (case xs of
     [] \<Rightarrow> ObsPop None # list_run ops []
   | x # xs \<Rightarrow> ObsPop (Some x) # list_run ops xs)"
| "list_run (OpRemove x # ops) xs = ObsNone # list_run ops (filter (\<lambda>y. y \<noteq> x) xs)"
| "list_run (OpIsEmpty # ops) xs = ObsEmpty (xs = []) # list_run ops xs"

lemma queue_run_list: "queue_ok q \<Longrightarrow> queue_run ops q = list_run ops (rq_queue q)"
proof (induction ops q rule: queue_run.induct)
  case (2 x ops q)
  then show ?case using ready.items_put [OF 2(2)] by (simp add: ready.put_ok)
next
  case (3 ops q)
  obtain r q' where p: "pop q = (r, q')" by fastforce
  then show ?case using 3 ready.items_take [OF p] ready.take_ok [OF 3(2) p] by (auto split: list.splits)
next
  case (4 x ops q)
  then show ?case by (simp add: ready.delete_ok ready.items_delete)
qed (simp_all add: is_empty_def)

text \<open>C38: The ready queue, a deque with a set of the queued values beside it, refines a list in which
  every value occurs at most once: from the empty queue, every sequence of enqueue, pop, remove and
  emptiness tests gives the results that the list gives.\<close>

theorem ready_queue_refines_list: "queue_run ops ready_queue_new = list_run ops []"
  using queue_run_list [of ready_queue_new ops] by simp

section \<open>The store\<close>

lemma queues_simps [simp]:
  "wo_queues (set_queue q r w) = (wo_queues w)(q := r)"
  "wo_queues (enqueue_in q t w) = (wo_queues w)(q := enqueue (wo_queues w q) t)"
  "wo_queues (snd (task_waker t q w)) = wo_queues w"
  "wo_queues (snd (scoped_task_waker t q c w)) = wo_queues w"
  by (simp_all add: set_queue_def enqueue_in_def task_waker_def scoped_task_waker_def)

lemma rest_simps [simp]:
  "wo_rest (set_queue q r w) = wo_rest w" "wo_rest (enqueue_in q t w) = wo_rest w"
  by (simp_all add: set_queue_def enqueue_in_def)

text \<open>Waking only adds to queues, and adds the task to the queue of its scheduler.\<close>

lemma wake_puts: "\<exists>ts. wo_queues (wake wk w) q = ready.puts ts (wo_queues w q)"
proof (induction wk w rule: wake.induct)
  case (1 i task r w)
  show ?case by (cases "q = r") (auto intro: exI [of _ "[task]"] exI [of _ "[]"])
next
  case (2 i task r c w)
  then obtain ts where t: "wo_queues (wake c (enqueue_in r task w)) q = ready.puts ts (wo_queues (enqueue_in r task w) q)" by blast
  show ?case by (cases "q = r") (use t in \<open>auto intro: exI [of _ "task # ts"]\<close>)
qed (auto intro: exI [of _ "[]"])

text \<open>What the code relies on: the queue is private, so a poll can only wake tasks of it.\<close>

definition only_wakes :: "queue_id \<Rightarrow> ('f, 'o, 'x) poll \<Rightarrow> bool" where
  "only_wakes q poll \<longleftrightarrow> (\<forall>f wk w r w'. poll f wk w = Some (r, w') \<longrightarrow>
     (\<exists>ts. wo_queues w' q = ready.puts ts (wo_queues w q)))"

lemma poll_as_wakes:
  assumes "only_wakes q poll" and "poll_as poll t p f w = Some (r, w')"
  shows "\<exists>ts. wo_queues w' q = ready.puts ts (wo_queues w q)"
proof -
  obtain w1 where "poll f (TaskWake (wo_next_waker w) t p None)
      (w\<lparr>wo_next_waker := wo_next_waker w + 1, wo_current_task := Some t\<rparr>) = Some (r, w1)" and "w' = w1\<lparr>wo_current_task := None\<rparr>"
    using assms(2) by (auto simp: poll_as_def task_waker_def opt_simps)
  then show ?thesis using assms(1) unfolding only_wakes_def by fastforce
qed

section \<open>Draining\<close>

text \<open>A run of \<open>drain\<close> as a transition system.  An event is the task that was polled and the queue that
  the poll left.\<close>

inductive drain_run :: "('f, unit, 'x) poll \<Rightarrow> 'f runtime \<Rightarrow> 'x world \<Rightarrow> (task_id \<times> task_id list) list \<Rightarrow>
    'f runtime \<Rightarrow> 'x world \<Rightarrow> bool" for poll where
  drained: "pop (wo_queues w (rt_ready rt)) = (None, q) \<Longrightarrow> drain_run poll rt w [] rt w"
| stale: "pop (wo_queues w (rt_ready rt)) = (Some t, q) \<Longrightarrow> rt_tasks rt t = None \<Longrightarrow>
    drain_run poll rt (set_queue (rt_ready rt) q w) evs rt' w' \<Longrightarrow> drain_run poll rt w evs rt' w'"
| finished: "pop (wo_queues w (rt_ready rt)) = (Some t, q) \<Longrightarrow> rt_tasks rt t = Some f \<Longrightarrow>
    poll_as poll t (rt_ready rt) f (set_queue (rt_ready rt) q w) = Some (Ready u, w1) \<Longrightarrow>
    drain_run poll (complete t rt) w1 evs rt' w' \<Longrightarrow>
    drain_run poll rt w ((t, rq_queue (wo_queues w1 (rt_ready rt))) # evs) rt' w'"
| suspended: "pop (wo_queues w (rt_ready rt)) = (Some t, q) \<Longrightarrow> rt_tasks rt t = Some f \<Longrightarrow>
    poll_as poll t (rt_ready rt) f (set_queue (rt_ready rt) q w) = Some (Pending f', w1) \<Longrightarrow>
    drain_run poll (rt\<lparr>rt_tasks := (rt_tasks rt)(t \<mapsto> f')\<rparr>) w1 evs rt' w' \<Longrightarrow>
    drain_run poll rt w ((t, rq_queue (wo_queues w1 (rt_ready rt))) # evs) rt' w'"

lemma drain_runs: "drain poll rt w = Some y \<Longrightarrow> \<exists>evs. drain_run poll rt w evs (fst y) (snd y)"
proof (induction rule: drain.raw_induct [rotated 1, consumes 1, case_names step])
  case (step drain poll rt w y)
  obtain r q where p: "pop (wo_queues w (rt_ready rt)) = (r, q)" by fastforce
  show ?case
  proof (cases r)
    case None
    then show ?thesis using step.hyps p drained by fastforce
  next
    case (Some t)
    show ?thesis
    proof (cases "rt_tasks rt t")
      case None
      then have "drain poll rt (set_queue (rt_ready rt) q w) = Some y" using step.hyps p Some by simp
      then show ?thesis using step.IH stale p Some None by fast
    next
      case t: (Some f)
      then obtain pr w1 where pr: "poll_as poll t (rt_ready rt) f (set_queue (rt_ready rt) q w) = Some (pr, w1)"
        and k: "(case pr of Ready _ \<Rightarrow> drain poll (complete t rt) w1
          | Pending f \<Rightarrow> drain poll (rt\<lparr>rt_tasks := (rt_tasks rt)(t \<mapsto> f)\<rparr>) w1) = Some y"
        using step.hyps p Some by (auto simp: opt_simps)
      show ?thesis
      proof (cases pr)
        case (Pending f')
        then obtain evs where "drain_run poll (rt\<lparr>rt_tasks := (rt_tasks rt)(t \<mapsto> f')\<rparr>) w1 evs (fst y) (snd y)"
          using step.IH [of poll "rt\<lparr>rt_tasks := (rt_tasks rt)(t \<mapsto> f')\<rparr>" w1 y] k by auto
        then show ?thesis using suspended [OF p [unfolded Some] t pr [unfolded Pending]] by blast
      next
        case (Ready u)
        then obtain evs where "drain_run poll (complete t rt) w1 evs (fst y) (snd y)"
          using step.IH [of poll "complete t rt" w1 y] k by auto
        then show ?thesis using finished [OF p [unfolded Some] t pr [unfolded Ready]] by blast
      qed
    qed
  qed
qed

text \<open>No wake-up is lost: a task that a poll leaves in the queue is polled later, unless it is gone.\<close>

fun no_lost_wakeup :: "task_id set \<Rightarrow> (task_id \<times> task_id list) list \<Rightarrow> bool" where
  "no_lost_wakeup live [] \<longleftrightarrow> True"
| "no_lost_wakeup live ((_, woken) # evs) \<longleftrightarrow> set woken \<inter> live \<subseteq> fst ` set evs \<and> no_lost_wakeup live evs"

lemma complete_simps [simp]: "rt_ready (complete t rt) = rt_ready rt" "rt_tasks (complete t rt) = (rt_tasks rt)(t := None)"
  by (simp_all add: complete_def)

lemma drain_run_facts:
  assumes "drain_run poll rt w evs rt' w'" and "only_wakes (rt_ready rt) poll" and "queue_ok (wo_queues w (rt_ready rt))"
  shows "rt_ready rt' = rt_ready rt \<and> dom (rt_tasks rt') \<subseteq> dom (rt_tasks rt) \<and> rq_queue (wo_queues w' (rt_ready rt)) = [] \<and>
    queue_ok (wo_queues w' (rt_ready rt)) \<and>
    set (rq_queue (wo_queues w (rt_ready rt))) \<inter> dom (rt_tasks rt') \<subseteq> fst ` set evs \<and>
    no_lost_wakeup (dom (rt_tasks rt')) evs"
  using assms
proof (induction rule: drain_run.induct)
  case (drained w rt q)
  then show ?case using ready.take_none [OF drained(1)] by simp
next
  case (stale w rt t q evs rt' w')
  have "queue_ok q" using ready.take_ok [OF stale(6,1)] .
  then show ?case using stale ready.take_some [OF stale(1)] by auto
next
  case (finished w rt t q f u w1 evs rt' w')
  have q: "queue_ok q" using ready.take_ok [OF finished(7,1)] .
  obtain ts where "wo_queues w1 (rt_ready rt) = ready.puts ts q"
    using poll_as_wakes [OF finished(6,3)] by auto
  then have w1: "queue_ok (wo_queues w1 (rt_ready rt))" "set (rq_queue q) \<subseteq> set (rq_queue (wo_queues w1 (rt_ready rt)))"
    using ready.puts_ok [OF q] ready.puts_set [OF q] by auto
  note IH = finished(5) [unfolded complete_simps, OF finished(6) w1(1)]
  then have "dom (rt_tasks rt') \<subseteq> dom (rt_tasks rt)" by (auto simp: subset_iff split: if_splits)
  then show ?case using IH w1 ready.take_some [OF finished(1)] by auto
next
  case (suspended w rt t q f f' w1 evs rt' w')
  have q: "queue_ok q" using ready.take_ok [OF suspended(7,1)] .
  obtain ts where "wo_queues w1 (rt_ready rt) = ready.puts ts q"
    using poll_as_wakes [OF suspended(6,3)] by auto
  then have w1: "queue_ok (wo_queues w1 (rt_ready rt))" "set (rq_queue q) \<subseteq> set (rq_queue (wo_queues w1 (rt_ready rt)))"
    using ready.puts_ok [OF q] ready.puts_set [OF q] by auto
  have IH: "rt_ready rt' = rt_ready rt" "dom (rt_tasks rt') \<subseteq> insert t (dom (rt_tasks rt))"
    "rq_queue (wo_queues w' (rt_ready rt)) = []" "queue_ok (wo_queues w' (rt_ready rt))"
    "set (rq_queue (wo_queues w1 (rt_ready rt))) \<inter> dom (rt_tasks rt') \<subseteq> fst ` set evs" "no_lost_wakeup (dom (rt_tasks rt')) evs"
    using suspended(5,6) w1(1) by (simp_all, auto simp: subset_iff split: if_splits)
  then have "dom (rt_tasks rt') \<subseteq> dom (rt_tasks rt)" using suspended(2) by auto
  then show ?case using IH w1 ready.take_some [OF suspended(1)] by auto
qed


lemma drain_polls_woken_core:
  assumes "drain poll rt w = Some (rt', w')" and "only_wakes (rt_ready rt) poll"
    and "queue_ok (wo_queues w (rt_ready rt))"
  shows "rq_queue (wo_queues w' (rt_ready rt)) = [] \<and> rt_ready rt' = rt_ready rt \<and>
    (\<exists>evs. drain_run poll rt w evs rt' w' \<and>
       set (rq_queue (wo_queues w (rt_ready rt))) \<inter> dom (rt_tasks rt') \<subseteq> fst ` set evs \<and>
       no_lost_wakeup (dom (rt_tasks rt')) evs)"
proof -
  obtain evs where r: "drain_run poll rt w evs rt' w'" using drain_runs [OF assms(1)] by auto
  show ?thesis using drain_run_facts [OF r assms(2,3)] r by blast
qed

text \<open>C33: Draining polls every task that is woken.  When \<open>drain\<close> returns, the ready queue is empty, and
  every task that was queued at the start, or that any poll left queued, was polled afterwards, except
  those that are no longer in the task table.\<close>

theorem drain_polls_woken:
  assumes "drain poll rt w = Some (rt', w')" and "only_wakes (rt_ready rt) poll"
    and "queue_ok (wo_queues w (rt_ready rt))"
  shows "rq_queue (wo_queues w' (rt_ready rt)) = [] \<and>
    (\<exists>evs. drain_run poll rt w evs rt' w' \<and>
       set (rq_queue (wo_queues w (rt_ready rt))) \<inter> dom (rt_tasks rt') \<subseteq> fst ` set evs \<and>
       no_lost_wakeup (dom (rt_tasks rt')) evs)"
  using drain_polls_woken_core [OF assms] by blast

text \<open>A future that yields as long as the shared budget lasts.\<close>

definition yield_poll :: "(unit, unit, nat) poll" where
  "yield_poll f wk w = Some (if wo_rest w = 0 then (Ready (), w)
     else (Pending f, wake wk (w\<lparr>wo_rest := wo_rest w - 1\<rparr>)))"

definition sample_world :: "nat \<Rightarrow> nat world" where
  "sample_world n = \<lparr>wo_queues = (\<lambda>_. ready_queue_new), wo_next_queue = 0, wo_next_waker = 0,
     wo_current_task = None, wo_notified = [], wo_rest = n\<rparr>"

lemma queue_update [simp]:
  "wo_queues (w\<lparr>wo_rest := x\<rparr>) = wo_queues w" "wo_queues (w\<lparr>wo_current_task := y\<rparr>) = wo_queues w"
  "wo_queues (w\<lparr>wo_next_waker := z\<rparr>) = wo_queues w"
  by simp_all

lemma yield_only_wakes: "only_wakes q yield_poll"
  unfolding only_wakes_def
proof (intro allI impI)
  fix f wk w r w' assume p: "yield_poll f wk w = Some (r, w')"
  show "\<exists>ts. wo_queues w' q = ready.puts ts (wo_queues w q)"
  proof (cases "wo_rest w = 0")
    case True
    then show ?thesis using p by (auto simp: yield_poll_def intro: exI [of _ "[]"])
  next
    case False
    then show ?thesis using p wake_puts [of wk "w\<lparr>wo_rest := wo_rest w - 1\<rparr>" q] by (auto simp: yield_poll_def)
  qed
qed

definition sample_runtime :: "unit runtime" where
  "sample_runtime = \<lparr>rt_next_id = 2, rt_ready = 0, rt_tasks = [0 \<mapsto> (), 1 \<mapsto> ()], rt_waiting = Map.empty\<rparr>"

definition sample_start :: "nat world" where
  "sample_start = enqueue_in 0 1 (enqueue_in 0 0 (sample_world 1))"

lemma sample_queue: "queue_ok (wo_queues sample_start 0)" "rq_queue (wo_queues sample_start 0) = [0, 1]"
  by (auto simp: sample_start_def sample_world_def queue_ok_def enqueue_def ready_queue_new_def)

lemma sample_drain: "\<exists>rt' w'. drain yield_poll sample_runtime sample_start = Some (rt', w') \<and> rt_tasks rt' = Map.empty"
  by (simp add: drain.simps sample_runtime_def sample_start_def sample_world_def yield_poll_def pop_def enqueue_def
      ready_queue_new_def set_queue_def enqueue_in_def poll_as_def task_waker_def complete_def)

theorem drain_polls_woken_witness:
  "\<exists>rt' w' evs. drain yield_poll sample_runtime sample_start = Some (rt', w') \<and>
     drain_run yield_poll sample_runtime sample_start evs rt' w' \<and> rq_queue (wo_queues w' 0) = []"
proof -
  obtain rt' w' where d: "drain yield_poll sample_runtime sample_start = Some (rt', w')" using sample_drain by blast
  have "rt_ready sample_runtime = 0" by (simp add: sample_runtime_def)
  then show ?thesis using drain_polls_woken [OF d] yield_only_wakes sample_queue d by auto
qed

section \<open>Draining returns\<close>

definition load :: "('x \<Rightarrow> nat) \<Rightarrow> queue_id list \<Rightarrow> 'x world \<Rightarrow> nat" where
  "load m Q w = m (wo_rest w) + sum_list (map (\<lambda>q. length (rq_queue (wo_queues w q))) Q)"

definition budgeted :: "('x \<Rightarrow> nat) \<Rightarrow> queue_id list \<Rightarrow> queue_id \<Rightarrow> waker option \<Rightarrow> ('f, 'o, 'x) poll \<Rightarrow> bool" where
  "budgeted m Q q co poll \<longleftrightarrow> (\<forall>f i t w. \<exists>r w'. poll f (TaskWake i t q co) w = Some (r, w') \<and> load m Q w' \<le> load m Q w)"

lemma load_pop:
  assumes "pop (wo_queues w q) = (Some t, r)" and "q \<in> set Q" and "distinct Q"
  shows "Suc (load m Q (set_queue q r w)) = load m Q w"
proof -
  obtain A B where Q: "Q = A @ q # B" "q \<notin> set A" "q \<notin> set B" using assms(2,3) by (metis distinct_append distinct.simps(2) disjoint_insert(2) list.simps(15) split_list)
  have "sum_list (map (\<lambda>p. length (rq_queue (if p = q then r else wo_queues w p))) C) =
      sum_list (map (\<lambda>p. length (rq_queue (wo_queues w p))) C)"
    if "q \<notin> set C" for C using that by (intro arg_cong [of _ _ sum_list] map_cong) auto
  then show ?thesis using Q ready.take_some [OF assms(1)] by (simp add: load_def)
qed

lemma load_simps [simp]: "load m Q (w\<lparr>wo_current_task := x\<rparr>) = load m Q w" "load m Q (w\<lparr>wo_next_waker := y\<rparr>) = load m Q w"
  by (simp_all add: load_def)

lemma poll_as_returns:
  assumes "budgeted m Q q None poll"
  shows "\<exists>r w'. poll_as poll t q f w = Some (r, w') \<and> load m Q w' \<le> load m Q w"
proof -
  let ?w = "w\<lparr>wo_next_waker := wo_next_waker w + 1, wo_current_task := Some t\<rparr>"
  obtain r w' where "poll f (TaskWake (wo_next_waker w) t q None) ?w = Some (r, w')" "load m Q w' \<le> load m Q ?w"
    using assms unfolding budgeted_def by blast
  then show ?thesis by (auto simp: poll_as_def task_waker_def)
qed

lemma drain_load:
  assumes "budgeted m Q (rt_ready rt) None poll" and "rt_ready rt \<in> set Q" and "distinct Q"
  shows "\<exists>rt' w'. drain poll rt w = Some (rt', w') \<and> load m Q w' \<le> load m Q w \<and> rt_ready rt' = rt_ready rt \<and>
    rq_queue (wo_queues w' (rt_ready rt)) = []"
  using assms
proof (induction "load m Q w" arbitrary: rt w rule: less_induct)
  case less
  obtain r q where p: "pop (wo_queues w (rt_ready rt)) = (r, q)" by fastforce
  show ?case
  proof (cases r)
    case None
    then show ?thesis using p ready.take_none by (subst drain.simps) auto
  next
    case (Some t)
    let ?w = "set_queue (rt_ready rt) q w"
    have l: "load m Q ?w < load m Q w" using load_pop [of w "rt_ready rt" t q Q m] p Some less.prems by simp
    show ?thesis
    proof (cases "rt_tasks rt t")
      case None
      then show ?thesis using less.hyps [OF l less.prems] p Some l by (subst drain.simps) force
    next
      case t: (Some f)
      obtain pr w1 where pr: "poll_as poll t (rt_ready rt) f ?w = Some (pr, w1)" "load m Q w1 \<le> load m Q ?w"
        using poll_as_returns [OF less.prems(1)] by blast
      define rt1 where "rt1 = (case pr of Ready _ \<Rightarrow> complete t rt | Pending f \<Rightarrow> rt\<lparr>rt_tasks := (rt_tasks rt)(t \<mapsto> f)\<rparr>)"
      have r1: "rt_ready rt1 = rt_ready rt" by (simp add: rt1_def split: poll_result.split)
      have "drain poll rt w = drain poll rt1 w1" using p Some t pr by (subst drain.simps) (simp add: rt1_def split: poll_result.split)
      moreover have l1: "load m Q w1 < load m Q w" using pr l by simp
      obtain rt' w' where "drain poll rt1 w1 = Some (rt', w')" "load m Q w' \<le> load m Q w1"
        "rt_ready rt' = rt_ready rt" "rq_queue (wo_queues w' (rt_ready rt)) = []"
        using less.hyps [OF l1, of rt1] less.prems r1 by auto
      ultimately show ?thesis using l1 by auto
    qed
  qed
qed

text \<open>C35: Draining returns, without a panic, when every poll returns and pays for the wake-ups it makes:
  each one lowers a budget of the shared state by as much as it grows the ready queue.\<close>

theorem drain_returns:
  assumes "budgeted m [rt_ready rt] (rt_ready rt) None poll"
  shows "\<exists>rt' w'. drain poll rt w = Some (rt', w') \<and> rq_queue (wo_queues w' (rt_ready rt)) = [] \<and>
    m (wo_rest w') \<le> m (wo_rest w) + length (rq_queue (wo_queues w (rt_ready rt)))"
  using drain_load [OF assms, of w] by (auto simp: load_def)

lemma enqueue_length: "length (rq_queue (enqueue q x)) \<le> Suc (length (rq_queue q))"
  by (simp add: enqueue_def)

lemma load_enqueue: "distinct Q \<Longrightarrow> load m Q (enqueue_in q t w) \<le> Suc (load m Q w)"
proof (induction Q)
  case (Cons p Q)
  have e: "load m (p # Q) u = length (rq_queue (wo_queues u p)) + load m Q u" for u :: "'a world" by (simp add: load_def)
  show ?case
  proof (cases "p = q")
    case True
    then have "sum_list (map (\<lambda>x. length (rq_queue (if x = q then enqueue (wo_queues w q) t else wo_queues w x))) Q) =
        sum_list (map (\<lambda>x. length (rq_queue (wo_queues w x))) Q)"
      using Cons.prems by (intro arg_cong [of _ _ sum_list] map_cong) auto
    then show ?thesis using True enqueue_length [of "wo_queues w q" t] by (simp add: load_def)
  next
    case False
    then show ?thesis using Cons by (simp add: e)
  qed
qed (simp add: load_def)

lemma yield_budgeted: "distinct Q \<Longrightarrow> budgeted (\<lambda>n. n) Q q None yield_poll"
  unfolding budgeted_def
proof (intro allI)
  fix f :: unit and i t and w :: "nat world" assume Q: "distinct Q"
  have "load (\<lambda>n. n) Q (enqueue_in q t (w\<lparr>wo_rest := wo_rest w - 1\<rparr>)) \<le> load (\<lambda>n. n) Q w" if "wo_rest w > 0"
    using load_enqueue [OF Q, of "\<lambda>n. n" q t "w\<lparr>wo_rest := wo_rest w - 1\<rparr>"] that by (simp add: load_def)
  then show "\<exists>r w'. yield_poll f (TaskWake i t q None) w = Some (r, w') \<and> load (\<lambda>n. n) Q w' \<le> load (\<lambda>n. n) Q w"
    by (auto simp: yield_poll_def)
qed

theorem drain_returns_witness:
  "\<exists>rt' w'. drain yield_poll sample_runtime sample_start = Some (rt', w') \<and> wo_rest w' \<le> 3"
proof -
  have r: "rt_ready sample_runtime = 0" by (simp add: sample_runtime_def)
  have "wo_rest sample_start = 1" by (simp add: sample_start_def sample_world_def)
  then show ?thesis
    using drain_returns [of "\<lambda>n. n" sample_runtime yield_poll sample_start] yield_budgeted [of "[0]" 0] sample_queue r by auto
qed

end
