(* ===== verification/RuntimeProps.thy ===== *)
theory RuntimeProps
  imports RuntimeCorrect
begin

text \<open>
  Waiting on inference variables, running a main future to completion, and sets of scoped tasks.
\<close>

section \<open>Waiting on a variable\<close>

lemma wake_task_queued:
  assumes "\<forall>q. queue_ok (wo_queues w q)"
  shows "wk_task wk \<in> set (rq_queue (wo_queues (wake wk w) (wk_ready wk))) \<or> (\<exists>n. wk = OtherWaker n)"
    and "\<forall>q. queue_ok (wo_queues (wake wk w) q)"
    and "set (rq_queue (wo_queues w q)) \<subseteq> set (rq_queue (wo_queues (wake wk w) q))"
proof -
  have p: "\<exists>ts. wo_queues (wake v u) q = ready.puts ts (wo_queues u q)" for v and u :: "'a world" and q by (rule wake_puts)
  show "\<forall>q. queue_ok (wo_queues (wake wk w) q)" using p [of wk w] ready.puts_ok assms by metis
  show "set (rq_queue (wo_queues w q)) \<subseteq> set (rq_queue (wo_queues (wake wk w) q))"
    using p [of wk w q] ready.puts_set assms by (metis Un_upper1)
  show "wk_task wk \<in> set (rq_queue (wo_queues (wake wk w) (wk_ready wk))) \<or> (\<exists>n. wk = OtherWaker n)"
  proof (cases wk)
    case (TaskWake i t q co)
    have q: "queue_ok (wo_queues (enqueue_in q t w) q)" "t \<in> set (rq_queue (wo_queues (enqueue_in q t w) q))"
      using assms ready.put_ok [of "wo_queues w q" t] ready.items_put [of "wo_queues w q" t] by (auto split: if_splits)
    show ?thesis
    proof (cases co)
      case None
      then show ?thesis using q TaskWake by simp
    next
      case (Some c)
      obtain ts where "wo_queues (wake c (enqueue_in q t w)) q = ready.puts ts (wo_queues (enqueue_in q t w) q)" using p by blast
      then show ?thesis using q(2) ready.puts_set [OF q(1)] TaskWake Some by simp
    qed
  qed simp
qed

lemma wake_waiters_queued:
  assumes "\<forall>q. queue_ok (wo_queues w q)"
  shows "(\<forall>q. queue_ok (wo_queues (wake_waiters ws w) q)) \<and>
    (\<forall>q. set (rq_queue (wo_queues w q)) \<subseteq> set (rq_queue (wo_queues (wake_waiters ws w) q))) \<and>
    (\<forall>t i u q co. (t, TaskWake i u q co) \<in> set ws \<longrightarrow> u \<in> set (rq_queue (wo_queues (wake_waiters ws w) q)))"
  using assms
proof (induction ws arbitrary: w)
  case (Cons x ws)
  obtain t wk where x: "x = (t, wk)" by (cases x)
  have s: "wake_waiters (x # ws) w = wake_waiters ws (wake wk w)" by (simp add: wake_waiters_def x)
  note IH = Cons.IH [OF wake_task_queued(2) [OF Cons.prems, of wk]]
  show ?case
  proof (intro conjI allI impI)
    fix q show "queue_ok (wo_queues (wake_waiters (x # ws) w) q)" using IH s by simp
    show "set (rq_queue (wo_queues w q)) \<subseteq> set (rq_queue (wo_queues (wake_waiters (x # ws) w) q))"
      using IH s wake_task_queued(3) [OF Cons.prems, of q wk] by fastforce
  next
    fix t' i u q co assume "(t', TaskWake i u q co) \<in> set (x # ws)"
    then show "u \<in> set (rq_queue (wo_queues (wake_waiters (x # ws) w) q))"
      using IH s x wake_task_queued(1) [OF Cons.prems, of wk] by fastforce
  qed
qed (simp add: wake_waiters_def)

text \<open>C34: A task that waits on a variable is not forgotten.  After it registers its waker, waking the
  variable and draining the queue polls it, unless it is no longer in the task table.  (Equal \<open>Arc\<close>
  identities are the same waker.)\<close>

theorem woken_waiter_polled:
  fixes w w1 :: "'x world"
  assumes "\<forall>q. queue_ok (wo_queues w q)"
    and "\<forall>ws. rt_waiting rt var = Some ws \<longrightarrow> (\<forall>(s, wk) \<in> set ws. wk_identity wk = i \<longrightarrow> wk = TaskWake i t (rt_ready rt) co)"
    and "wake_variable var (wait_on var t (TaskWake i t (rt_ready rt) co) rt) w = (rt1, w1)"
    and "only_wakes (rt_ready rt) poll" and "drain poll rt1 w1 = Some (rt2, w2)"
  shows "rt_waiting rt1 var = None \<and> (rt_tasks rt2 t = None \<or> (\<exists>evs. drain_run poll rt1 w1 evs rt2 w2 \<and> t \<in> fst ` set evs))"
proof -
  let ?wk = "TaskWake i t (rt_ready rt) co"
  let ?rt = "wait_on var t ?wk rt"
  obtain ws where ws: "rt_waiting ?rt var = Some ws" and m: "\<exists>s. (s, ?wk) \<in> set ws"
  proof (cases "rt_waiting rt var")
    case None
    then show ?thesis using that by (simp add: wait_on_def)
  next
    case (Some vs)
    show ?thesis
    proof (cases "\<exists>(s, wk) \<in> set vs. s = t \<and> will_wake wk ?wk")
      case True
      then obtain wk where "(t, wk) \<in> set vs" "wk_identity wk = i" by (auto simp: will_wake_def)
      then have "(t, ?wk) \<in> set vs" using assms(2) Some by fastforce
      then show ?thesis using that Some True by (auto simp: wait_on_def)
    next
      case False
      then have "rt_waiting ?rt var = Some (vs @ [(t, ?wk)])" using Some by (auto simp: wait_on_def)
      then show ?thesis using that by auto
    qed
  qed
  have r: "rt_ready ?rt = rt_ready rt" by (simp add: wait_on_def Let_def)
  then have rt1: "rt_waiting rt1 var = None" "rt_ready rt1 = rt_ready rt" and w1: "w1 = wake_waiters ws w"
    using assms(3) ws by (auto simp: wake_variable_def)
  have "t \<in> set (rq_queue (wo_queues w1 (rt_ready rt)))" "queue_ok (wo_queues w1 (rt_ready rt))"
    using wake_waiters_queued [OF assms(1), of ws] m w1 by blast+
  then show ?thesis using drain_polls_woken_core [OF assms(5)] assms(4) rt1 by auto
qed


theorem woken_waiter_polled_witness:
  "\<exists>rt1 w1 rt2 w2. wake_variable 5 (wait_on 5 1 (TaskWake 9 1 0 None) sample_runtime) (sample_world 1) = (rt1, w1) \<and>
     drain yield_poll rt1 w1 = Some (rt2, w2) \<and>
     (rt_tasks rt2 1 = None \<or> (\<exists>evs. drain_run yield_poll rt1 w1 evs rt2 w2 \<and> 1 \<in> fst ` set evs))"
proof -
  obtain rt1 and w1 :: "nat world" where
    k: "wake_variable 5 (wait_on 5 1 (TaskWake 9 1 0 None) sample_runtime) (sample_world 1) = (rt1, w1)" by fastforce
  have r: "rt_ready sample_runtime = 0" "rt_waiting sample_runtime 5 = None" by (simp_all add: sample_runtime_def)
  obtain rt2 w2 where d: "drain yield_poll rt1 w1 = Some (rt2, w2)"
    using drain_load [of "\<lambda>n. n" "[rt_ready rt1]" rt1 yield_poll w1] yield_budgeted [of "[rt_ready rt1]"] by auto
  have "\<forall>q. queue_ok (wo_queues (sample_world 1) q)" by (simp add: sample_world_def)
  from woken_waiter_polled [OF this, of sample_runtime 5 9 1 None rt1 w1 yield_poll rt2 w2] r k d yield_only_wakes
  show ?thesis by auto
qed

section \<open>Running a future to completion\<close>

lemma block_loop_returns:
  assumes "budgeted m [rt_ready rt, mq] (rt_ready rt) None poll" and "budgeted m [rt_ready rt, mq] mq None poll_main"
    and "rt_ready rt \<noteq> mq"
  shows "rq_queue (wo_queues w mq) \<noteq> [] \<Longrightarrow> \<exists>b rt' w'. block_loop poll poll_main main mq future rt w = Some (b, rt', w') \<and>
    rq_queue (wo_queues w' (rt_ready rt)) = [] \<and> (b = Deadlock \<longrightarrow> rq_queue (wo_queues w' mq) = [])"
  using assms
proof (induction "load m [rt_ready rt, mq] w" arbitrary: rt w future rule: less_induct)
  case less
  let ?Q = "[rt_ready rt, mq]"
  obtain t q where p: "pop (wo_queues w mq) = (Some t, q)" using ready.not_stuck [OF less.prems(1)] by blast
  have l: "load m ?Q (set_queue mq q w) < load m ?Q w" using load_pop [OF p, of ?Q m] less.prems by simp
  obtain r w1 where r: "poll_as poll_main main mq future (set_queue mq q w) = Some (r, w1)" "load m ?Q w1 \<le> load m ?Q (set_queue mq q w)"
    using poll_as_returns [OF less.prems(3)] by blast
  obtain rt2 w2 where d: "drain poll rt w1 = Some (rt2, w2)" "load m ?Q w2 \<le> load m ?Q w1" "rt_ready rt2 = rt_ready rt"
    "rq_queue (wo_queues w2 (rt_ready rt)) = []"
    using drain_load [OF less.prems(2), of w1] less.prems(4) by auto
  show ?case
  proof (cases r)
    case (Ready out)
    then have "block_loop poll poll_main main mq future rt w = Some (Returned out, rt2, w2)"
      using p r(1) d(1) by (subst block_loop.simps) simp
    then show ?thesis using d by auto
  next
    case (Pending f)
    show ?thesis
    proof (cases "rq_queue (wo_queues w2 mq) = []")
      case True
      then have "block_loop poll poll_main main mq future rt w = Some (Deadlock, rt2, w2)"
        using p r(1) d Pending by (subst block_loop.simps) (simp add: is_empty_def)
      then show ?thesis using d True by auto
    next
      case False
      have e: "block_loop poll poll_main main mq future rt w = block_loop poll poll_main main mq f rt2 w2"
        using p r(1) d Pending False by (subst block_loop.simps) (simp add: is_empty_def)
      have "load m [rt_ready rt2, mq] w2 < load m ?Q w" using l r(2) d(2,3) by simp
      from less.hyps [OF this False, of f] less.prems d(3) show ?thesis by (simp add: e)
    qed
  qed
qed

text \<open>C36: Blocking on a future returns when the polls of the main future and of the background tasks pay
  for their wake-ups: it ends with the output or with the deadlock report, the ready queue empty, and
  it reports a deadlock only when the main future has no wake-up left either.\<close>

theorem block_on_returns:
  assumes "rt_ready rt < wo_next_queue w" and "rt_next_id rt + 1 < 2 ^ 32"
    and "budgeted m [rt_ready rt, wo_next_queue w] (rt_ready rt) None poll"
    and "budgeted m [rt_ready rt, wo_next_queue w] (wo_next_queue w) None poll_main"
  shows "\<exists>b rt' w'. block_on poll poll_main future rt w = Some (b, rt', w') \<and>
    rq_queue (wo_queues w' (rt_ready rt)) = [] \<and> (b = Deadlock \<longrightarrow> rq_queue (wo_queues w' (wo_next_queue w)) = [])"
proof -
  let ?q = "wo_next_queue w" and ?rt = "rt\<lparr>rt_next_id := rt_next_id rt + 1\<rparr>"
  let ?w = "enqueue_in ?q (rt_next_id rt) (set_queue ?q ready_queue_new (w\<lparr>wo_next_queue := ?q + 1\<rparr>))"
  have "rq_queue (wo_queues ?w ?q) \<noteq> []" by (simp add: enqueue_def ready_queue_new_def)
  from block_loop_returns [of m ?rt ?q poll poll_main ?w "rt_next_id rt" future, OF _ _ _ this] assms
  show ?thesis by (simp add: block_on_def alloc_task_id_def new_queue_def Let_def)
qed

theorem block_on_returns_witness:
  "\<exists>b rt' w'. block_on yield_poll yield_poll () sample_runtime (sample_start\<lparr>wo_next_queue := 1\<rparr>) = Some (b, rt', w')"
proof -
  have "rt_ready sample_runtime = 0" "rt_next_id sample_runtime = 2" by (simp_all add: sample_runtime_def)
  then show ?thesis
    using block_on_returns [of sample_runtime "sample_start\<lparr>wo_next_queue := 1\<rparr>" "\<lambda>n. n" yield_poll yield_poll "()"]
      yield_budgeted [of "[0, 1]"] by auto
qed

end
