(* ===== verification/ScopedTasks.thy ===== *)
theory ScopedTasks
  imports RuntimeCorrect
begin

text \<open>
  \<open>ScopedTasks\<close>: the invariant of a set of joinable futures, kept by every operation, and what a poll
  of the set returns.
\<close>

definition live_count :: "'f option list \<Rightarrow> nat" where
  "live_count ts = length (filter (\<lambda>t. t \<noteq> None) ts)"

definition scoped_ok :: "'f scoped_tasks \<Rightarrow> 'x world \<Rightarrow> bool" where
  "scoped_ok sc w \<longleftrightarrow> sc_live sc = live_count (sc_tasks sc) \<and> queue_ok (wo_queues w (sc_ready sc)) \<and>
     set (rq_queue (wo_queues w (sc_ready sc))) \<subseteq> {..<length (sc_tasks sc)}"

text \<open>What the code relies on: polling a task of the set can add only tasks of the set to its queue,
  because the wakers of the queue carry their identifiers.\<close>

definition wakes_below :: "nat \<Rightarrow> queue_id \<Rightarrow> waker \<Rightarrow> ('f, 'o, 'x) poll \<Rightarrow> bool" where
  "wakes_below n q ctx poll \<longleftrightarrow> (\<forall>f i t w r w'. t < n \<longrightarrow> poll f (TaskWake i t q (Some ctx)) w = Some (r, w') \<longrightarrow>
     (\<exists>ts. set ts \<subseteq> {..<n} \<and> wo_queues w' q = ready.puts ts (wo_queues w q)))"

lemma live_count_update:
  "i < length ts \<Longrightarrow> ts ! i \<noteq> None \<Longrightarrow> live_count (ts[i := None]) = live_count ts - 1 \<and> 0 < live_count ts"
proof (induction ts arbitrary: i)
  case (Cons t ts)
  then show ?case by (cases i) (auto simp: live_count_def)
qed simp

lemma live_count_resume: "i < length ts \<Longrightarrow> ts ! i \<noteq> None \<Longrightarrow> live_count (ts[i := Some f]) = live_count ts"
proof (induction ts arbitrary: i)
  case (Cons t ts)
  then show ?case by (cases i) (auto simp: live_count_def)
qed simp

lemma live_count_zero: "live_count ts = 0 \<longleftrightarrow> (\<forall>t \<in> set ts. t = None)"
  by (auto simp: live_count_def filter_empty_conv)

text \<open>What one call of \<open>poll_next\<close> may change.\<close>

definition next_result :: "'o next_poll \<Rightarrow> 'f scoped_tasks \<Rightarrow> 'f scoped_tasks \<Rightarrow> 'x world \<Rightarrow> bool" where
  "next_result r sc sc' w' \<longleftrightarrow> sc_ready sc' = sc_ready sc \<and> length (sc_tasks sc') = length (sc_tasks sc) \<and> (case r of
     NextPending \<Rightarrow> 0 < sc_live sc' \<and> sc_live sc' = sc_live sc \<and> rq_queue (wo_queues w' (sc_ready sc)) = []
   | NextReady None \<Rightarrow> sc_live sc' = 0 \<and> sc_live sc = 0 \<and> rq_queue (wo_queues w' (sc_ready sc)) = []
   | NextReady (Some (t, _)) \<Rightarrow> t < length (sc_tasks sc) \<and> sc_tasks sc ! t \<noteq> None \<and> sc_tasks sc' ! t = None \<and>
       sc_live sc = Suc (sc_live sc'))"

lemma scoped_step_ok:
  assumes ok: "scoped_ok sc w" and p: "pop (wo_queues w (sc_ready sc)) = (Some t, q)"
  shows "t < length (sc_tasks sc)" and "queue_ok q" and "set (rq_queue q) \<subseteq> {..<length (sc_tasks sc)}"
    and "scoped_ok sc (set_queue (sc_ready sc) q w)"
  using ok ready.take_some [OF p] ready.take_ok [OF _ p] by (auto simp: scoped_ok_def)

lemma scoped_poll_ok:
  assumes "scoped_ok sc w" and "wakes_below (length (sc_tasks sc)) (sc_ready sc) context poll"
    and "poll f (TaskWake i t (sc_ready sc) (Some context)) u = Some (r, w')" and "t < length (sc_tasks sc)" and "wo_queues u = wo_queues w"
    and "length ts = length (sc_tasks sc)" and "n = live_count ts"
  shows "scoped_ok (sc\<lparr>sc_tasks := ts, sc_live := n\<rparr>) w'"
proof -
  obtain ws where "set ws \<subseteq> {..<length (sc_tasks sc)}" "wo_queues w' (sc_ready sc) = ready.puts ws (wo_queues w (sc_ready sc))"
    using assms(2-5) unfolding wakes_below_def by metis
  then show ?thesis using assms ready.puts_ok ready.puts_set [of "wo_queues w (sc_ready sc)" ws] by (auto simp: scoped_ok_def)
qed

lemma poll_next_ok:
  "poll_next poll context sc w = Some y \<Longrightarrow> scoped_ok sc w \<Longrightarrow> wakes_below (length (sc_tasks sc)) (sc_ready sc) context poll \<Longrightarrow>
     scoped_ok (fst (snd y)) (snd (snd y)) \<and> next_result (fst y) sc (fst (snd y)) (snd (snd y))"
proof (induction rule: poll_next.raw_induct [rotated 1, consumes 1, case_names step])
  case (step again poll "context" sc w y)
  obtain o' q where p: "pop (wo_queues w (sc_ready sc)) = (o', q)" by fastforce
  show ?case
  proof (cases o')
    case None
    then show ?thesis using step.hyps step.prems p ready.take_none [of "wo_queues w (sc_ready sc)" q]
      by (auto simp: next_result_def split: if_splits)
  next
    case (Some t)
    note s = scoped_step_ok [OF step.prems(1) p [unfolded Some]]
    let ?w = "set_queue (sc_ready sc) q w"
    show ?thesis
    proof (cases "sc_tasks sc ! t")
      case None
      then have "again poll context sc ?w = Some y" using step.hyps p Some s(1) by (simp add: opt_simps)
      from step.IH [OF this s(4) step.prems(2)] show ?thesis .
    next
      case f: (Some f)
      let ?u = "?w\<lparr>wo_next_waker := wo_next_waker ?w + 1\<rparr>" and ?wk = "TaskWake (wo_next_waker ?w) t (sc_ready sc) (Some context)"
      obtain r w1 where r: "poll f ?wk ?u = Some (r, w1)"
        and k: "(case r of
          Ready output \<Rightarrow> do { check (0 < sc_live sc); Some (NextReady (Some (t, output)),
             sc\<lparr>sc_tasks := (sc_tasks sc)[t := None], sc_live := sc_live sc - 1\<rparr>, w1) }
        | Pending future \<Rightarrow> again poll context (sc\<lparr>sc_tasks := (sc_tasks sc)[t := Some future]\<rparr>) w1) = Some y"
        using step.hyps p Some s(1) f by (auto simp: scoped_task_waker_def Let_def opt_simps)
      note sp = scoped_poll_ok [OF s(4) step.prems(2) r s(1) queue_update(3)]
      have lc: "sc_live sc = live_count (sc_tasks sc)" using step.prems(1) by (simp add: scoped_ok_def)
      show ?thesis
      proof (cases r)
        case (Ready out)
        then have y: "y = (NextReady (Some (t, out)), sc\<lparr>sc_tasks := (sc_tasks sc)[t := None], sc_live := sc_live sc - 1\<rparr>, w1)"
          using k by (auto simp: opt_simps)
        show ?thesis using sp [of "(sc_tasks sc)[t := None]" "sc_live sc - 1"] live_count_update [OF s(1)] f lc s(1)
          by (auto simp: y next_result_def)
      next
        case (Pending g)
        let ?sc = "sc\<lparr>sc_tasks := (sc_tasks sc)[t := Some g]\<rparr>"
        have l: "sc_live sc = live_count ((sc_tasks sc)[t := Some g])" using live_count_resume [OF s(1)] f lc by simp
        have "scoped_ok ?sc w1" using sp [of "(sc_tasks sc)[t := Some g]" "sc_live sc"] l by (simp add: scoped_ok_def)
        from step.IH [OF _ this] k Pending step.prems(2)
        have "scoped_ok (fst (snd y)) (snd (snd y)) \<and> next_result (fst y) ?sc (fst (snd y)) (snd (snd y))" by simp
        moreover have "((sc_tasks sc)[t := Some g]) ! i \<noteq> None \<longrightarrow> sc_tasks sc ! i \<noteq> None" for i
          using f s(1) by (cases "i = t") auto
        ultimately show ?thesis by (auto simp: next_result_def split: next_poll.splits option.splits)
      qed
    qed
  qed
qed

lemma poll_next_budget:
  assumes "budgeted m [sc_ready sc] (sc_ready sc) (Some context) poll"
    and "wakes_below (length (sc_tasks sc)) (sc_ready sc) context poll"
  shows "scoped_ok sc w \<Longrightarrow> \<exists>y. poll_next poll context sc w = Some y"
  using assms
proof (induction "load m [sc_ready sc] w" arbitrary: sc w rule: less_induct)
  case less
  obtain o' q where p: "pop (wo_queues w (sc_ready sc)) = (o', q)" by fastforce
  show ?case
  proof (cases o')
    case None
    then show ?thesis using p by (subst poll_next.simps) simp
  next
    case (Some t)
    let ?w = "set_queue (sc_ready sc) q w"
    note s = scoped_step_ok [OF less.prems(1) p [unfolded Some]]
    have l: "load m [sc_ready sc] ?w < load m [sc_ready sc] w" using load_pop [of w "sc_ready sc" t q "[sc_ready sc]" m] p Some by simp
    show ?thesis
    proof (cases "sc_tasks sc ! t")
      case None
      have "poll_next poll context sc w = poll_next poll context sc ?w"
        using p Some s(1) None by (subst poll_next.simps) simp
      then show ?thesis using less.hyps [OF l s(4) less.prems(2,3)] by simp
    next
      case f: (Some f)
      let ?u = "?w\<lparr>wo_next_waker := wo_next_waker ?w + 1\<rparr>" and ?wk = "TaskWake (wo_next_waker ?w) t (sc_ready sc) (Some context)"
      obtain r w1 where r: "poll f ?wk ?u = Some (r, w1)" "load m [sc_ready sc] w1 \<le> load m [sc_ready sc] ?u"
        using less.prems(2) unfolding budgeted_def by blast
      note sp = scoped_poll_ok [OF s(4) less.prems(3) r(1) s(1) queue_update(3)]
      have lc: "sc_live sc = live_count (sc_tasks sc)" using less.prems(1) by (simp add: scoped_ok_def)
      show ?thesis
      proof (cases r)
        case (Ready out)
        then show ?thesis using p Some s(1) f r live_count_update [OF s(1)] lc
          by (subst poll_next.simps) (simp add: scoped_task_waker_def)
      next
        case (Pending g)
        let ?sc = "sc\<lparr>sc_tasks := (sc_tasks sc)[t := Some g]\<rparr>"
        have "sc_live sc = live_count ((sc_tasks sc)[t := Some g])" using live_count_resume [OF s(1)] f lc by simp
        then have ok: "scoped_ok ?sc w1" using sp [of "(sc_tasks sc)[t := Some g]" "sc_live sc"] by (simp add: scoped_ok_def)
        have "load m [sc_ready ?sc] w1 < load m [sc_ready sc] w" using l r(2) by simp
        from less.hyps [OF this ok] less.prems have "\<exists>y. poll_next poll context ?sc w1 = Some y" by simp
        moreover have "poll_next poll context sc w = poll_next poll context ?sc w1"
          using p Some s(1) f r Pending by (subst poll_next.simps) (simp add: scoped_task_waker_def)
        ultimately show ?thesis by simp
      qed
    qed
  qed
qed

text \<open>The set as a state machine: it is created, tasks are spawned, it is polled or cancelled, and between
  these calls other code may wake its tasks or change anything else.\<close>

inductive scoped_machine :: "('f, 'o, 'x) poll \<Rightarrow> 'f scoped_tasks \<Rightarrow> 'x world \<Rightarrow> bool" for poll where
  machine_new: "scoped_new w = (sc, w') \<Longrightarrow> scoped_machine poll sc w'"
| machine_spawn: "scoped_machine poll sc w \<Longrightarrow> length (sc_tasks sc) < 2 ^ 32 \<Longrightarrow> scoped_spawn f sc w = (t, sc', w') \<Longrightarrow>
    scoped_machine poll sc' w'"
| machine_poll: "scoped_machine poll sc w \<Longrightarrow> wakes_below (length (sc_tasks sc)) (sc_ready sc) ctx poll \<Longrightarrow>
    poll_next poll ctx sc w = Some (r, sc', w') \<Longrightarrow> scoped_machine poll sc' w'"
| machine_cancel: "scoped_machine poll sc w \<Longrightarrow> cancel_all sc w = (sc', w') \<Longrightarrow> scoped_machine poll sc' w'"
| machine_wake: "scoped_machine poll sc w \<Longrightarrow> set ts \<subseteq> {..<length (sc_tasks sc)} \<Longrightarrow>
    wo_queues w' (sc_ready sc) = ready.puts ts (wo_queues w (sc_ready sc)) \<Longrightarrow> scoped_machine poll sc w'"

lemma spawn_ok:
  assumes "scoped_ok sc w" and "length (sc_tasks sc) < 2 ^ 32" and "scoped_spawn f sc w = (t, sc', w')"
  shows "scoped_ok sc' w'"
  using assms ready.put_ok [of "wo_queues w (sc_ready sc)" t] ready.items_put [of "wo_queues w (sc_ready sc)" t]
  by (auto simp: scoped_spawn_def scoped_ok_def live_count_def Let_def split: if_splits)

text \<open>C37: A set of scoped tasks stays consistent whatever is done with it: its live count is the number of
  unfinished tasks, its queue has no duplicates and names only tasks of the set.\<close>

theorem scoped_tasks_consistent:
  assumes "scoped_machine poll sc w"
  shows "sc_live sc = live_count (sc_tasks sc) \<and> distinct (rq_queue (wo_queues w (sc_ready sc))) \<and>
    set (rq_queue (wo_queues w (sc_ready sc))) \<subseteq> {..<length (sc_tasks sc)}"
proof -
  have "scoped_ok sc w"
    using assms
  proof (induction rule: scoped_machine.induct)
    case (machine_new w sc w')
    then show ?case by (auto simp: scoped_new_def new_queue_def scoped_ok_def live_count_def Let_def)
  next
    case (machine_spawn sc w f t sc' w')
    show ?case by (rule spawn_ok [OF machine_spawn(4,2,3)])
  next
    case (machine_poll sc w ctx r sc' w')
    then show ?case using poll_next_ok [OF machine_poll(3,4,2)] by simp
  next
    case (machine_cancel sc w sc' w')
    then show ?case by (auto simp: cancel_all_def scoped_ok_def live_count_def filter_empty_conv)
  next
    case (machine_wake sc w ts w')
    then show ?case using ready.puts_ok ready.puts_set [of "wo_queues w (sc_ready sc)" ts] by (auto simp: scoped_ok_def)
  qed
  then show ?thesis by (simp add: scoped_ok_def queue_ok_def)
qed

theorem scoped_tasks_consistent_witness:
  "\<exists>sc w. scoped_machine yield_poll sc w \<and> sc_live sc = 1 \<and> live_count (sc_tasks sc) = 1"
proof -
  obtain sc :: "unit scoped_tasks" and w where n: "scoped_new (sample_world 1) = (sc, w)" by fastforce
  obtain t sc' w' where s: "scoped_spawn () sc w = (t, sc', w')" by (cases "scoped_spawn () sc w") auto
  have "sc_tasks sc = []" "sc_live sc = 0" using n by (auto simp: scoped_new_def Let_def new_queue_def)
  then have "scoped_machine yield_poll sc' w'" "sc_live sc' = 1"
    using machine_spawn [OF machine_new [OF n] _ s] s by (auto simp: scoped_spawn_def Let_def)
  then show ?thesis using scoped_tasks_consistent by fastforce
qed

text \<open>Polling a consistent set returns without a panic when the polls of its tasks pay for their
  wake-ups.  If the answer is pending, tasks are alive and every woken one has been polled; if it is
  the end, no task is alive; if it is a finished task, exactly that live task is removed.\<close>

theorem poll_next_progress:
  assumes "scoped_ok sc w" and "wakes_below (length (sc_tasks sc)) (sc_ready sc) ctx poll"
    and "budgeted m [sc_ready sc] (sc_ready sc) (Some ctx) poll"
  shows "\<exists>r sc' w'. poll_next poll ctx sc w = Some (r, sc', w') \<and> scoped_ok sc' w' \<and> next_result r sc sc' w'"
proof -
  obtain y where y: "poll_next poll ctx sc w = Some y" using poll_next_budget [OF assms(3,2,1)] by blast
  then show ?thesis using poll_next_ok [OF y assms(1,2)] by (cases y) auto
qed

lemma yield_scoped:
  "wakes_below n q (OtherWaker k) yield_poll" "budgeted (\<lambda>n. n) [q] q (Some (OtherWaker k)) yield_poll"
proof -
  show "wakes_below n q (OtherWaker k) yield_poll"
    unfolding wakes_below_def
  proof (intro allI impI)
    fix f i t w r w' assume t: "t < n" and p: "yield_poll f (TaskWake i t q (Some (OtherWaker k))) w = Some (r, w')"
    show "\<exists>ts. set ts \<subseteq> {..<n} \<and> wo_queues w' q = ready.puts ts (wo_queues w q)"
    proof (cases "wo_rest w = 0")
      case True
      then show ?thesis using p by (auto simp: yield_poll_def intro: exI [of _ "[]"])
    next
      case False
      then show ?thesis using p t by (auto simp: yield_poll_def intro: exI [of _ "[t]"])
    qed
  qed
  show "budgeted (\<lambda>n. n) [q] q (Some (OtherWaker k)) yield_poll"
    by (auto simp: budgeted_def yield_poll_def load_def enqueue_def)
qed

theorem poll_next_progress_witness:
  "\<exists>r sc' w'. poll_next yield_poll (OtherWaker 7) \<lparr>sc_ready = 0, sc_tasks = [Some (), Some ()], sc_live = 2\<rparr> sample_start =
     Some (r, sc', w') \<and> scoped_ok sc' w'"
proof -
  let ?sc = "\<lparr>sc_ready = 0, sc_tasks = [Some (), Some ()], sc_live = 2\<rparr>"
  have "scoped_ok ?sc sample_start" using sample_queue by (auto simp: scoped_ok_def live_count_def)
  then show ?thesis using poll_next_progress [of ?sc sample_start "OtherWaker 7" yield_poll "\<lambda>n. n"] yield_scoped by fastforce
qed

end
