(* ===== verification/TyFold.thy ===== *)
theory TyFold
  imports Goals
begin

text \<open>
  \<open>ty_fold.rs\<close>: mapping types from a source arena into a target arena, and the substitution of generic
  parameters.  The trait \<open>TyFolder\<close> becomes the function \<open>folder\<close> for its method \<open>fold_ty\<close>, the source
  arena and the target arena that is threaded through; \<open>Substitute\<close> is one instance.
\<close>

section \<open>The traversal\<close>

type_synonym ty_folder = "ty \<Rightarrow> ir \<Rightarrow> (ty \<times> ir) option"

text \<open>\<open>let ty = folder.fold_ty(folder.source()[p]); folder.target().alloc(ty)\<close>\<close>

definition fold_ptr :: "ty_folder \<Rightarrow> ir \<Rightarrow> ptr \<Rightarrow> ir \<Rightarrow> (ptr \<times> ir) option" where
  "fold_ptr folder src p tgt = do {
     t \<leftarrow> get_ty src p;
     (t, tgt) \<leftarrow> folder t tgt;
     let (tgt, p) = alloc_ty tgt t;
     Some (p, tgt) }"

definition fold_ptr_slice :: "ty_folder \<Rightarrow> ir \<Rightarrow> slice \<Rightarrow> ir \<Rightarrow> (slice \<times> ir) option" where
  "fold_ptr_slice folder src s tgt = do {
     src_ptrs \<leftarrow> get_tys src s;
     (ptrs, tgt) \<leftarrow> map_state (fold_ptr folder src) src_ptrs tgt;
     let (tgt, s) = alloc_tys tgt ptrs;
     Some (s, tgt) }"

definition fold_trait_ref :: "ty_folder \<Rightarrow> ir \<Rightarrow> trait_ref \<Rightarrow> ir \<Rightarrow> (trait_ref \<times> ir) option" where
  "fold_trait_ref folder src tr tgt = do {
     (args, tgt) \<leftarrow> fold_ptr_slice folder src (tr_args tr) tgt;
     Some (\<lparr>tr_trait_sym = tr_trait_sym tr, tr_args = args\<rparr>, tgt) }"

definition fold_alias_ty :: "ty_folder \<Rightarrow> ir \<Rightarrow> alias_ty \<Rightarrow> ir \<Rightarrow> (alias_ty \<times> ir) option" where
  "fold_alias_ty folder src a tgt = (case a of
     Named alias \<Rightarrow> do {
       (args, tgt) \<leftarrow> fold_ptr_slice folder src (na_args alias) tgt;
       Some (Named \<lparr>na_def = na_def alias, na_args = args\<rparr>, tgt) }
   | Associated projection \<Rightarrow> do {
       (self_ty, tgt) \<leftarrow> fold_ptr folder src (pr_self_ty projection) tgt;
       (tr, tgt) \<leftarrow> fold_trait_ref folder src (pr_trait_ref projection) tgt;
       (args, tgt) \<leftarrow> fold_ptr_slice folder src (pr_args projection) tgt;
       Some (Associated \<lparr>pr_associated_ty = pr_associated_ty projection, pr_self_ty = self_ty,
         pr_trait_ref = tr, pr_args = args\<rparr>, tgt) }
   | Opaque alias \<Rightarrow> do {
       (args, tgt) \<leftarrow> fold_ptr_slice folder src (oa_args alias) tgt;
       Some (Opaque \<lparr>oa_def = oa_def alias, oa_args = args\<rparr>, tgt) })"

definition default_fold_ty :: "ty_folder \<Rightarrow> ir \<Rightarrow> ty \<Rightarrow> ir \<Rightarrow> (ty \<times> ir) option" where
  "default_fold_ty folder src t tgt = (case t of
     TyAdt s args \<Rightarrow> do { (args, tgt) \<leftarrow> fold_ptr_slice folder src args tgt; Some (TyAdt s args, tgt) }
   | TyAlias alias \<Rightarrow> do { (alias, tgt) \<leftarrow> fold_alias_ty folder src alias tgt; Some (TyAlias alias, tgt) }
   | TyRef inner m lt \<Rightarrow> do { (inner, tgt) \<leftarrow> fold_ptr folder src inner tgt; Some (TyRef inner m lt, tgt) }
   | TyTuple elems \<Rightarrow> do { (elems, tgt) \<leftarrow> fold_ptr_slice folder src elems tgt; Some (TyTuple elems, tgt) }
   | TySlice inner \<Rightarrow> do { (inner, tgt) \<leftarrow> fold_ptr folder src inner tgt; Some (TySlice inner, tgt) }
   | TyArray inner c \<Rightarrow> do { (inner, tgt) \<leftarrow> fold_ptr folder src inner tgt; Some (TyArray inner c, tgt) }
   | TyFnPtr params ret \<Rightarrow> do {
       (params, tgt) \<leftarrow> fold_ptr_slice folder src params tgt;
       (ret, tgt) \<leftarrow> fold_ptr folder src ret tgt;
       Some (TyFnPtr params ret, tgt) }
   | _ \<Rightarrow> Some (t, tgt))"

section \<open>Signatures\<close>

definition alloc_predicates :: "ir \<Rightarrow> where_predicate list \<Rightarrow> ir \<times> slice" where
  "alloc_predicates st xs = arena_intern st (EPredicates xs)"

definition alloc_fields :: "ir \<Rightarrow> field_sig list \<Rightarrow> ir \<times> slice" where
  "alloc_fields st xs = arena_intern st (EFields xs)"

definition alloc_variants :: "ir \<Rightarrow> variant_sig list \<Rightarrow> ir \<times> slice" where
  "alloc_variants st xs = arena_intern st (EVariants xs)"

definition fold_where_predicate :: "ty_folder \<Rightarrow> ir \<Rightarrow> where_predicate \<Rightarrow> ir \<Rightarrow> (where_predicate \<times> ir) option" where
  "fold_where_predicate folder src w tgt = do {
     (self_ty, tgt) \<leftarrow> fold_ptr folder src (wp_self_ty w) tgt;
     (tr, tgt) \<leftarrow> fold_trait_ref folder src (wp_trait_ref w) tgt;
     Some (\<lparr>wp_self_ty = self_ty, wp_trait_ref = tr\<rparr>, tgt) }"

definition fold_parameter_env :: "ty_folder \<Rightarrow> ir \<Rightarrow> checked_parameter_env \<Rightarrow> ir \<Rightarrow> (checked_parameter_env \<times> ir) option" where
  "fold_parameter_env folder src env tgt = do {
     source \<leftarrow> get_predicates src (pe_where_clauses env);
     (predicates, tgt) \<leftarrow> map_state (fold_where_predicate folder src) source tgt;
     let (tgt, where_clauses) = alloc_predicates tgt predicates;
     Some (\<lparr>pe_where_clauses = where_clauses, pe_solver_eligibility = pe_solver_eligibility env\<rparr>, tgt) }"

definition fold_fn_sig :: "ty_folder \<Rightarrow> ir \<Rightarrow> fn_sig \<Rightarrow> ir \<Rightarrow> (fn_sig \<times> ir) option" where
  "fold_fn_sig folder src sig tgt = do {
     (owner_self_ty, tgt) \<leftarrow> (case fs_owner_self_ty sig of
        None \<Rightarrow> Some (None, tgt)
      | Some p \<Rightarrow> do { (p, tgt) \<leftarrow> fold_ptr folder src p tgt; Some (Some p, tgt) });
     receiver \<leftarrow> (case fs_receiver sig of
        None \<Rightarrow> Some None
      | Some r \<Rightarrow> do { owner \<leftarrow> owner_self_ty; Some (Some \<lparr>cr_owner_self_ty = owner, cr_form = cr_form r\<rparr>) });
     (params, tgt) \<leftarrow> fold_ptr_slice folder src (fs_params sig) tgt;
     (ret, tgt) \<leftarrow> fold_ptr folder src (fs_ret sig) tgt;
     (parameter_env, tgt) \<leftarrow> fold_parameter_env folder src (fs_parameter_env sig) tgt;
     Some (sig\<lparr>fs_owner_self_ty := owner_self_ty, fs_receiver := receiver, fs_params := params, fs_ret := ret,
       fs_parameter_env := parameter_env\<rparr>, tgt) }"

definition fold_struct_sig :: "ty_folder \<Rightarrow> ir \<Rightarrow> struct_sig \<Rightarrow> ir \<Rightarrow> (struct_sig \<times> ir) option" where
  "fold_struct_sig folder src sig tgt = do {
     (env, tgt) \<leftarrow> fold_parameter_env folder src (ss_parameter_env sig) tgt;
     Some (\<lparr>ss_parameter_env = env\<rparr>, tgt) }"

definition fold_field :: "ty_folder \<Rightarrow> ir \<Rightarrow> field_sig \<Rightarrow> ir \<Rightarrow> (field_sig \<times> ir) option" where
  "fold_field folder src field tgt = do {
     (p, tgt) \<leftarrow> fold_ptr folder src (fi_ty field) tgt;
     Some (\<lparr>fi_name = fi_name field, fi_ty = p\<rparr>, tgt) }"

definition fold_variant :: "ty_folder \<Rightarrow> ir \<Rightarrow> variant_sig \<Rightarrow> ir \<Rightarrow> (variant_sig \<times> ir) option" where
  "fold_variant folder src variant tgt = do {
     source_fields \<leftarrow> get_fields src (va_fields variant);
     (fields, tgt) \<leftarrow> map_state (fold_field folder src) source_fields tgt;
     let (tgt, s) = alloc_fields tgt fields;
     Some (\<lparr>va_name = va_name variant, va_fields = s\<rparr>, tgt) }"

definition fold_enum_sig :: "ty_folder \<Rightarrow> ir \<Rightarrow> enum_sig \<Rightarrow> ir \<Rightarrow> (enum_sig \<times> ir) option" where
  "fold_enum_sig folder src sig tgt = do {
     source_variants \<leftarrow> get_variants src (es_variants sig);
     (variants, tgt) \<leftarrow> map_state (fold_variant folder src) source_variants tgt;
     let (tgt, s) = alloc_variants tgt variants;
     (env, tgt) \<leftarrow> fold_parameter_env folder src (es_parameter_env sig) tgt;
     Some (\<lparr>es_variants = s, es_parameter_env = env\<rparr>, tgt) }"

section \<open>Substitution\<close>

datatype subst_target = SubstTy ty | SubstConst const_ty

type_synonym param_subst = "generic_param \<Rightarrow> subst_target option"

text \<open>The traversal is monotone in the folder, so a folder may call it recursively.\<close>

lemma mono_fold_ptr [partial_function_mono]:
  assumes "\<And>t s. mono_option (\<lambda>f. F f t s)"
  shows "mono_option (\<lambda>f. fold_ptr (F f) src p tgt)"
  unfolding fold_ptr_def
  by (intro bind_mono option.const_mono assms)

lemma mono_fold_ptr_slice [partial_function_mono]:
  assumes "\<And>t s. mono_option (\<lambda>f. F f t s)"
  shows "mono_option (\<lambda>f. fold_ptr_slice (F f) src p tgt)"
  unfolding fold_ptr_slice_def
  by (intro bind_mono option.const_mono mono_map_state mono_fold_ptr assms)

lemma mono_fold_trait_ref [partial_function_mono]:
  assumes "\<And>t s. mono_option (\<lambda>f. F f t s)"
  shows "mono_option (\<lambda>f. fold_trait_ref (F f) src p tgt)"
  unfolding fold_trait_ref_def by (intro bind_mono option.const_mono mono_fold_ptr_slice assms)

lemma mono_fold_alias_ty [partial_function_mono]:
  assumes "\<And>t s. mono_option (\<lambda>f. F f t s)"
  shows "mono_option (\<lambda>f. fold_alias_ty (F f) src a tgt)"
  unfolding fold_alias_ty_def
  by (cases a) (auto intro!: mono_bind_pair option.const_mono mono_fold_ptr mono_fold_ptr_slice mono_fold_trait_ref assms)

lemma mono_default_fold_ty [partial_function_mono]:
  assumes "\<And>t s. mono_option (\<lambda>f. F f t s)"
  shows "mono_option (\<lambda>f. default_fold_ty (F f) src t tgt)"
  unfolding default_fold_ty_def
  by (cases t) (auto intro!: mono_bind_pair option.const_mono mono_fold_ptr mono_fold_ptr_slice mono_fold_alias_ty assms)

partial_function (option) substitute_fold_ty :: "param_subst \<Rightarrow> ir \<Rightarrow> ty \<Rightarrow> ir \<Rightarrow> (ty \<times> ir) option" where
  "substitute_fold_ty subst src t tgt =
     (case (case t of TyParam p \<Rightarrow> subst p | _ \<Rightarrow> None) of
        Some (SubstTy u) \<Rightarrow> Some (u, tgt)
      | _ \<Rightarrow> default_fold_ty (substitute_fold_ty subst src) src t tgt)"

section \<open>Instantiation\<close>

definition build_type_subst_map :: "ir \<Rightarrow> slice \<Rightarrow> ty list \<Rightarrow> param_subst option" where
  "build_type_subst_map src generics args = do {
     params \<leftarrow> get_generics src generics;
     Some (fold (\<lambda>(param, arg) subst. subst(param \<mapsto> SubstTy arg))
       (zip (filter (\<lambda>p. param_kind p = KindType) params) args) Map.empty) }"

definition instantiate_fn_sig :: "ir \<Rightarrow> fn_sig ty_binder \<Rightarrow> ty list \<Rightarrow> ir \<Rightarrow> (fn_sig \<times> ir) option" where
  "instantiate_fn_sig src b args tgt = do {
     subst \<leftarrow> build_type_subst_map src (bi_generics b) args;
     fold_fn_sig (substitute_fold_ty subst src) src (bi_value b) tgt }"

definition instantiate_struct_sig :: "ir \<Rightarrow> struct_sig ty_binder \<Rightarrow> ty list \<Rightarrow> ir \<Rightarrow> (struct_sig \<times> ir) option" where
  "instantiate_struct_sig src b args tgt = do {
     subst \<leftarrow> build_type_subst_map src (bi_generics b) args;
     fold_struct_sig (substitute_fold_ty subst src) src (bi_value b) tgt }"

definition instantiate_enum_sig :: "ir \<Rightarrow> enum_sig ty_binder \<Rightarrow> ty list \<Rightarrow> ir \<Rightarrow> (enum_sig \<times> ir) option" where
  "instantiate_enum_sig src b args tgt = do {
     subst \<leftarrow> build_type_subst_map src (bi_generics b) args;
     fold_enum_sig (substitute_fold_ty subst src) src (bi_value b) tgt }"

declare substitute_fold_ty.simps [simp del, code]

end
