(* ===== verification/TyFoldCorrect.thy ===== *)
theory TyFoldCorrect
  imports TyFold "HOL-Library.Code_Target_Nat"
begin

text \<open>
  The result of folding a type denotes the substituted tree.  The computations here thread the target
  arena, so their specifications are stated with \<open>makes\<close>: from every larger arena the computation
  returns, extends the arena, and its result has the property.
\<close>

section \<open>Computations that extend an arena\<close>

definition makes :: "ir \<Rightarrow> (ir \<Rightarrow> ('a \<times> ir) option) \<Rightarrow> (ir \<Rightarrow> 'a \<Rightarrow> bool) \<Rightarrow> bool" where
  "makes base m P \<longleftrightarrow> (\<forall>tgt. arena_ext base tgt \<longrightarrow> distinct tgt \<longrightarrow>
     (\<exists>x tgt'. m tgt = Some (x, tgt') \<and> arena_ext tgt tgt' \<and> distinct tgt' \<and> P tgt' x))"

lemma makesI:
  assumes "\<And>tgt. arena_ext base tgt \<Longrightarrow> distinct tgt \<Longrightarrow>
    \<exists>x tgt'. m tgt = Some (x, tgt') \<and> arena_ext tgt tgt' \<and> distinct tgt' \<and> P tgt' x"
  shows "makes base m P"
  using assms by (simp add: makes_def)

lemma makesD:
  assumes "makes base m P" and "arena_ext base tgt" and "distinct tgt"
  obtains x tgt' where "m tgt = Some (x, tgt')" and "arena_ext tgt tgt'" and "distinct tgt'" and "P tgt' x"
  using assms unfolding makes_def by blast

lemma makes_later: "makes base m P \<Longrightarrow> arena_ext base later \<Longrightarrow> makes later m P"
  unfolding makes_def using arena_ext_trans by blast

lemma makes_weaken: "makes base m P \<Longrightarrow> (\<And>st x. arena_ext base st \<Longrightarrow> P st x \<Longrightarrow> Q st x) \<Longrightarrow> makes base m Q"
  unfolding makes_def using arena_ext_trans by metis

lemma makes_return: "(\<And>st. arena_ext base st \<Longrightarrow> P st x) \<Longrightarrow> makes base (\<lambda>s. Some (x, s)) P"
  by (simp add: makes_def)

lemma makes_bind:
  assumes "makes base m P" and "\<And>x later. arena_ext base later \<Longrightarrow> P later x \<Longrightarrow> makes later (k x) Q"
  shows "makes base (\<lambda>s. do { (x, s) \<leftarrow> m s; k x s }) Q"
proof (rule makesI)
  fix tgt assume "arena_ext base tgt" "distinct tgt"
  then obtain x t1 where 1: "m tgt = Some (x, t1)" "arena_ext tgt t1" "distinct t1" "P t1 x" using assms(1) by (elim makesD)
  then have "makes t1 (k x) Q" using assms(2) arena_ext_trans \<open>arena_ext base tgt\<close> by blast
  from makesD [OF this arena_ext_refl 1(3)] obtain y t2 where "k x t1 = Some (y, t2)" "arena_ext t1 t2" "distinct t2" "Q t2 y" by blast
  then show "\<exists>y tgt'. do { (x, s) \<leftarrow> m tgt; k x s } = Some (y, tgt') \<and> arena_ext tgt tgt' \<and> distinct tgt' \<and> Q tgt' y"
    using 1 arena_ext_trans by auto
qed

lemma makes_map_state:
  assumes "list_all2 (\<lambda>x b. makes base (f x) (\<lambda>st y. Q st y b)) xs bs"
    and "\<And>st st' y b. arena_ext st st' \<Longrightarrow> Q st y b \<Longrightarrow> Q st' y b"
  shows "makes base (map_state f xs) (\<lambda>st ys. list_all2 (Q st) ys bs)"
  using assms(1)
proof (induction xs arbitrary: bs base)
  case Nil
  then show ?case by (simp add: makes_def)
next
  case (Cons x xs)
  then obtain b cs where bs: "bs = b # cs" and h: "makes base (f x) (\<lambda>st y. Q st y b)"
    and t: "list_all2 (\<lambda>x b. makes base (f x) (\<lambda>st y. Q st y b)) xs cs" by (auto simp: list_all2_Cons1)
  have all: "list_all2 (\<lambda>x b. makes later (f x) (\<lambda>st y. Q st y b)) xs cs" if "arena_ext base later" for later
    by (rule list_all2_mono [OF t], rule makes_later, assumption, rule that)
  have "makes base (\<lambda>s. do { (y, s) \<leftarrow> f x s; (ys, s) \<leftarrow> map_state f xs s; Some (y # ys, s) }) (\<lambda>st ys. list_all2 (Q st) ys (b # cs))"
  proof (rule makes_bind [OF h])
    fix y later assume l: "arena_ext base later" "Q later y b"
    show "makes later (\<lambda>s. do { (ys, s) \<leftarrow> map_state f xs s; Some (y # ys, s) }) (\<lambda>st ys. list_all2 (Q st) ys (b # cs))"
    proof (rule makes_bind [OF Cons.IH [OF all [OF l(1)]]])
      fix ys later' assume l': "arena_ext later later'" "list_all2 (Q later') ys cs"
      show "makes later' (\<lambda>s. Some (y # ys, s)) (\<lambda>st ys. list_all2 (Q st) ys (b # cs))"
      proof (rule makes_return)
        fix st assume e: "arena_ext later' st"
        have "list_all2 (Q st) ys cs" by (rule list_all2_mono [OF l'(2)]) (rule assms(2) [OF e])
        moreover have "Q st y b" using assms(2) [OF arena_ext_trans [OF l'(1) e] l(2)] .
        ultimately show "list_all2 (Q st) (y # ys) (b # cs)" by simp
      qed
    qed
  qed
  then show ?case by (simp add: bs)
qed

lemma makes_intern:
  "makes base (\<lambda>s. let (s, p) = arena_intern s x in Some (p, s)) (\<lambda>s p. arena_get s p = Some x)"
  unfolding makes_def
  by (auto split: prod.split dest: arena_intern_get arena_intern_ext intro: arena_intern_distinct)

section \<open>Trees\<close>

datatype ty_tree = TNode (tree_root: skeleton) (tree_children: "ty_tree list")

inductive tree_of :: "ir \<Rightarrow> ty \<Rightarrow> ty_tree \<Rightarrow> bool" for st where
  tree_ofI: "decompose_ty st t = Some d \<Longrightarrow>
    list_all2 (\<lambda>p T. \<exists>u. get_ty st p = Some u \<and> tree_of st u T) (de_children d) Ts \<Longrightarrow>
    tree_of st t (TNode (de_skeleton d) Ts)"

definition ptr_tree :: "ir \<Rightarrow> ptr \<Rightarrow> ty_tree \<Rightarrow> bool" where
  "ptr_tree st p T \<longleftrightarrow> (\<exists>u. get_ty st p = Some u \<and> tree_of st u T)"

definition slice_trees :: "ir \<Rightarrow> slice \<Rightarrow> ty_tree list \<Rightarrow> bool" where
  "slice_trees st s Ts \<longleftrightarrow> (\<exists>ps. get_tys st s = Some ps \<and> list_all2 (ptr_tree st) ps Ts)"

lemma tree_of_ext: "tree_of st t T \<Longrightarrow> arena_ext st st' \<Longrightarrow> tree_of st' t T"
proof (induction rule: tree_of.induct)
  case (tree_ofI t d Ts)
  have "list_all2 (\<lambda>p T. \<exists>u. get_ty st' p = Some u \<and> tree_of st' u T) (de_children d) Ts"
    using tree_ofI(2) by (rule list_all2_mono) (use tree_ofI(3) in \<open>auto intro: get_ty_ext\<close>)
  then show ?case using tree_of.tree_ofI decompose_ty_ext [OF tree_ofI(3,1)] by blast
qed

lemma ptr_tree_ext: "arena_ext st st' \<Longrightarrow> ptr_tree st p T \<Longrightarrow> ptr_tree st' p T"
  unfolding ptr_tree_def using tree_of_ext get_ty_ext by blast

lemma slice_trees_ext: "arena_ext st st' \<Longrightarrow> slice_trees st s Ts \<Longrightarrow> slice_trees st' s Ts"
  unfolding slice_trees_def using get_tys_ext ptr_tree_ext by (metis list_all2_mono)

lemma tree_of_node:
  "decompose_ty st t = Some d \<Longrightarrow> list_all2 (ptr_tree st) (de_children d) Ts \<Longrightarrow> de_skeleton d = sk \<Longrightarrow> tree_of st t (TNode sk Ts)"
  using tree_ofI by (auto simp: ptr_tree_def [abs_def])

lemma ptr_tree_total:
  assumes wf: "ir_wf st"
  shows "get_ty st p \<noteq> None \<Longrightarrow> \<exists>T. ptr_tree st p T"
proof (induction p rule: less_induct)
  case (less p)
  obtain t and d :: decomposed where t: "get_ty st p = Some t" and d: "decompose st p = Some d"
    and c: "\<forall>c \<in> set (de_children d). c < p \<and> get_ty st c \<noteq> None"
    by (rule decompose_wf [OF wf less.prems])
  then have "\<forall>c \<in> set (de_children d). \<exists>T. ptr_tree st c T" using less.IH by blast
  then obtain f where "\<forall>c \<in> set (de_children d). ptr_tree st c (f c)" by metis
  then have "list_all2 (ptr_tree st) (de_children d) (map f (de_children d))"
    by (simp add: list_all2_map2 list_all2_same)
  then have "tree_of st t (TNode (de_skeleton d) (map f (de_children d)))"
    using t d by (intro tree_of_node) (auto simp: decompose_def)
  then show ?case using t by (auto simp: ptr_tree_def)
qed

section \<open>The traversal\<close>

lemma fold_ptr_makes:
  assumes "get_ty src p = Some t" and "makes base (folder t) (\<lambda>st u. tree_of st u T)"
  shows "makes base (fold_ptr folder src p) (\<lambda>st q. ptr_tree st q T)"
proof -
  have "makes base (\<lambda>s. do { (t, s) \<leftarrow> folder t s; (let (s, p) = alloc_ty s t in Some (p, s)) }) (\<lambda>st q. ptr_tree st q T)"
  proof (rule makes_bind [OF assms(2)])
    fix u later assume "tree_of later u T"
    then show "makes later (\<lambda>s. let (s, p) = alloc_ty s u in Some (p, s)) (\<lambda>st q. ptr_tree st q T)"
      unfolding alloc_ty_def ptr_tree_def by (intro makes_weaken [OF makes_intern]) (auto simp: ir_access intro: tree_of_ext)
  qed
  then show ?thesis using assms(1) by (simp add: fold_ptr_def makes_def)
qed

definition ptr_folds :: "ir \<Rightarrow> ty_folder \<Rightarrow> ir \<Rightarrow> ptr \<Rightarrow> ty_tree \<Rightarrow> bool" where
  "ptr_folds base folder src p T \<longleftrightarrow> makes base (fold_ptr folder src p) (\<lambda>st q. ptr_tree st q T)"

lemma ptr_folds_later: "ptr_folds base folder src p T \<Longrightarrow> arena_ext base later \<Longrightarrow> ptr_folds later folder src p T"
  unfolding ptr_folds_def by (rule makes_later)

lemma ptr_folds_all_later:
  "list_all2 (ptr_folds base folder src) ps Ts \<Longrightarrow> arena_ext base later \<Longrightarrow> list_all2 (ptr_folds later folder src) ps Ts"
  using list_all2_mono ptr_folds_later by metis

lemma fold_ptr_slice_makes:
  assumes "get_tys src s = Some ps" and "list_all2 (ptr_folds base folder src) ps Ts"
  shows "makes base (fold_ptr_slice folder src s) (\<lambda>st s'. slice_trees st s' Ts)"
proof -
  have "makes base (\<lambda>u. do { (ptrs, u) \<leftarrow> map_state (fold_ptr folder src) ps u; (let (u, s) = alloc_tys u ptrs in Some (s, u)) })
    (\<lambda>st s'. slice_trees st s' Ts)"
  proof (rule makes_bind)
    show "makes base (map_state (fold_ptr folder src) ps) (\<lambda>st qs. list_all2 (ptr_tree st) qs Ts)"
      by (rule makes_map_state) (use assms(2) ptr_tree_ext in \<open>auto simp: ptr_folds_def [abs_def]\<close>)
    fix qs later assume "list_all2 (ptr_tree later) qs Ts"
    then have "list_all2 (ptr_tree st) qs Ts" if "arena_ext later st" for st
      using that ptr_tree_ext by (metis list_all2_mono)
    then show "makes later (\<lambda>u. let (u, s) = alloc_tys u qs in Some (s, u)) (\<lambda>st s'. slice_trees st s' Ts)"
      unfolding alloc_tys_def slice_trees_def by (intro makes_weaken [OF makes_intern]) (auto simp: ir_access)
  qed
  then show ?thesis using assms(1) by (simp add: fold_ptr_slice_def makes_def)
qed

text \<open>One slice or one pointer, followed by a constructor.\<close>

lemma makes_slice:
  assumes "get_tys src s = Some ps" and "list_all2 (ptr_folds base folder src) ps Ts"
    and "\<And>st q qs. arena_ext base st \<Longrightarrow> get_tys st q = Some qs \<Longrightarrow> length qs = length ps \<Longrightarrow>
      list_all2 (ptr_tree st) qs Ts \<Longrightarrow> P st (g q)"
  shows "makes base (\<lambda>u. do { (q, u) \<leftarrow> fold_ptr_slice folder src s u; Some (g q, u) }) P"
proof (rule makes_bind [OF fold_ptr_slice_makes [OF assms(1,2)]], rule makes_return)
  fix q later st assume "arena_ext base later" "slice_trees later q Ts" "arena_ext later st"
  then have "arena_ext base st" "slice_trees st q Ts" using arena_ext_trans slice_trees_ext by blast+
  then obtain qs where "get_tys st q = Some qs" "list_all2 (ptr_tree st) qs Ts" by (auto simp: slice_trees_def)
  then show "P st (g q)"
    using assms(3) [OF \<open>arena_ext base st\<close>] list_all2_lengthD [OF assms(2)] list_all2_lengthD [of "ptr_tree st" qs Ts] by simp
qed

lemma makes_ptr:
  assumes "ptr_folds base folder src p T"
    and "\<And>st q. arena_ext base st \<Longrightarrow> ptr_tree st q T \<Longrightarrow> P st (g q)"
  shows "makes base (\<lambda>u. do { (q, u) \<leftarrow> fold_ptr folder src p u; Some (g q, u) }) P"
proof (rule makes_bind [OF assms(1) [unfolded ptr_folds_def]], rule makes_return)
  fix q later st assume "arena_ext base later" "ptr_tree later q T" "arena_ext later st"
  then show "P st (g q)" using assms(2) arena_ext_trans ptr_tree_ext by blast
qed

lemma fold_trait_ref_makes:
  assumes "get_tys src (tr_args tr) = Some ps" and "list_all2 (ptr_folds base folder src) ps Ts"
  shows "makes base (fold_trait_ref folder src tr) (\<lambda>st u. tr_trait_sym u = tr_trait_sym tr \<and> slice_trees st (tr_args u) Ts)"
  unfolding fold_trait_ref_def [abs_def] by (rule makes_slice [OF assms]) (auto simp: slice_trees_def)

lemma fold_projection_makes:
  assumes "decompose_ty src (TyAlias (Associated p)) = Some d" and "list_all2 (ptr_folds base folder src) (de_children d) Ts"
  shows "makes base (fold_alias_ty folder src (Associated p)) (\<lambda>st a. tree_of st (TyAlias a) (TNode (de_skeleton d) Ts))"
proof -
  obtain targs args where g: "get_tys src (tr_args (pr_trait_ref p)) = Some targs" "get_tys src (pr_args p) = Some args"
    and sk: "de_skeleton d = SkAssociatedAlias (pr_associated_ty p) (tr_trait_sym (pr_trait_ref p)) (u32_of (length targs)) (u32_of (length args))"
    and ch: "de_children d = pr_self_ty p # targs @ args"
    using assms(1) by (auto simp: opt_simps)
  from assms(2) ch obtain S Ta As where Ts: "Ts = S # Ta @ As" and s: "ptr_folds base folder src (pr_self_ty p) S"
    and ta: "list_all2 (ptr_folds base folder src) targs Ta" and as: "list_all2 (ptr_folds base folder src) args As"
    by (auto simp: list_all2_Cons1 list_all2_append1)
  show ?thesis
    unfolding fold_alias_ty_def [abs_def] alias_ty.case
  proof (rule makes_bind [OF s [unfolded ptr_folds_def]])
    fix q l1 assume 1: "arena_ext base l1" "ptr_tree l1 q S"
    show "makes l1 (\<lambda>u. do { (tr, u) \<leftarrow> fold_trait_ref folder src (pr_trait_ref p) u;
        (as, u) \<leftarrow> fold_ptr_slice folder src (pr_args p) u;
        Some (Associated \<lparr>pr_associated_ty = pr_associated_ty p, pr_self_ty = q, pr_trait_ref = tr, pr_args = as\<rparr>, u) })
      (\<lambda>st a. tree_of st (TyAlias a) (TNode (de_skeleton d) Ts))"
    proof (rule makes_bind [OF fold_trait_ref_makes [OF g(1) ptr_folds_all_later [OF ta 1(1)]]])
      fix tr :: trait_ref and l2 assume 2: "arena_ext l1 l2" "tr_trait_sym tr = tr_trait_sym (pr_trait_ref p) \<and> slice_trees l2 (tr_args tr) Ta"
      have "list_all2 (ptr_folds l2 folder src) args As" using ptr_folds_all_later [OF as arena_ext_trans [OF 1(1) 2(1)]] .
      then show "makes l2 (\<lambda>u. do { (as, u) \<leftarrow> fold_ptr_slice folder src (pr_args p) u;
          Some (Associated \<lparr>pr_associated_ty = pr_associated_ty p, pr_self_ty = q, pr_trait_ref = tr, pr_args = as\<rparr>, u) })
        (\<lambda>st a. tree_of st (TyAlias a) (TNode (de_skeleton d) Ts))"
      proof (rule makes_slice [OF g(2)])
        fix st r rs assume 3: "arena_ext l2 st" "get_tys st r = Some rs" "length rs = length args" "list_all2 (ptr_tree st) rs As"
        obtain us where us: "get_tys st (tr_args tr) = Some us" "list_all2 (ptr_tree st) us Ta"
          using slice_trees_ext [OF 3(1) conjunct2 [OF 2(2)]] by (auto simp: slice_trees_def)
        have "length us = length targs" using us(2) ta by (metis list_all2_lengthD)
        moreover have "ptr_tree st q S" using ptr_tree_ext [OF arena_ext_trans [OF 2(1) 3(1)] 1(2)] .
        ultimately show "tree_of st (TyAlias (Associated \<lparr>pr_associated_ty = pr_associated_ty p, pr_self_ty = q,
            pr_trait_ref = tr, pr_args = r\<rparr>)) (TNode (de_skeleton d) Ts)"
          using 2(2) 3 us by (intro tree_of_node) (auto simp: sk Ts list_all2_appendI)
      qed
    qed
  qed
qed

lemma fold_alias_makes:
  assumes "decompose_ty src (TyAlias a) = Some d" and "list_all2 (ptr_folds base folder src) (de_children d) Ts"
  shows "makes base (fold_alias_ty folder src a) (\<lambda>st a. tree_of st (TyAlias a) (TNode (de_skeleton d) Ts))"
proof (cases a)
  case (Named n)
  then obtain ps where g: "get_tys src (na_args n) = Some ps" "d = \<lparr>de_skeleton = SkNamedAlias (na_def n) (u32_of (length ps)), de_children = ps\<rparr>"
    using assms(1) by (auto simp: opt_simps)
  then show ?thesis unfolding Named fold_alias_ty_def [abs_def] alias_ty.case
    by (intro makes_slice [OF g(1)]) (use assms(2) in \<open>auto intro!: tree_of_node\<close>)
next
  case (Opaque n)
  then obtain ps where g: "get_tys src (oa_args n) = Some ps" "d = \<lparr>de_skeleton = SkOpaqueAlias (oa_def n) (u32_of (length ps)), de_children = ps\<rparr>"
    using assms(1) by (auto simp: opt_simps)
  then show ?thesis unfolding Opaque fold_alias_ty_def [abs_def] alias_ty.case
    by (intro makes_slice [OF g(1)]) (use assms(2) in \<open>auto intro!: tree_of_node\<close>)
next
  case (Associated p)
  then show ?thesis using fold_projection_makes assms by simp
qed

lemma default_fold_makes:
  assumes d: "decompose_ty src t = Some d" and c: "list_all2 (ptr_folds base folder src) (de_children d) Ts"
  shows "makes base (default_fold_ty folder src t) (\<lambda>st u. tree_of st u (TNode (de_skeleton d) Ts))"
proof -
  have leaf: "makes base (\<lambda>s. Some (t, s)) (\<lambda>st u. tree_of st u (TNode (de_skeleton d) Ts))"
    if "de_children d = []" "\<And>st. decompose_ty st t = Some d"
    using that c by (intro makes_return tree_of_node [of _ _ d]) auto
  note D = default_fold_ty_def [abs_def]
  show ?thesis
  proof (cases t)
    case (TyAdt s args)
    then obtain ps where g: "get_tys src args = Some ps" "d = \<lparr>de_skeleton = SkAdt s (u32_of (length ps)), de_children = ps\<rparr>"
      using d by (auto simp: opt_simps)
    then show ?thesis unfolding TyAdt D ty.case by (intro makes_slice [OF g(1)]) (use c in \<open>auto intro!: tree_of_node\<close>)
  next
    case (TyTuple es)
    then obtain ps where g: "get_tys src es = Some ps" "d = \<lparr>de_skeleton = SkTuple (u32_of (length ps)), de_children = ps\<rparr>"
      using d by (auto simp: opt_simps)
    then show ?thesis unfolding TyTuple D ty.case by (intro makes_slice [OF g(1)]) (use c in \<open>auto intro!: tree_of_node\<close>)
  next
    case (TyAlias a)
    have "makes base (\<lambda>s. do { (alias, s) \<leftarrow> fold_alias_ty folder src a s; Some (TyAlias alias, s) })
      (\<lambda>st u. tree_of st u (TNode (de_skeleton d) Ts))"
      by (rule makes_bind [OF fold_alias_makes]) (use d c TyAlias in \<open>auto intro!: makes_return elim: tree_of_ext\<close>)
    then show ?thesis unfolding TyAlias D ty.case .
  next
    case (TyRef p m l)
    then obtain T where T: "ptr_folds base folder src p T" "Ts = [T]" "de_skeleton d = SkRef m l" using d c by (auto simp: list_all2_Cons1)
    then show ?thesis unfolding TyRef D ty.case by (intro makes_ptr [OF T(1)]) (auto intro!: tree_of_node)
  next
    case (TySlice p)
    then obtain T where T: "ptr_folds base folder src p T" "Ts = [T]" "de_skeleton d = SkSlice" using d c by (auto simp: list_all2_Cons1)
    then show ?thesis unfolding TySlice D ty.case by (intro makes_ptr [OF T(1)]) (auto intro!: tree_of_node)
  next
    case (TyArray p k)
    then obtain T where T: "ptr_folds base folder src p T" "Ts = [T]" "de_skeleton d = SkArray k" using d c by (auto simp: list_all2_Cons1)
    then show ?thesis unfolding TyArray D ty.case by (intro makes_ptr [OF T(1)]) (auto intro!: tree_of_node)
  next
    case (TyFnPtr ps r)
    then obtain qs where g: "get_tys src ps = Some qs" "d = \<lparr>de_skeleton = SkFnPtr (u32_of (length qs)), de_children = qs @ [r]\<rparr>"
      using d by (auto simp: opt_simps)
    then obtain Ps R where Ts: "Ts = Ps @ [R]" and p: "list_all2 (ptr_folds base folder src) qs Ps" and r: "ptr_folds base folder src r R"
      using c by (auto simp: list_all2_append1 list_all2_Cons1)
    show ?thesis unfolding TyFnPtr D ty.case
    proof (rule makes_bind [OF fold_ptr_slice_makes [OF g(1) p]])
      fix s l1 assume 1: "arena_ext base l1" "slice_trees l1 s Ps"
      show "makes l1 (\<lambda>u. do { (ret, u) \<leftarrow> fold_ptr folder src r u; Some (TyFnPtr s ret, u) })
        (\<lambda>st u. tree_of st u (TNode (de_skeleton d) Ts))"
      proof (rule makes_ptr [OF ptr_folds_later [OF r 1(1)]])
        fix st q assume 2: "arena_ext l1 st" "ptr_tree st q R"
        obtain us where us: "get_tys st s = Some us" "list_all2 (ptr_tree st) us Ps"
          using slice_trees_ext [OF 2(1) 1(2)] by (auto simp: slice_trees_def)
        have "length us = length qs" using us(2) p by (metis list_all2_lengthD)
        then show "tree_of st (TyFnPtr s q) (TNode (de_skeleton d) Ts)"
          using g us 2 by (intro tree_of_node) (auto simp: Ts list_all2_appendI)
      qed
    qed
  qed (use d leaf in \<open>auto simp: D leaf_def\<close>)
qed


section \<open>Substitution\<close>

text \<open>Substitution on trees: \<open>s\<close> gives the tree of a parameter.  The length of an array is part of its
  skeleton, so a const parameter there is not replaced.\<close>

primrec subst_tree :: "(generic_param \<Rightarrow> ty_tree option) \<Rightarrow> ty_tree \<Rightarrow> ty_tree" where
  "subst_tree s (TNode sk Ts) =
     (case (case sk of SkParam p \<Rightarrow> s p | _ \<Rightarrow> None) of Some T \<Rightarrow> T | None \<Rightarrow> TNode sk (map (subst_tree s) Ts))"

text \<open>\<open>s\<close> gives the trees, in the arena \<open>base\<close>, of the types that \<open>subst\<close> assigns to parameters.\<close>

definition denotes_subst :: "ir \<Rightarrow> param_subst \<Rightarrow> (generic_param \<Rightarrow> ty_tree option) \<Rightarrow> bool" where
  "denotes_subst base subst s \<longleftrightarrow> (\<forall>p. case subst p of
     Some (SubstTy u) \<Rightarrow> \<exists>T. s p = Some T \<and> tree_of base u T
   | _ \<Rightarrow> s p = None)"

lemma decompose_param: "decompose_ty st t = Some d \<Longrightarrow> (\<forall>p. t \<noteq> TyParam p) \<Longrightarrow> (\<forall>p. de_skeleton d \<noteq> SkParam p)"
  by (induction st t rule: decompose_ty.induct) (auto simp: leaf_def opt_simps)

lemma substitute_makes:
  assumes s: "denotes_subst base subst s"
  shows "tree_of src t T \<Longrightarrow> makes base (substitute_fold_ty subst src t) (\<lambda>st u. tree_of st u (subst_tree s T))"
proof (induction rule: tree_of.induct)
  case (tree_ofI t d Ts)
  have "list_all2 (\<lambda>p T. ptr_folds base (substitute_fold_ty subst src) src p (subst_tree s T)) (de_children d) Ts"
    using tree_ofI(2)
  proof (rule list_all2_mono)
    fix p T assume "\<exists>u. get_ty src p = Some u \<and> tree_of src u T \<and>
        makes base (substitute_fold_ty subst src u) (\<lambda>st v. tree_of st v (subst_tree s T))"
    then show "ptr_folds base (substitute_fold_ty subst src) src p (subst_tree s T)"
      unfolding ptr_folds_def using fold_ptr_makes by blast
  qed
  then have c: "list_all2 (ptr_folds base (substitute_fold_ty subst src) src) (de_children d) (map (subst_tree s) Ts)"
    by (simp add: list_all2_map2)
  note default = default_fold_makes [OF tree_ofI(1) c]
  show ?case
  proof (cases "\<exists>p. t = TyParam p")
    case False
    then have "substitute_fold_ty subst src t = default_fold_ty (substitute_fold_ty subst src) src t"
      by (intro ext, subst substitute_fold_ty.simps) (auto split: ty.split)
    moreover have "subst_tree s (TNode (de_skeleton d) Ts) = TNode (de_skeleton d) (map (subst_tree s) Ts)"
      using decompose_param [OF tree_ofI(1)] False by (auto split: skeleton.split)
    ultimately show ?thesis using default by simp
  next
    case True
    then obtain p where p: "t = TyParam p" by blast
    then have sk: "de_skeleton d = SkParam p" using tree_ofI(1) by (auto simp: leaf_def)
    show ?thesis
    proof (cases "\<exists>u. subst p = Some (SubstTy u)")
      case True
      then obtain u where u: "subst p = Some (SubstTy u)" by blast
      then obtain U where U: "s p = Some U" "tree_of base u U"
        using s [unfolded denotes_subst_def, THEN spec, of p] by auto
      have "substitute_fold_ty subst src t = (\<lambda>tgt. Some (u, tgt))" using p u by (intro ext, subst substitute_fold_ty.simps) simp
      then show ?thesis using U sk by (auto intro!: makes_return elim: tree_of_ext)
    next
      case False
      moreover have "case subst p of Some (SubstTy u) \<Rightarrow> \<exists>T. s p = Some T \<and> tree_of base u T | _ \<Rightarrow> s p = None"
        using s unfolding denotes_subst_def by blast
      ultimately have "s p = None" by (auto split: option.splits subst_target.splits)
      moreover have "substitute_fold_ty subst src t = default_fold_ty (substitute_fold_ty subst src) src t"
        using False p by (intro ext, subst substitute_fold_ty.simps) (auto split: option.split subst_target.split)
      ultimately show ?thesis using default sk by simp
    qed
  qed
qed

text \<open>C39: Substituting in a type of a well-formed source arena returns, only adds to the target arena, and
  gives the type whose tree is the source tree with every type parameter replaced by the tree of the
  type assigned to it.\<close>

theorem substitution_denotes:
  assumes "ir_wf src" and "get_ty src p = Some t" and "denotes_subst tgt subst s" and "distinct tgt"
  shows "\<exists>T u tgt'. tree_of src t T \<and> substitute_fold_ty subst src t tgt = Some (u, tgt') \<and> arena_ext tgt tgt' \<and>
    distinct tgt' \<and> tree_of tgt' u (subst_tree s T)"
proof -
  obtain T where T: "tree_of src t T" using ptr_tree_total [OF assms(1), of p] assms(2) by (auto simp: ptr_tree_def)
  from makesD [OF substitute_makes [OF assms(3) T] arena_ext_refl assms(4)] T show ?thesis by metis
qed

theorem substitution_denotes_witness:
  "\<exists>u tgt'. substitute_fold_ty [AlphaEquiv \<lparr>alpha_kind = KindType, alpha_index = 0\<rparr> \<mapsto> SubstTy TyBool] [ETy (TyParam (AlphaEquiv \<lparr>alpha_kind = KindType, alpha_index = 0\<rparr>)), ETy (TySlice 0)] (TySlice 0) [] =
     Some (u, tgt') \<and> tree_of tgt' u (TNode SkSlice [TNode SkBool []])"
proof -
  let ?src = "[ETy (TyParam (AlphaEquiv \<lparr>alpha_kind = KindType, alpha_index = 0\<rparr>)), ETy (TySlice 0)]" and ?s = "[AlphaEquiv \<lparr>alpha_kind = KindType, alpha_index = 0\<rparr> \<mapsto> TNode SkBool []]"
  have "ir_wf ([] @ [ETy (TyParam (AlphaEquiv \<lparr>alpha_kind = KindType, alpha_index = 0\<rparr>))])"
    by (rule ir_wf_snoc) (auto simp: ir_wf_def slices_fit_def get_ty_def get_tys_def nth_opt_def ty_ok_def leaf_def)
  from ir_wf_snoc [OF this, of "ETy (TySlice 0)"] have wf: "ir_wf ?src" by (simp add: ty_ok_def get_ty_def nth_opt_def)
  have b: "tree_of [] TyBool (TNode SkBool [])" by (rule tree_of_node [of _ _ "leaf SkBool"]) (auto simp: leaf_def)
  have d: "denotes_subst [] [AlphaEquiv \<lparr>alpha_kind = KindType, alpha_index = 0\<rparr> \<mapsto> SubstTy TyBool] ?s" using b by (simp add: denotes_subst_def)
  have "get_ty ?src 1 = Some (TySlice 0)" by (simp add: get_ty_def nth_opt_def)
  from substitution_denotes [OF wf this d] obtain T u tgt' where r: "tree_of ?src (TySlice 0) T"
    "substitute_fold_ty [AlphaEquiv \<lparr>alpha_kind = KindType, alpha_index = 0\<rparr> \<mapsto> SubstTy TyBool] ?src (TySlice 0) [] = Some (u, tgt')" "tree_of tgt' u (subst_tree ?s T)" by auto
  have "T = TNode SkSlice [TNode (SkParam (AlphaEquiv \<lparr>alpha_kind = KindType, alpha_index = 0\<rparr>)) []]"
    using r(1) by (auto simp: tree_of.simps [of _ "TySlice 0"] tree_of.simps [of _ "TyParam _"] list_all2_Cons1 get_ty_def nth_opt_def leaf_def)
  then show ?thesis using r by auto
qed

end
