(* ===== verification/TyFoldProps.thy ===== *)
theory TyFoldProps
  imports TyFoldCorrect
begin

text \<open>Instantiating a signature: the parameters of its binder are replaced everywhere.\<close>

section \<open>The map from parameters to arguments\<close>

lemma fold_updates:
  "distinct (map fst xs) \<Longrightarrow> fold (\<lambda>(k, v) m. m(k \<mapsto> g v)) xs m p = (case map_of xs p of Some v \<Rightarrow> Some (g v) | None \<Rightarrow> m p)"
proof (induction xs arbitrary: m)
  case (Cons x xs)
  obtain k v where x: "x = (k, v)" by (cases x)
  have "map_of xs k = None" using Cons.prems x by (simp add: map_of_eq_None_iff)
  then show ?case using Cons x by auto
qed simp

lemma map_of_zip_rel:
  "list_all2 R as bs \<Longrightarrow> rel_option R (map_of (zip ks as) p) (map_of (zip ks bs) p)"
proof (induction as bs arbitrary: ks rule: list_all2_induct)
  case (Cons a as b bs)
  then show ?case by (cases ks) auto
qed simp

text \<open>The trees of the type parameters of a binder, for the arguments' trees \<open>As\<close>.\<close>

definition binder_subst :: "generic_param list \<Rightarrow> ty_tree list \<Rightarrow> generic_param \<Rightarrow> ty_tree option" where
  "binder_subst params As = map_of (zip (filter (\<lambda>p. param_kind p = KindType) params) As)"

lemma build_denotes:
  assumes "get_generics src g = Some params" and "distinct params" and "list_all2 (tree_of tgt) args As"
  shows "\<exists>subst. build_type_subst_map src g args = Some subst \<and> denotes_subst tgt subst (binder_subst params As)"
proof -
  let ?ks = "filter (\<lambda>p. param_kind p = KindType) params"
  let ?subst = "fold (\<lambda>(param, arg) subst. subst(param \<mapsto> SubstTy arg)) (zip ?ks args) Map.empty"
  have "map fst (zip ?ks args) = take (min (length ?ks) (length args)) ?ks" by (rule map_fst_zip_take)
  then have "distinct (map fst (zip ?ks args))" using assms(2) by simp
  then have u: "?subst p = map_option SubstTy (map_of (zip ?ks args) p)" for p
    by (subst fold_updates) (auto split: option.split)
  have "denotes_subst tgt ?subst (binder_subst params As)"
    unfolding denotes_subst_def binder_subst_def
  proof
    fix p
    show "case ?subst p of Some (SubstTy u) \<Rightarrow> \<exists>T. map_of (zip ?ks As) p = Some T \<and> tree_of tgt u T | _ \<Rightarrow> map_of (zip ?ks As) p = None"
      using map_of_zip_rel [OF assms(3), of ?ks p] unfolding u
      by (cases "map_of (zip ?ks args) p"; cases "map_of (zip ?ks As) p") auto
  qed
  then show ?thesis using assms(1) by (simp add: build_type_subst_map_def)
qed

section \<open>Signatures\<close>

definition predicate_trees :: "ir \<Rightarrow> where_predicate \<Rightarrow> ty_tree \<times> trait_symbol \<times> ty_tree list \<Rightarrow> bool" where
  "predicate_trees st w x \<longleftrightarrow> ptr_tree st (wp_self_ty w) (fst x) \<and> tr_trait_sym (wp_trait_ref w) = fst (snd x) \<and>
     slice_trees st (tr_args (wp_trait_ref w)) (snd (snd x))"

definition env_trees :: "ir \<Rightarrow> checked_parameter_env \<Rightarrow> (ty_tree \<times> trait_symbol \<times> ty_tree list) list \<Rightarrow> bool" where
  "env_trees st env xs \<longleftrightarrow> (\<exists>ws. get_predicates st (pe_where_clauses env) = Some ws \<and> list_all2 (predicate_trees st) ws xs)"

definition sig_trees :: "ir \<Rightarrow> fn_sig \<Rightarrow> ty_tree option \<Rightarrow> ty_tree list \<Rightarrow> ty_tree \<Rightarrow> (ty_tree \<times> trait_symbol \<times> ty_tree list) list \<Rightarrow> bool" where
  "sig_trees st sig own ps r ws \<longleftrightarrow> rel_option (ptr_tree st) (fs_owner_self_ty sig) own \<and> slice_trees st (fs_params sig) ps \<and>
     ptr_tree st (fs_ret sig) r \<and> env_trees st (fs_parameter_env sig) ws"

lemma predicate_trees_ext: "arena_ext st st' \<Longrightarrow> predicate_trees st w x \<Longrightarrow> predicate_trees st' w x"
  unfolding predicate_trees_def using ptr_tree_ext slice_trees_ext by blast

lemma env_trees_ext: "arena_ext st st' \<Longrightarrow> env_trees st env xs \<Longrightarrow> env_trees st' env xs"
proof -
  assume e: "arena_ext st st'" and "env_trees st env xs"
  then obtain ws where ws: "get_predicates st (pe_where_clauses env) = Some ws" "list_all2 (predicate_trees st) ws xs"
    by (auto simp: env_trees_def)
  have "list_all2 (predicate_trees st') ws xs" by (rule list_all2_mono [OF ws(2)]) (rule predicate_trees_ext [OF e])
  moreover have "get_predicates st' (pe_where_clauses env) = Some ws" using ws(1) e by (simp add: ir_access arena_ext_get)
  ultimately show ?thesis by (auto simp: env_trees_def)
qed

text \<open>A folder that maps every type of the source to a type with the tree \<open>f T\<close>.\<close>

definition folds :: "ir \<Rightarrow> ty_folder \<Rightarrow> ir \<Rightarrow> (ty_tree \<Rightarrow> ty_tree) \<Rightarrow> bool" where
  "folds base folder src f \<longleftrightarrow> (\<forall>t T. tree_of src t T \<longrightarrow> makes base (folder t) (\<lambda>st u. tree_of st u (f T)))"

lemma folds_ptr: "folds base folder src f \<Longrightarrow> arena_ext base later \<Longrightarrow> ptr_tree src p T \<Longrightarrow> ptr_folds later folder src p (f T)"
proof -
  assume f: "folds base folder src f" and l: "arena_ext base later" and "ptr_tree src p T"
  then obtain t where t: "get_ty src p = Some t" "tree_of src t T" by (auto simp: ptr_tree_def)
  then have "makes base (folder t) (\<lambda>st u. tree_of st u (f T))" using f by (simp add: folds_def)
  from fold_ptr_makes [where folder = folder and T = "f T", OF t(1) makes_later [OF this l]] show ?thesis by (simp add: ptr_folds_def)
qed

lemma folds_ptrs:
  assumes "folds base folder src f" and "arena_ext base later" and "list_all2 (ptr_tree src) ps Ts"
  shows "list_all2 (ptr_folds later folder src) ps (map f Ts)"
  unfolding list_all2_map2 using assms(3) by (rule list_all2_mono) (rule folds_ptr [OF assms(1,2)])

lemma folds_slice:
  assumes "folds base folder src f" and "arena_ext base later" and "slice_trees src s Ts"
  shows "makes later (fold_ptr_slice folder src s) (\<lambda>st q. slice_trees st q (map f Ts))"
  using assms(3) fold_ptr_slice_makes folds_ptrs [OF assms(1,2)] unfolding slice_trees_def by blast

lemma folds_predicate:
  assumes f: "folds base folder src f" and l: "arena_ext base later" and w: "predicate_trees src w (S, tr, As)"
  shows "makes later (fold_where_predicate folder src w) (\<lambda>st u. predicate_trees st u (f S, tr, map f As))"
proof -
  obtain ps where ps: "get_tys src (tr_args (wp_trait_ref w)) = Some ps" "list_all2 (ptr_tree src) ps As"
    using w by (auto simp: predicate_trees_def slice_trees_def)
  have "makes later (\<lambda>s. do { (p, s) \<leftarrow> fold_ptr folder src (wp_self_ty w) s; do { (tr, s) \<leftarrow> fold_trait_ref folder src (wp_trait_ref w) s;
      Some (\<lparr>wp_self_ty = p, wp_trait_ref = tr\<rparr>, s) } }) (\<lambda>st u. predicate_trees st u (f S, tr, map f As))"
  proof (rule makes_bind)
    show "makes later (fold_ptr folder src (wp_self_ty w)) (\<lambda>st q. ptr_tree st q (f S))"
      using folds_ptr [OF f l] w by (simp add: predicate_trees_def ptr_folds_def)
    fix q l1 assume 1: "arena_ext later l1" "ptr_tree l1 q (f S)"
    show "makes l1 (\<lambda>s. do { (tr, s) \<leftarrow> fold_trait_ref folder src (wp_trait_ref w) s; Some (\<lparr>wp_self_ty = q, wp_trait_ref = tr\<rparr>, s) })
      (\<lambda>st u. predicate_trees st u (f S, tr, map f As))"
    proof (rule makes_bind [OF fold_trait_ref_makes [OF ps(1) folds_ptrs [OF f arena_ext_trans [OF l 1(1)] ps(2)]]], rule makes_return)
      fix u :: trait_ref and l2 st
      assume 2: "arena_ext l1 l2" "tr_trait_sym u = tr_trait_sym (wp_trait_ref w) \<and> slice_trees l2 (tr_args u) (map f As)" "arena_ext l2 st"
      show "predicate_trees st \<lparr>wp_self_ty = q, wp_trait_ref = u\<rparr> (f S, tr, map f As)"
        using ptr_tree_ext [OF arena_ext_trans [OF 2(1,3)] 1(2)] slice_trees_ext [OF 2(3)] 2(2) w by (simp add: predicate_trees_def)
    qed
  qed
  then show ?thesis by (simp add: fold_where_predicate_def [abs_def])
qed

definition map_predicate :: "(ty_tree \<Rightarrow> ty_tree) \<Rightarrow> ty_tree \<times> trait_symbol \<times> ty_tree list \<Rightarrow> ty_tree \<times> trait_symbol \<times> ty_tree list" where
  "map_predicate f x = (f (fst x), fst (snd x), map f (snd (snd x)))"

lemma folds_env:
  assumes f: "folds base folder src f" and l: "arena_ext base later" and e: "env_trees src env xs"
  shows "makes later (fold_parameter_env folder src env)
    (\<lambda>st u. pe_solver_eligibility u = pe_solver_eligibility env \<and> env_trees st u (map (map_predicate f) xs))"
proof -
  obtain ws where ws: "get_predicates src (pe_where_clauses env) = Some ws" "list_all2 (predicate_trees src) ws xs"
    using e by (auto simp: env_trees_def)
  have "list_all2 (\<lambda>w x. makes later (fold_where_predicate folder src w) (\<lambda>st u. predicate_trees st u x)) ws (map (map_predicate f) xs)"
    unfolding list_all2_map2 using ws(2)
  proof (rule list_all2_mono)
    fix w x assume "predicate_trees src w x"
    then show "makes later (fold_where_predicate folder src w) (\<lambda>st u. predicate_trees st u (map_predicate f x))"
      using folds_predicate [OF f l] by (cases x) (simp add: map_predicate_def)
  qed
  then have m: "makes later (map_state (fold_where_predicate folder src) ws) (\<lambda>st us. list_all2 (predicate_trees st) us (map (map_predicate f) xs))"
    by (rule makes_map_state) (rule predicate_trees_ext)
  have "makes later (\<lambda>s. do { (us, s) \<leftarrow> map_state (fold_where_predicate folder src) ws s;
      (let (s, p) = alloc_predicates s us in Some (\<lparr>pe_where_clauses = p, pe_solver_eligibility = pe_solver_eligibility env\<rparr>, s)) })
    (\<lambda>st u. pe_solver_eligibility u = pe_solver_eligibility env \<and> env_trees st u (map (map_predicate f) xs))"
  proof (rule makes_bind [OF m])
    fix us l1 assume us: "list_all2 (predicate_trees l1) us (map (map_predicate f) xs)"
    have "\<exists>x tgt'. (let (s, p) = alloc_predicates tgt us in Some (\<lparr>pe_where_clauses = p, pe_solver_eligibility = pe_solver_eligibility env\<rparr>, s)) =
        Some (x, tgt') \<and> arena_ext tgt tgt' \<and> distinct tgt' \<and> pe_solver_eligibility x = pe_solver_eligibility env \<and>
        env_trees tgt' x (map (map_predicate f) xs)" if "arena_ext l1 tgt" "distinct tgt" for tgt
    proof -
      obtain t' p where a: "alloc_predicates tgt us = (t', p)" by fastforce
      then have t: "arena_ext tgt t'" "distinct t'" "get_predicates t' p = Some us"
        using that by (auto simp: alloc_predicates_def ir_access dest: arena_intern_ext arena_intern_get intro: arena_intern_distinct)
      have "list_all2 (predicate_trees t') us (map (map_predicate f) xs)"
        using us by (rule list_all2_mono) (rule predicate_trees_ext [OF arena_ext_trans [OF that(1) t(1)]])
      then show ?thesis using a t by (simp add: env_trees_def)
    qed
    then show "makes l1 (\<lambda>s. let (s, p) = alloc_predicates s us in Some (\<lparr>pe_where_clauses = p, pe_solver_eligibility = pe_solver_eligibility env\<rparr>, s))
      (\<lambda>st u. pe_solver_eligibility u = pe_solver_eligibility env \<and> env_trees st u (map (map_predicate f) xs))" by (rule makesI)
  qed
  then show ?thesis using ws(1) by (simp add: fold_parameter_env_def [abs_def])
qed


lemma folds_fn_sig:
  assumes f: "folds base folder src f" and sig: "sig_trees src sig O' Ps R Ws"
    and r: "fs_receiver sig \<noteq> None \<longrightarrow> O' \<noteq> None"
  shows "makes base (fold_fn_sig folder src sig) (\<lambda>st u. sig_trees st u (map_option f O') (map f Ps) (f R) (map (map_predicate f) Ws) \<and>
    fs_owner_generic_count u = fs_owner_generic_count sig \<and> map_option cr_form (fs_receiver u) = map_option cr_form (fs_receiver sig) \<and>
    pred_option (\<lambda>c. Some (cr_owner_self_ty c) = fs_owner_self_ty u) (fs_receiver u))"
    (is "makes _ _ ?P")
proof -
  let ?own = "\<lambda>s. case fs_owner_self_ty sig of None \<Rightarrow> Some (None, s)
    | Some p \<Rightarrow> do { (p, s) \<leftarrow> fold_ptr folder src p s; Some (Some p, s) }"
  let ?Q = "\<lambda>st u. rel_option (ptr_tree st) u (map_option f O')"
  note S = sig [unfolded sig_trees_def]
  have own: "makes base ?own ?Q"
  proof (cases O')
    case None
    then show ?thesis using S by (auto intro!: makes_return)
  next
    case (Some T)
    then obtain p where p: "fs_owner_self_ty sig = Some p" "ptr_tree src p T" using S by (cases "fs_owner_self_ty sig") auto
    show ?thesis unfolding p(1) option.case
      by (rule makes_ptr [OF folds_ptr [OF f arena_ext_refl p(2)]]) (simp add: Some)
  qed
  have "makes base (\<lambda>s. do { (own, s) \<leftarrow> ?own s; do {
      receiver \<leftarrow> (case fs_receiver sig of None \<Rightarrow> Some None
        | Some r \<Rightarrow> do { owner \<leftarrow> own; Some (Some \<lparr>cr_owner_self_ty = owner, cr_form = cr_form r\<rparr>) });
      (params, s) \<leftarrow> fold_ptr_slice folder src (fs_params sig) s;
      (ret, s) \<leftarrow> fold_ptr folder src (fs_ret sig) s;
      (env, s) \<leftarrow> fold_parameter_env folder src (fs_parameter_env sig) s;
      Some (sig\<lparr>fs_owner_self_ty := own, fs_receiver := receiver, fs_params := params, fs_ret := ret, fs_parameter_env := env\<rparr>, s) } }) ?P"
  proof (rule makes_bind [OF own])
    fix own l1 assume 1: "arena_ext base l1" "?Q l1 own"
    obtain receiver :: "checked_receiver option" where rc: "(case fs_receiver sig of None \<Rightarrow> Some None
        | Some r \<Rightarrow> do { owner \<leftarrow> own; Some (Some \<lparr>cr_owner_self_ty = owner, cr_form = cr_form r\<rparr>) }) = Some receiver"
      and rf: "map_option cr_form receiver = map_option cr_form (fs_receiver sig)"
      and ro: "pred_option (\<lambda>c. Some (cr_owner_self_ty c) = own) receiver"
      using r 1(2) by (cases "fs_receiver sig"; cases own; cases O') auto
    have "makes l1 (\<lambda>s. do { (params, s) \<leftarrow> fold_ptr_slice folder src (fs_params sig) s; do {
        (ret, s) \<leftarrow> fold_ptr folder src (fs_ret sig) s; do {
        (env, s) \<leftarrow> fold_parameter_env folder src (fs_parameter_env sig) s;
        Some (sig\<lparr>fs_owner_self_ty := own, fs_receiver := receiver, fs_params := params, fs_ret := ret, fs_parameter_env := env\<rparr>, s) } } }) ?P"
    proof (rule makes_bind [OF folds_slice [OF f 1(1)]])
      show "slice_trees src (fs_params sig) Ps" using S by blast
      fix params l2 assume 2: "arena_ext l1 l2" "slice_trees l2 params (map f Ps)"
      have b2: "arena_ext base l2" using arena_ext_trans [OF 1(1) 2(1)] .
      show "makes l2 (\<lambda>s. do { (ret, s) \<leftarrow> fold_ptr folder src (fs_ret sig) s; do {
        (env, s) \<leftarrow> fold_parameter_env folder src (fs_parameter_env sig) s;
        Some (sig\<lparr>fs_owner_self_ty := own, fs_receiver := receiver, fs_params := params, fs_ret := ret, fs_parameter_env := env\<rparr>, s) } }) ?P"
      proof (rule makes_bind)
        show "makes l2 (fold_ptr folder src (fs_ret sig)) (\<lambda>st q. ptr_tree st q (f R))"
          using folds_ptr [OF f b2] S by (simp add: ptr_folds_def)
        fix ret l3 assume 3: "arena_ext l2 l3" "ptr_tree l3 ret (f R)"
        have b3: "arena_ext base l3" using arena_ext_trans [OF b2 3(1)] .
        show "makes l3 (\<lambda>s. do { (env, s) \<leftarrow> fold_parameter_env folder src (fs_parameter_env sig) s;
          Some (sig\<lparr>fs_owner_self_ty := own, fs_receiver := receiver, fs_params := params, fs_ret := ret, fs_parameter_env := env\<rparr>, s) }) ?P"
        proof (rule makes_bind [OF folds_env [OF f b3]])
          show "env_trees src (fs_parameter_env sig) Ws" using S by blast
          fix env :: checked_parameter_env and l4
          assume 5: "arena_ext l3 l4" "pe_solver_eligibility env = pe_solver_eligibility (fs_parameter_env sig) \<and>
            env_trees l4 env (map (map_predicate f) Ws)"
          show "makes l4 (\<lambda>s. Some (sig\<lparr>fs_owner_self_ty := own, fs_receiver := receiver, fs_params := params, fs_ret := ret,
            fs_parameter_env := env\<rparr>, s)) ?P"
          proof (rule makes_return)
            fix st assume e: "arena_ext l4 st"
            have 4: "arena_ext l3 st" "arena_ext l2 st" "arena_ext l1 st"
              using arena_ext_trans [OF 5(1) e] arena_ext_trans 3(1) \<open>arena_ext l1 l2\<close> by blast+
            have "?Q st own" using 1(2) by (rule option.rel_mono_strong) (use ptr_tree_ext [OF 4(3)] in blast)
            then show "?P st (sig\<lparr>fs_owner_self_ty := own, fs_receiver := receiver, fs_params := params, fs_ret := ret, fs_parameter_env := env\<rparr>)"
              using slice_trees_ext [OF 4(2)] \<open>slice_trees l2 params (map f Ps)\<close> ptr_tree_ext [OF 4(1) 3(2)] env_trees_ext [OF e] 5(2) rf ro
              by (simp add: sig_trees_def)
          qed
        qed
      qed
    qed
    then show "makes l1 (\<lambda>s. do {
      receiver \<leftarrow> (case fs_receiver sig of None \<Rightarrow> Some None
        | Some r \<Rightarrow> do { owner \<leftarrow> own; Some (Some \<lparr>cr_owner_self_ty = owner, cr_form = cr_form r\<rparr>) });
      (params, s) \<leftarrow> fold_ptr_slice folder src (fs_params sig) s;
      (ret, s) \<leftarrow> fold_ptr folder src (fs_ret sig) s;
      (env, s) \<leftarrow> fold_parameter_env folder src (fs_parameter_env sig) s;
      Some (sig\<lparr>fs_owner_self_ty := own, fs_receiver := receiver, fs_params := params, fs_ret := ret, fs_parameter_env := env\<rparr>, s) }) ?P"
      unfolding rc by simp
  qed
  then show ?thesis by (simp add: fold_fn_sig_def [abs_def])
qed

text \<open>C40: Instantiating a function signature returns when it has an owner for its receiver: it only adds
  to the target arena, and in the owner type, the parameters, the result and the where clauses of the
  signature it gives, every type parameter of the binder is replaced by its argument.  The receiver
  keeps its form and refers to the new owner type.\<close>

theorem instantiate_fn_sig_denotes:
  assumes "get_generics src (bi_generics b) = Some params" and "distinct params"
    and "list_all2 (tree_of tgt) args As" and "distinct tgt"
    and "sig_trees src (bi_value b) own Ps R Ws" and "fs_receiver (bi_value b) \<noteq> None \<longrightarrow> own \<noteq> None"
  shows "\<exists>sig tgt'. instantiate_fn_sig src b args tgt = Some (sig, tgt') \<and> arena_ext tgt tgt' \<and>
    (let f = subst_tree (binder_subst params As) in
       sig_trees tgt' sig (map_option f own) (map f Ps) (f R) (map (map_predicate f) Ws)) \<and>
    map_option cr_form (fs_receiver sig) = map_option cr_form (fs_receiver (bi_value b)) \<and>
    pred_option (\<lambda>c. Some (cr_owner_self_ty c) = fs_owner_self_ty sig) (fs_receiver sig)"
proof -
  let ?s = "binder_subst params As"
  obtain subst where m: "build_type_subst_map src (bi_generics b) args = Some subst" and d: "denotes_subst tgt subst ?s"
    using build_denotes [OF assms(1-3)] by blast
  have "folds tgt (substitute_fold_ty subst src) src (subst_tree ?s)" using substitute_makes [OF d] by (simp add: folds_def)
  from folds_fn_sig [OF this assms(5,6)] obtain sig tgt' where
    "fold_fn_sig (substitute_fold_ty subst src) src (bi_value b) tgt = Some (sig, tgt')" "arena_ext tgt tgt'"
    "sig_trees tgt' sig (map_option (subst_tree ?s) own) (map (subst_tree ?s) Ps) (subst_tree ?s R) (map (map_predicate (subst_tree ?s)) Ws)"
    "map_option cr_form (fs_receiver sig) = map_option cr_form (fs_receiver (bi_value b))"
    "pred_option (\<lambda>c. Some (cr_owner_self_ty c) = fs_owner_self_ty sig) (fs_receiver sig)"
    using assms(4) unfolding makes_def by (metis arena_ext_refl)
  then show ?thesis using m by (simp add: instantiate_fn_sig_def Let_def)
qed

theorem instantiate_fn_sig_denotes_witness:
  "\<exists>sig tgt'. instantiate_fn_sig [ETy (TyParam (AlphaEquiv \<lparr>alpha_kind = KindType, alpha_index = 0\<rparr>)), ETyPtrs [0], EPredicates [],
       EGenerics [AlphaEquiv \<lparr>alpha_kind = KindType, alpha_index = 0\<rparr>]]
     \<lparr>bi_value = \<lparr>fs_owner_generic_count = 0, fs_owner_self_ty = None, fs_receiver = None, fs_params = 1, fs_ret = 0,
        fs_parameter_env = \<lparr>pe_where_clauses = 2, pe_solver_eligibility = Eligible\<rparr>,
        fs_method_candidate_eligibility = Eligible, fs_const_call_complete = True\<rparr>, bi_generics = 3\<rparr> [TyBool] [] = Some (sig, tgt') \<and>
     slice_trees tgt' (fs_params sig) [TNode SkBool []] \<and> ptr_tree tgt' (fs_ret sig) (TNode SkBool [])"
proof -
  let ?q = "AlphaEquiv \<lparr>alpha_kind = KindType, alpha_index = 0\<rparr>"
  let ?src = "[ETy (TyParam ?q), ETyPtrs [0], EPredicates [], EGenerics [?q]]"
  let ?sig = "\<lparr>fs_owner_generic_count = 0, fs_owner_self_ty = None, fs_receiver = None, fs_params = 1, fs_ret = 0,
        fs_parameter_env = \<lparr>pe_where_clauses = 2, pe_solver_eligibility = Eligible\<rparr>,
        fs_method_candidate_eligibility = Eligible, fs_const_call_complete = True\<rparr>"
  have t: "ptr_tree ?src 0 (TNode (SkParam ?q) [])"
    unfolding ptr_tree_def by (rule exI [of _ "TyParam ?q"]) (auto intro: tree_of_node simp: get_ty_def nth_opt_def leaf_def)
  then have s: "sig_trees ?src ?sig None [TNode (SkParam ?q) []] (TNode (SkParam ?q) []) []"
    by (simp add: sig_trees_def slice_trees_def env_trees_def get_tys_def get_predicates_def nth_opt_def)
  have b: "list_all2 (tree_of []) [TyBool] [TNode SkBool []]" by (auto intro: tree_of_node simp: leaf_def)
  have g: "get_generics ?src 3 = Some [?q]" by (simp add: get_generics_def nth_opt_def)
  let ?b = "\<lparr>bi_value = ?sig, bi_generics = 3\<rparr>"
  have "\<exists>sig tgt'. instantiate_fn_sig ?src ?b [TyBool] [] = Some (sig, tgt') \<and> arena_ext [] tgt' \<and>
    (let f = subst_tree (binder_subst [?q] [TNode SkBool []]) in
       sig_trees tgt' sig (map_option f None) (map f [TNode (SkParam ?q) []]) (f (TNode (SkParam ?q) [])) (map (map_predicate f) [])) \<and>
    map_option cr_form (fs_receiver sig) = map_option cr_form (fs_receiver (bi_value ?b)) \<and>
    pred_option (\<lambda>c. Some (cr_owner_self_ty c) = fs_owner_self_ty sig) (fs_receiver sig)"
    by (rule instantiate_fn_sig_denotes) (use g b s in simp_all)
  then show ?thesis by (auto simp: Let_def binder_subst_def sig_trees_def)
qed

end
