(* ===== verification/Traverse.thy ===== *)
theory Traverse
  imports Goals
begin

text \<open>
  The traversal that \<open>check/solve/canonical.rs\<close> (\<open>Canonicalizer\<close>) and \<open>check/solve/boundary.rs\<close>
  (\<open>IrCopier\<close>, \<open>ResponseExtractor\<close>) repeat: terms of a source arena are rebuilt in a target arena, with
  a renaming of the parameters bound on the way.  What differs is what they do at a type, at a const
  and with a bound parameter; these are the arguments \<open>cp\<close>, \<open>cc\<close> and \<open>fresh\<close>.  The state of a client
  extends the record \<open>threaded\<close>.
\<close>

record threaded =
  th_target :: ir
  th_binders :: "generic_param \<Rightarrow> generic_param option"

definition put :: "ir_entry \<Rightarrow> 'z threaded_scheme \<Rightarrow> nat \<times> 'z threaded_scheme" where
  "put e s = (let (st, p) = arena_intern (th_target s) e in (p, s\<lparr>th_target := st\<rparr>))"

type_synonym 'z copy_fun = "ptr \<Rightarrow> 'z threaded_scheme \<Rightarrow> (ptr \<times> 'z threaded_scheme) option"

type_synonym 'z const_fun = "const_ty \<Rightarrow> 'z threaded_scheme \<Rightarrow> (const_ty \<times> 'z threaded_scheme) option"

type_synonym 'z fresh_fun = "generic_param \<Rightarrow> 'z threaded_scheme \<Rightarrow> (generic_param \<times> 'z threaded_scheme) option"

section \<open>Types\<close>

definition copy_slice_with :: "'z copy_fun \<Rightarrow> ir \<Rightarrow> slice \<Rightarrow> 'z threaded_scheme \<Rightarrow> (slice \<times> 'z threaded_scheme) option" where
  "copy_slice_with cp src p s = do {
     source \<leftarrow> get_tys src p;
     (copied, s) \<leftarrow> map_state cp source s;
     Some (put (ETyPtrs copied) s) }"

definition copy_trait_ref_with :: "'z copy_fun \<Rightarrow> ir \<Rightarrow> trait_ref \<Rightarrow> 'z threaded_scheme \<Rightarrow> (trait_ref \<times> 'z threaded_scheme) option" where
  "copy_trait_ref_with cp src tr s = do {
     (args, s) \<leftarrow> copy_slice_with cp src (tr_args tr) s;
     Some (\<lparr>tr_trait_sym = tr_trait_sym tr, tr_args = args\<rparr>, s) }"

definition copy_alias_with :: "'z copy_fun \<Rightarrow> ir \<Rightarrow> alias_ty \<Rightarrow> 'z threaded_scheme \<Rightarrow> (alias_ty \<times> 'z threaded_scheme) option" where
  "copy_alias_with cp src a s = (case a of
     Named alias \<Rightarrow> do {
       (args, s) \<leftarrow> copy_slice_with cp src (na_args alias) s;
       Some (Named \<lparr>na_def = na_def alias, na_args = args\<rparr>, s) }
   | Associated projection \<Rightarrow> do {
       (self_ty, s) \<leftarrow> cp (pr_self_ty projection) s;
       (tr, s) \<leftarrow> copy_trait_ref_with cp src (pr_trait_ref projection) s;
       (args, s) \<leftarrow> copy_slice_with cp src (pr_args projection) s;
       Some (Associated \<lparr>pr_associated_ty = pr_associated_ty projection, pr_self_ty = self_ty,
         pr_trait_ref = tr, pr_args = args\<rparr>, s) }
   | Opaque alias \<Rightarrow> do {
       (args, s) \<leftarrow> copy_slice_with cp src (oa_args alias) s;
       Some (Opaque \<lparr>oa_def = oa_def alias, oa_args = args\<rparr>, s) })"

text \<open>The arms of the \<open>match\<close> that rebuild a compound type; the other types are copied as they are.\<close>

definition copy_compound_with :: "'z copy_fun \<Rightarrow> 'z const_fun \<Rightarrow> ir \<Rightarrow> ty \<Rightarrow> 'z threaded_scheme \<Rightarrow> (ty \<times> 'z threaded_scheme) option" where
  "copy_compound_with cp cc src t s = (case t of
     TyAdt symbol args \<Rightarrow> do { (args, s) \<leftarrow> copy_slice_with cp src args s; Some (TyAdt symbol args, s) }
   | TyAlias alias \<Rightarrow> do { (alias, s) \<leftarrow> copy_alias_with cp src alias s; Some (TyAlias alias, s) }
   | TyRef inner m lt \<Rightarrow> do { (inner, s) \<leftarrow> cp inner s; Some (TyRef inner m lt, s) }
   | TyTuple elements \<Rightarrow> do { (elements, s) \<leftarrow> copy_slice_with cp src elements s; Some (TyTuple elements, s) }
   | TySlice inner \<Rightarrow> do { (inner, s) \<leftarrow> cp inner s; Some (TySlice inner, s) }
   | TyArray inner constant \<Rightarrow> do {
       (inner, s) \<leftarrow> cp inner s;
       (constant, s) \<leftarrow> cc constant s;
       Some (TyArray inner constant, s) }
   | TyFnPtr parameters result \<Rightarrow> do {
       (parameters, s) \<leftarrow> copy_slice_with cp src parameters s;
       (result, s) \<leftarrow> cp result s;
       Some (TyFnPtr parameters result, s) }
   | _ \<Rightarrow> Some (t, s))"

section \<open>Predicates, atoms and outputs\<close>

definition copy_predicate_with :: "'z copy_fun \<Rightarrow> ir \<Rightarrow> where_predicate \<Rightarrow> 'z threaded_scheme \<Rightarrow> (where_predicate \<times> 'z threaded_scheme) option" where
  "copy_predicate_with cp src w s = do {
     (self_ty, s) \<leftarrow> cp (wp_self_ty w) s;
     (tr, s) \<leftarrow> copy_trait_ref_with cp src (wp_trait_ref w) s;
     Some (\<lparr>wp_self_ty = self_ty, wp_trait_ref = tr\<rparr>, s) }"

definition copy_atom_with :: "'z copy_fun \<Rightarrow> ir \<Rightarrow> atom \<Rightarrow> 'z threaded_scheme \<Rightarrow> (atom \<times> 'z threaded_scheme) option" where
  "copy_atom_with cp src a s = (case a of
     AtomTraitImpl self_ty tr \<Rightarrow> do {
       (self_ty, s) \<leftarrow> cp self_ty s;
       (tr, s) \<leftarrow> copy_trait_ref_with cp src tr s;
       Some (AtomTraitImpl self_ty tr, s) }
   | AtomEquals left right \<Rightarrow> do {
       (left, s) \<leftarrow> cp left s;
       (right, s) \<leftarrow> cp right s;
       Some (AtomEquals left right, s) })"

definition copy_output_with :: "'z copy_fun \<Rightarrow> goal_output \<Rightarrow> 'z threaded_scheme \<Rightarrow> (goal_output \<times> 'z threaded_scheme) option" where
  "copy_output_with cp out s = (case out of
     Proven \<Rightarrow> Some (Proven, s)
   | OutputType t \<Rightarrow> do { (t, s) \<leftarrow> cp t s; Some (OutputType t, s) })"

section \<open>Binders\<close>

fun enter_binder ::
  "'z fresh_fun \<Rightarrow> generic_param list \<Rightarrow> 'z threaded_scheme \<Rightarrow>
     (((generic_param \<times> generic_param option) list \<times> generic_param list) \<times> 'z threaded_scheme) option" where
  "enter_binder fresh [] s = Some (([], []), s)"
| "enter_binder fresh (source # ps) s = do {
     (target, s) \<leftarrow> fresh source s;
     let previous = th_binders s source;
     let s = s\<lparr>th_binders := (th_binders s)(source \<mapsto> target)\<rparr>;
     ((saved, targets), s) \<leftarrow> enter_binder fresh ps s;
     Some (((source, previous) # saved, target # targets), s) }"

definition leave_binder :: "(generic_param \<times> generic_param option) list \<Rightarrow> 'z threaded_scheme \<Rightarrow> 'z threaded_scheme" where
  "leave_binder saved s =
     fold (\<lambda>(source, previous) s. s\<lparr>th_binders := (th_binders s)(source := previous)\<rparr>) (rev saved) s"

section \<open>Goals and assumptions\<close>

fun as_goal :: "formula \<Rightarrow> goal option" where
  "as_goal (FGoal g) = Some g"
| "as_goal (FAssumption _) = None"

fun as_assumption :: "formula \<Rightarrow> assumption option" where
  "as_assumption (FAssumption a) = Some a"
| "as_assumption (FGoal _) = None"

definition put_all :: "goal list \<Rightarrow> 'z threaded_scheme \<Rightarrow> (goal \<times> 'z threaded_scheme) option" where
  "put_all gs s = do { (g, st) \<leftarrow> goal_all (th_target s) gs; Some (g, s\<lparr>th_target := st\<rparr>) }"

definition put_flat :: "assumption list \<Rightarrow> 'z threaded_scheme \<Rightarrow> (slice \<times> 'z threaded_scheme) option" where
  "put_flat xs s = do { (p, st) \<leftarrow> flatten_assumptions (th_target s) xs; Some (p, s\<lparr>th_target := st\<rparr>) }"

text \<open>\<open>cg\<close> and \<open>ca\<close> are the recursive calls on goals and on assumptions.\<close>

definition copy_assumptions_step ::
  "(assumption \<Rightarrow> 'z threaded_scheme \<Rightarrow> (assumption \<times> 'z threaded_scheme) option) \<Rightarrow> ir \<Rightarrow> slice \<Rightarrow>
     'z threaded_scheme \<Rightarrow> (slice \<times> 'z threaded_scheme) option" where
  "copy_assumptions_step ca src p s = do {
     source \<leftarrow> get_assumptions src p;
     (copied, s) \<leftarrow> map_state ca source s;
     put_flat copied s }"

definition copy_goal_step ::
  "'z copy_fun \<Rightarrow> 'z fresh_fun \<Rightarrow> ir \<Rightarrow>
     (goal \<Rightarrow> 'z threaded_scheme \<Rightarrow> (goal \<times> 'z threaded_scheme) option) \<Rightarrow>
     (assumption \<Rightarrow> 'z threaded_scheme \<Rightarrow> (assumption \<times> 'z threaded_scheme) option) \<Rightarrow>
     goal \<Rightarrow> 'z threaded_scheme \<Rightarrow> (goal \<times> 'z threaded_scheme) option" where
  "copy_goal_step cp fresh src cg ca g s = (case g of
     GoalExists b \<Rightarrow> do {
       source_generics \<leftarrow> get_generics src (bi_generics b);
       ((saved, target_generics), s) \<leftarrow> enter_binder fresh source_generics s;
       g \<leftarrow> get_goal src (bi_value b);
       (g, s) \<leftarrow> cg g s;
       let s = leave_binder saved s;
       let (p, s) = put (EGoal g) s;
       let (q, s) = put (EGenerics target_generics) s;
       Some (GoalExists \<lparr>bi_value = p, bi_generics = q\<rparr>, s) }
   | GoalImplies assumptions inner \<Rightarrow> do {
       (assumptions, s) \<leftarrow> copy_assumptions_step ca src assumptions s;
       g \<leftarrow> get_goal src inner;
       (g, s) \<leftarrow> cg g s;
       let (p, s) = put (EGoal g) s;
       Some (GoalImplies assumptions p, s) }
   | GoalAll goals \<Rightarrow> do {
       source \<leftarrow> get_goals src goals;
       (copied, s) \<leftarrow> map_state cg source s;
       put_all copied s }
   | GoalAtom a \<Rightarrow> do { (a, s) \<leftarrow> copy_atom_with cp src a s; Some (GoalAtom a, s) }
   | GoalMaybe \<Rightarrow> Some (GoalMaybe, s))"

definition copy_assumption_step ::
  "'z copy_fun \<Rightarrow> ir \<Rightarrow>
     (goal \<Rightarrow> 'z threaded_scheme \<Rightarrow> (goal \<times> 'z threaded_scheme) option) \<Rightarrow>
     (assumption \<Rightarrow> 'z threaded_scheme \<Rightarrow> (assumption \<times> 'z threaded_scheme) option) \<Rightarrow>
     assumption \<Rightarrow> 'z threaded_scheme \<Rightarrow> (assumption \<times> 'z threaded_scheme) option" where
  "copy_assumption_step cp src cg ca a s = (case a of
     AsmTraitImpl self_ty tr \<Rightarrow> do {
       (self_ty, s) \<leftarrow> cp self_ty s;
       (tr, s) \<leftarrow> copy_trait_ref_with cp src tr s;
       Some (AsmTraitImpl self_ty tr, s) }
   | AsmNormalizesTo alias t \<Rightarrow> do {
       (alias, s) \<leftarrow> copy_alias_with cp src alias s;
       (t, s) \<leftarrow> cp t s;
       Some (AsmNormalizesTo alias t, s) }
   | AsmImplies conditions consequence \<Rightarrow> do {
       source \<leftarrow> get_goals src conditions;
       (copied, s) \<leftarrow> map_state cg source s;
       let (conditions, s) = put (EGoals copied) s;
       w \<leftarrow> get_predicate src consequence;
       (w, s) \<leftarrow> copy_predicate_with cp src w s;
       let (p, s) = put (EPredicate w) s;
       Some (AsmImplies conditions p, s) }
   | AsmAll items \<Rightarrow> do {
       (items, s) \<leftarrow> copy_assumptions_step ca src items s;
       Some (AsmAll items, s) })"

text \<open>The two recursive functions are one function on formulas; it maps a goal to a goal and an
  assumption to an assumption (\<open>copy_goal_unfold\<close> and \<open>copy_assumption_unfold\<close> below).\<close>

definition via_goal ::
  "(formula \<Rightarrow> 's \<Rightarrow> (formula \<times> 's) option) \<Rightarrow> goal \<Rightarrow> 's \<Rightarrow> (goal \<times> 's) option" where
  "via_goal cf g s = do { (v, s) \<leftarrow> cf (FGoal g) s; g \<leftarrow> as_goal v; Some (g, s) }"

definition via_assumption ::
  "(formula \<Rightarrow> 's \<Rightarrow> (formula \<times> 's) option) \<Rightarrow> assumption \<Rightarrow> 's \<Rightarrow> (assumption \<times> 's) option" where
  "via_assumption cf a s = do { (v, s) \<leftarrow> cf (FAssumption a) s; a \<leftarrow> as_assumption v; Some (a, s) }"

section \<open>Monotonicity\<close>

lemma mono_copy_slice_with [partial_function_mono]:
  assumes "\<And>p s. mono_option (\<lambda>f. F f p s)"
  shows "mono_option (\<lambda>f. copy_slice_with (F f) src p s)"
  unfolding copy_slice_with_def by (intro bind_mono mono_map_state option.const_mono mono_bind_pair assms)

lemma mono_copy_trait_ref_with [partial_function_mono]:
  assumes "\<And>p s. mono_option (\<lambda>f. F f p s)"
  shows "mono_option (\<lambda>f. copy_trait_ref_with (F f) src tr s)"
  unfolding copy_trait_ref_with_def by (intro mono_bind_pair mono_copy_slice_with option.const_mono assms)

lemma mono_copy_alias_with [partial_function_mono]:
  assumes "\<And>p s. mono_option (\<lambda>f. F f p s)"
  shows "mono_option (\<lambda>f. copy_alias_with (F f) src a s)"
  unfolding copy_alias_with_def
  by (cases a) (auto intro!: mono_bind_pair mono_copy_slice_with mono_copy_trait_ref_with option.const_mono assms)

lemma mono_copy_compound_with [partial_function_mono]:
  assumes "\<And>p s. mono_option (\<lambda>f. F f p s)"
  shows "mono_option (\<lambda>f. copy_compound_with (F f) cc src t s)"
  unfolding copy_compound_with_def
  by (cases t) (auto intro!: mono_bind_pair mono_copy_slice_with mono_copy_alias_with option.const_mono assms)

lemma mono_via [partial_function_mono]:
  assumes "\<And>x s. mono_option (\<lambda>f. F f x s)"
  shows "mono_option (\<lambda>f. via_goal (F f) g s)" and "mono_option (\<lambda>f. via_assumption (F f) a s)"
  unfolding via_goal_def via_assumption_def by (intro mono_bind_pair bind_mono option.const_mono assms)+

lemma mono_copy_assumptions_step:
  assumes "\<And>x s. mono_option (\<lambda>f. A f x s)"
  shows "mono_option (\<lambda>f. copy_assumptions_step (A f) src p s)"
  unfolding copy_assumptions_step_def
  by (intro bind_mono mono_map_state option.const_mono mono_bind_pair assms)

lemma mono_let: "(\<And>x y. mono_option (\<lambda>f. C x y f)) \<Longrightarrow> mono_option (\<lambda>f. let (x, y) = m in C x y f)"
  by (cases m) simp

lemma mono_copy_goal_step [partial_function_mono]:
  assumes "\<And>x s. mono_option (\<lambda>f. G f x s)" and "\<And>x s. mono_option (\<lambda>f. A f x s)"
  shows "mono_option (\<lambda>f. copy_goal_step cp fresh src (G f) (A f) g s)"
proof (cases g)
  case (GoalExists b)
  show ?thesis unfolding copy_goal_step_def GoalExists goal.case
    by (intro bind_mono option.const_mono) (auto split: prod.split intro!: bind_mono mono_bind_pair option.const_mono assms)
qed (auto simp: copy_goal_step_def intro!: bind_mono mono_bind_pair mono_map_state mono_copy_assumptions_step option.const_mono assms)

lemma mono_copy_assumption_step [partial_function_mono]:
  assumes "\<And>x s. mono_option (\<lambda>f. G f x s)" and "\<And>x s. mono_option (\<lambda>f. A f x s)"
  shows "mono_option (\<lambda>f. copy_assumption_step cp src (G f) (A f) a s)"
  unfolding copy_assumption_step_def
  by (cases a) (auto intro!: bind_mono mono_bind_pair mono_map_state mono_copy_assumptions_step option.const_mono assms)

section \<open>The recursion\<close>

partial_function (option) copy_formula_with ::
  "'z copy_fun \<Rightarrow> 'z fresh_fun \<Rightarrow> ir \<Rightarrow> formula \<Rightarrow> 'z threaded_scheme \<Rightarrow> (formula \<times> 'z threaded_scheme) option" where
  "copy_formula_with cp fresh src x s = (case x of
     FGoal g \<Rightarrow> do {
       (g, s) \<leftarrow> copy_goal_step cp fresh src (via_goal (copy_formula_with cp fresh src))
         (via_assumption (copy_formula_with cp fresh src)) g s;
       Some (FGoal g, s) }
   | FAssumption a \<Rightarrow> do {
       (a, s) \<leftarrow> copy_assumption_step cp src (via_goal (copy_formula_with cp fresh src))
         (via_assumption (copy_formula_with cp fresh src)) a s;
       Some (FAssumption a, s) })"

definition copy_goal_with :: "'z copy_fun \<Rightarrow> 'z fresh_fun \<Rightarrow> ir \<Rightarrow> goal \<Rightarrow> 'z threaded_scheme \<Rightarrow> (goal \<times> 'z threaded_scheme) option" where
  "copy_goal_with cp fresh src = via_goal (copy_formula_with cp fresh src)"

definition copy_assumption_with ::
  "'z copy_fun \<Rightarrow> 'z fresh_fun \<Rightarrow> ir \<Rightarrow> assumption \<Rightarrow> 'z threaded_scheme \<Rightarrow> (assumption \<times> 'z threaded_scheme) option" where
  "copy_assumption_with cp fresh src = via_assumption (copy_formula_with cp fresh src)"

definition copy_assumption_slice_with ::
  "'z copy_fun \<Rightarrow> 'z fresh_fun \<Rightarrow> ir \<Rightarrow> slice \<Rightarrow> 'z threaded_scheme \<Rightarrow> (slice \<times> 'z threaded_scheme) option" where
  "copy_assumption_slice_with cp fresh src = copy_assumptions_step (copy_assumption_with cp fresh src) src"

definition copy_solver_goal_with ::
  "'z copy_fun \<Rightarrow> 'z fresh_fun \<Rightarrow> ir \<Rightarrow> solver_goal \<Rightarrow> 'z threaded_scheme \<Rightarrow> (solver_goal \<times> 'z threaded_scheme) option" where
  "copy_solver_goal_with cp fresh src g s = (case g of
     Prove goal \<Rightarrow> do { (goal, s) \<leftarrow> copy_goal_with cp fresh src goal s; Some (Prove goal, s) }
   | Normalize alias \<Rightarrow> do { (alias, s) \<leftarrow> copy_alias_with cp src alias s; Some (Normalize alias, s) })"

declare copy_formula_with.simps [simp del, code]

lemma copy_goal_unfold:
  "copy_goal_with cp fresh src g s =
     copy_goal_step cp fresh src (copy_goal_with cp fresh src) (copy_assumption_with cp fresh src) g s"
  unfolding copy_goal_with_def copy_assumption_with_def via_goal_def [of _ g] copy_formula_with.simps [of cp fresh src "FGoal g"]
  by (cases "copy_goal_step cp fresh src (via_goal (copy_formula_with cp fresh src)) (via_assumption (copy_formula_with cp fresh src)) g s") auto

lemma copy_assumption_unfold:
  "copy_assumption_with cp fresh src a s =
     copy_assumption_step cp src (copy_goal_with cp fresh src) (copy_assumption_with cp fresh src) a s"
  unfolding copy_goal_with_def copy_assumption_with_def via_assumption_def [of _ a] copy_formula_with.simps [of cp fresh src "FAssumption a"]
  by (cases "copy_assumption_step cp src (via_goal (copy_formula_with cp fresh src)) (via_assumption (copy_formula_with cp fresh src)) a s") auto

end
