(* ===== verification/Boundary.thy ===== *)
theory Boundary
  imports Traverse Unify
begin

text \<open>
  \<open>check/solve/boundary.rs\<close>: a canonical query is imported into a fresh proof state, the answer of the
  proof is extracted into a self-contained response, and a response is applied to its caller in one
  transaction.
\<close>

section \<open>Copying between arenas\<close>

text \<open>\<open>IrCopier\<close>; \<open>co_fresh\<close> is the next number for a bound parameter, when binders are renamed.\<close>

record copier = threaded +
  co_type_mapping :: "generic_param \<Rightarrow> ptr option"
  co_fresh_binders :: "nat option"

definition copier_new :: "ir \<Rightarrow> (generic_param \<Rightarrow> ptr option) \<Rightarrow> nat option \<Rightarrow> copier" where
  "copier_new target mapping fresh =
     \<lparr>th_target = target, th_binders = Map.empty, co_type_mapping = mapping, co_fresh_binders = fresh\<rparr>"

definition next_fresh_binder :: "copier \<Rightarrow> nat option" where
  "next_fresh_binder s = co_fresh_binders s"

definition copier_fresh :: "generic_param \<Rightarrow> copier \<Rightarrow> (generic_param \<times> copier) option" where
  "copier_fresh source s = (case co_fresh_binders s of
     Some n \<Rightarrow> do {
       check (n + 1 < 2 ^ 32);
       Some (AlphaEquiv \<lparr>alpha_kind = param_kind source, alpha_index = n\<rparr>, s\<lparr>co_fresh_binders := Some (n + 1)\<rparr>) }
   | None \<Rightarrow> Some (source, s))"

definition renamed_param :: "'z threaded_scheme \<Rightarrow> generic_param \<Rightarrow> generic_param" where
  "renamed_param s p = (case th_binders s p of Some q \<Rightarrow> q | None \<Rightarrow> p)"

definition copier_const :: "const_ty \<Rightarrow> 'z threaded_scheme \<Rightarrow> (const_ty \<times> 'z threaded_scheme) option" where
  "copier_const c s = Some (case c of ConstParam p \<Rightarrow> ConstParam (renamed_param s p) | other \<Rightarrow> other, s)"

partial_function (option) copier_copy_ty :: "ir \<Rightarrow> ptr \<Rightarrow> copier \<Rightarrow> (ptr \<times> copier) option" where
  "copier_copy_ty src p s = do {
     t \<leftarrow> get_ty src p;
     case (case t of TyParam q \<Rightarrow> co_type_mapping s q | _ \<Rightarrow> None) of
       Some mapped \<Rightarrow> Some (mapped, s)
     | None \<Rightarrow> do {
         (copied, s) \<leftarrow> (case t of
             TyParam q \<Rightarrow> Some (TyParam (renamed_param s q), s)
           | _ \<Rightarrow> copy_compound_with (copier_copy_ty src) copier_const src t s);
         Some (put (ETy copied) s) } }"

definition copier_copy_alias :: "ir \<Rightarrow> alias_ty \<Rightarrow> copier \<Rightarrow> (alias_ty \<times> copier) option" where
  "copier_copy_alias src = copy_alias_with (copier_copy_ty src) src"

definition copier_copy_trait_ref :: "ir \<Rightarrow> trait_ref \<Rightarrow> copier \<Rightarrow> (trait_ref \<times> copier) option" where
  "copier_copy_trait_ref src = copy_trait_ref_with (copier_copy_ty src) src"

definition copier_copy_predicate :: "ir \<Rightarrow> where_predicate \<Rightarrow> copier \<Rightarrow> (where_predicate \<times> copier) option" where
  "copier_copy_predicate src = copy_predicate_with (copier_copy_ty src) src"

definition copier_copy_ty_slice :: "ir \<Rightarrow> slice \<Rightarrow> copier \<Rightarrow> (slice \<times> copier) option" where
  "copier_copy_ty_slice src = copy_slice_with (copier_copy_ty src) src"

definition copier_copy_atom :: "ir \<Rightarrow> atom \<Rightarrow> copier \<Rightarrow> (atom \<times> copier) option" where
  "copier_copy_atom src = copy_atom_with (copier_copy_ty src) src"

definition copier_copy_output :: "ir \<Rightarrow> goal_output \<Rightarrow> copier \<Rightarrow> (goal_output \<times> copier) option" where
  "copier_copy_output src = copy_output_with (copier_copy_ty src)"

definition copier_copy_goal :: "ir \<Rightarrow> goal \<Rightarrow> copier \<Rightarrow> (goal \<times> copier) option" where
  "copier_copy_goal src = copy_goal_with (copier_copy_ty src) copier_fresh src"

definition copier_copy_assumption :: "ir \<Rightarrow> assumption \<Rightarrow> copier \<Rightarrow> (assumption \<times> copier) option" where
  "copier_copy_assumption src = copy_assumption_with (copier_copy_ty src) copier_fresh src"

definition copier_copy_assumption_slice :: "ir \<Rightarrow> slice \<Rightarrow> copier \<Rightarrow> (slice \<times> copier) option" where
  "copier_copy_assumption_slice src = copy_assumption_slice_with (copier_copy_ty src) copier_fresh src"

definition copier_copy_solver_goal :: "ir \<Rightarrow> solver_goal \<Rightarrow> copier \<Rightarrow> (solver_goal \<times> copier) option" where
  "copier_copy_solver_goal src = copy_solver_goal_with (copier_copy_ty src) copier_fresh src"

definition copier_copy_substitution ::
  "ir \<Rightarrow> slice \<Rightarrow> copier \<Rightarrow> ((alpha_equiv_param \<times> ptr) list \<times> copier) option" where
  "copier_copy_substitution src p s = do {
     entries \<leftarrow> get_subst src p;
     map_state (\<lambda>entry s. do { (v, s) \<leftarrow> copier_copy_ty src (se_value entry) s; Some ((se_key entry, v), s) }) entries s }"

section \<open>Importing a query\<close>

record input_instance =
  ii_param :: alpha_equiv_param
  ii_role :: canonical_var_role
  ii_domain :: infer_domain
  ii_universe :: universe
  ii_ty :: ptr

record query_proof_state =
  ps_stash :: ir
  ps_egraph :: egraph
  ps_version :: version
  ps_inputs :: "input_instance list"
  ps_assumptions :: slice
  ps_assumptions_complete :: bool
  ps_local_crate :: nat
  ps_goal :: solver_goal
  ps_canonical_universe :: universe
  ps_next_response_param :: nat

type_synonym import_state = "ir \<times> egraph \<times> (generic_param \<Rightarrow> ptr option) \<times> input_instance list"

definition import_input :: "canonical_var_info \<Rightarrow> import_state \<Rightarrow> import_state option" where
  "import_input info s = (case s of (stash, g, type_mapping, inputs) \<Rightarrow> do {
     let universe = cv_relative_universe info;
     let generic = AlphaEquiv (cv_param info);
     (g, (stash, t)) \<leftarrow> (case cv_role info of
         RigidPlaceholder \<Rightarrow> do {
           g \<leftarrow> register_placeholder g generic universe;
           Some (g, alloc_ty stash (TyParam generic)) }
       | ExistentialInput \<Rightarrow> do {
           check (cv_kind info = KindType);
           (g, index) \<leftarrow> alloc_var_in_domain g ROOT universe (cv_domain info);
           Some (g, alloc_ty stash (TyInferVar index)) });
     Some (stash, g, type_mapping(generic \<mapsto> t),
       inputs @ [\<lparr>ii_param = cv_param info, ii_role = cv_role info, ii_domain = cv_domain info,
         ii_universe = universe, ii_ty = t\<rparr>]) })"

definition instantiate_query :: "ir \<times> goal_query_data \<Rightarrow> query_proof_state option" where
  "instantiate_query query = (case query of (source, data) \<Rightarrow> do {
     canonical_vars \<leftarrow> get_canonical_vars source (gq_canonical_vars data);
     (stash, g, type_mapping, inputs) \<leftarrow> fold_state import_input canonical_vars ([], egraph_new, Map.empty, []);
     let copier = copier_new stash type_mapping None;
     (assumptions, copier) \<leftarrow> copier_copy_assumption_slice source (gq_assumptions data) copier;
     (goal, copier) \<leftarrow> copier_copy_solver_goal source (gq_goal data) copier;
     Some \<lparr>ps_stash = th_target copier, ps_egraph = g, ps_version = ROOT, ps_inputs = inputs, ps_assumptions = assumptions,
       ps_assumptions_complete = gq_assumptions_complete data, ps_local_crate = gq_local_crate data, ps_goal = goal,
       ps_canonical_universe = gq_canonical_universe data, ps_next_response_param = gq_next_response_param data\<rparr> })"

section \<open>Extracting a response\<close>

record extractor = threaded +
  ex_input_indices :: "infer_var_index \<Rightarrow> alpha_equiv_param option"
  ex_class_inputs :: "ptr \<Rightarrow> alpha_equiv_param option"
  ex_response_params :: "infer_var_index \<Rightarrow> alpha_equiv_param option"
  ex_response_vars :: "response_var_info list"
  ex_next_response_param :: nat

definition register_input :: "query_proof_state \<Rightarrow> version \<Rightarrow> input_instance \<Rightarrow> extractor \<Rightarrow> extractor option" where
  "register_input state v input x = (if ii_role input \<noteq> ExistentialInput then Some x
     else do {
       t \<leftarrow> get_ty (ps_stash state) (ii_ty input);
       index \<leftarrow> infer_var_of t;
       let x = x\<lparr>ex_input_indices := (ex_input_indices x)(index \<mapsto> ii_param input)\<rparr>;
       root \<leftarrow> find (ps_egraph state) v (ii_ty input);
       tr \<leftarrow> get_ty (ps_stash state) root;
       case infer_var_of tr of
         None \<Rightarrow> Some x
       | Some root_index \<Rightarrow> do {
           d \<leftarrow> effective_domain (ps_egraph state) (ps_stash state) v root;
           if d = Some (ii_domain input) then do {
             u \<leftarrow> current_universe (ps_egraph state) v root_index;
             Some (if u = ii_universe input \<and> ex_class_inputs x root = None
               then x\<lparr>ex_class_inputs := (ex_class_inputs x)(root \<mapsto> ii_param input)\<rparr> else x) }
           else Some x } })"

definition extractor_new :: "query_proof_state \<Rightarrow> version \<Rightarrow> extractor option" where
  "extractor_new state v = fold_state (register_input state v) (ps_inputs state)
     \<lparr>th_target = [], th_binders = Map.empty, ex_input_indices = Map.empty, ex_class_inputs = Map.empty,
      ex_response_params = Map.empty, ex_response_vars = [], ex_next_response_param = ps_next_response_param state\<rparr>"

definition extractor_fresh :: "generic_param \<Rightarrow> extractor \<Rightarrow> (generic_param \<times> extractor) option" where
  "extractor_fresh source x = do {
     let n = ex_next_response_param x;
     check (n + 1 < 2 ^ 32);
     Some (AlphaEquiv \<lparr>alpha_kind = param_kind source, alpha_index = n\<rparr>, x\<lparr>ex_next_response_param := n + 1\<rparr>) }"

text \<open>The parameter of an unresolved class that is no input: the same one at every occurrence.\<close>

definition response_param ::
  "query_proof_state \<Rightarrow> version \<Rightarrow> ptr \<Rightarrow> infer_var_index \<Rightarrow> extractor \<Rightarrow> (alpha_equiv_param \<times> extractor) option" where
  "response_param state v root index x = (case ex_response_params x index of
     Some param \<Rightarrow> Some (param, x)
   | None \<Rightarrow> do {
       let n = ex_next_response_param x;
       let param = \<lparr>alpha_kind = KindType, alpha_index = n\<rparr>;
       check (n + 1 < 2 ^ 32);
       u \<leftarrow> current_universe (ps_egraph state) v index;
       d \<leftarrow> effective_domain (ps_egraph state) (ps_stash state) v root;
       domain \<leftarrow> d;
       Some (param, x\<lparr>ex_next_response_param := n + 1,
         ex_response_params := (ex_response_params x)(index \<mapsto> param),
         ex_response_vars := ex_response_vars x @ [\<lparr>rv_param = param, rv_kind = KindType, rv_relative_universe = u, rv_domain = domain\<rparr>]\<rparr>) })"

text \<open>The two early returns of \<open>copy_ty\<close>: the class of an input is copied as that input's parameter.\<close>

definition class_param :: "query_proof_state \<Rightarrow> version \<Rightarrow> ptr \<Rightarrow> extractor \<Rightarrow> alpha_equiv_param option option" where
  "class_param state v p x = do {
     t \<leftarrow> get_ty (ps_stash state) p;
     root \<leftarrow> find (ps_egraph state) v p;
     tr \<leftarrow> get_ty (ps_stash state) root;
     let own = (case infer_var_of t of
         Some index \<Rightarrow> (case ex_input_indices x index of
             Some param \<Rightarrow> if is_infer_var tr \<and> ex_class_inputs x root = Some param then Some param else None
           | None \<Rightarrow> None)
       | None \<Rightarrow> None);
     Some (case own of
         Some param \<Rightarrow> Some param
       | None \<Rightarrow> if is_infer_var tr then ex_class_inputs x root else None) }"

text \<open>\<open>cp\<close> is the recursive call.\<close>

definition extractor_copy_root ::
  "query_proof_state \<Rightarrow> version \<Rightarrow> (ptr \<Rightarrow> extractor \<Rightarrow> (ptr \<times> extractor) option) \<Rightarrow> ptr \<Rightarrow> ty \<Rightarrow> extractor \<Rightarrow> (ty \<times> extractor) option" where
  "extractor_copy_root state v cp root t x = (case t of
     TyParam q \<Rightarrow> Some (TyParam (renamed_param x q), x)
   | TyInferVar index \<Rightarrow> do {
       (param, x) \<leftarrow> response_param state v root index x;
       Some (TyParam (AlphaEquiv param), x) }
   | _ \<Rightarrow> copy_compound_with cp copier_const (ps_stash state) t x)"

lemma mono_extractor_copy_root [partial_function_mono]:
  assumes "\<And>p s. mono_option (\<lambda>f. F f p s)"
  shows "mono_option (\<lambda>f. extractor_copy_root state v (F f) root t x)"
  unfolding extractor_copy_root_def
  by (cases t) (auto intro!: mono_copy_compound_with option.const_mono assms)

partial_function (option) extractor_copy_ty ::
  "query_proof_state \<times> version \<Rightarrow> ptr \<Rightarrow> extractor \<Rightarrow> (ptr \<times> extractor) option" where
  "extractor_copy_ty sv p x = do {
     c \<leftarrow> class_param (fst sv) (snd sv) p x;
     case c of
       Some param \<Rightarrow> Some (put (ETy (TyParam (AlphaEquiv param))) x)
     | None \<Rightarrow> do {
         root \<leftarrow> find (ps_egraph (fst sv)) (snd sv) p;
         t \<leftarrow> get_ty (ps_stash (fst sv)) root;
         (copied, x) \<leftarrow> extractor_copy_root (fst sv) (snd sv) (extractor_copy_ty sv) root t x;
         Some (put (ETy copied) x) } }"

definition extract_entry ::
  "query_proof_state \<Rightarrow> version \<Rightarrow> input_instance \<Rightarrow> subst_entry list \<times> extractor \<Rightarrow> (subst_entry list \<times> extractor) option" where
  "extract_entry state v input s = (case s of (entries, x) \<Rightarrow>
     if ii_role input \<noteq> ExistentialInput then Some s
     else do {
       (val, x) \<leftarrow> extractor_copy_ty (state, v) (ii_ty input) x;
       t \<leftarrow> get_ty (th_target x) val;
       Some (if t \<noteq> TyParam (AlphaEquiv (ii_param input))
         then entries @ [\<lparr>se_key = ii_param input, se_value = val\<rparr>] else entries, x) })"

definition extract_substitution :: "query_proof_state \<Rightarrow> version \<Rightarrow> extractor \<Rightarrow> (slice \<times> extractor) option" where
  "extract_substitution state v x = do {
     (entries, x) \<leftarrow> fold_state (extract_entry state v) (ps_inputs state) ([], x);
     Some (put (ESubst entries) x) }"

definition extractor_copy_output :: "query_proof_state \<Rightarrow> version \<Rightarrow> goal_output \<Rightarrow> extractor \<Rightarrow> (goal_output \<times> extractor) option" where
  "extractor_copy_output state v = copy_output_with (extractor_copy_ty (state, v))"

definition extractor_copy_goal :: "query_proof_state \<Rightarrow> version \<Rightarrow> goal \<Rightarrow> extractor \<Rightarrow> (goal \<times> extractor) option" where
  "extractor_copy_goal state v = copy_goal_with (extractor_copy_ty (state, v)) extractor_fresh (ps_stash state)"

definition extractor_copy_assumption :: "query_proof_state \<Rightarrow> version \<Rightarrow> assumption \<Rightarrow> extractor \<Rightarrow> (assumption \<times> extractor) option" where
  "extractor_copy_assumption state v = copy_assumption_with (extractor_copy_ty (state, v)) extractor_fresh (ps_stash state)"

definition extractor_copy_assumption_slice :: "query_proof_state \<Rightarrow> version \<Rightarrow> slice \<Rightarrow> extractor \<Rightarrow> (slice \<times> extractor) option" where
  "extractor_copy_assumption_slice state v = copy_assumption_slice_with (extractor_copy_ty (state, v)) extractor_fresh (ps_stash state)"

definition extractor_copy_atom :: "query_proof_state \<Rightarrow> version \<Rightarrow> atom \<Rightarrow> extractor \<Rightarrow> (atom \<times> extractor) option" where
  "extractor_copy_atom state v = copy_atom_with (extractor_copy_ty (state, v)) (ps_stash state)"

definition extractor_copy_alias :: "query_proof_state \<Rightarrow> version \<Rightarrow> alias_ty \<Rightarrow> extractor \<Rightarrow> (alias_ty \<times> extractor) option" where
  "extractor_copy_alias state v = copy_alias_with (extractor_copy_ty (state, v)) (ps_stash state)"

definition extractor_copy_predicate :: "query_proof_state \<Rightarrow> version \<Rightarrow> where_predicate \<Rightarrow> extractor \<Rightarrow> (where_predicate \<times> extractor) option" where
  "extractor_copy_predicate state v = copy_predicate_with (extractor_copy_ty (state, v)) (ps_stash state)"

definition extractor_copy_trait_ref :: "query_proof_state \<Rightarrow> version \<Rightarrow> trait_ref \<Rightarrow> extractor \<Rightarrow> (trait_ref \<times> extractor) option" where
  "extractor_copy_trait_ref state v = copy_trait_ref_with (extractor_copy_ty (state, v)) (ps_stash state)"

definition extractor_copy_ty_slice :: "query_proof_state \<Rightarrow> version \<Rightarrow> slice \<Rightarrow> extractor \<Rightarrow> (slice \<times> extractor) option" where
  "extractor_copy_ty_slice state v = copy_slice_with (extractor_copy_ty (state, v)) (ps_stash state)"

section \<open>No inference variable leaves a proof\<close>

text \<open>\<open>iter().all(..)\<close> over a test that may itself panic: it stops at the first failure.\<close>

fun all_opt :: "('a \<Rightarrow> bool option) \<Rightarrow> 'a list \<Rightarrow> bool option" where
  "all_opt f [] = Some True"
| "all_opt f (x # xs) = do { b \<leftarrow> f x; if b then all_opt f xs else Some False }"

definition and_opt :: "bool option \<Rightarrow> bool option \<Rightarrow> bool option" where
  "and_opt a b = do { x \<leftarrow> a; if x then b else Some False }"

lemma mono_all_opt [partial_function_mono]:
  assumes "\<And>x. mono_option (\<lambda>f. b f x)"
  shows "mono_option (\<lambda>f. all_opt (b f) xs)"
proof (induction xs)
  case (Cons x xs)
  have "mono_option (\<lambda>f. if r then all_opt (b f) xs else Some False)" for r
    by (cases r) (simp_all add: Cons option.const_mono)
  then show ?case unfolding all_opt.simps by (intro bind_mono assms)
qed (simp add: option.const_mono)

lemma mono_and_opt [partial_function_mono]:
  assumes "mono_option a" and "mono_option b"
  shows "mono_option (\<lambda>f. and_opt (a f) (b f))"
proof -
  have "mono_option (\<lambda>f. if x then b f else Some False)" for x
    by (cases x) (simp_all add: assms(2) option.const_mono)
  then show ?thesis unfolding and_opt_def by (intro bind_mono assms(1))
qed

partial_function (option) ty_contains_no_infer_vars :: "ir \<Rightarrow> ptr \<Rightarrow> bool option" where
  "ty_contains_no_infer_vars st p = do {
     t \<leftarrow> get_ty st p;
     if is_infer_var t then Some False
     else do { d \<leftarrow> decompose st p; all_opt (ty_contains_no_infer_vars st) (de_children d) } }"

definition args_contain_no_infer_vars :: "ir \<Rightarrow> slice \<Rightarrow> bool option" where
  "args_contain_no_infer_vars st p = do { ts \<leftarrow> get_tys st p; all_opt (ty_contains_no_infer_vars st) ts }"

definition alias_contains_no_infer_vars :: "ir \<Rightarrow> alias_ty \<Rightarrow> bool option" where
  "alias_contains_no_infer_vars st a = (case a of
     Named alias \<Rightarrow> args_contain_no_infer_vars st (na_args alias)
   | Associated projection \<Rightarrow> and_opt (ty_contains_no_infer_vars st (pr_self_ty projection))
       (and_opt (args_contain_no_infer_vars st (tr_args (pr_trait_ref projection)))
         (args_contain_no_infer_vars st (pr_args projection)))
   | Opaque alias \<Rightarrow> args_contain_no_infer_vars st (oa_args alias))"

partial_function (option) formula_contains_no_infer_vars :: "ir \<Rightarrow> formula \<Rightarrow> bool option" where
  "formula_contains_no_infer_vars st f = (case f of
     FGoal (GoalExists b) \<Rightarrow> do { g \<leftarrow> get_goal st (bi_value b); formula_contains_no_infer_vars st (FGoal g) }
   | FGoal (GoalImplies assumptions inner) \<Rightarrow> do {
       xs \<leftarrow> get_assumptions st assumptions;
       and_opt (all_opt (\<lambda>a. formula_contains_no_infer_vars st (FAssumption a)) xs)
         (do { g \<leftarrow> get_goal st inner; formula_contains_no_infer_vars st (FGoal g) }) }
   | FGoal (GoalAll goals) \<Rightarrow> do {
       gs \<leftarrow> get_goals st goals;
       all_opt (\<lambda>g. formula_contains_no_infer_vars st (FGoal g)) gs }
   | FGoal (GoalAtom (AtomTraitImpl self_ty tr)) \<Rightarrow>
       and_opt (ty_contains_no_infer_vars st self_ty) (args_contain_no_infer_vars st (tr_args tr))
   | FGoal (GoalAtom (AtomEquals left right)) \<Rightarrow>
       and_opt (ty_contains_no_infer_vars st left) (ty_contains_no_infer_vars st right)
   | FGoal GoalMaybe \<Rightarrow> Some True
   | FAssumption (AsmTraitImpl self_ty tr) \<Rightarrow>
       and_opt (ty_contains_no_infer_vars st self_ty) (args_contain_no_infer_vars st (tr_args tr))
   | FAssumption (AsmNormalizesTo alias t) \<Rightarrow>
       and_opt (alias_contains_no_infer_vars st alias) (ty_contains_no_infer_vars st t)
   | FAssumption (AsmImplies conditions consequence) \<Rightarrow> do {
       gs \<leftarrow> get_goals st conditions;
       and_opt (all_opt (\<lambda>g. formula_contains_no_infer_vars st (FGoal g)) gs)
         (do { w \<leftarrow> get_predicate st consequence;
               and_opt (ty_contains_no_infer_vars st (wp_self_ty w)) (args_contain_no_infer_vars st (tr_args (wp_trait_ref w))) }) }
   | FAssumption (AsmAll items) \<Rightarrow> do {
       xs \<leftarrow> get_assumptions st items;
       all_opt (\<lambda>a. formula_contains_no_infer_vars st (FAssumption a)) xs })"

definition entries_contain_no_infer_vars :: "ir \<Rightarrow> slice \<Rightarrow> bool option" where
  "entries_contain_no_infer_vars st p = do {
     entries \<leftarrow> get_subst st p;
     all_opt (\<lambda>e. ty_contains_no_infer_vars st (se_value e)) entries }"

definition response_contains_no_infer_vars :: "ir \<Rightarrow> query_result \<Rightarrow> bool option" where
  "response_contains_no_infer_vars st result = (case qr_value result of
     ResultYes out subst residual \<Rightarrow> and_opt (entries_contain_no_infer_vars st subst)
       (and_opt (case out of Proven \<Rightarrow> Some True | OutputType t \<Rightarrow> ty_contains_no_infer_vars st t)
         (formula_contains_no_infer_vars st (FGoal residual)))
   | ResultMaybe hints \<Rightarrow> entries_contain_no_infer_vars st hints
   | ResultNo \<Rightarrow> Some True)"

section \<open>The response\<close>

definition compatible_output :: "solver_goal \<Rightarrow> goal_output \<Rightarrow> bool" where
  "compatible_output goal out = (case (goal, out) of
     (Prove _, Proven) \<Rightarrow> True
   | (Normalize _, OutputType _) \<Rightarrow> True
   | _ \<Rightarrow> False)"

text \<open>The response before its last assertion.\<close>

definition extract_value ::
  "query_proof_state \<Rightarrow> version \<Rightarrow> goal_output \<Rightarrow> goal_result \<Rightarrow> extractor \<Rightarrow> (query_result_data \<times> extractor) option" where
  "extract_value state v out result x = (case result of
     GoalNo \<Rightarrow> Some (ResultNo, x)
   | GoalUndecided \<Rightarrow> do {
       (hints, x) \<leftarrow> extract_substitution state v x;
       Some (ResultMaybe hints, x) }
   | GoalYes residual \<Rightarrow> do {
       (subst, x) \<leftarrow> extract_substitution state v x;
       (out, x) \<leftarrow> extractor_copy_output state v out x;
       (residual, x) \<leftarrow> extractor_copy_goal state v residual x;
       Some (ResultYes out subst residual, x) })"

definition build_response ::
  "query_proof_state \<Rightarrow> version \<Rightarrow> goal_output \<Rightarrow> goal_result \<Rightarrow> (ir \<times> query_result) option" where
  "build_response state v out result = do {
     (case result of GoalYes _ \<Rightarrow> check (compatible_output (ps_goal state) out) | _ \<Rightarrow> Some ());
     x \<leftarrow> extractor_new state v;
     (val, x) \<leftarrow> extract_value state v out result x;
     let (target, bound_vars) = alloc_response_vars (th_target x) (ex_response_vars x);
     Some (target, \<lparr>qr_bound_vars = bound_vars, qr_value = val\<rparr>) }"

definition extract_query_result_with_output_at ::
  "query_proof_state \<Rightarrow> version \<Rightarrow> goal_output \<Rightarrow> goal_result \<Rightarrow> (ir \<times> query_result) option" where
  "extract_query_result_with_output_at state v out result = do {
     (target, r) \<leftarrow> build_response state v out result;
     b \<leftarrow> response_contains_no_infer_vars target r;
     check b;
     Some (target, r) }"

definition extract_query_result_with_output :: "query_proof_state \<Rightarrow> goal_output \<Rightarrow> goal_result \<Rightarrow> (ir \<times> query_result) option" where
  "extract_query_result_with_output state out result = extract_query_result_with_output_at state (ps_version state) out result"

definition extract_query_result_at :: "query_proof_state \<Rightarrow> version \<Rightarrow> goal_result \<Rightarrow> (ir \<times> query_result) option" where
  "extract_query_result_at state v result = extract_query_result_with_output_at state v Proven result"

definition extract_query_result :: "query_proof_state \<Rightarrow> goal_result \<Rightarrow> (ir \<times> query_result) option" where
  "extract_query_result state result = extract_query_result_with_output_at state (ps_version state) Proven result"

declare copier_copy_ty.simps [simp del, code] and extractor_copy_ty.simps [simp del, code]
  and ty_contains_no_infer_vars.simps [simp del, code] and formula_contains_no_infer_vars.simps [simp del, code]

end
