(* ===== verification/AntiUnify.thy ===== *)
theory AntiUnify
  imports Boundary
begin

text \<open>
  \<open>check/solve/anti_unify.rs\<close>: the hints of several candidate answers are merged by anti-unification,
  one substitution key at a time.
\<close>

section \<open>Domains\<close>

fun common_domain :: "infer_domain \<Rightarrow> infer_domain \<Rightarrow> infer_domain" where
  "common_domain DomInteger DomInteger = DomInteger"
| "common_domain DomFloat DomFloat = DomFloat"
| "common_domain _ _ = DomAny"

definition explicit_parameter_domain :: "(alpha_equiv_param \<Rightarrow> infer_domain option) \<Rightarrow> ir \<Rightarrow> ptr \<Rightarrow> infer_domain option" where
  "explicit_parameter_domain domains st p = do {
     t \<leftarrow> get_ty st p;
     Some (case t of
         TyParam (AlphaEquiv param) \<Rightarrow> (case domains param of Some d \<Rightarrow> d | None \<Rightarrow> DomAny)
       | _ \<Rightarrow> DomAny) }"

section \<open>Anti-unification of types\<close>

record anti_unifier =
  au_stash :: ir
  au_next_param :: nat
  au_key_universe :: nat
  au_witnesses :: "response_var_info list"

text \<open>\<open>iter().reduce(common_domain).unwrap_or(Any)\<close>\<close>

fun reduce_domains :: "infer_domain list \<Rightarrow> infer_domain" where
  "reduce_domains [] = DomAny"
| "reduce_domains (d # ds) = fold (\<lambda>x y. common_domain y x) ds d"

definition fresh_witness ::
  "(alpha_equiv_param \<Rightarrow> infer_domain option) \<Rightarrow> ptr list \<Rightarrow> anti_unifier \<Rightarrow> ((ptr \<times> bool) \<times> anti_unifier) option" where
  "fresh_witness domains vs s = do {
     ds \<leftarrow> map_opt (explicit_parameter_domain domains (au_stash s)) vs;
     let domain = reduce_domains ds;
     let param = \<lparr>alpha_kind = KindType, alpha_index = au_next_param s\<rparr>;
     check (au_next_param s + 1 < 2 ^ 32);
     let (st, p) = alloc_ty (au_stash s) (TyParam (AlphaEquiv param));
     Some ((p, domain = DomAny), s\<lparr>au_stash := st, au_next_param := au_next_param s + 1,
       au_witnesses := au_witnesses s @ [\<lparr>rv_param = param, rv_kind = KindType,
         rv_relative_universe = au_key_universe s, rv_domain = domain\<rparr>]\<rparr>) }"

definition same_shape :: "decomposed list \<Rightarrow> bool" where
  "same_shape ds = (case ds of [] \<Rightarrow> False | d # _ \<Rightarrow>
     (\<forall>e \<in> set ds. de_skeleton e = de_skeleton d) \<and> 0 < length (de_children d) \<and>
     (\<forall>e \<in> set ds. length (de_children e) = length (de_children d)))"

definition column :: "decomposed list \<Rightarrow> nat \<Rightarrow> ptr list option" where
  "column ds i = map_opt (\<lambda>d. nth_opt (de_children d) i) ds"

partial_function (option) merge_types ::
  "(alpha_equiv_param \<Rightarrow> infer_domain option) \<Rightarrow> ptr list \<Rightarrow> anti_unifier \<Rightarrow> ((ptr \<times> bool) \<times> anti_unifier) option" where
  "merge_types domains vs s = do {
     v \<leftarrow> nth_opt vs 0;
     if (\<forall>w \<in> set vs. w = v) then Some ((v, False), s)
     else do {
       ds \<leftarrow> map_opt (decompose (au_stash s)) vs;
       d \<leftarrow> nth_opt ds 0;
       if same_shape ds then do {
         (children, s) \<leftarrow> map_state (\<lambda>i s. do {
             child_values \<leftarrow> column ds i;
             (r, s) \<leftarrow> merge_types domains child_values s;
             Some (fst r, s) }) [0..<length (de_children d)] s;
         (st, p) \<leftarrow> recompose (au_stash s) (de_skeleton d) children;
         Some ((p, False), s\<lparr>au_stash := st\<rparr>) }
       else fresh_witness domains vs s } }"

section \<open>Filters\<close>

fun any_opt :: "('a \<Rightarrow> bool option) \<Rightarrow> 'a list \<Rightarrow> bool option" where
  "any_opt f [] = Some False"
| "any_opt f (x # xs) = do { b \<leftarrow> f x; if b then Some True else any_opt f xs }"

lemma mono_any_opt [partial_function_mono]:
  assumes "\<And>x. mono_option (\<lambda>f. b f x)"
  shows "mono_option (\<lambda>f. any_opt (b f) xs)"
proof (induction xs)
  case (Cons x xs)
  have "mono_option (\<lambda>f. if r then Some True else any_opt (b f) xs)" for r
    by (cases r) (simp_all add: Cons option.const_mono)
  then show ?case unfolding any_opt.simps by (intro bind_mono assms)
qed (simp add: option.const_mono)

fun own_input :: "ty \<Rightarrow> alpha_equiv_param option" where
  "own_input (TyParam (AlphaEquiv param)) = Some param"
| "own_input _ = None"

partial_function (option) contains_inaccessible_input ::
  "ir \<Rightarrow> nat \<Rightarrow> (alpha_equiv_param \<Rightarrow> nat option) \<Rightarrow> ptr \<Rightarrow> bool option" where
  "contains_inaccessible_input st key_universe universes p = do {
     t \<leftarrow> get_ty st p;
     case own_input t of
       Some param \<Rightarrow> Some (case universes param of Some u \<Rightarrow> u > key_universe | None \<Rightarrow> False)
     | None \<Rightarrow> do {
         d \<leftarrow> decompose st p;
         any_opt (contains_inaccessible_input st key_universe universes) (de_children d) } }"

partial_function (option) collect_params ::
  "ir \<Rightarrow> alpha_equiv_param set \<Rightarrow> ptr \<Rightarrow> alpha_equiv_param set \<Rightarrow> alpha_equiv_param set option" where
  "collect_params st candidates p acc = do {
     t \<leftarrow> get_ty st p;
     let acc = (case own_input t of
         Some param \<Rightarrow> if param \<in> candidates then insert param acc else acc
       | None \<Rightarrow> acc);
     d \<leftarrow> decompose st p;
     fold_state (collect_params st candidates) (de_children d) acc }"

definition collect_used_witnesses ::
  "ir \<Rightarrow> subst_entry list \<Rightarrow> response_var_info list \<Rightarrow> alpha_equiv_param set option" where
  "collect_used_witnesses st entries witnesses =
     fold_state (\<lambda>e. collect_params st (set (map rv_param witnesses)) (se_value e)) entries {}"

section \<open>Merging hints\<close>

text \<open>The hash map of a candidate's entries is the list they are collected from: the last one of a key wins.\<close>

type_synonym hint_input = "(alpha_equiv_param \<times> ptr) list"

definition hint_get :: "hint_input \<Rightarrow> alpha_equiv_param \<Rightarrow> ptr option" where
  "hint_get hint = map_of (rev hint)"

definition empty_maybe :: "ir \<times> query_result" where
  "empty_maybe = (let (st, bound_vars) = alloc_response_vars [] []; (st, hints) = alloc_subst st [] in
     (st, \<lparr>qr_bound_vars = bound_vars, qr_value = ResultMaybe hints\<rparr>))"

text \<open>The response variables of a candidate are renamed apart into the intermediate arena.\<close>

type_synonym rename_state = "ir \<times> nat \<times> (generic_param \<Rightarrow> ptr option) \<times> (alpha_equiv_param \<Rightarrow> infer_domain option)"

definition rename_witness :: "response_var_info \<Rightarrow> rename_state \<Rightarrow> rename_state option" where
  "rename_witness info s = (case s of (st, next_renamed, mapping, domains) \<Rightarrow> do {
     let renamed = \<lparr>alpha_kind = rv_kind info, alpha_index = next_renamed\<rparr>;
     check (next_renamed + 1 < 2 ^ 32);
     let (st, t) = alloc_ty st (TyParam (AlphaEquiv renamed));
     Some (st, next_renamed + 1, mapping(AlphaEquiv (rv_param info) \<mapsto> t), domains(renamed \<mapsto> rv_domain info)) })"

type_synonym load_state = "ir \<times> nat \<times> (alpha_equiv_param \<Rightarrow> infer_domain option) \<times> hint_input list"

definition load_candidate :: "ir \<times> query_result \<Rightarrow> load_state \<Rightarrow> load_state option" where
  "load_candidate candidate s = (case (candidate, s) of ((source, result), (st, next_renamed, domains, hints)) \<Rightarrow>
     (case (case qr_value result of ResultYes _ subst _ \<Rightarrow> Some subst | ResultMaybe hints \<Rightarrow> Some hints | ResultNo \<Rightarrow> None) of
        None \<Rightarrow> Some s
      | Some substitution \<Rightarrow> do {
          infos \<leftarrow> get_response_vars source (qr_bound_vars result);
          (st, next_renamed, mapping, domains) \<leftarrow> fold_state rename_witness infos (st, next_renamed, Map.empty, domains);
          (entries, copier) \<leftarrow> copier_copy_substitution source substitution (copier_new st mapping None);
          Some (th_target copier, next_renamed, domains, hints @ [entries]) }))"

definition merge_key ::
  "(alpha_equiv_param \<Rightarrow> nat option) \<Rightarrow> (alpha_equiv_param \<Rightarrow> infer_domain option) \<Rightarrow> hint_input list \<Rightarrow>
     alpha_equiv_param \<Rightarrow> subst_entry list \<times> anti_unifier \<Rightarrow> (subst_entry list \<times> anti_unifier) option" where
  "merge_key universes domains hints key s = (case s of (merged, anti) \<Rightarrow> do {
     vs \<leftarrow> map_opt (\<lambda>hint. hint_get hint key) hints;
     let anti = anti\<lparr>au_key_universe := (case universes key of Some u \<Rightarrow> u | None \<Rightarrow> 0)\<rparr>;
     ((val, bare), anti) \<leftarrow> merge_types domains vs anti;
     if bare then Some (merged, anti)
     else do {
       inaccessible \<leftarrow> contains_inaccessible_input (au_stash anti) (au_key_universe anti) universes val;
       Some (if inaccessible then merged else merged @ [\<lparr>se_key = key, se_value = val\<rparr>], anti) } })"

text \<open>The witnesses that are used are renumbered into the final arena.\<close>

type_synonym final_state = "ir \<times> nat \<times> (generic_param \<Rightarrow> ptr option) \<times> response_var_info list"

definition final_witness :: "alpha_equiv_param set \<Rightarrow> response_var_info \<Rightarrow> final_state \<Rightarrow> final_state option" where
  "final_witness used witness s = (if rv_param witness \<notin> used then Some s
     else case s of (st, n, mapping, bound_vars) \<Rightarrow> do {
       let param = \<lparr>alpha_kind = rv_kind witness, alpha_index = n\<rparr>;
       check (n + 1 < 2 ^ 32);
       let (st, t) = alloc_ty st (TyParam (AlphaEquiv param));
       Some (st, n + 1, mapping(AlphaEquiv (rv_param witness) \<mapsto> t),
         bound_vars @ [\<lparr>rv_param = param, rv_kind = rv_kind witness,
           rv_relative_universe = rv_relative_universe witness, rv_domain = rv_domain witness\<rparr>]) })"

text \<open>\<open>order\<close> is the iteration order of the hash map of the first candidate.\<close>

definition merge_hints ::
  "(alpha_equiv_param set \<Rightarrow> alpha_equiv_param list) \<Rightarrow> nat \<Rightarrow> (alpha_equiv_param \<Rightarrow> nat option) \<Rightarrow>
     (alpha_equiv_param \<Rightarrow> infer_domain option) \<Rightarrow> (ir \<times> query_result) list \<Rightarrow> bool \<Rightarrow> (ir \<times> query_result) option" where
  "merge_hints order next_response_param universes input_domains candidates include_unconstrained = do {
     (intermediate, next_renamed, domains, hints) \<leftarrow>
       fold_state load_candidate candidates ([], next_response_param, input_domains, []);
     let hints = hints @ (if include_unconstrained then [[]] else []);
     if hints = [] then Some empty_maybe
     else do {
       let common_keys = sort_key alpha_index
         (filter (\<lambda>key. \<forall>hint \<in> set (tl hints). hint_get hint key \<noteq> None) (order (set (map fst (hd hints)))));
       (merged, anti) \<leftarrow> fold_state (merge_key universes domains hints) common_keys
         ([], \<lparr>au_stash = intermediate, au_next_param = next_renamed, au_key_universe = 0, au_witnesses = []\<rparr>);
       used \<leftarrow> collect_used_witnesses (au_stash anti) merged (au_witnesses anti);
       (final, _, mapping, bound_vars) \<leftarrow>
         fold_state (final_witness used) (au_witnesses anti) ([], next_response_param, Map.empty, []);
       (entries, copier) \<leftarrow> map_state (\<lambda>entry s. do {
           (v, s) \<leftarrow> copier_copy_ty (au_stash anti) (se_value entry) s;
           Some (\<lparr>se_key = se_key entry, se_value = v\<rparr>, s) }) merged (copier_new final mapping None);
       let (st, hints) = alloc_subst (th_target copier) entries;
       let (st, bound_vars) = alloc_response_vars st bound_vars;
       Some (st, \<lparr>qr_bound_vars = bound_vars, qr_value = ResultMaybe hints\<rparr>) } }"

declare merge_types.simps [simp del, code] and contains_inaccessible_input.simps [simp del, code]
  and collect_params.simps [simp del, code]

end
