(* ===== verification/Canonical.thy ===== *)
theory Canonical
  imports Traverse EGraph
begin

text \<open>
  \<open>check/solve/canonical.rs\<close>: assumptions and a goal are copied into a fresh arena, with every rigid
  parameter and every unresolved inference variable of the caller replaced by a numbered parameter.
\<close>

section \<open>The mapping back to the caller\<close>

datatype caller_canonical_var = CallerRigid generic_param | CallerExistential infer_var_index

record canonical_mapping =
  cm_absolute_universe_base :: universe
  cm_inputs :: "caller_canonical_var list"

record canonicalized_goal =
  cg_data :: "ir \<times> goal_query_data"
  cg_mapping :: canonical_mapping

record input_info =
  in_param :: alpha_equiv_param
  in_kind :: generic_param_kind
  in_role :: canonical_var_role
  in_absolute_universe :: universe
  in_domain :: infer_domain
  in_caller :: caller_canonical_var

section \<open>The canonicalizer\<close>

record canonicalizer = threaded +
  ca_next_param :: nat
  ca_free_params :: "generic_param \<Rightarrow> alpha_equiv_param option"
  ca_infer_vars :: "infer_var_index \<Rightarrow> alpha_equiv_param option"
  ca_inputs :: "input_info list"

definition canonicalizer_new :: canonicalizer where
  "canonicalizer_new = \<lparr>th_target = [], th_binders = Map.empty, ca_next_param = 0, ca_free_params = Map.empty,
     ca_infer_vars = Map.empty, ca_inputs = []\<rparr>"

definition fresh_alpha :: "generic_param_kind \<Rightarrow> canonicalizer \<Rightarrow> (alpha_equiv_param \<times> canonicalizer) option" where
  "fresh_alpha kind s = do {
     let index = ca_next_param s;
     check (index + 1 < 2 ^ 32);
     Some (\<lparr>alpha_kind = kind, alpha_index = index\<rparr>, s\<lparr>ca_next_param := index + 1\<rparr>) }"

definition canonicalizer_fresh :: "generic_param \<Rightarrow> canonicalizer \<Rightarrow> (generic_param \<times> canonicalizer) option" where
  "canonicalizer_fresh source s = do { (param, s) \<leftarrow> fresh_alpha (param_kind source) s; Some (AlphaEquiv param, s) }"

definition fold_generic_param :: "egraph \<Rightarrow> generic_param \<Rightarrow> canonicalizer \<Rightarrow> (generic_param \<times> canonicalizer) option" where
  "fold_generic_param g param s = (case th_binders s param of
     Some mapped \<Rightarrow> Some (mapped, s)
   | None \<Rightarrow> (case ca_free_params s param of
       Some mapped \<Rightarrow> Some (AlphaEquiv mapped, s)
     | None \<Rightarrow> do {
         let kind = param_kind param;
         (alpha, s) \<leftarrow> fresh_alpha kind s;
         Some (AlphaEquiv alpha, s\<lparr>ca_free_params := (ca_free_params s)(param \<mapsto> alpha),
           ca_inputs := ca_inputs s @ [\<lparr>in_param = alpha, in_kind = kind, in_role = RigidPlaceholder,
             in_absolute_universe = placeholder_universe g param, in_domain = DomAny, in_caller = CallerRigid param\<rparr>]\<rparr>) }))"

definition fold_const :: "egraph \<Rightarrow> const_ty \<Rightarrow> canonicalizer \<Rightarrow> (const_ty \<times> canonicalizer) option" where
  "fold_const g c s = (case c of
     ConstParam param \<Rightarrow> do { (param, s) \<leftarrow> fold_generic_param g param s; Some (ConstParam param, s) }
   | other \<Rightarrow> Some (other, s))"

definition fold_infer_var ::
  "egraph \<Rightarrow> version \<Rightarrow> ir \<Rightarrow> ptr \<Rightarrow> infer_var_index \<Rightarrow> canonicalizer \<Rightarrow> (alpha_equiv_param \<times> canonicalizer) option" where
  "fold_infer_var g v src root index s = (case ca_infer_vars s index of
     Some param \<Rightarrow> Some (param, s)
   | None \<Rightarrow> do {
       (param, s) \<leftarrow> fresh_alpha KindType s;
       u \<leftarrow> current_universe g v index;
       d \<leftarrow> effective_domain g src v root;
       domain \<leftarrow> d;
       Some (param, s\<lparr>ca_infer_vars := (ca_infer_vars s)(index \<mapsto> param),
         ca_inputs := ca_inputs s @ [\<lparr>in_param = param, in_kind = KindType, in_role = ExistentialInput,
           in_absolute_universe = u, in_domain = domain, in_caller = CallerExistential index\<rparr>]\<rparr>) })"

text \<open>The caller: its arena, its egraph and the version that is canonicalized.\<close>

record caller =
  cl_source :: ir
  cl_egraph :: egraph
  cl_version :: version

definition fold_root ::
  "caller \<Rightarrow> (ptr \<Rightarrow> canonicalizer \<Rightarrow> (ptr \<times> canonicalizer) option) \<Rightarrow> ptr \<Rightarrow> ty \<Rightarrow> canonicalizer \<Rightarrow> (ty \<times> canonicalizer) option" where
  "fold_root c cp root t s = (case t of
     TyParam param \<Rightarrow> do { (param, s) \<leftarrow> fold_generic_param (cl_egraph c) param s; Some (TyParam param, s) }
   | TyInferVar index \<Rightarrow> do {
       (param, s) \<leftarrow> fold_infer_var (cl_egraph c) (cl_version c) (cl_source c) root index s;
       Some (TyParam (AlphaEquiv param), s) }
   | _ \<Rightarrow> copy_compound_with cp (fold_const (cl_egraph c)) (cl_source c) t s)"

lemma mono_fold_root [partial_function_mono]:
  assumes "\<And>p s. mono_option (\<lambda>f. F f p s)"
  shows "mono_option (\<lambda>f. fold_root c (F f) root t s)"
  unfolding fold_root_def
  by (cases t) (auto intro!: mono_copy_compound_with option.const_mono assms)

partial_function (option) fold_ty_ptr :: "caller \<Rightarrow> ptr \<Rightarrow> canonicalizer \<Rightarrow> (ptr \<times> canonicalizer) option" where
  "fold_ty_ptr c p s = do {
     root \<leftarrow> find (cl_egraph c) (cl_version c) p;
     t \<leftarrow> get_ty (cl_source c) root;
     (folded, s) \<leftarrow> fold_root c (fold_ty_ptr c) root t s;
     Some (put (ETy folded) s) }"

definition canon_ty_slice :: "caller \<Rightarrow> slice \<Rightarrow> canonicalizer \<Rightarrow> (slice \<times> canonicalizer) option" where
  "canon_ty_slice c = copy_slice_with (fold_ty_ptr c) (cl_source c)"

definition canon_trait_ref :: "caller \<Rightarrow> trait_ref \<Rightarrow> canonicalizer \<Rightarrow> (trait_ref \<times> canonicalizer) option" where
  "canon_trait_ref c = copy_trait_ref_with (fold_ty_ptr c) (cl_source c)"

definition canon_where_predicate :: "caller \<Rightarrow> where_predicate \<Rightarrow> canonicalizer \<Rightarrow> (where_predicate \<times> canonicalizer) option" where
  "canon_where_predicate c = copy_predicate_with (fold_ty_ptr c) (cl_source c)"

definition canon_alias :: "caller \<Rightarrow> alias_ty \<Rightarrow> canonicalizer \<Rightarrow> (alias_ty \<times> canonicalizer) option" where
  "canon_alias c = copy_alias_with (fold_ty_ptr c) (cl_source c)"

definition canon_atom :: "caller \<Rightarrow> atom \<Rightarrow> canonicalizer \<Rightarrow> (atom \<times> canonicalizer) option" where
  "canon_atom c = copy_atom_with (fold_ty_ptr c) (cl_source c)"

definition canon_goal :: "caller \<Rightarrow> goal \<Rightarrow> canonicalizer \<Rightarrow> (goal \<times> canonicalizer) option" where
  "canon_goal c = copy_goal_with (fold_ty_ptr c) canonicalizer_fresh (cl_source c)"

definition canon_assumption :: "caller \<Rightarrow> assumption \<Rightarrow> canonicalizer \<Rightarrow> (assumption \<times> canonicalizer) option" where
  "canon_assumption c = copy_assumption_with (fold_ty_ptr c) canonicalizer_fresh (cl_source c)"

definition canon_assumption_slice :: "caller \<Rightarrow> slice \<Rightarrow> canonicalizer \<Rightarrow> (slice \<times> canonicalizer) option" where
  "canon_assumption_slice c = copy_assumption_slice_with (fold_ty_ptr c) canonicalizer_fresh (cl_source c)"

definition canon_solver_goal :: "caller \<Rightarrow> solver_goal \<Rightarrow> canonicalizer \<Rightarrow> (solver_goal \<times> canonicalizer) option" where
  "canon_solver_goal c = copy_solver_goal_with (fold_ty_ptr c) canonicalizer_fresh (cl_source c)"

section \<open>Canonicalization\<close>

definition universe_base :: "input_info list \<Rightarrow> universe \<Rightarrow> universe" where
  "universe_base inputs current = fold min (map in_absolute_universe inputs) current"

definition canonical_var :: "universe \<Rightarrow> input_info \<Rightarrow> canonical_var_info option" where
  "canonical_var base info = do {
     check (base \<le> in_absolute_universe info);
     Some \<lparr>cv_param = in_param info, cv_kind = in_kind info, cv_role = in_role info,
       cv_relative_universe = in_absolute_universe info - base, cv_domain = in_domain info\<rparr> }"

definition canonicalize_solver_goal ::
  "caller \<Rightarrow> nat \<Rightarrow> universe \<Rightarrow> bool \<Rightarrow> slice \<Rightarrow> solver_goal \<Rightarrow> canonicalized_goal option" where
  "canonicalize_solver_goal c local_crate current assumptions_complete assumptions goal = do {
     (assumptions, s) \<leftarrow> canon_assumption_slice c assumptions canonicalizer_new;
     (goal, s) \<leftarrow> canon_solver_goal c goal s;
     let base = universe_base (ca_inputs s) current;
     check (base \<le> current);
     vars \<leftarrow> map_opt (canonical_var base) (ca_inputs s);
     let (target, canonical_vars) = alloc_canonical_vars (th_target s) vars;
     Some \<lparr>cg_data = (target, \<lparr>gq_local_crate = local_crate, gq_canonical_universe = current - base,
         gq_canonical_vars = canonical_vars, gq_next_response_param = ca_next_param s,
         gq_assumptions_complete = assumptions_complete, gq_assumptions = assumptions, gq_goal = goal\<rparr>),
       cg_mapping = \<lparr>cm_absolute_universe_base = base, cm_inputs = map in_caller (ca_inputs s)\<rparr>\<rparr> }"

definition canonicalize_goal ::
  "caller \<Rightarrow> nat \<Rightarrow> universe \<Rightarrow> bool \<Rightarrow> slice \<Rightarrow> goal \<Rightarrow> canonicalized_goal option" where
  "canonicalize_goal c local_crate current assumptions_complete assumptions goal =
     canonicalize_solver_goal c local_crate current assumptions_complete assumptions (Prove goal)"

declare fold_ty_ptr.simps [simp del, code]

end
