(* ===== verification/Obligations.thy ===== *)
theory Obligations
  imports Canonical
begin

text \<open>
  \<open>check/infer/obligations.rs\<close>: the proof requests of a function body, and the batch in which an
  inference transaction stages the ones it introduces.
\<close>

section \<open>Data\<close>

record relative_span =
  sp_start :: "32 word"
  sp_end :: "32 word"

datatype obligation_reason = Explicit | FunctionCall | AdtWellFormedness | BinaryOperator

fun description :: "obligation_reason \<Rightarrow> string" where
  "description Explicit = ''required trait bound''"
| "description FunctionCall = ''bound required by this function use''"
| "description AdtWellFormedness = ''bound required by this type use''"
| "description BinaryOperator = ''required by this binary operator''"

record obligation_provenance =
  op_span :: relative_span
  op_reason :: obligation_reason

type_synonym expr_slot = nat

record obligation_recovery =
  re_slot :: expr_slot
  re_span :: relative_span
  re_watched_types :: "ptr list"

datatype obligation_state = Ready | Stalled | Terminal

datatype obligation_goal = ProveGoal goal | NormalizeGoal alias_ty ptr

record obligation =
  ob_goal :: obligation_goal
  ob_assumptions :: slice
  ob_assumptions_complete :: bool
  ob_local_crate :: nat
  ob_canonical_goal :: "ir \<times> goal_query_data"
  ob_mapping :: canonical_mapping
  ob_provenance :: "obligation_provenance list"
  ob_recoveries :: "obligation_recovery list"
  ob_state :: obligation_state
  ob_stalled_on :: "infer_var_index list"
  ob_last_attempted_revision :: "64 word option"

text \<open>\<open>fp\<close> is the fingerprint of a stashed query: \<open>Stashed::eq\<close> compares nothing else.\<close>

type_synonym fingerprint = "ir \<times> goal_query_data \<Rightarrow> nat"

fun is_prove :: "obligation_goal \<Rightarrow> bool" where
  "is_prove (ProveGoal _) = True"
| "is_prove (NormalizeGoal _ _) = False"

definition same_dedup_key :: "fingerprint \<Rightarrow> obligation \<Rightarrow> obligation \<Rightarrow> bool" where
  "same_dedup_key fp a b \<longleftrightarrow> is_prove (ob_goal a) \<and> is_prove (ob_goal b)
     \<and> ob_recoveries a = ob_recoveries b
     \<and> fp (ob_canonical_goal a) = fp (ob_canonical_goal b)
     \<and> ob_mapping a = ob_mapping b"

section \<open>The manager\<close>

type_synonym obligation_manager = "obligation list"

definition has_pending :: "obligation_manager \<Rightarrow> bool" where
  "has_pending os \<longleftrightarrow> (\<exists>ob \<in> set os. ob_state ob \<noteq> Terminal)"

text \<open>\<open>iter().enumerate().filter_map(..)\<close>.\<close>

definition indices_where :: "('a \<Rightarrow> bool) \<Rightarrow> 'a list \<Rightarrow> nat list" where
  "indices_where f xs = filter (\<lambda>i. f (xs ! i)) [0..<length xs]"

definition ready_indices :: "obligation_manager \<Rightarrow> nat list" where
  "ready_indices os = indices_where (\<lambda>ob. ob_state ob = Ready) os"

definition pending_indices :: "obligation_manager \<Rightarrow> nat list" where
  "pending_indices os = indices_where (\<lambda>ob. ob_state ob \<noteq> Terminal) os"

definition waits_on :: "infer_var_index list \<Rightarrow> obligation \<Rightarrow> bool" where
  "waits_on variables ob \<longleftrightarrow> (\<exists>x \<in> set (ob_stalled_on ob). x \<in> set variables)"

definition wake :: "infer_var_index list \<Rightarrow> obligation_manager \<Rightarrow> obligation_manager" where
  "wake variables os = (if variables = [] then os
     else map (\<lambda>ob. if ob_state ob = Stalled \<and> waits_on variables ob then ob\<lparr>ob_state := Ready\<rparr> else ob) os)"

section \<open>Staging\<close>

type_synonym staged_batch = "(checked_parameter_env \<times> obligation_provenance) list"

definition batch_new :: staged_batch where
  "batch_new = []"

definition push_parameter_env ::
  "checked_parameter_env \<Rightarrow> relative_span \<Rightarrow> obligation_reason \<Rightarrow> staged_batch \<Rightarrow> staged_batch" where
  "push_parameter_env environment span reason batch =
     batch @ [(environment, \<lparr>op_span = span, op_reason = reason\<rparr>)]"

definition batch_is_empty :: "staged_batch \<Rightarrow> bool" where
  "batch_is_empty batch \<longleftrightarrow> batch = []"

section \<open>Facts about the manager\<close>

lemma set_indices_where: "set (indices_where f xs) = {i. i < length xs \<and> f (xs ! i)}"
  by (auto simp: indices_where_def)

lemma distinct_indices_where: "distinct (indices_where f xs)"
  by (simp add: indices_where_def)

lemma pending_indices_set: "set (pending_indices os) = {i. i < length os \<and> ob_state (os ! i) \<noteq> Terminal}"
  by (simp add: pending_indices_def set_indices_where)

lemma ready_indices_set: "set (ready_indices os) = {i. i < length os \<and> ob_state (os ! i) = Ready}"
  by (simp add: ready_indices_def set_indices_where)

lemma has_pending_iff: "has_pending os \<longleftrightarrow> pending_indices os \<noteq> []"
proof -
  have "has_pending os \<longleftrightarrow> set (pending_indices os) \<noteq> {}"
    unfolding has_pending_def pending_indices_set by (force simp: in_set_conv_nth)
  then show ?thesis by simp
qed

lemma length_wake [simp]: "length (wake vs os) = length os"
  by (simp add: wake_def)

lemma wake_nth:
  "i < length os \<Longrightarrow> wake vs os ! i =
     (if ob_state (os ! i) = Stalled \<and> waits_on vs (os ! i) then (os ! i)\<lparr>ob_state := Ready\<rparr> else os ! i)"
  by (auto simp: wake_def waits_on_def)

lemma wake_terminal [simp]: "i < length os \<Longrightarrow> ob_state (wake vs os ! i) = Terminal \<longleftrightarrow> ob_state (os ! i) = Terminal"
  by (simp add: wake_nth)

lemma wake_wake: "wake ws (wake vs os) = wake (vs @ ws) os"
  by (rule nth_equalityI) (auto simp: wake_nth waits_on_def)

end
