(* ===== verification/Response.thy ===== *)
theory Response
  imports Boundary Canonical
begin

text \<open>
  \<open>apply_query_response\<close> of \<open>check/solve/boundary.rs\<close>: a response is checked against its query, its
  types are copied into the caller and every substitution entry is unified with the caller's variable,
  in a child version that is committed on success and discarded on failure.
\<close>

datatype apply_response_error =
    MappingArity
  | InvalidResponseKey alpha_equiv_param
  | DuplicateResponseKey alpha_equiv_param
  | InvalidResponseBinder alpha_equiv_param
  | UniverseOverflow
  | Unification unify_error

datatype applied_certainty = AppliedYes goal_output goal | AppliedMaybe | AppliedNo

record applied_response =
  ar_effects :: commit_effects
  ar_certainty :: applied_certainty

section \<open>Checks before the transaction\<close>

fun position :: "('a \<Rightarrow> bool) \<Rightarrow> 'a list \<Rightarrow> nat option" where
  "position P [] = None"
| "position P (x # xs) = (if P x then Some 0 else map_option Suc (position P xs))"

fun is_existential :: "caller_canonical_var \<Rightarrow> bool" where
  "is_existential (CallerExistential _) = True"
| "is_existential (CallerRigid _) = False"

fun check_keys ::
  "canonical_var_info list \<Rightarrow> caller_canonical_var list \<Rightarrow> subst_entry list \<Rightarrow> alpha_equiv_param set \<Rightarrow>
     (apply_response_error, unit) result" where
  "check_keys vars inputs [] seen = Inr ()"
| "check_keys vars inputs (entry # entries) seen =
     (if se_key entry \<in> seen then Inl (DuplicateResponseKey (se_key entry))
      else case position (\<lambda>info. cv_param info = se_key entry) vars of
        None \<Rightarrow> Inl (InvalidResponseKey (se_key entry))
      | Some i \<Rightarrow>
          if cv_role (vars ! i) \<noteq> ExistentialInput \<or> \<not> is_existential (inputs ! i)
          then Inl (InvalidResponseKey (se_key entry))
          else check_keys vars inputs entries (insert (se_key entry) seen))"

fun check_binders ::
  "alpha_equiv_param set \<Rightarrow> response_var_info list \<Rightarrow> alpha_equiv_param set \<Rightarrow> (apply_response_error, unit) result" where
  "check_binders canonical [] seen = Inr ()"
| "check_binders canonical (info # infos) seen =
     (if rv_kind info \<noteq> KindType \<or> rv_param info \<in> canonical \<or> rv_param info \<in> seen
      then Inl (InvalidResponseBinder (rv_param info))
      else check_binders canonical infos (insert (rv_param info) seen))"

section \<open>The application in the child\<close>

type_synonym apply_state = "ir \<times> egraph \<times> (generic_param \<Rightarrow> ptr option)"

definition checked_universe :: "universe \<Rightarrow> nat \<Rightarrow> universe option" where
  "checked_universe base relative = (if base + relative < 2 ^ 32 then Some (base + relative) else None)"

definition map_input ::
  "version \<Rightarrow> universe \<Rightarrow> canonical_var_info \<times> caller_canonical_var \<Rightarrow> apply_state \<Rightarrow>
     ((apply_response_error, unit) result \<times> apply_state) option" where
  "map_input child base input s = (case (input, s) of ((info, caller), (st, g, m)) \<Rightarrow>
     (case (caller, cv_role info) of
       (CallerRigid param, RigidPlaceholder) \<Rightarrow>
         (case checked_universe base (cv_relative_universe info) of
            None \<Rightarrow> Some (Inl UniverseOverflow, s)
          | Some u \<Rightarrow> do {
              g \<leftarrow> register_placeholder g param u;
              let (st, t) = alloc_ty st (TyParam param);
              Some (Inr (), st, g, m(AlphaEquiv (cv_param info) \<mapsto> t)) })
     | (CallerExistential index, ExistentialInput) \<Rightarrow> do {
         get_var_info g child index;
         let (st, t) = alloc_ty st (TyInferVar index);
         Some (Inr (), st, g, m(AlphaEquiv (cv_param info) \<mapsto> t)) }
     | _ \<Rightarrow> Some (Inl MappingArity, s)))"

definition map_response_var ::
  "version \<Rightarrow> universe \<Rightarrow> response_var_info \<Rightarrow> nat \<times> apply_state \<Rightarrow>
     ((apply_response_error, unit) result \<times> nat \<times> apply_state) option" where
  "map_response_var child base info s = (case s of (next_param, st, g, m) \<Rightarrow> do {
     check (alpha_index (rv_param info) + 1 < 2 ^ 32);
     let next_param = max next_param (alpha_index (rv_param info) + 1);
     case checked_universe base (rv_relative_universe info) of
       None \<Rightarrow> Some (Inl UniverseOverflow, next_param, st, g, m)
     | Some u \<Rightarrow> do {
         (g, index) \<leftarrow> alloc_var_in_domain g child u (rv_domain info);
         let (st, t) = alloc_ty st (TyInferVar index);
         Some (Inr (), next_param, st, g, m(AlphaEquiv (rv_param info) \<mapsto> t)) } })"

definition copy_response ::
  "ir \<Rightarrow> query_result_data \<Rightarrow> copier \<Rightarrow> ((applied_certainty \<times> (alpha_equiv_param \<times> ptr) list) \<times> copier) option" where
  "copy_response src val s = (case val of
     ResultNo \<Rightarrow> None
   | ResultMaybe hints \<Rightarrow> do {
       (substitutions, s) \<leftarrow> copier_copy_substitution src hints s;
       Some ((AppliedMaybe, substitutions), s) }
   | ResultYes out subst residual \<Rightarrow> do {
       (substitutions, s) \<leftarrow> copier_copy_substitution src subst s;
       (out, s) \<leftarrow> copier_copy_output src out s;
       (residual, s) \<leftarrow> copier_copy_goal src residual s;
       Some ((AppliedYes out residual, substitutions), s) })"

definition apply_entry ::
  "version \<Rightarrow> canonical_var_info list \<Rightarrow> caller_canonical_var list \<Rightarrow> alpha_equiv_param \<times> ptr \<Rightarrow> ir \<times> egraph \<Rightarrow>
     ((apply_response_error, unit) result \<times> ir \<times> egraph) option" where
  "apply_entry child vars inputs entry s = (case (entry, s) of ((key, val), (st, g)) \<Rightarrow> do {
     input \<leftarrow> position (\<lambda>info. cv_param info = key) vars;
     caller \<leftarrow> nth_opt inputs input;
     index \<leftarrow> (case caller of CallerExistential index \<Rightarrow> Some index | CallerRigid _ \<Rightarrow> None);
     let (st, input_ty) = alloc_ty st (TyInferVar index);
     (r, g) \<leftarrow> unify_in_probe st child (input_ty, val) g;
     Some (case r of Inl e \<Rightarrow> Inl (Unification e) | Inr _ \<Rightarrow> Inr (), st, g) })"

definition apply_in_child ::
  "(ptr set \<Rightarrow> ptr list) \<Rightarrow> version \<Rightarrow> goal_query_data \<Rightarrow> canonical_var_info list \<Rightarrow> canonical_mapping \<Rightarrow>
     ir \<Rightarrow> query_result \<Rightarrow> response_var_info list \<Rightarrow> ir \<times> egraph \<Rightarrow>
     ((apply_response_error, applied_certainty) result \<times> ir \<times> egraph) option" where
  "apply_in_child ord child query vars mapping src response bound s = (case s of (st, g) \<Rightarrow> do {
     let base = cm_absolute_universe_base mapping;
     (r, st, g, m) \<leftarrow> try_each (map_input child base) (zip vars (cm_inputs mapping)) (st, g, Map.empty);
     case r of
       Inl e \<Rightarrow> Some (Inl e, st, g)
     | Inr _ \<Rightarrow> do {
         (r, next_binder, st, g, m) \<leftarrow> try_each (map_response_var child base) bound (gq_next_response_param query, st, g, m);
         case r of
           Inl e \<Rightarrow> Some (Inl e, st, g)
         | Inr _ \<Rightarrow> do {
             ((certainty, substitutions), s) \<leftarrow> copy_response src (qr_value response) (copier_new st m (Some next_binder));
             (r, st, g) \<leftarrow> try_each (apply_entry child vars (cm_inputs mapping)) substitutions (th_target s, g);
             case r of
               Inl e \<Rightarrow> Some (Inl e, st, g)
             | Inr _ \<Rightarrow> do {
                 (g, st, _) \<leftarrow> rebuild ord g child st;
                 Some (Inr certainty, st, g) } } } })"

section \<open>The transaction\<close>

definition apply_query_response ::
  "(ptr set \<Rightarrow> ptr list) \<Rightarrow> version \<Rightarrow> ir \<times> goal_query_data \<Rightarrow> canonical_mapping \<Rightarrow> ir \<times> query_result \<Rightarrow>
     ir \<times> egraph \<Rightarrow> ((apply_response_error, applied_response) result \<times> ir \<times> egraph) option" where
  "apply_query_response ord v query mapping response s = (case (query, response, s) of ((qst, q), (rst, r), (st, g)) \<Rightarrow> do {
     vars \<leftarrow> get_canonical_vars qst (gq_canonical_vars q);
     if length vars \<noteq> length (cm_inputs mapping) then Some (Inl MappingArity, st, g)
     else if qr_value r = ResultNo then do {
       revision \<leftarrow> semantic_revision g v;
       Some (Inr \<lparr>ar_effects = \<lparr>ce_wakes = [], ce_semantic_revision = revision\<rparr>, ar_certainty = AppliedNo\<rparr>, st, g) }
     else do {
       subst \<leftarrow> (case qr_value r of ResultMaybe hints \<Rightarrow> Some hints | ResultYes _ subst _ \<Rightarrow> Some subst | ResultNo \<Rightarrow> None);
       entries \<leftarrow> get_subst rst subst;
       case check_keys vars (cm_inputs mapping) entries {} of
         Inl e \<Rightarrow> Some (Inl e, st, g)
       | Inr _ \<Rightarrow> do {
           bound \<leftarrow> get_response_vars rst (qr_bound_vars r);
           case check_binders (cv_param ` set vars) bound {} of
             Inl e \<Rightarrow> Some (Inl e, st, g)
           | Inr _ \<Rightarrow> do {
               (g, child) \<leftarrow> branch_from g v;
               (res, st, g) \<leftarrow> apply_in_child ord child q vars mapping rst r bound (st, g);
               case res of
                 Inr certainty \<Rightarrow> do {
                   (g, effects) \<leftarrow> collapse_into g child v;
                   Some (Inr \<lparr>ar_effects = effects, ar_certainty = certainty\<rparr>, st, g) }
               | Inl e \<Rightarrow> do {
                   g \<leftarrow> discard g child;
                   Some (Inl e, st, g) } } } } })"

end
