(* ===== verification/InferCtx.thy ===== *)
theory InferCtx
  imports Obligations Response
begin

text \<open>
  \<open>check/infer_ctx.rs\<close>: the inference state of one function body, its constraint operations, and
  recovery after an error.  The context owns the arena, the egraph and the obligations; its
  operations are functions on the context, and a commit to the root version is published to the
  obligations and to the queue of variables to wake.

  A diagnostic is kept as the error it reports; its rendering as text is not modelled, except the
  hiding of inference variables (\<open>hide_inference_indices\<close>).  A node of the typed tree that fills an
  expression slot is kept in the slot, not in the arena, and only what this code reads of it: its
  type, its span and whether it is an error node.
\<close>

section \<open>Errors\<close>

datatype type_error_kind =
    TypeMismatch ptr ptr
  | TypeDomainConflict ptr "infer_domain option" ptr "infer_domain option" "infer_var_index list" ptr ptr
  | UnresolvedInferVar infer_var_index infer_domain
  | AmbiguousName nat

datatype error_context =
    ReturnType relative_span
  | Argument nat relative_span
  | FieldInit relative_span

datatype type_error =
    Fresh type_error_kind relative_span "error_context list"
  | AlreadyReported error_reported

definition with_context :: "type_error \<Rightarrow> error_context \<Rightarrow> type_error" where
  "with_context e context' = (case e of
     Fresh kind span ctx \<Rightarrow> Fresh kind span (ctx @ [context'])
   | AlreadyReported r \<Rightarrow> AlreadyReported r)"

text \<open>\<open>TyDisplay\<close> writes an inference variable as a question mark and digits.\<close>

definition is_digit :: "char \<Rightarrow> bool" where
  "is_digit c \<longleftrightarrow> 48 \<le> (of_char c :: nat) \<and> (of_char c :: nat) \<le> 57"

function hide_inference_indices :: "string \<Rightarrow> string" where
  "hide_inference_indices [] = []"
| "hide_inference_indices (character # characters) =
     (if character = CHR ''?'' \<and> characters \<noteq> [] \<and> is_digit (hd characters)
      then CHR ''_'' # hide_inference_indices (dropWhile is_digit characters)
      else character # hide_inference_indices characters)"
  by pat_completeness auto

termination hide_inference_indices
  by (relation "measure length") (simp_all add: le_imp_less_Suc length_dropWhile_le)

section \<open>The context\<close>

record expr_node =
  ex_error :: "error_reported option"
  ex_ty :: ptr
  ex_span :: relative_span

datatype diagnostic =
    TypeDiagnostic type_error_kind relative_span "error_context list"
  | ObligationDiagnostic string "obligation_provenance list"

record infer_ctx =
  ic_local_crate :: "nat option"
  ic_egraph :: egraph
  ic_target_stash :: ir
  ic_expr_slots :: "expr_node option list"
  ic_solver_assumptions :: slice
  ic_assumptions_complete :: bool
  ic_obligations :: obligation_manager
  ic_pending_wakes :: "infer_var_index list"
  ic_deferred_never_targets :: "ptr list"
  ic_diagnostics :: "diagnostic list"

type_synonym 'a ctx = "infer_ctx \<Rightarrow> ('a \<times> infer_ctx) option"

text \<open>What the context's operations take from outside: the order in which a hash set is iterated,
  the fingerprint of a query, and the answer of the solver's memoised query on a canonical goal.\<close>

record ctx_env =
  en_order :: "ptr set \<Rightarrow> ptr list"
  en_fingerprint :: fingerprint
  en_solve :: "ir \<times> goal_query_data \<Rightarrow> (ir \<times> query_result) option"

definition infer_ctx_new :: "nat option \<Rightarrow> infer_ctx" where
  "infer_ctx_new local_crate = (let (st, assumptions) = alloc_assumptions [] [] in
     \<lparr>ic_local_crate = local_crate, ic_egraph = egraph_new, ic_target_stash = st, ic_expr_slots = [],
      ic_solver_assumptions = assumptions, ic_assumptions_complete = True, ic_obligations = [],
      ic_pending_wakes = [], ic_deferred_never_targets = [], ic_diagnostics = []\<rparr>)"

definition record_diagnostic :: "diagnostic \<Rightarrow> infer_ctx \<Rightarrow> error_reported \<times> infer_ctx" where
  "record_diagnostic d cx = ((), cx\<lparr>ic_diagnostics := ic_diagnostics cx @ [d]\<rparr>)"

definition has_errors :: "infer_ctx \<Rightarrow> bool" where
  "has_errors cx \<longleftrightarrow> ic_diagnostics cx \<noteq> []"

definition publish_commit_effects :: "commit_effects \<Rightarrow> infer_ctx \<Rightarrow> infer_ctx" where
  "publish_commit_effects effects cx = cx\<lparr>
     ic_obligations := wake (ce_wakes effects) (ic_obligations cx),
     ic_pending_wakes := ic_pending_wakes cx @ ce_wakes effects\<rparr>"

text \<open>A transaction on the root version of the egraph and the arena.\<close>

definition with_egraph ::
  "(egraph \<Rightarrow> ir \<Rightarrow> ('a \<times> egraph \<times> ir) option) \<Rightarrow> 'a ctx" where
  "with_egraph f cx = do {
     (x, g, st) \<leftarrow> f (ic_egraph cx) (ic_target_stash cx);
     Some (x, cx\<lparr>ic_egraph := g, ic_target_stash := st\<rparr>) }"

section \<open>Allocation\<close>

definition ctx_alloc_ty :: "ty \<Rightarrow> infer_ctx \<Rightarrow> ptr \<times> infer_ctx" where
  "ctx_alloc_ty t cx = (let (st, p) = alloc_ty (ic_target_stash cx) t in (p, cx\<lparr>ic_target_stash := st\<rparr>))"

definition unit_ty :: "infer_ctx \<Rightarrow> ptr \<times> infer_ctx" where
  "unit_ty cx = (let (st, elems) = alloc_tys (ic_target_stash cx) [] in
     ctx_alloc_ty (TyTuple elems) (cx\<lparr>ic_target_stash := st\<rparr>))"

definition fresh_ty_var_in_domain :: "version \<Rightarrow> universe \<Rightarrow> infer_domain \<Rightarrow> ptr ctx" where
  "fresh_ty_var_in_domain v u domain cx = do {
     (g, index) \<leftarrow> alloc_var_in_domain (ic_egraph cx) v u domain;
     Some (ctx_alloc_ty (TyInferVar index) (cx\<lparr>ic_egraph := g\<rparr>)) }"

definition fresh_ty_var_in :: "version \<Rightarrow> universe \<Rightarrow> ptr ctx" where
  "fresh_ty_var_in v u = fresh_ty_var_in_domain v u DomAny"

definition fresh_ty_var_with_domain :: "infer_domain \<Rightarrow> ptr ctx" where
  "fresh_ty_var_with_domain domain = fresh_ty_var_in_domain ROOT 1 domain"

definition fresh_ty_var :: "ptr ctx" where
  "fresh_ty_var = fresh_ty_var_with_domain DomAny"

section \<open>Access to the egraph\<close>

definition ctx_find_in :: "version \<Rightarrow> ptr \<Rightarrow> infer_ctx \<Rightarrow> ptr option" where
  "ctx_find_in v t cx = find (ic_egraph cx) v t"

definition ctx_find :: "ptr \<Rightarrow> infer_ctx \<Rightarrow> ptr option" where
  "ctx_find t cx = ctx_find_in ROOT t cx"

definition ctx_find_mut_in :: "version \<Rightarrow> ptr \<Rightarrow> ptr ctx" where
  "ctx_find_mut_in v t cx = do {
     (g, root) \<leftarrow> find_mut (ic_egraph cx) v t;
     Some (root, cx\<lparr>ic_egraph := g\<rparr>) }"

definition ctx_find_mut :: "ptr \<Rightarrow> ptr ctx" where
  "ctx_find_mut t = ctx_find_mut_in ROOT t"

definition ctx_get_bound :: "ptr \<Rightarrow> infer_ctx \<Rightarrow> bound option" where
  "ctx_get_bound t cx = get_bound (ic_egraph cx) ROOT t"

text \<open>\<open>expect\<close> on the result of a transaction, then its effects are published.\<close>

definition expect_commit :: "(('e, commit_effects) result) ctx \<Rightarrow> unit ctx" where
  "expect_commit f cx = do {
     (r, cx) \<leftarrow> f cx;
     case r of
       Inl _ \<Rightarrow> None
     | Inr effects \<Rightarrow> Some ((), publish_commit_effects effects cx) }"

definition ctx_set_bound :: "ctx_env \<Rightarrow> ptr \<Rightarrow> bound \<Rightarrow> unit ctx" where
  "ctx_set_bound env t b = expect_commit (with_egraph (\<lambda>g st. try_set_bound (en_order env) g st ROOT t b))"

definition ctx_try_unify :: "ctx_env \<Rightarrow> version \<Rightarrow> ptr \<Rightarrow> ptr \<Rightarrow> (unify_error, commit_effects) result ctx" where
  "ctx_try_unify env v a b = with_egraph (\<lambda>g st. try_unify (en_order env) g st v a b)"

definition assume_eq :: "ctx_env \<Rightarrow> ptr \<Rightarrow> ptr \<Rightarrow> unit ctx" where
  "assume_eq env a b cx = do {
     (r, cx) \<leftarrow> ctx_try_unify env ROOT a b cx;
     case r of
       Inr effects \<Rightarrow> Some ((), publish_commit_effects effects cx)
     | Inl (Reported _) \<Rightarrow> Some ((), cx)
     | Inl _ \<Rightarrow> None }"

section \<open>Errors in a type\<close>

text \<open>\<open>iter().find_map(..)\<close> over a search that marks what it has visited.\<close>

fun find_map_state :: "('a \<Rightarrow> 's \<Rightarrow> ('b option \<times> 's) option) \<Rightarrow> 'a list \<Rightarrow> 's \<Rightarrow> ('b option \<times> 's) option" where
  "find_map_state f [] s = Some (None, s)"
| "find_map_state f (x # xs) s = do {
     (r, s) \<leftarrow> f x s;
     case r of Some y \<Rightarrow> Some (Some y, s) | None \<Rightarrow> find_map_state f xs s }"

lemma mono_find_map_state [partial_function_mono]:
  assumes "\<And>x s. mono_option (\<lambda>f. F f x s)"
  shows "mono_option (\<lambda>f. find_map_state (F f) xs s)"
proof (induction xs arbitrary: s)
  case (Cons x xs)
  have "mono_option (\<lambda>f. case r of Some y \<Rightarrow> Some (Some y, s) | None \<Rightarrow> find_map_state (F f) xs s)" for r s
    by (cases r) (simp_all add: Cons option.const_mono)
  then show ?case unfolding find_map_state.simps by (intro mono_bind_pair assms)
qed (simp add: option.const_mono)

definition error_children :: "ir \<Rightarrow> ptr \<Rightarrow> ty \<Rightarrow> ptr list option" where
  "error_children st p t = (case t of
     TyAdt _ arguments \<Rightarrow> get_tys st arguments
   | TyTuple arguments \<Rightarrow> get_tys st arguments
   | TyAlias _ \<Rightarrow> do { d \<leftarrow> decompose st p; Some (de_children d) }
   | TyRef inner _ _ \<Rightarrow> Some [inner]
   | TySlice inner \<Rightarrow> Some [inner]
   | TyArray inner _ \<Rightarrow> Some [inner]
   | TyFnPtr parameters return_ty \<Rightarrow> do { ps \<leftarrow> get_tys st parameters; Some (ps @ [return_ty]) }
   | _ \<Rightarrow> Some [])"

fun error_of :: "ty \<Rightarrow> error_reported option" where
  "error_of (TyError e) = Some e"
| "error_of _ = None"

partial_function (option) visit_errors ::
  "ir \<times> egraph \<Rightarrow> ptr \<Rightarrow> ptr set \<Rightarrow> (error_reported option \<times> ptr set) option" where
  "visit_errors sg p visited = do {
     p \<leftarrow> find (snd sg) ROOT p;
     if p \<in> visited then Some (None, visited)
     else do {
       t \<leftarrow> get_ty (fst sg) p;
       case error_of t of
         Some e \<Rightarrow> Some (Some e, insert p visited)
       | None \<Rightarrow> do {
           children \<leftarrow> error_children (fst sg) p t;
           find_map_state (visit_errors sg) children (insert p visited) } } }"

definition error_in_ty :: "ptr \<Rightarrow> infer_ctx \<Rightarrow> error_reported option option" where
  "error_in_ty t cx = do {
     (r, _) \<leftarrow> visit_errors (ic_target_stash cx, ic_egraph cx) t {};
     Some r }"

section \<open>Recovery\<close>

definition install_error :: "ctx_env \<Rightarrow> ptr \<Rightarrow> ptr \<Rightarrow> unit ctx" where
  "install_error env root error_ty =
     expect_commit (with_egraph (\<lambda>g st. install_error_recovery (en_order env) g st ROOT root error_ty))"

definition affected_root :: "infer_var_index \<Rightarrow> ptr list \<times> infer_ctx \<Rightarrow> (ptr list \<times> infer_ctx) option" where
  "affected_root variable s = (case s of (roots, cx) \<Rightarrow> do {
     let (t, cx) = ctx_alloc_ty (TyInferVar variable) cx;
     root \<leftarrow> ctx_find t cx;
     tr \<leftarrow> get_ty (ic_target_stash cx) root;
     Some (if is_infer_var tr \<and> root \<notin> set roots then roots @ [root] else roots, cx) })"

definition recover_root :: "ctx_env \<Rightarrow> ptr \<Rightarrow> ptr \<Rightarrow> infer_ctx \<Rightarrow> infer_ctx option" where
  "recover_root env error_ty root cx = do {
     (root, cx) \<leftarrow> ctx_find_mut root cx;
     t \<leftarrow> get_ty (ic_target_stash cx) root;
     if is_infer_var t then do { (_, cx) \<leftarrow> install_error env root error_ty cx; Some cx }
     else Some cx }"

definition recover_domain_conflict :: "ctx_env \<Rightarrow> infer_var_index list \<Rightarrow> error_reported \<Rightarrow> infer_ctx \<Rightarrow> infer_ctx option" where
  "recover_domain_conflict env affected reported cx = do {
     (roots, cx) \<leftarrow> fold_state affected_root affected ([], cx);
     if roots = [] then Some cx
     else do {
       let (error_ty, cx) = ctx_alloc_ty (TyError reported) cx;
       fold_state (recover_root env error_ty) roots cx } }"

datatype required_relation_recovery = RecoveryDone | RecoveryAtom ptr ptr | RecoveryChildren "(ptr \<times> ptr) list"

fun is_error :: "ty \<Rightarrow> bool" where
  "is_error (TyError _) = True"
| "is_error _ = False"

definition recovery_step ::
  "ptr \<Rightarrow> ptr \<Rightarrow> infer_ctx \<Rightarrow> (ptr \<times> ptr) set \<Rightarrow> (required_relation_recovery \<times> (ptr \<times> ptr) set) option" where
  "recovery_step actual expected cx visited = do {
     let st = ic_target_stash cx;
     actual \<leftarrow> ctx_find actual cx;
     expected \<leftarrow> ctx_find expected cx;
     if actual = expected \<or> (actual, expected) \<in> visited then Some (RecoveryDone, visited)
     else do {
       let visited = insert (actual, expected) visited;
       ta \<leftarrow> get_ty st actual;
       te \<leftarrow> get_ty st expected;
       if is_error ta \<or> is_error te then Some (RecoveryDone, visited)
       else if is_infer_var ta \<or> is_infer_var te then Some (RecoveryAtom actual expected, visited)
       else do {
         da \<leftarrow> decompose st actual;
         de \<leftarrow> decompose st expected;
         if de_skeleton da \<noteq> de_skeleton de \<or> length (de_children da) \<noteq> length (de_children de)
         then Some (RecoveryDone, visited)
         else Some (RecoveryChildren (zip (de_children da) (de_children de)), visited) } } }"

definition recover_atom :: "ctx_env \<Rightarrow> ptr \<Rightarrow> ptr \<Rightarrow> error_reported \<Rightarrow> infer_ctx \<Rightarrow> infer_ctx option" where
  "recover_atom env actual expected reported cx = do {
     (r, cx) \<leftarrow> with_egraph (\<lambda>g st. try_unify_required (en_order env) g st ROOT actual expected) cx;
     case r of
       Inr effects \<Rightarrow> Some (publish_commit_effects effects cx)
     | Inl failure \<Rightarrow> (case rf_error failure of
         DomainConflict _ _ _ _ \<Rightarrow> recover_domain_conflict env (rf_affected failure) reported cx
       | _ \<Rightarrow> Some cx) }"

type_synonym recovery_state = "infer_ctx \<times> (ptr \<times> ptr) set"

partial_function (option) recover_relation_inner ::
  "ctx_env \<times> error_reported \<Rightarrow> ptr \<times> ptr \<Rightarrow> recovery_state \<Rightarrow> recovery_state option" where
  "recover_relation_inner er ae s = do {
     (step, visited) \<leftarrow> recovery_step (fst ae) (snd ae) (fst s) (snd s);
     case step of
       RecoveryDone \<Rightarrow> Some (fst s, visited)
     | RecoveryAtom actual expected \<Rightarrow> do {
         cx \<leftarrow> recover_atom (fst er) actual expected (snd er) (fst s);
         Some (cx, visited) }
     | RecoveryChildren children \<Rightarrow> fold_state (recover_relation_inner er) children (fst s, visited) }"

definition recover_required_relation :: "ctx_env \<Rightarrow> ptr \<Rightarrow> ptr \<Rightarrow> error_reported \<Rightarrow> infer_ctx \<Rightarrow> infer_ctx option" where
  "recover_required_relation env actual expected reported cx = do {
     (cx, _) \<leftarrow> recover_relation_inner (env, reported) (actual, expected) (cx, {});
     Some cx }"

definition catch :: "ctx_env \<Rightarrow> type_error \<Rightarrow> error_reported ctx" where
  "catch env err cx = (case err of
     AlreadyReported e \<Rightarrow> Some (e, cx)
   | Fresh kind span context' \<Rightarrow> do {
       let (reported, cx) = record_diagnostic (TypeDiagnostic kind span context') cx;
       case kind of
         TypeDomainConflict _ _ _ _ affected relation_expected relation_actual \<Rightarrow> do {
           cx \<leftarrow> recover_domain_conflict env affected reported cx;
           cx \<leftarrow> recover_required_relation env relation_actual relation_expected reported cx;
           Some (reported, cx) }
       | _ \<Rightarrow> Some (reported, cx) })"

section \<open>Constraints\<close>

definition require_eq :: "ctx_env \<Rightarrow> ptr \<Rightarrow> ptr \<Rightarrow> relative_span \<Rightarrow> (type_error, unit) result ctx" where
  "require_eq env a b span cx = do {
     (r, cx) \<leftarrow> with_egraph (\<lambda>g st. try_unify_required (en_order env) g st ROOT a b) cx;
     case r of
       Inr effects \<Rightarrow> Some (Inr (), publish_commit_effects effects cx)
     | Inl failure \<Rightarrow> (case rf_error failure of
         Reported e \<Rightarrow> Some (Inl (AlreadyReported e), cx)
       | Mismatch left right \<Rightarrow> Some (Inl (Fresh (TypeMismatch right left) span []), cx)
       | DomainConflict left left_domain right right_domain \<Rightarrow>
           Some (Inl (Fresh (TypeDomainConflict right right_domain left left_domain (rf_affected failure) b a) span []), cx)
       | _ \<Rightarrow> do {
           expected \<leftarrow> ctx_find b cx;
           actual \<leftarrow> ctx_find a cx;
           Some (Inl (Fresh (TypeMismatch expected actual) span []), cx) }) }"

partial_function (option) require_sub ::
  "ctx_env \<times> relative_span \<Rightarrow> ptr \<times> ptr \<Rightarrow> infer_ctx \<Rightarrow> ((type_error, unit) result \<times> infer_ctx) option" where
  "require_sub es ab cx = do {
     (a_canon, cx) \<leftarrow> ctx_find_mut (fst ab) cx;
     (b_canon, cx) \<leftarrow> ctx_find_mut (snd ab) cx;
     if a_canon = b_canon then Some (Inr (), cx)
     else do {
       a_data \<leftarrow> get_ty (ic_target_stash cx) a_canon;
       b_data \<leftarrow> get_ty (ic_target_stash cx) b_canon;
       case (a_data, b_data) of
         (TyRef inner_a Shared _, TyRef inner_b Shared _) \<Rightarrow> require_sub es (inner_a, inner_b) cx
       | (TyRef inner_a Mut _, TyRef inner_b Mut _) \<Rightarrow> require_eq (fst es) inner_a inner_b (snd es) cx
       | _ \<Rightarrow> require_eq (fst es) a_canon b_canon (snd es) cx } }"

fun is_never :: "ty \<Rightarrow> bool" where
  "is_never TyNever = True"
| "is_never _ = False"

definition is_never_to_any_coercion :: "ptr \<Rightarrow> ptr \<Rightarrow> bool ctx" where
  "is_never_to_any_coercion source target cx = do {
     (source, cx) \<leftarrow> ctx_find_mut source cx;
     (target, cx) \<leftarrow> ctx_find_mut target cx;
     ts \<leftarrow> get_ty (ic_target_stash cx) source;
     if \<not> is_never ts then Some (False, cx)
     else do {
       tt \<leftarrow> get_ty (ic_target_stash cx) target;
       Some (\<not> is_never tt, cx) } }"

definition defer_never_target_if_infer :: "ptr \<Rightarrow> infer_ctx \<Rightarrow> infer_ctx option" where
  "defer_never_target_if_infer target cx = do {
     (target, cx) \<leftarrow> ctx_find_mut target cx;
     t \<leftarrow> get_ty (ic_target_stash cx) target;
     Some (if is_infer_var t \<and> target \<notin> set (ic_deferred_never_targets cx)
       then cx\<lparr>ic_deferred_never_targets := ic_deferred_never_targets cx @ [target]\<rparr> else cx) }"

definition require_coerce :: "ctx_env \<Rightarrow> ptr \<Rightarrow> ptr \<Rightarrow> relative_span \<Rightarrow> (type_error, unit) result ctx" where
  "require_coerce env a b span cx = do {
     (never, cx) \<leftarrow> is_never_to_any_coercion a b cx;
     if never then do { cx \<leftarrow> defer_never_target_if_infer b cx; Some (Inr (), cx) }
     else require_sub (env, span) (a, b) cx }"

section \<open>Versions\<close>

definition ctx_branch_from :: "version \<Rightarrow> version ctx" where
  "ctx_branch_from parent cx = do {
     (g, child) \<leftarrow> branch_from (ic_egraph cx) parent;
     Some (child, cx\<lparr>ic_egraph := g\<rparr>) }"

definition discard_branch :: "version \<Rightarrow> infer_ctx \<Rightarrow> infer_ctx option" where
  "discard_branch v cx = do { g \<leftarrow> discard (ic_egraph cx) v; Some (cx\<lparr>ic_egraph := g\<rparr>) }"

definition try_eq_in :: "ctx_env \<Rightarrow> version \<Rightarrow> ptr \<Rightarrow> ptr \<Rightarrow> bool ctx" where
  "try_eq_in env v left right cx = do {
     (r, cx) \<leftarrow> ctx_try_unify env v left right cx;
     Some (case r of Inr _ \<Rightarrow> True | Inl _ \<Rightarrow> False, cx) }"

definition try_eq_or_never_in :: "ctx_env \<Rightarrow> version \<Rightarrow> ptr \<Rightarrow> ptr \<Rightarrow> bool ctx" where
  "try_eq_or_never_in env v source target cx = do {
     (source, cx) \<leftarrow> ctx_find_mut_in v source cx;
     t \<leftarrow> get_ty (ic_target_stash cx) source;
     if is_never t then Some (True, cx) else try_eq_in env v source target cx }"

definition commit_branch :: "ctx_env \<Rightarrow> version \<Rightarrow> infer_ctx \<Rightarrow> infer_ctx option" where
  "commit_branch env v cx = do {
     (g, st, _) \<leftarrow> rebuild (en_order env) (ic_egraph cx) v (ic_target_stash cx);
     (g, effects) \<leftarrow> collapse_into g v ROOT;
     Some (publish_commit_effects effects (cx\<lparr>ic_egraph := g, ic_target_stash := st\<rparr>)) }"

section \<open>Expression slots\<close>

definition alloc_expr_slot :: "(expr_slot \<times> ptr) ctx" where
  "alloc_expr_slot cx = do {
     (t, cx) \<leftarrow> fresh_ty_var cx;
     let slot = length (ic_expr_slots cx) mod 2 ^ 32;
     Some ((slot, t), cx\<lparr>ic_expr_slots := ic_expr_slots cx @ [None]\<rparr>) }"

definition fill_expr_slot :: "expr_slot \<Rightarrow> expr_node \<Rightarrow> infer_ctx \<Rightarrow> infer_ctx option" where
  "fill_expr_slot slot expr cx = do {
     check (slot < length (ic_expr_slots cx));
     Some (cx\<lparr>ic_expr_slots := (ic_expr_slots cx)[slot := Some expr]\<rparr>) }"

definition error_expr :: "ctx_env \<Rightarrow> type_error \<Rightarrow> relative_span \<Rightarrow> expr_node ctx" where
  "error_expr env err span cx = do {
     (e, cx) \<leftarrow> catch env err cx;
     let (t, cx) = ctx_alloc_ty (TyError e) cx;
     Some (\<lparr>ex_error = Some e, ex_ty = t, ex_span = span\<rparr>, cx) }"

declare visit_errors.simps [simp del, code] and recover_relation_inner.simps [simp del, code]
  and require_sub.simps [simp del, code]

end
