(* ===== verification/ObligationLoop.thy ===== *)
theory ObligationLoop
  imports InferCtx
begin

text \<open>
  The obligations of \<open>check/infer_ctx.rs\<close>: how a proof request is submitted, canonicalized, attempted
  and discharged, and the finalization of a body.  The solver's answer is \<open>en_solve\<close> of the
  environment; every theorem holds for each such answer.
\<close>

section \<open>Canonicalizing a request\<close>

definition solver_goal_of :: "obligation_goal \<Rightarrow> solver_goal" where
  "solver_goal_of goal = (case goal of ProveGoal g \<Rightarrow> Prove g | NormalizeGoal alias _ \<Rightarrow> Normalize alias)"

fun existential_of :: "caller_canonical_var \<Rightarrow> infer_var_index option" where
  "existential_of (CallerExistential variable) = Some variable"
| "existential_of (CallerRigid _) = None"

definition canonicalize_obligation_goal ::
  "nat \<Rightarrow> bool \<Rightarrow> slice \<Rightarrow> obligation_goal \<Rightarrow> infer_ctx \<Rightarrow> (canonicalized_goal \<times> infer_var_index list) option" where
  "canonicalize_obligation_goal local_crate complete assumptions goal cx = do {
     canonical \<leftarrow> canonicalize_solver_goal
       \<lparr>cl_source = ic_target_stash cx, cl_egraph = ic_egraph cx, cl_version = ROOT\<rparr>
       local_crate 1 complete assumptions (solver_goal_of goal);
     Some (canonical, List.map_filter existential_of (cm_inputs (cg_mapping canonical))) }"

section \<open>Submission\<close>

definition add_provenance :: "obligation_provenance \<Rightarrow> obligation \<Rightarrow> obligation" where
  "add_provenance p ob = (if p \<in> set (ob_provenance ob) then ob else ob\<lparr>ob_provenance := ob_provenance ob @ [p]\<rparr>)"

definition submit_obligation ::
  "ctx_env \<Rightarrow> obligation_goal \<Rightarrow> obligation_provenance \<Rightarrow> obligation_recovery option \<Rightarrow> infer_ctx \<Rightarrow> infer_ctx option" where
  "submit_obligation env goal provenance recovery cx = do {
     local_crate \<leftarrow> ic_local_crate cx;
     let assumptions = ic_solver_assumptions cx;
     let complete = ic_assumptions_complete cx;
     (canonical, stalled_on) \<leftarrow> canonicalize_obligation_goal local_crate complete assumptions goal cx;
     let candidate = \<lparr>ob_goal = goal, ob_assumptions = assumptions, ob_assumptions_complete = complete,
       ob_local_crate = local_crate, ob_canonical_goal = cg_data canonical, ob_mapping = cg_mapping canonical,
       ob_provenance = [provenance], ob_recoveries = (case recovery of None \<Rightarrow> [] | Some r \<Rightarrow> [r]),
       ob_state = Ready, ob_stalled_on = stalled_on, ob_last_attempted_revision = None\<rparr>;
     let os = ic_obligations cx;
     Some (case position (\<lambda>ob. ob_state ob \<noteq> Terminal \<and> same_dedup_key (en_fingerprint env) ob candidate) os of
         Some i \<Rightarrow> cx\<lparr>ic_obligations := os[i := add_provenance provenance (os ! i)]\<rparr>
       | None \<Rightarrow> cx\<lparr>ic_obligations := os @ [candidate]\<rparr>) }"

definition submit_obligation_goal ::
  "ctx_env \<Rightarrow> goal \<Rightarrow> obligation_provenance \<Rightarrow> obligation_recovery option \<Rightarrow> infer_ctx \<Rightarrow> infer_ctx option" where
  "submit_obligation_goal env goal = submit_obligation env (ProveGoal goal)"

definition submit_alias_relation ::
  "ctx_env \<Rightarrow> alias_ty \<Rightarrow> ptr \<Rightarrow> obligation_provenance \<Rightarrow> infer_ctx \<Rightarrow> infer_ctx option" where
  "submit_alias_relation env alias expected provenance = submit_obligation env (NormalizeGoal alias expected) provenance None"

definition publish_environment ::
  "ctx_env \<Rightarrow> checked_parameter_env \<times> obligation_provenance \<Rightarrow> infer_ctx \<Rightarrow> infer_ctx option" where
  "publish_environment env ep cx = (case ep of (environment, provenance) \<Rightarrow> do {
     predicates \<leftarrow> get_predicates (ic_target_stash cx) (pe_where_clauses environment);
     cx \<leftarrow> fold_state (\<lambda>w. submit_obligation_goal env (GoalAtom (AtomTraitImpl (wp_self_ty w) (wp_trait_ref w))) provenance None)
       predicates cx;
     if pe_solver_eligibility environment = Unsupported then submit_obligation_goal env GoalMaybe provenance None cx
     else Some cx })"

definition publish_obligation_batch :: "ctx_env \<Rightarrow> staged_batch \<Rightarrow> infer_ctx \<Rightarrow> infer_ctx option" where
  "publish_obligation_batch env batch = fold_state (publish_environment env) batch"

definition submit_parameter_env ::
  "ctx_env \<Rightarrow> checked_parameter_env \<Rightarrow> relative_span \<Rightarrow> obligation_reason \<Rightarrow> infer_ctx \<Rightarrow> infer_ctx option" where
  "submit_parameter_env env environment span reason =
     publish_obligation_batch env (push_parameter_env environment span reason batch_new)"

definition submit_trait_obligation ::
  "ctx_env \<Rightarrow> ptr \<Rightarrow> trait_ref \<Rightarrow> relative_span \<Rightarrow> obligation_reason \<Rightarrow> infer_ctx \<Rightarrow> infer_ctx option" where
  "submit_trait_obligation env self_ty tr span reason =
     submit_obligation_goal env (GoalAtom (AtomTraitImpl self_ty tr)) \<lparr>op_span = span, op_reason = reason\<rparr> None"

definition submit_operator_obligation ::
  "ctx_env \<Rightarrow> obligation_goal \<Rightarrow> relative_span \<Rightarrow> expr_slot \<Rightarrow> ptr list \<Rightarrow> infer_ctx \<Rightarrow> infer_ctx option" where
  "submit_operator_obligation env goal span slot watched_types =
     submit_obligation env goal \<lparr>op_span = span, op_reason = BinaryOperator\<rparr>
       (Some \<lparr>re_slot = slot, re_span = span, re_watched_types = watched_types\<rparr>)"

definition submit_operator_trait_obligation ::
  "ctx_env \<Rightarrow> ptr \<Rightarrow> trait_ref \<Rightarrow> relative_span \<Rightarrow> expr_slot \<Rightarrow> ptr list \<Rightarrow> infer_ctx \<Rightarrow> infer_ctx option" where
  "submit_operator_trait_obligation env self_ty tr =
     submit_operator_obligation env (ProveGoal (GoalAtom (AtomTraitImpl self_ty tr)))"

definition submit_operator_alias_relation ::
  "ctx_env \<Rightarrow> alias_ty \<Rightarrow> ptr \<Rightarrow> relative_span \<Rightarrow> expr_slot \<Rightarrow> ptr list \<Rightarrow> infer_ctx \<Rightarrow> infer_ctx option" where
  "submit_operator_alias_relation env alias expected = submit_operator_obligation env (NormalizeGoal alias expected)"

section \<open>Classification of a fixed goal\<close>

datatype trait_goal_certainty = CertainYes | CertainMaybe | CertainNo

definition classify_trait_goal :: "ctx_env \<Rightarrow> ptr \<Rightarrow> trait_ref \<Rightarrow> infer_ctx \<Rightarrow> trait_goal_certainty option" where
  "classify_trait_goal env self_ty tr cx = do {
     local_crate \<leftarrow> ic_local_crate cx;
     (canonical, _) \<leftarrow> canonicalize_obligation_goal local_crate (ic_assumptions_complete cx) (ic_solver_assumptions cx)
       (ProveGoal (GoalAtom (AtomTraitImpl self_ty tr))) cx;
     if list_ex (\<lambda>input. existential_of input \<noteq> None) (cm_inputs (cg_mapping canonical)) then Some CertainMaybe
     else do {
       (rst, response) \<leftarrow> en_solve env (cg_data canonical);
       case qr_value response of
         ResultYes _ _ residual \<Rightarrow> do {
           trivial \<leftarrow> is_trivially_true rst residual;
           Some (if trivial then CertainYes else CertainMaybe) }
       | ResultMaybe _ \<Rightarrow> Some CertainMaybe
       | ResultNo \<Rightarrow> Some CertainNo } }"

section \<open>Other uses of the egraph\<close>

definition types_may_unify :: "ctx_env \<Rightarrow> ptr \<Rightarrow> ptr \<Rightarrow> bool ctx" where
  "types_may_unify env left right cx = do {
     (transaction, cx) \<leftarrow> ctx_branch_from ROOT cx;
     (r, cx) \<leftarrow> ctx_try_unify env transaction left right cx;
     cx \<leftarrow> discard_branch transaction cx;
     Some (case r of
         Inr _ \<Rightarrow> True
       | Inl (OccursCheck _ _) \<Rightarrow> True
       | Inl (UniverseLeak _ _) \<Rightarrow> True
       | Inl (Reported _) \<Rightarrow> True
       | Inl (Mismatch _ _) \<Rightarrow> False
       | Inl (DomainConflict _ _ _ _) \<Rightarrow> False, cx) }"

text \<open>\<open>iter().any(..)\<close> with a test that changes the context.\<close>

fun any_state :: "('a \<Rightarrow> bool ctx) \<Rightarrow> 'a list \<Rightarrow> bool ctx" where
  "any_state f [] cx = Some (False, cx)"
| "any_state f (x # xs) cx = do {
     (b, cx) \<leftarrow> f x cx;
     if b then Some (True, cx) else any_state f xs cx }"

definition has_unhandled_method_bound_providers :: "ctx_env \<Rightarrow> ptr \<Rightarrow> bool ctx" where
  "has_unhandled_method_bound_providers env receiver_ty cx =
     (if \<not> ic_assumptions_complete cx then Some (True, cx)
      else do {
        assumptions \<leftarrow> get_assumptions (ic_target_stash cx) (ic_solver_assumptions cx);
        any_state (\<lambda>assumption cx. case assumption of
            AsmTraitImpl self_ty _ \<Rightarrow> types_may_unify env self_ty receiver_ty cx
          | AsmNormalizesTo _ _ \<Rightarrow> Some (False, cx)
          | _ \<Rightarrow> Some (True, cx)) assumptions cx })"

section \<open>One obligation\<close>

definition get_obligation :: "nat \<Rightarrow> infer_ctx \<Rightarrow> obligation option" where
  "get_obligation index cx = nth_opt (ic_obligations cx) index"

definition set_obligation :: "nat \<Rightarrow> (obligation \<Rightarrow> obligation) \<Rightarrow> infer_ctx \<Rightarrow> infer_ctx option" where
  "set_obligation index f cx = do {
     ob \<leftarrow> get_obligation index cx;
     Some (cx\<lparr>ic_obligations := (ic_obligations cx)[index := f ob]\<rparr>) }"

definition recanonicalize_obligation :: "nat \<Rightarrow> (64 word) ctx" where
  "recanonicalize_obligation index cx = do {
     ob \<leftarrow> get_obligation index cx;
     revision \<leftarrow> semantic_revision (ic_egraph cx) ROOT;
     (canonical, stalled_on) \<leftarrow> canonicalize_obligation_goal (ob_local_crate ob) (ob_assumptions_complete ob)
       (ob_assumptions ob) (ob_goal ob) cx;
     cx \<leftarrow> set_obligation index (\<lambda>ob. ob\<lparr>ob_canonical_goal := cg_data canonical, ob_mapping := cg_mapping canonical,
       ob_stalled_on := stalled_on\<rparr>) cx;
     Some (revision, cx) }"

definition recover_slot :: "ctx_env \<Rightarrow> error_reported \<Rightarrow> ptr \<Rightarrow> obligation_recovery \<Rightarrow> infer_ctx \<Rightarrow> infer_ctx option" where
  "recover_slot env error error_ty recovery cx = do {
     slot \<leftarrow> nth_opt (ic_expr_slots cx) (re_slot recovery);
     original \<leftarrow> slot;
     root \<leftarrow> ctx_find (ex_ty original) cx;
     t \<leftarrow> get_ty (ic_target_stash cx) root;
     (_, cx) \<leftarrow> (if is_infer_var t then install_error env root error_ty cx else Some ((), cx));
     fill_expr_slot (re_slot recovery) \<lparr>ex_error = Some error, ex_ty = error_ty, ex_span = re_span recovery\<rparr> cx }"

definition recover_expr_slots :: "ctx_env \<Rightarrow> obligation_recovery list \<Rightarrow> error_reported \<Rightarrow> infer_ctx \<Rightarrow> infer_ctx option" where
  "recover_expr_slots env recoveries error cx = (let (error_ty, cx) = ctx_alloc_ty (TyError error) cx in
     fold_state (recover_slot env error error_ty) recoveries cx)"

definition terminalize_obligation_with_error ::
  "ctx_env \<Rightarrow> nat \<Rightarrow> 64 word \<Rightarrow> error_reported \<Rightarrow> infer_ctx \<Rightarrow> infer_ctx option" where
  "terminalize_obligation_with_error env index revision error cx = do {
     cx \<leftarrow> set_obligation index (\<lambda>ob. ob\<lparr>ob_state := Terminal, ob_last_attempted_revision := Some revision\<rparr>) cx;
     ob \<leftarrow> get_obligation index cx;
     recover_expr_slots env (ob_recoveries ob) error cx }"

text \<open>The diagnostic's labels are the provenances, the first one primary; without one there is no
  diagnostic and no recovery.\<close>

definition fail_obligation :: "ctx_env \<Rightarrow> nat \<Rightarrow> string \<Rightarrow> infer_ctx \<Rightarrow> infer_ctx option" where
  "fail_obligation env index message cx = do {
     ob \<leftarrow> get_obligation index cx;
     if ob_state ob = Terminal then Some cx
     else do {
       cx \<leftarrow> set_obligation index (\<lambda>ob. ob\<lparr>ob_state := Terminal\<rparr>) cx;
       if ob_provenance ob = [] then Some cx
       else do {
         let (error, cx) = record_diagnostic (ObligationDiagnostic message (ob_provenance ob)) cx;
         recover_expr_slots env (ob_recoveries ob) error cx } } }"

text \<open>\<open>find_map\<close> over tests that may panic.\<close>

fun first_error :: "('a \<Rightarrow> error_reported option option) \<Rightarrow> 'a list \<Rightarrow> error_reported option option" where
  "first_error f [] = Some None"
| "first_error f (x # xs) = do { r \<leftarrow> f x; case r of Some e \<Rightarrow> Some (Some e) | None \<Rightarrow> first_error f xs }"

definition recovery_error :: "infer_ctx \<Rightarrow> obligation_recovery \<Rightarrow> error_reported option option" where
  "recovery_error cx recovery = do {
     slot \<leftarrow> nth_opt (ic_expr_slots cx) (re_slot recovery);
     expression \<leftarrow> slot;
     case ex_error expression of
       Some error \<Rightarrow> Some (Some error)
     | None \<Rightarrow> first_error (\<lambda>t. error_in_ty t cx) (re_watched_types recovery) }"

definition obligation_recovery_error :: "nat \<Rightarrow> infer_ctx \<Rightarrow> error_reported option option" where
  "obligation_recovery_error index cx = do {
     ob \<leftarrow> get_obligation index cx;
     first_error (recovery_error cx) (ob_recoveries ob) }"

section \<open>Attempts\<close>

definition retain_residual :: "nat \<Rightarrow> goal \<Rightarrow> 64 word \<Rightarrow> infer_ctx \<Rightarrow> infer_ctx option" where
  "retain_residual index residual revision cx = do {
     cx \<leftarrow> set_obligation index (\<lambda>ob. ob\<lparr>ob_goal := ProveGoal residual, ob_last_attempted_revision := Some revision,
       ob_state := Stalled\<rparr>) cx;
     (_, cx) \<leftarrow> recanonicalize_obligation index cx;
     Some cx }"

definition attempt_proof_obligation ::
  "ctx_env \<Rightarrow> nat \<Rightarrow> bool \<Rightarrow> ir \<times> goal_query_data \<Rightarrow> canonical_mapping \<Rightarrow> infer_ctx \<Rightarrow> infer_ctx option" where
  "attempt_proof_obligation env index terminal query mapping cx = do {
     response \<leftarrow> en_solve env query;
     (r, st, g) \<leftarrow> apply_query_response (en_order env) ROOT query mapping response (ic_target_stash cx, ic_egraph cx);
     let cx = cx\<lparr>ic_target_stash := st, ic_egraph := g\<rparr>;
     case r of
       Inl _ \<Rightarrow> fail_obligation env index ''trait obligation was disproved by incompatible inference'' cx
     | Inr applied \<Rightarrow> do {
         let post_revision = ce_semantic_revision (ar_effects applied);
         let wakes = ce_wakes (ar_effects applied);
         let cx = publish_commit_effects (ar_effects applied) cx;
         case ar_certainty applied of
           AppliedNo \<Rightarrow> fail_obligation env index ''trait obligation is not satisfied'' cx
         | AppliedMaybe \<Rightarrow>
             if terminal then fail_obligation env index ''trait obligation could not be resolved'' cx
             else do {
               (_, cx) \<leftarrow> recanonicalize_obligation index cx;
               set_obligation index (\<lambda>ob. ob\<lparr>ob_last_attempted_revision := Some post_revision,
                 ob_state := (if waits_on wakes ob then Ready else Stalled)\<rparr>) cx }
         | AppliedYes _ residual \<Rightarrow> do {
             trivial \<leftarrow> is_trivially_true (ic_target_stash cx) residual;
             if trivial then set_obligation index (\<lambda>ob. ob\<lparr>ob_state := Terminal,
               ob_last_attempted_revision := Some post_revision\<rparr>) cx
             else if terminal then fail_obligation env index ''trait obligation remains conditional'' cx
             else retain_residual index residual post_revision cx } } }"

datatype normalization_progress = ProgressYes | ProgressResidual goal | ProgressMaybe | ProgressNo

definition discard_for :: "version \<Rightarrow> normalization_progress \<Rightarrow> infer_ctx \<Rightarrow> (normalization_progress \<times> infer_ctx) option" where
  "discard_for transaction progress cx = do { cx \<leftarrow> discard_branch transaction cx; Some (progress, cx) }"

definition apply_normalization_relation ::
  "ctx_env \<Rightarrow> ir \<times> goal_query_data \<Rightarrow> canonical_mapping \<Rightarrow> ir \<times> query_result \<Rightarrow> ptr \<Rightarrow> normalization_progress ctx" where
  "apply_normalization_relation env query mapping response expected cx = do {
     (transaction, cx) \<leftarrow> ctx_branch_from ROOT cx;
     (r, st, g) \<leftarrow> apply_query_response (en_order env) transaction query mapping response (ic_target_stash cx, ic_egraph cx);
     let cx = cx\<lparr>ic_target_stash := st, ic_egraph := g\<rparr>;
     case r of
       Inl _ \<Rightarrow> discard_for transaction ProgressNo cx
     | Inr applied \<Rightarrow> (case ar_certainty applied of
         AppliedMaybe \<Rightarrow> discard_for transaction ProgressMaybe cx
       | AppliedNo \<Rightarrow> discard_for transaction ProgressNo cx
       | AppliedYes Proven _ \<Rightarrow> None
       | AppliedYes (OutputType out) residual \<Rightarrow> do {
           (r, cx) \<leftarrow> ctx_try_unify env transaction out expected cx;
           case r of
             Inl _ \<Rightarrow> discard_for transaction ProgressNo cx
           | Inr _ \<Rightarrow> do {
               complete \<leftarrow> is_trivially_true (ic_target_stash cx) residual;
               (g, effects) \<leftarrow> collapse_into (ic_egraph cx) transaction ROOT;
               let cx = publish_commit_effects effects (cx\<lparr>ic_egraph := g\<rparr>);
               Some (if complete then ProgressYes else ProgressResidual residual, cx) } }) }"

definition attempt_normalization_obligation ::
  "ctx_env \<Rightarrow> nat \<Rightarrow> bool \<Rightarrow> ir \<times> goal_query_data \<Rightarrow> canonical_mapping \<Rightarrow> ptr \<Rightarrow> infer_ctx \<Rightarrow> infer_ctx option" where
  "attempt_normalization_obligation env index terminal query mapping expected cx = do {
     response \<leftarrow> en_solve env query;
     (progress, cx) \<leftarrow> apply_normalization_relation env query mapping response expected cx;
     revision \<leftarrow> semantic_revision (ic_egraph cx) ROOT;
     case progress of
       ProgressNo \<Rightarrow> fail_obligation env index ''associated type relation is not satisfied'' cx
     | ProgressMaybe \<Rightarrow>
         if terminal then fail_obligation env index ''associated type could not be normalized'' cx
         else do {
           (_, cx) \<leftarrow> recanonicalize_obligation index cx;
           set_obligation index (\<lambda>ob. ob\<lparr>ob_last_attempted_revision := Some revision, ob_state := Stalled\<rparr>) cx }
     | ProgressYes \<Rightarrow> set_obligation index (\<lambda>ob. ob\<lparr>ob_state := Terminal, ob_last_attempted_revision := Some revision\<rparr>) cx
     | ProgressResidual residual \<Rightarrow>
         if terminal then fail_obligation env index ''associated type normalization remains conditional'' cx
         else retain_residual index residual revision cx }"

text \<open>An error in the alias or the expected type of a normalization.\<close>

definition goal_error :: "obligation_goal \<Rightarrow> infer_ctx \<Rightarrow> (error_reported option \<times> infer_ctx) option" where
  "goal_error goal cx = (case goal of
     ProveGoal _ \<Rightarrow> Some (None, cx)
   | NormalizeGoal alias expected \<Rightarrow> do {
       let (alias, cx) = ctx_alloc_ty (TyAlias alias) cx;
       e \<leftarrow> first_error (\<lambda>t. error_in_ty t cx) [alias, expected];
       Some (e, cx) })"

definition attempt_obligation :: "ctx_env \<Rightarrow> nat \<Rightarrow> bool \<Rightarrow> infer_ctx \<Rightarrow> infer_ctx option" where
  "attempt_obligation env index terminal cx = do {
     (revision, cx) \<leftarrow> recanonicalize_obligation index cx;
     e \<leftarrow> obligation_recovery_error index cx;
     case e of
       Some error \<Rightarrow> terminalize_obligation_with_error env index revision error cx
     | None \<Rightarrow> do {
         ob \<leftarrow> get_obligation index cx;
         (e, cx) \<leftarrow> goal_error (ob_goal ob) cx;
         case e of
           Some error \<Rightarrow> terminalize_obligation_with_error env index revision error cx
         | None \<Rightarrow>
             if ob_last_attempted_revision ob = Some revision \<and> \<not> terminal
             then set_obligation index (\<lambda>ob. ob\<lparr>ob_state := Stalled\<rparr>) cx
             else (case ob_goal ob of
               ProveGoal _ \<Rightarrow> attempt_proof_obligation env index terminal (ob_canonical_goal ob) (ob_mapping ob) cx
             | NormalizeGoal _ expected \<Rightarrow>
                 attempt_normalization_obligation env index terminal (ob_canonical_goal ob) (ob_mapping ob) expected cx) } }"

section \<open>The loop\<close>

definition merge_duplicate :: "ctx_env \<Rightarrow> nat \<Rightarrow> nat \<Rightarrow> obligation_manager \<Rightarrow> obligation_manager option" where
  "merge_duplicate env index duplicate os = do {
     right \<leftarrow> nth_opt os duplicate;
     if ob_state right = Terminal then Some os
     else do {
       left \<leftarrow> nth_opt os index;
       if same_dedup_key (en_fingerprint env) left right then do {
         let os = os[index := fold add_provenance (ob_provenance right) left];
         Some (os[duplicate := (os ! duplicate)\<lparr>ob_state := Terminal\<rparr>]) }
       else Some os } }"

fun merge_duplicates :: "ctx_env \<Rightarrow> nat list \<Rightarrow> obligation_manager \<Rightarrow> obligation_manager option" where
  "merge_duplicates env [] os = Some os"
| "merge_duplicates env (index # rest) os = do {
     ob \<leftarrow> nth_opt os index;
     os \<leftarrow> (if ob_state ob = Terminal then Some os else fold_state (merge_duplicate env index) rest os);
     merge_duplicates env rest os }"

definition deduplicate_pending_obligations :: "ctx_env \<Rightarrow> infer_ctx \<Rightarrow> infer_ctx option" where
  "deduplicate_pending_obligations env cx = do {
     let pending = pending_indices (ic_obligations cx);
     cx \<leftarrow> fold_state (\<lambda>index cx. do { (_, cx) \<leftarrow> recanonicalize_obligation index cx; Some cx }) pending cx;
     os \<leftarrow> merge_duplicates env pending (ic_obligations cx);
     Some (cx\<lparr>ic_obligations := os\<rparr>) }"

partial_function (option) process_ready_obligations :: "ctx_env \<Rightarrow> infer_ctx \<Rightarrow> infer_ctx option" where
  "process_ready_obligations env cx = do {
     cx \<leftarrow> deduplicate_pending_obligations env cx;
     let ready = ready_indices (ic_obligations cx);
     if ready = [] then Some cx
     else do {
       cx \<leftarrow> fold_state (\<lambda>index. attempt_obligation env index False) ready cx;
       process_ready_obligations env cx } }"

text \<open>The terminal pass, and the assertion that ends it.\<close>

definition terminal_pass :: "ctx_env \<Rightarrow> infer_ctx \<Rightarrow> infer_ctx option" where
  "terminal_pass env cx = do {
     cx \<leftarrow> deduplicate_pending_obligations env cx;
     fold_state (\<lambda>index. attempt_obligation env index True) (pending_indices (ic_obligations cx)) cx }"

definition terminally_discharge_obligations :: "ctx_env \<Rightarrow> infer_ctx \<Rightarrow> infer_ctx option" where
  "terminally_discharge_obligations env cx = do {
     cx \<leftarrow> terminal_pass env cx;
     check (\<not> has_pending (ic_obligations cx));
     Some cx }"

section \<open>Finalization\<close>

definition default_never_target ::
  "ctx_env \<Rightarrow> infer_var_index list option \<Rightarrow> ptr \<Rightarrow> ptr \<Rightarrow> infer_ctx \<Rightarrow> infer_ctx option" where
  "default_never_target env only never target cx = do {
     (target, cx) \<leftarrow> ctx_find_mut target cx;
     t \<leftarrow> get_ty (ic_target_stash cx) target;
     case infer_var_of t of
       None \<Rightarrow> Some cx
     | Some variable \<Rightarrow>
         if (case only of Some variables \<Rightarrow> variable \<notin> set variables | None \<Rightarrow> False) then Some cx
         else do {
           b \<leftarrow> ctx_get_bound target cx;
           if b \<noteq> BoundNone then Some cx
           else do { (_, cx) \<leftarrow> expect_commit (ctx_try_unify env ROOT target never) cx; Some cx } } }"

definition default_deferred_never_targets :: "ctx_env \<Rightarrow> infer_var_index list option \<Rightarrow> infer_ctx \<Rightarrow> infer_ctx option" where
  "default_deferred_never_targets env only cx =
     (if ic_deferred_never_targets cx = [] then Some cx
      else let (never, cx) = ctx_alloc_ty TyNever cx in
        fold_state (default_never_target env only never) (ic_deferred_never_targets cx) cx)"

definition settle_variable ::
  "ctx_env \<Rightarrow> infer_var_index \<Rightarrow> (ptr \<times> infer_var_index) list \<times> infer_ctx \<Rightarrow> ((ptr \<times> infer_var_index) list \<times> infer_ctx) option" where
  "settle_variable env idx s = (case s of (unresolved, cx) \<Rightarrow> do {
     let (t, cx) = ctx_alloc_ty (TyInferVar idx) cx;
     (canon, cx) \<leftarrow> ctx_find_mut t cx;
     if canon \<noteq> t then Some (unresolved, cx)
     else do {
       b \<leftarrow> ctx_get_bound t cx;
       case b of
         BoundNone \<Rightarrow> Some (unresolved @ [(t, idx)], cx)
       | AtLeast bt \<Rightarrow> do { (_, cx) \<leftarrow> expect_commit (ctx_try_unify env ROOT t bt) cx; Some (unresolved, cx) }
       | Exactly _ \<Rightarrow> Some (unresolved, cx) } })"

definition zero_span :: relative_span where
  "zero_span = \<lparr>sp_start = 0, sp_end = 0\<rparr>"

definition report_unresolved :: "ctx_env \<Rightarrow> ptr \<times> infer_var_index \<Rightarrow> infer_ctx \<Rightarrow> infer_ctx option" where
  "report_unresolved env ti cx = (case ti of (t, idx) \<Rightarrow> do {
     (root, cx) \<leftarrow> ctx_find_mut t cx;
     tr \<leftarrow> get_ty (ic_target_stash cx) root;
     if root \<noteq> t \<or> \<not> is_infer_var tr then Some cx
     else do {
       d \<leftarrow> effective_domain (ic_egraph cx) (ic_target_stash cx) ROOT t;
       domain \<leftarrow> d;
       (e, cx) \<leftarrow> catch env (Fresh (UnresolvedInferVar idx domain) zero_span []) cx;
       let (error_ty, cx) = ctx_alloc_ty (TyError e) cx;
       (_, cx) \<leftarrow> install_error env t error_ty cx;
       process_ready_obligations env cx } })"

text \<open>\<open>finalize\<close> up to the draining of the executor: every inference variable is settled and every
  obligation discharged.\<close>

definition finalize_inference :: "ctx_env \<Rightarrow> infer_ctx \<Rightarrow> infer_ctx option" where
  "finalize_inference env cx = do {
     cx \<leftarrow> process_ready_obligations env cx;
     cx \<leftarrow> default_deferred_never_targets env None cx;
     variables \<leftarrow> visible_variables (eg_versions (ic_egraph cx)) ROOT;
     (unresolved, cx) \<leftarrow> fold_state (settle_variable env) variables ([], cx);
     cx \<leftarrow> fold_state (report_unresolved env) unresolved cx;
     cx \<leftarrow> process_ready_obligations env cx;
     terminally_discharge_obligations env cx }"

declare process_ready_obligations.simps [simp del, code]

end
