(* ===== verification/ObligationFrame.thy ===== *)
theory ObligationFrame
  imports ObligationLoop
begin

text \<open>
  What an operation of the context does to the obligations it is not about: at most, it wakes a
  stalled one.
\<close>

section \<open>The frame\<close>

definition woken_from :: "obligation \<Rightarrow> obligation \<Rightarrow> bool" where
  "woken_from a b \<longleftrightarrow> b = a \<or> ob_state a = Stalled \<and> b = a\<lparr>ob_state := Ready\<rparr>"

definition frame :: "nat set \<Rightarrow> obligation_manager \<Rightarrow> obligation_manager \<Rightarrow> bool" where
  "frame S os os' \<longleftrightarrow> length os' = length os \<and> (\<forall>j < length os. j \<notin> S \<longrightarrow> woken_from (os ! j) (os' ! j))"

named_theorems quiet \<open>operations that at most wake obligations\<close>

lemma woken_from_trans: "woken_from a b \<Longrightarrow> woken_from b c \<Longrightarrow> woken_from a c"
  by (auto simp: woken_from_def)

lemma frame_refl [simp, intro]: "frame S os os"
  by (simp add: frame_def woken_from_def)

lemma frame_trans: "frame S a b \<Longrightarrow> frame T b c \<Longrightarrow> S \<subseteq> U \<Longrightarrow> T \<subseteq> U \<Longrightarrow> frame U a c"
  unfolding frame_def by (metis subset_eq woken_from_trans)

lemma frame_quiet: "frame {} a b \<Longrightarrow> frame S b c \<Longrightarrow> frame S a c"
  by (rule frame_trans) auto

lemma frame_then_quiet: "frame S a b \<Longrightarrow> frame {} b c \<Longrightarrow> frame S a c"
  by (rule frame_trans) auto

lemma frame_weaken: "frame S a b \<Longrightarrow> S \<subseteq> T \<Longrightarrow> frame T a b"
  by (auto simp: frame_def)

lemma frame_length: "frame S a b \<Longrightarrow> length b = length a"
  by (simp add: frame_def)

lemma frame_terminal:
  "frame S a b \<Longrightarrow> j < length a \<Longrightarrow> j \<notin> S \<Longrightarrow> ob_state (a ! j) = Terminal \<Longrightarrow> b ! j = a ! j"
  by (auto simp: frame_def woken_from_def)

lemma frame_wake: "frame {} os (wake vs os)"
  by (simp add: frame_def woken_from_def wake_nth)

lemma frame_update: "frame {i} os (os[i := ob])"
  by (auto simp: frame_def woken_from_def nth_list_update)

section \<open>Operations that do not name an obligation\<close>

abbreviation obs :: "infer_ctx \<Rightarrow> obligation_manager" where
  "obs \<equiv> ic_obligations"

lemma obs_publish [quiet]: "frame {} (obs cx) (obs (publish_commit_effects effects cx))"
  by (simp add: publish_commit_effects_def frame_wake)

lemma obs_alloc_ty: "ctx_alloc_ty t cx = (p, cx') \<Longrightarrow> obs cx' = obs cx"
  by (auto simp: ctx_alloc_ty_def split: prod.splits)

lemma obs_with_egraph: "with_egraph f cx = Some (r, cx') \<Longrightarrow> obs cx' = obs cx"
  by (auto simp: with_egraph_def opt_simps)

lemma obs_find_mut: "ctx_find_mut t cx = Some (r, cx') \<Longrightarrow> obs cx' = obs cx"
  by (auto simp: ctx_find_mut_def ctx_find_mut_in_def opt_simps)

lemma obs_fill: "fill_expr_slot slot e cx = Some cx' \<Longrightarrow> obs cx' = obs cx"
  by (auto simp: fill_expr_slot_def opt_simps)

lemma obs_record: "record_diagnostic d cx = (e, cx') \<Longrightarrow> obs cx' = obs cx"
  by (auto simp: record_diagnostic_def)

lemma obs_try_unify: "ctx_try_unify env v a b cx = Some (r, cx') \<Longrightarrow> obs cx' = obs cx"
  by (auto simp: ctx_try_unify_def obs_with_egraph)

lemma obs_branch: "ctx_branch_from v cx = Some (c, cx') \<Longrightarrow> obs cx' = obs cx"
  by (auto simp: ctx_branch_from_def opt_simps)

lemma obs_discard: "discard_branch v cx = Some cx' \<Longrightarrow> obs cx' = obs cx"
  by (auto simp: discard_branch_def opt_simps)

lemmas same_obs = obs_alloc_ty obs_with_egraph obs_find_mut obs_fill obs_record obs_try_unify obs_branch obs_discard

lemma expect_commit_quiet:
  assumes "\<And>r cx'. f cx = Some (r, cx') \<Longrightarrow> obs cx' = obs cx" and "expect_commit f cx = Some (u, cx')"
  shows "frame {} (obs cx) (obs cx')"
proof -
  obtain r cx1 where f: "f cx = Some (r, cx1)" and "(case r of Inl _ \<Rightarrow> None | Inr effects \<Rightarrow> Some ((), publish_commit_effects effects cx1)) = Some (u, cx')"
    using assms(2) by (auto simp: expect_commit_def opt_simps)
  then obtain effects where "cx' = publish_commit_effects effects cx1" by (cases r) auto
  then show ?thesis using assms(1) [OF f] obs_publish [of cx1 effects] by simp
qed

lemma install_error_quiet: "install_error env root t cx = Some (u, cx') \<Longrightarrow> frame {} (obs cx) (obs cx')"
  unfolding install_error_def by (rule expect_commit_quiet) (auto dest: same_obs)

lemma fold_state_quiet:
  assumes "\<And>x s s'. x \<in> set xs \<Longrightarrow> f x s = Some s' \<Longrightarrow> frame {} (obs (p s)) (obs (p s'))"
    and "fold_state f xs s = Some s'"
  shows "frame {} (obs (p s)) (obs (p s'))"
  by (rule fold_state_inv [where P = "\<lambda>t. frame {} (obs (p s)) (obs (p t))", OF assms(2)])
    (auto intro: frame_quiet assms(1))

lemma recover_slot_quiet:
  assumes "recover_slot env e t r cx = Some cx'"
  shows "frame {} (obs cx) (obs cx')"
proof -
  obtain root tr u cx1 where "(if is_infer_var tr then install_error env root t cx else Some ((), cx)) = Some (u, cx1)"
    and fill: "fill_expr_slot (re_slot r) \<lparr>ex_error = Some e, ex_ty = t, ex_span = re_span r\<rparr> cx1 = Some cx'"
    using assms unfolding recover_slot_def bind_Some_iff by auto
  then have "frame {} (obs cx) (obs cx1)" by (auto split: if_splits dest: install_error_quiet)
  then show ?thesis using obs_fill [OF fill] by simp
qed

lemma recover_expr_slots_quiet:
  assumes "recover_expr_slots env rs e cx = Some cx'"
  shows "frame {} (obs cx) (obs cx')"
proof -
  obtain t cx1 where a: "ctx_alloc_ty (TyError e) cx = (t, cx1)" by fastforce
  then have "fold_state (recover_slot env e t) rs cx1 = Some cx'" using assms by (simp add: recover_expr_slots_def)
  from fold_state_quiet [where p = "\<lambda>x. x", OF recover_slot_quiet this] show ?thesis using obs_alloc_ty [OF a] by simp
qed

lemma goal_error_obs: "goal_error goal cx = Some (e, cx') \<Longrightarrow> obs cx' = obs cx"
  by (auto simp: goal_error_def opt_simps Let_def dest!: same_obs split: obligation_goal.splits prod.splits)

section \<open>Error recovery\<close>

lemma recover_root_quiet: "recover_root env t root cx = Some cx' \<Longrightarrow> frame {} (obs cx) (obs cx')"
  by (auto simp: recover_root_def opt_simps dest!: same_obs install_error_quiet split: if_splits)

lemma affected_root_obs: "affected_root x s = Some s' \<Longrightarrow> obs (snd s') = obs (snd s)"
  by (cases s) (auto simp: affected_root_def opt_simps Let_def dest!: same_obs split: prod.splits)

lemma recover_domain_conflict_quiet:
  assumes "recover_domain_conflict env affected e cx = Some cx'"
  shows "frame {} (obs cx) (obs cx')"
proof -
  obtain roots cx1 where 1: "fold_state affected_root affected ([], cx) = Some (roots, cx1)"
    and rest: "(if roots = [] then Some cx1
       else let (t, cx) = ctx_alloc_ty (TyError e) cx1 in fold_state (recover_root env t) roots cx) = Some cx'"
    using assms unfolding recover_domain_conflict_def bind_Some_iff by auto
  from fold_state_quiet [where p = snd, OF _ 1] have "frame {} (obs cx) (obs cx1)" by (simp add: affected_root_obs)
  moreover have "frame {} (obs cx1) (obs cx')"
  proof (cases "roots = []")
    case False
    obtain t cx2 where a: "ctx_alloc_ty (TyError e) cx1 = (t, cx2)" by fastforce
    then have "fold_state (recover_root env t) roots cx2 = Some cx'" using rest False by simp
    from fold_state_quiet [where p = "\<lambda>x. x", OF recover_root_quiet this] show ?thesis using obs_alloc_ty [OF a] by simp
  qed (use rest in simp)
  ultimately show ?thesis by (rule frame_quiet)
qed

lemma recover_atom_quiet:
  assumes "recover_atom env a b e cx = Some cx'"
  shows "frame {} (obs cx) (obs cx')"
proof -
  obtain r cx1 where w: "with_egraph (\<lambda>g st. try_unify_required (en_order env) g st ROOT a b) cx = Some (r, cx1)"
    and rest: "(case r of Inl failure \<Rightarrow> (case rf_error failure of
         DomainConflict _ _ _ _ \<Rightarrow> recover_domain_conflict env (rf_affected failure) e cx1 | _ \<Rightarrow> Some cx1)
       | Inr effects \<Rightarrow> Some (publish_commit_effects effects cx1)) = Some cx'"
    using assms unfolding recover_atom_def bind_Some_iff by auto
  have "frame {} (obs cx1) (obs cx')"
  proof (cases r)
    case (Inl failure)
    then show ?thesis using rest by (cases "rf_error failure") (auto dest: recover_domain_conflict_quiet)
  next
    case (Inr effects)
    then show ?thesis using rest obs_publish [of cx1 effects] by simp
  qed
  then show ?thesis using obs_with_egraph [OF w] by simp
qed

lemma recover_relation_inner_quiet:
  "recover_relation_inner er ae s = Some s' \<Longrightarrow> frame {} (obs (fst s)) (obs (fst s'))"
proof (induction rule: recover_relation_inner.raw_induct [rotated 1, consumes 1, case_names step])
  case (step recover er ae s s')
  then obtain st visited where "recovery_step (fst ae) (snd ae) (fst s) (snd s) = Some (st, visited)"
    and rest: "(case st of RecoveryDone \<Rightarrow> Some (fst s, visited)
       | RecoveryAtom a b \<Rightarrow> Option.bind (recover_atom (fst er) a b (snd er) (fst s)) (\<lambda>cx. Some (cx, visited))
       | RecoveryChildren cs \<Rightarrow> fold_state (recover er) cs (fst s, visited)) = Some s'"
    unfolding bind_Some_iff by auto
  show ?case
  proof (cases st)
    case RecoveryDone
    then show ?thesis using rest by auto
  next
    case (RecoveryAtom a b)
    then show ?thesis using rest by (auto simp: opt_simps recover_atom_quiet)
  next
    case (RecoveryChildren cs)
    with rest have "fold_state (recover er) cs (fst s, visited) = Some s'" by simp
    from fold_state_quiet [where p = fst, OF step.IH this] show ?thesis by simp
  qed
qed

lemma catch_quiet:
  assumes "catch env err cx = Some (e, cx')"
  shows "frame {} (obs cx) (obs cx')"
proof (cases err)
  case (Fresh kind span ctx)
  show ?thesis
  proof (cases kind)
    case (TypeDomainConflict a b c d affected x y)
    then obtain cx1 cx2 where "recover_domain_conflict env affected () (snd (record_diagnostic (TypeDiagnostic kind span ctx) cx)) = Some cx1"
      and "recover_required_relation env y x () cx1 = Some cx2" and "cx' = cx2"
      using assms Fresh by (auto simp: catch_def record_diagnostic_def opt_simps)
    then show ?thesis
      by (auto simp: recover_required_relation_def opt_simps record_diagnostic_def
          dest!: recover_domain_conflict_quiet recover_relation_inner_quiet intro: frame_quiet)
  qed (use assms Fresh in \<open>auto simp: catch_def record_diagnostic_def\<close>)
qed (use assms in \<open>auto simp: catch_def\<close>)

section \<open>Operations on one obligation\<close>

lemma set_obligationE:
  assumes "set_obligation index f cx = Some cx'"
  obtains "index < length (obs cx)" "obs cx' = (obs cx)[index := f (obs cx ! index)]"
  using assms by (auto simp: set_obligation_def get_obligation_def opt_simps)

lemma set_obligation_frame: "set_obligation index f cx = Some cx' \<Longrightarrow> frame {index} (obs cx) (obs cx')"
  by (erule set_obligationE) (simp add: frame_update)

lemma recanonicalizeE:
  assumes "recanonicalize_obligation index cx = Some (r, cx')"
  obtains ob where "index < length (obs cx)" "ob_state ob = ob_state (obs cx ! index)"
    "ob_provenance ob = ob_provenance (obs cx ! index)" "obs cx' = (obs cx)[index := ob]"
proof -
  obtain f where f: "set_obligation index f cx = Some cx'" "\<And>ob. ob_state (f ob) = ob_state ob \<and> ob_provenance (f ob) = ob_provenance ob"
    using assms by (force simp: recanonicalize_obligation_def opt_simps)
  show ?thesis by (rule set_obligationE [OF f(1)], rule that [where ob = "f (obs cx ! index)"]) (simp_all add: f(2))
qed

lemma recanonicalize_frame: "recanonicalize_obligation index cx = Some (r, cx') \<Longrightarrow> frame {index} (obs cx) (obs cx')"
  by (erule recanonicalizeE) (simp add: frame_update)

text \<open>The obligation \<open>index\<close> is dealt with: the others are framed and it is terminal.\<close>

definition finishes :: "nat \<Rightarrow> infer_ctx \<Rightarrow> infer_ctx \<Rightarrow> bool" where
  "finishes index cx cx' \<longleftrightarrow> frame {index} (obs cx) (obs cx') \<and> index < length (obs cx') \<and> ob_state (obs cx' ! index) = Terminal"

lemma finishes_after: "frame {index} (obs cx) (obs cx1) \<Longrightarrow> finishes index cx1 cx2 \<Longrightarrow> finishes index cx cx2"
  by (auto simp: finishes_def intro: frame_trans)

lemma finishes_quiet: "frame {} (obs cx) (obs cx1) \<Longrightarrow> finishes index cx1 cx2 \<Longrightarrow> finishes index cx cx2"
  by (auto simp: finishes_def intro: frame_quiet)

lemma finishes_then: "finishes index cx cx1 \<Longrightarrow> frame {} (obs cx1) (obs cx2) \<Longrightarrow> finishes index cx cx2"
  using frame_terminal [of "{}" "obs cx1" "obs cx2" index] frame_length [of "{}" "obs cx1" "obs cx2"]
  by (auto simp: finishes_def intro: frame_then_quiet)

lemma finishes_set: "set_obligation index f cx = Some cx' \<Longrightarrow> (\<And>ob. ob_state (f ob) = Terminal) \<Longrightarrow> finishes index cx cx'"
  by (erule set_obligationE) (simp add: finishes_def frame_update)

lemma fail_obligation_finishes:
  assumes "fail_obligation env index message cx = Some cx'"
  shows "finishes index cx cx'"
proof -
  obtain ob where ob: "get_obligation index cx = Some ob" using assms by (auto simp: fail_obligation_def opt_simps)
  show ?thesis
  proof (cases "ob_state ob = Terminal")
    case True
    then show ?thesis using assms ob by (auto simp: fail_obligation_def get_obligation_def opt_simps finishes_def)
  next
    case False
    then obtain cx1 where 1: "set_obligation index (\<lambda>ob. ob\<lparr>ob_state := Terminal\<rparr>) cx = Some cx1"
      and rest: "(if ob_provenance ob = [] then Some cx1
         else let (e, cx2) = record_diagnostic (ObligationDiagnostic message (ob_provenance ob)) cx1 in
           recover_expr_slots env (ob_recoveries ob) e cx2) = Some cx'"
      using assms ob by (auto simp: fail_obligation_def opt_simps)
    have "frame {} (obs cx1) (obs cx')"
      using rest by (auto split: if_splits prod.splits dest!: obs_record recover_expr_slots_quiet)
    then show ?thesis using finishes_set [OF 1] finishes_then by simp
  qed
qed

lemma terminalize_finishes:
  "terminalize_obligation_with_error env index revision e cx = Some cx' \<Longrightarrow> finishes index cx cx'"
  by (auto simp: terminalize_obligation_with_error_def opt_simps
      intro: finishes_then dest!: recover_expr_slots_quiet finishes_set)

end
