(* ===== verification/ObligationProps.thy ===== *)
theory ObligationProps
  imports ObligationFrame
begin

text \<open>
  The obligation loop: an attempt touches only its own obligation, a terminal attempt settles it, a
  settled obligation is never touched again, and so the assertion that ends the terminal pass
  cannot fail.
\<close>

section \<open>Attempts\<close>

lemma retain_residual_frame: "retain_residual index g r cx = Some cx' \<Longrightarrow> frame {index} (obs cx) (obs cx')"
  by (auto simp: retain_residual_def opt_simps dest!: set_obligation_frame recanonicalize_frame intro: frame_trans)

lemma finishes_frame: "finishes index cx cx' \<Longrightarrow> frame {index} (obs cx) (obs cx')"
  by (simp add: finishes_def)

lemma frame_set_obligation:
  "frame {index} (obs cx) (obs cx1) \<Longrightarrow> set_obligation index f cx1 = Some cx' \<Longrightarrow> frame {index} (obs cx) (obs cx')"
  by (auto dest: set_obligation_frame intro: frame_trans)

definition settles :: "bool \<Rightarrow> nat \<Rightarrow> infer_ctx \<Rightarrow> infer_ctx \<Rightarrow> bool" where
  "settles terminal index cx cx' \<longleftrightarrow> frame {index} (obs cx) (obs cx') \<and> (terminal \<longrightarrow> finishes index cx cx')"

lemma settles_finishes: "finishes index cx cx' \<Longrightarrow> settles terminal index cx cx'"
  by (simp add: settles_def finishes_frame)

lemma settles_quiet: "frame {} (obs cx) (obs cx1) \<Longrightarrow> settles terminal index cx1 cx2 \<Longrightarrow> settles terminal index cx cx2"
  by (auto simp: settles_def intro: frame_quiet finishes_quiet)

lemma settles_same: "obs cx1 = obs cx \<Longrightarrow> settles terminal index cx1 cx2 \<Longrightarrow> settles terminal index cx cx2"
  by (rule settles_quiet) simp_all

lemma settles_after: "frame {index} (obs cx) (obs cx1) \<Longrightarrow> settles terminal index cx1 cx2 \<Longrightarrow> settles terminal index cx cx2"
  by (auto simp: settles_def intro: frame_trans finishes_after)

lemma settles_maybe:
  assumes "(if terminal then fail_obligation env index message cx
     else do { (_, cx) \<leftarrow> recanonicalize_obligation index cx; set_obligation index f cx }) = Some cx'"
  shows "settles terminal index cx cx'"
proof (cases terminal)
  case True
  then show ?thesis using assms fail_obligation_finishes settles_finishes by auto
next
  case False
  then obtain r cx1 where "recanonicalize_obligation index cx = Some (r, cx1)" "set_obligation index f cx1 = Some cx'"
    using assms by (auto simp: opt_simps)
  then show ?thesis using False frame_set_obligation [OF recanonicalize_frame] by (simp add: settles_def)
qed

lemma settles_residual:
  assumes "(if terminal then fail_obligation env index message cx else retain_residual index g r cx) = Some cx'"
  shows "settles terminal index cx cx'"
  using assms by (cases terminal) (auto simp: settles_finishes fail_obligation_finishes, simp add: settles_def retain_residual_frame)

lemma attempt_proof_settles:
  assumes "attempt_proof_obligation env index terminal query mapping cx = Some cx'"
  shows "settles terminal index cx cx'"
proof -
  obtain r :: "(apply_response_error, applied_response) result" and st g where rest: "(let cx = cx\<lparr>ic_target_stash := st, ic_egraph := g\<rparr> in
     case r of
       Inl _ \<Rightarrow> fail_obligation env index ''trait obligation was disproved by incompatible inference'' cx
     | Inr applied \<Rightarrow> do {
         let post_revision = ce_semantic_revision (ar_effects applied);
         let wakes = ce_wakes (ar_effects applied);
         let cx = publish_commit_effects (ar_effects applied) cx;
         case ar_certainty applied of
           AppliedNo \<Rightarrow> fail_obligation env index ''trait obligation is not satisfied'' cx
         | AppliedMaybe \<Rightarrow>
             if terminal then fail_obligation env index ''trait obligation could not be resolved'' cx
             else do {
               (_, cx) \<leftarrow> recanonicalize_obligation index cx;
               set_obligation index (\<lambda>ob. ob\<lparr>ob_last_attempted_revision := Some post_revision,
                 ob_state := (if waits_on wakes ob then Ready else Stalled)\<rparr>) cx }
         | AppliedYes _ residual \<Rightarrow> do {
             trivial \<leftarrow> is_trivially_true (ic_target_stash cx) residual;
             if trivial then set_obligation index (\<lambda>ob. ob\<lparr>ob_state := Terminal,
               ob_last_attempted_revision := Some post_revision\<rparr>) cx
             else if terminal then fail_obligation env index ''trait obligation remains conditional'' cx
             else retain_residual index residual post_revision cx } }) = Some cx'"
    using assms unfolding attempt_proof_obligation_def by (elim bind3E bind2E bindE) (rule that, assumption+)
  define cx1 where "cx1 = cx\<lparr>ic_target_stash := st, ic_egraph := g\<rparr>"
  have same: "obs cx1 = obs cx" by (simp add: cx1_def)
  show ?thesis
  proof (cases r)
    case (Inl e)
    with rest have "fail_obligation env index ''trait obligation was disproved by incompatible inference'' cx1 = Some cx'"
      by (simp add: Let_def cx1_def)
    then show ?thesis using same by (auto intro: settles_same settles_finishes fail_obligation_finishes)
  next
    case (Inr applied)
    define cx2 where "cx2 = publish_commit_effects (ar_effects applied) cx1"
    have "settles terminal index cx2 cx'"
    proof (cases "ar_certainty applied")
      case (AppliedYes out residual)
      from rest obtain trivial where t: "(if trivial then set_obligation index (\<lambda>ob. ob\<lparr>ob_state := Terminal,
               ob_last_attempted_revision := Some (ce_semantic_revision (ar_effects applied))\<rparr>) cx2
             else if terminal then fail_obligation env index ''trait obligation remains conditional'' cx2
             else retain_residual index residual (ce_semantic_revision (ar_effects applied)) cx2) = Some cx'"
        unfolding Inr AppliedYes Let_def cx1_def [symmetric] cx2_def [symmetric] sum.case applied_certainty.case
        by (elim bindE) (rule that, assumption+)
      show ?thesis
      proof (cases trivial)
        case True
        then show ?thesis using t by (auto intro!: settles_finishes finishes_set)
      next
        case False
        then show ?thesis using t settles_residual by simp
      qed
    next
      case AppliedMaybe
      show ?thesis
        by (rule settles_maybe, rule rest [unfolded Inr AppliedMaybe Let_def cx1_def [symmetric] cx2_def [symmetric] sum.case applied_certainty.case])
    next
      case AppliedNo
      with rest Inr show ?thesis
        by (intro settles_finishes fail_obligation_finishes) (simp add: Let_def cx2_def cx1_def)
    qed
    then have "settles terminal index cx1 cx'"
      by (rule settles_quiet [rotated]) (simp add: cx2_def obs_publish)
    then show ?thesis by (rule settles_same [OF same])
  qed
qed

lemma discard_for_obs: "discard_for v p cx = Some (q, cx') \<Longrightarrow> obs cx' = obs cx"
  by (auto simp: discard_for_def opt_simps dest!: same_obs)

lemma apply_normalization_quiet:
  assumes "apply_normalization_relation env query mapping response expected cx = Some (p, cx')"
  shows "frame {} (obs cx) (obs cx')"
proof -
  obtain transaction cx1 and r :: "(apply_response_error, applied_response) result" and st g where b: "ctx_branch_from ROOT cx = Some (transaction, cx1)" and rest: "(let cx = cx1\<lparr>ic_target_stash := st, ic_egraph := g\<rparr> in
     case r of
       Inl _ \<Rightarrow> discard_for transaction ProgressNo cx
     | Inr applied \<Rightarrow> (case ar_certainty applied of
         AppliedMaybe \<Rightarrow> discard_for transaction ProgressMaybe cx
       | AppliedNo \<Rightarrow> discard_for transaction ProgressNo cx
       | AppliedYes Proven _ \<Rightarrow> None
       | AppliedYes (OutputType out) residual \<Rightarrow> do {
           (r, cx) \<leftarrow> ctx_try_unify env transaction out expected cx;
           case r of
             Inl _ \<Rightarrow> discard_for transaction ProgressNo cx
           | Inr _ \<Rightarrow> do {
               complete \<leftarrow> is_trivially_true (ic_target_stash cx) residual;
               (g, effects) \<leftarrow> collapse_into (ic_egraph cx) transaction ROOT;
               let cx = publish_commit_effects effects (cx\<lparr>ic_egraph := g\<rparr>);
               Some (if complete then ProgressYes else ProgressResidual residual, cx) } })) = Some (p, cx')"
    using assms unfolding apply_normalization_relation_def by (elim bind3E bind2E bindE) (rule that, assumption+)
  define cx2 where "cx2 = cx1\<lparr>ic_target_stash := st, ic_egraph := g\<rparr>"
  have same: "obs cx2 = obs cx" using obs_branch [OF b] by (simp add: cx2_def)
  have "frame {} (obs cx2) (obs cx')"
  proof (cases "\<exists>applied out residual. r = Inr applied \<and> ar_certainty applied = AppliedYes (OutputType out) residual")
    case True
    then obtain out residual and r' :: "(unify_error, commit_effects) result" and cx3 where u: "ctx_try_unify env transaction out expected cx2 = Some (r', cx3)"
      and "(case r' of
             Inl _ \<Rightarrow> discard_for transaction ProgressNo cx3
           | Inr _ \<Rightarrow> do {
               complete \<leftarrow> is_trivially_true (ic_target_stash cx3) residual;
               (g, effects) \<leftarrow> collapse_into (ic_egraph cx3) transaction ROOT;
               let cx = publish_commit_effects effects (cx3\<lparr>ic_egraph := g\<rparr>);
               Some (if complete then ProgressYes else ProgressResidual residual, cx) }) = Some (p, cx')"
      using rest unfolding bind_Some_iff by (auto simp: Let_def opt_simps cx2_def)
    then have "frame {} (obs cx3) (obs cx')"
      by (cases r') (auto simp: opt_simps Let_def publish_commit_effects_def frame_wake dest!: discard_for_obs)
    then show ?thesis using obs_try_unify [OF u] by simp
  next
    case False
    then have "obs cx' = obs cx2" using rest
      by (auto simp: Let_def cx2_def dest!: discard_for_obs split: sum.splits applied_certainty.splits goal_output.splits)
    then show ?thesis by simp
  qed
  then show ?thesis by (simp add: same)
qed

lemma attempt_normalization_settles:
  assumes "attempt_normalization_obligation env index terminal query mapping expected cx = Some cx'"
  shows "settles terminal index cx cx'"
proof -
  obtain progress cx1 response revision where
    a: "apply_normalization_relation env query mapping response expected cx = Some (progress, cx1)"
    and rest: "(case progress of
       ProgressNo \<Rightarrow> fail_obligation env index ''associated type relation is not satisfied'' cx1
     | ProgressMaybe \<Rightarrow>
         if terminal then fail_obligation env index ''associated type could not be normalized'' cx1
         else do {
           (_, cx) \<leftarrow> recanonicalize_obligation index cx1;
           set_obligation index (\<lambda>ob. ob\<lparr>ob_last_attempted_revision := Some revision, ob_state := Stalled\<rparr>) cx }
     | ProgressYes \<Rightarrow> set_obligation index (\<lambda>ob. ob\<lparr>ob_state := Terminal, ob_last_attempted_revision := Some revision\<rparr>) cx1
     | ProgressResidual residual \<Rightarrow>
         if terminal then fail_obligation env index ''associated type normalization remains conditional'' cx1
         else retain_residual index residual revision cx1) = Some cx'"
    using assms unfolding attempt_normalization_obligation_def by (elim bind3E bind2E bindE) (rule that, assumption+)
  have "settles terminal index cx1 cx'"
  proof (cases progress)
    case ProgressYes
    then show ?thesis using rest by (auto intro!: settles_finishes finishes_set)
  next
    case (ProgressResidual residual)
    then show ?thesis using rest by (auto intro!: settles_residual)
  next
    case ProgressMaybe
    then show ?thesis using rest by (intro settles_maybe) simp
  next
    case ProgressNo
    then show ?thesis using rest by (auto intro: settles_finishes fail_obligation_finishes)
  qed
  then show ?thesis by (rule settles_quiet [OF apply_normalization_quiet [OF a]])
qed

lemma attempt_settles:
  assumes "attempt_obligation env index terminal cx = Some cx'"
  shows "settles terminal index cx cx'"
proof -
  obtain revision cx1 e where c: "recanonicalize_obligation index cx = Some (revision, cx1)"
    and rest: "(case e of
       Some error \<Rightarrow> terminalize_obligation_with_error env index revision error cx1
     | None \<Rightarrow> do {
         ob \<leftarrow> get_obligation index cx1;
         (e, cx) \<leftarrow> goal_error (ob_goal ob) cx1;
         case e of
           Some error \<Rightarrow> terminalize_obligation_with_error env index revision error cx
         | None \<Rightarrow>
             if ob_last_attempted_revision ob = Some revision \<and> \<not> terminal
             then set_obligation index (\<lambda>ob. ob\<lparr>ob_state := Stalled\<rparr>) cx
             else (case ob_goal ob of
               ProveGoal _ \<Rightarrow> attempt_proof_obligation env index terminal (ob_canonical_goal ob) (ob_mapping ob) cx
             | NormalizeGoal _ expected \<Rightarrow>
                 attempt_normalization_obligation env index terminal (ob_canonical_goal ob) (ob_mapping ob) expected cx) }) = Some cx'"
    using assms unfolding attempt_obligation_def by (elim bind3E bind2E bindE) (rule that, assumption+)
  have "settles terminal index cx1 cx'"
  proof (cases e)
    case (Some error)
    then show ?thesis using rest by (auto intro: settles_finishes terminalize_finishes)
  next
    case None
    then obtain ob :: obligation and e2 cx2 where g: "goal_error (ob_goal ob) cx1 = Some (e2, cx2)"
      and rest2: "(case e2 of
           Some error \<Rightarrow> terminalize_obligation_with_error env index revision error cx2
         | None \<Rightarrow>
             if ob_last_attempted_revision ob = Some revision \<and> \<not> terminal
             then set_obligation index (\<lambda>ob. ob\<lparr>ob_state := Stalled\<rparr>) cx2
             else (case ob_goal ob of
               ProveGoal _ \<Rightarrow> attempt_proof_obligation env index terminal (ob_canonical_goal ob) (ob_mapping ob) cx2
             | NormalizeGoal _ expected \<Rightarrow>
                 attempt_normalization_obligation env index terminal (ob_canonical_goal ob) (ob_mapping ob) expected cx2)) = Some cx'"
      using rest unfolding None option.case by (elim bind2E bindE) (rule that, assumption+)
    have "settles terminal index cx2 cx'"
    proof (cases e2)
      case (Some error)
      then show ?thesis using rest2 by (auto intro: settles_finishes terminalize_finishes)
    next
      case None
      show ?thesis
      proof (cases "ob_last_attempted_revision ob = Some revision \<and> \<not> terminal")
        case True
        then show ?thesis using rest2 None by (auto simp: settles_def dest: set_obligation_frame)
      next
        case False
        then show ?thesis using rest2 None
          by (cases "ob_goal ob") (auto intro: attempt_proof_settles attempt_normalization_settles)
      qed
    qed
    then show ?thesis by (rule settles_same [OF goal_error_obs [OF g]])
  qed
  then show ?thesis by (rule settles_after [OF recanonicalize_frame [OF c]])
qed

section \<open>Passes\<close>

lemma attempts_frame:
  "fold_state (\<lambda>index. attempt_obligation env index terminal) is cx = Some cx' \<Longrightarrow> frame (set is) (obs cx) (obs cx')"
proof (induction "is" arbitrary: cx)
  case (Cons i "is")
  then obtain cx1 where a: "attempt_obligation env i terminal cx = Some cx1"
    and "fold_state (\<lambda>index. attempt_obligation env index terminal) is cx1 = Some cx'" by (auto simp: opt_simps)
  from Cons.IH [OF this(2)] attempt_settles [OF a] show ?case
    by (auto simp: settles_def intro: frame_trans)
qed simp

lemma attempts_finish:
  assumes "fold_state (\<lambda>index. attempt_obligation env index True) is cx = Some cx'" and "j \<in> set is"
  shows "j < length (obs cx') \<and> ob_state (obs cx' ! j) = Terminal"
  using assms
proof (induction "is" arbitrary: cx)
  case (Cons i "is")
  then obtain cx1 where a: "attempt_obligation env i True cx = Some cx1"
    and f: "fold_state (\<lambda>index. attempt_obligation env index True) is cx1 = Some cx'" by (auto simp: opt_simps)
  show ?case
  proof (cases "j \<in> set is")
    case True
    then show ?thesis using Cons.IH [OF f] by simp
  next
    case False
    then have "finishes j cx cx1" using attempt_settles [OF a] Cons.prems by (simp add: settles_def)
    then show ?thesis using attempts_frame [OF f] False frame_terminal frame_length
      by (metis finishes_def)
  qed
qed simp


section \<open>Deduplication\<close>

definition kept :: "obligation_manager \<Rightarrow> obligation_manager \<Rightarrow> bool" where
  "kept os os' \<longleftrightarrow> length os' = length os \<and> (\<forall>j < length os. ob_state (os ! j) = Terminal \<longrightarrow> os' ! j = os ! j)"

lemma kept_refl [simp]: "kept os os"
  by (simp add: kept_def)

lemma kept_trans: "kept a b \<Longrightarrow> kept b c \<Longrightarrow> kept a c"
  by (simp add: kept_def)

lemma kept_pending: "frame S a b \<Longrightarrow> S \<subseteq> set (pending_indices a) \<Longrightarrow> kept a b"
  using frame_terminal frame_length by (fastforce simp: kept_def pending_indices_set)


lemma merge_duplicate_frame: "merge_duplicate env i d os = Some os' \<Longrightarrow> frame {i, d} os os'"
  by (auto simp: merge_duplicate_def opt_simps Let_def frame_def woken_from_def nth_list_update split: if_splits)

lemma fold_state_frame:
  assumes "\<And>x s s'. x \<in> set xs \<Longrightarrow> f x s = Some s' \<Longrightarrow> frame S (p s) (p s')" and "fold_state f xs s = Some s'"
  shows "frame S (p s) (p s')"
  by (rule fold_state_inv [where P = "\<lambda>t. frame S (p s) (p t)", OF assms(2)]) (auto intro: frame_trans assms(1))

lemma merge_duplicates_frame: "merge_duplicates env is os = Some os' \<Longrightarrow> frame (set is) os os'"
proof (induction "is" arbitrary: os)
  case (Cons i "is")
  then obtain ob :: obligation and os1 where m: "(if ob_state ob = Terminal then Some os else fold_state (merge_duplicate env i) is os) = Some os1"
    and r: "merge_duplicates env is os1 = Some os'"
    unfolding merge_duplicates.simps by (elim bindE) (rule that, assumption+)
  have "frame (insert i (set is)) os os1"
  proof (cases "ob_state ob = Terminal")
    case False
    then have "fold_state (merge_duplicate env i) is os = Some os1" using m by simp
    then show ?thesis
      by (rule fold_state_frame [where p = "\<lambda>x. x", rotated])
        (auto intro: frame_weaken dest!: merge_duplicate_frame)
  qed (use m in auto)
  from frame_trans [OF this Cons.IH [OF r], where U = "set (i # is)"] show ?case by auto
qed simp

lemma deduplicate_frame:
  assumes "deduplicate_pending_obligations env cx = Some cx'"
  shows "frame (set (pending_indices (obs cx))) (obs cx) (obs cx')"
proof -
  let ?P = "pending_indices (obs cx)"
  obtain cx1 os where f: "fold_state (\<lambda>index cx. do { (_, cx) \<leftarrow> recanonicalize_obligation index cx; Some cx }) ?P cx = Some cx1"
    and m: "merge_duplicates env ?P (obs cx1) = Some os" and c: "cx' = cx1\<lparr>ic_obligations := os\<rparr>"
    using assms unfolding deduplicate_pending_obligations_def Let_def option.inject by (elim bindE) (rule that, assumption+, rule sym, simp)
  have "frame (set ?P) (obs cx) (obs cx1)"
    by (rule fold_state_frame [where p = obs, OF _ f]) (auto simp: opt_simps intro: frame_weaken dest!: recanonicalize_frame)
  from frame_trans [OF this merge_duplicates_frame [OF m]] show ?thesis by (simp add: c)
qed

section \<open>The terminal pass\<close>

lemma terminal_pass_pending:
  assumes "terminal_pass env cx = Some cx'"
  shows "\<not> has_pending (obs cx') \<and> kept (obs cx) (obs cx')"
proof -
  obtain cx1 where d: "deduplicate_pending_obligations env cx = Some cx1"
    and f: "fold_state (\<lambda>index. attempt_obligation env index True) (pending_indices (obs cx1)) cx1 = Some cx'"
    using assms by (auto simp: terminal_pass_def opt_simps)
  have fr: "frame (set (pending_indices (obs cx1))) (obs cx1) (obs cx')" by (rule attempts_frame [OF f])
  have "ob_state (obs cx' ! j) = Terminal" if "j < length (obs cx')" for j
  proof (cases "j \<in> set (pending_indices (obs cx1))")
    case True
    then show ?thesis using attempts_finish [OF f] by simp
  next
    case False
    then show ?thesis using that frame_length [OF fr] frame_terminal [OF fr] by (auto simp: pending_indices_set)
  qed
  then have "\<not> has_pending (obs cx')" by (auto simp: has_pending_def in_set_conv_nth)
  moreover have "kept (obs cx) (obs cx')"
    using kept_pending [OF deduplicate_frame [OF d]] kept_pending [OF fr] kept_trans by blast
  ultimately show ?thesis by simp
qed


section \<open>Finalization\<close>







section \<open>The properties\<close>

text \<open>A solver that refutes every goal, and a context with one obligation.\<close>

definition refuting_env :: ctx_env where
  "refuting_env = \<lparr>en_order = (\<lambda>_. []), en_fingerprint = (\<lambda>_. 0),
     en_solve = (\<lambda>_. Some ([EResponseVars []], \<lparr>qr_bound_vars = 0, qr_value = ResultNo\<rparr>))\<rparr>"

definition sample_ctx :: "infer_ctx option" where
  "sample_ctx = submit_obligation refuting_env (ProveGoal GoalMaybe) \<lparr>op_span = zero_span, op_reason = Explicit\<rparr>
     None (infer_ctx_new (Some 0))"

text \<open>C9: The terminal pass over the obligations of a body leaves none pending, whatever the solver
  answers, so the assertion that ends \<open>terminally_discharge_obligations\<close> cannot fail.\<close>

theorem terminal_pass_discharges:
  assumes "terminal_pass env cx = Some cx'"
  shows "\<not> has_pending (ic_obligations cx') \<and> terminally_discharge_obligations env cx = Some cx'"
  using assms terminal_pass_pending [OF assms] by (simp add: terminally_discharge_obligations_def)

theorem terminal_pass_discharges_witness:
  "\<exists>cx cx'. sample_ctx = Some cx \<and> has_pending (ic_obligations cx) \<and> terminal_pass refuting_env cx = Some cx'
     \<and> \<not> has_pending (ic_obligations cx') \<and> terminally_discharge_obligations refuting_env cx = Some cx'"
proof -
  have "\<not> Option.is_none (Option.bind sample_ctx (terminal_pass refuting_env))" by code_simp
  then obtain cx cx' where 1: "sample_ctx = Some cx" and 2: "terminal_pass refuting_env cx = Some cx'" by (rule bind_runs)
  have "map_option (\<lambda>cx. has_pending (ic_obligations cx)) sample_ctx = Some True" by code_simp
  then have "has_pending (ic_obligations cx)" by (simp add: 1)
  with 1 2 terminal_pass_discharges [OF 2] show ?thesis by blast
qed





end
