(* ===== verification/InferCtxProps.thy ===== *)
theory InferCtxProps
  imports InferCtx
begin

text \<open>
  The text of a diagnostic never shows the number of an inference variable.
\<close>

fun shows_index :: "string \<Rightarrow> bool" where
  "shows_index [] = False"
| "shows_index (c # s) = ((c = CHR ''?'' \<and> s \<noteq> [] \<and> is_digit (hd s)) \<or> shows_index s)"

lemma hd_hide: "s \<noteq> [] \<Longrightarrow> \<not> is_digit (hd s) \<Longrightarrow> hide_inference_indices s \<noteq> [] \<and> \<not> is_digit (hd (hide_inference_indices s))"
  by (cases s) (auto simp: is_digit_def)

lemma hide_Nil: "hide_inference_indices s = [] \<longleftrightarrow> s = []"
  by (cases s) auto

lemma hides_index: "\<not> shows_index (hide_inference_indices s)"
proof (induction s rule: hide_inference_indices.induct)
  case (2 c cs)
  show ?case
  proof (cases "c = CHR ''?'' \<and> cs \<noteq> [] \<and> is_digit (hd cs)")
    case True
    then show ?thesis using 2(1) by simp
  next
    case False
    then show ?thesis using 2(2) hd_hide [of cs] hide_Nil [of cs] by auto
  qed
qed simp

lemma hide_same: "hide_inference_indices s = s \<longleftrightarrow> \<not> shows_index s"
proof (induction s rule: hide_inference_indices.induct)
  case (2 c cs)
  then show ?case by (cases "c = CHR ''?'' \<and> cs \<noteq> [] \<and> is_digit (hd cs)") auto
qed simp

text \<open>\<open>hide_inference_indices\<close> leaves no question mark followed by a digit, and it changes a text
  exactly when there is one.\<close>

theorem inference_indices_hidden:
  "\<not> shows_index (hide_inference_indices s) \<and> (hide_inference_indices s = s \<longleftrightarrow> \<not> shows_index s)"
  by (simp add: hides_index hide_same)

end
