(* ===== verification/Scoped.thy ===== *)
theory Scoped
  imports Goals
begin

text \<open>
  Well-scoped arenas: every handle in an entry leads to an earlier entry of the right kind.  This is
  what makes every read of a term succeed and every walk over it return.
\<close>

section \<open>Terms over an arena\<close>

definition ty_ptr :: "ir \<Rightarrow> ptr \<Rightarrow> bool" where
  "ty_ptr st p \<longleftrightarrow> get_ty st p \<noteq> None"

definition ty_slice :: "ir \<Rightarrow> slice \<Rightarrow> bool" where
  "ty_slice st p \<longleftrightarrow> (\<exists>ts. get_tys st p = Some ts \<and> (\<forall>t \<in> set ts. ty_ptr st t))"

definition trait_ok :: "ir \<Rightarrow> trait_ref \<Rightarrow> bool" where
  "trait_ok st tr \<longleftrightarrow> ty_slice st (tr_args tr)"

fun alias_ok :: "ir \<Rightarrow> alias_ty \<Rightarrow> bool" where
  "alias_ok st (Named a) = ty_slice st (na_args a)"
| "alias_ok st (Associated p) = (ty_ptr st (pr_self_ty p) \<and> trait_ok st (pr_trait_ref p) \<and> ty_slice st (pr_args p))"
| "alias_ok st (Opaque a) = ty_slice st (oa_args a)"

fun ty_scoped :: "ir \<Rightarrow> ty \<Rightarrow> bool" where
  "ty_scoped st (TyAdt _ args) = ty_slice st args"
| "ty_scoped st (TyAlias a) = alias_ok st a"
| "ty_scoped st (TyRef p _ _) = ty_ptr st p"
| "ty_scoped st (TyTuple elements) = ty_slice st elements"
| "ty_scoped st (TySlice p) = ty_ptr st p"
| "ty_scoped st (TyArray p _) = ty_ptr st p"
| "ty_scoped st (TyFnPtr params p) = (ty_slice st params \<and> ty_ptr st p)"
| "ty_scoped st _ = True"

definition predicate_ok :: "ir \<Rightarrow> where_predicate \<Rightarrow> bool" where
  "predicate_ok st w \<longleftrightarrow> ty_ptr st (wp_self_ty w) \<and> trait_ok st (wp_trait_ref w)"

fun goal_ok :: "ir \<Rightarrow> goal \<Rightarrow> bool" where
  "goal_ok st (GoalExists b) = (get_goal st (bi_value b) \<noteq> None \<and> get_generics st (bi_generics b) \<noteq> None)"
| "goal_ok st (GoalImplies assumptions inner) = (get_assumptions st assumptions \<noteq> None \<and> get_goal st inner \<noteq> None)"
| "goal_ok st (GoalAll goals) = (get_goals st goals \<noteq> None)"
| "goal_ok st (GoalAtom (AtomTraitImpl self_ty tr)) = (ty_ptr st self_ty \<and> trait_ok st tr)"
| "goal_ok st (GoalAtom (AtomEquals left right)) = (ty_ptr st left \<and> ty_ptr st right)"
| "goal_ok st GoalMaybe = True"

fun assumption_ok :: "ir \<Rightarrow> assumption \<Rightarrow> bool" where
  "assumption_ok st (AsmTraitImpl self_ty tr) = (ty_ptr st self_ty \<and> trait_ok st tr)"
| "assumption_ok st (AsmNormalizesTo alias t) = (alias_ok st alias \<and> ty_ptr st t)"
| "assumption_ok st (AsmImplies conditions consequence) = (get_goals st conditions \<noteq> None \<and> get_predicate st consequence \<noteq> None)"
| "assumption_ok st (AsmAll items) = (get_assumptions st items \<noteq> None)"

definition formula_ok :: "ir \<Rightarrow> formula \<Rightarrow> bool" where
  "formula_ok st x = (case x of FGoal g \<Rightarrow> goal_ok st g | FAssumption a \<Rightarrow> assumption_ok st a)"

definition solver_goal_ok :: "ir \<Rightarrow> solver_goal \<Rightarrow> bool" where
  "solver_goal_ok st g = (case g of Prove goal \<Rightarrow> goal_ok st goal | Normalize al \<Rightarrow> alias_ok st al)"

fun entry_ok :: "ir \<Rightarrow> ir_entry \<Rightarrow> bool" where
  "entry_ok st (ETy t) = ty_scoped st t"
| "entry_ok st (ETyPtrs ts) = (\<forall>t \<in> set ts. ty_ptr st t)"
| "entry_ok st (EPredicate w) = predicate_ok st w"
| "entry_ok st (EPredicates ws) = (\<forall>w \<in> set ws. predicate_ok st w)"
| "entry_ok st (EGoal g) = goal_ok st g"
| "entry_ok st (EGoals gs) = (\<forall>g \<in> set gs. goal_ok st g)"
| "entry_ok st (EAssumptions xs) = (\<forall>a \<in> set xs. assumption_ok st a)"
| "entry_ok st (ESubst es) = (\<forall>e \<in> set es. ty_ptr st (se_value e))"
| "entry_ok st (EFields fs) = (\<forall>f \<in> set fs. ty_ptr st (fi_ty f))"
| "entry_ok st (EVariants vs) = (\<forall>v \<in> set vs. get_fields st (va_fields v) \<noteq> None)"
| "entry_ok st (EGenerics _) = True"
| "entry_ok st (ECanonicalVars _) = True"
| "entry_ok st (EResponseVars _) = True"

section \<open>A larger arena\<close>

named_theorems scope_ext \<open>what holds of a term in an arena holds in a larger one\<close>

lemma ty_ptr_ext [scope_ext]: "arena_ext st st' \<Longrightarrow> ty_ptr st p \<Longrightarrow> ty_ptr st' p"
  by (auto simp: ty_ptr_def dest: get_ty_ext)

lemma ty_slice_ext [scope_ext]: "arena_ext st st' \<Longrightarrow> ty_slice st p \<Longrightarrow> ty_slice st' p"
  unfolding ty_slice_def by (blast dest: get_tys_ext ty_ptr_ext)

lemma trait_ok_ext [scope_ext]: "arena_ext st st' \<Longrightarrow> trait_ok st p \<Longrightarrow> trait_ok st' p"
  by (simp add: trait_ok_def ty_slice_ext)

lemma alias_ok_ext [scope_ext]: "arena_ext st st' \<Longrightarrow> alias_ok st a \<Longrightarrow> alias_ok st' a"
  by (cases a) (auto intro: scope_ext)

lemma ty_scoped_ext [scope_ext]: "arena_ext st st' \<Longrightarrow> ty_scoped st t \<Longrightarrow> ty_scoped st' t"
  by (cases t) (auto intro: scope_ext)

lemma predicate_ok_ext [scope_ext]: "arena_ext st st' \<Longrightarrow> predicate_ok st w \<Longrightarrow> predicate_ok st' w"
  by (auto simp: predicate_ok_def intro: scope_ext)

lemma get_ext:
  assumes "arena_ext st st'"
  shows "get_goal st p \<noteq> None \<Longrightarrow> get_goal st' p \<noteq> None" "get_goals st p \<noteq> None \<Longrightarrow> get_goals st' p \<noteq> None"
    "get_assumptions st p \<noteq> None \<Longrightarrow> get_assumptions st' p \<noteq> None" "get_predicate st p \<noteq> None \<Longrightarrow> get_predicate st' p \<noteq> None"
    "get_generics st p \<noteq> None \<Longrightarrow> get_generics st' p \<noteq> None" "get_fields st p \<noteq> None \<Longrightarrow> get_fields st' p \<noteq> None"
  using assms by (auto simp: ir_access intro: arena_ext_get)

lemma goal_ok_ext [scope_ext]: "arena_ext st st' \<Longrightarrow> goal_ok st g \<Longrightarrow> goal_ok st' g"
  by (cases "(st, g)" rule: goal_ok.cases) (auto intro: scope_ext simp: ir_access dest: arena_ext_get)

lemma assumption_ok_ext [scope_ext]: "arena_ext st st' \<Longrightarrow> assumption_ok st a \<Longrightarrow> assumption_ok st' a"
  by (cases a) (auto intro: scope_ext simp: ir_access dest: arena_ext_get)

lemma solver_goal_ok_ext [scope_ext]: "arena_ext st st' \<Longrightarrow> solver_goal_ok st g \<Longrightarrow> solver_goal_ok st' g"
  by (cases g) (auto simp: solver_goal_ok_def intro: scope_ext)

lemma entry_ok_ext: "arena_ext st st' \<Longrightarrow> entry_ok st e \<Longrightarrow> entry_ok st' e"
  using get_ext(6) by (cases e) (auto intro: scope_ext simp del: not_None_eq)

section \<open>Well-scoped arenas\<close>

definition scoped :: "(ty \<Rightarrow> bool) \<Rightarrow> ir \<Rightarrow> bool" where
  "scoped N st \<longleftrightarrow> (\<forall>p e. arena_get st p = Some e \<longrightarrow> entry_ok (take p st) e \<and> (\<forall>t. e = ETy t \<longrightarrow> N t))"

lemma scoped_iff:
  "scoped N st \<longleftrightarrow> (\<forall>p < length st. entry_ok (take p st) (st ! p) \<and> (\<forall>t. st ! p = ETy t \<longrightarrow> N t))"
  by (simp add: scoped_def nth_opt_def)

lemma scoped_empty [simp]: "scoped N []"
  by (simp add: scoped_def nth_opt_def)

lemma take_ext: "arena_ext (take p st) st"
  unfolding arena_ext_def by (metis append_take_drop_id)

lemma scoped_snoc: "scoped N st \<Longrightarrow> entry_ok st e \<Longrightarrow> (\<And>t. e = ETy t \<Longrightarrow> N t) \<Longrightarrow> scoped N (st @ [e])"
  by (auto simp: scoped_iff nth_append less_Suc_eq)

lemma scoped_intern:
  assumes "scoped N st" and "entry_ok st e" and "\<And>t. e = ETy t \<Longrightarrow> N t" and "arena_intern st e = (st', p)"
  shows "scoped N st' \<and> arena_ext st st' \<and> arena_get st' p = Some e"
proof -
  have "scoped N st'" using assms scoped_snoc by (auto simp: arena_intern_def split: option.splits)
  then show ?thesis using assms(4) by (simp add: arena_intern_ext arena_intern_get)
qed

lemma scoped_before: "scoped N st \<Longrightarrow> arena_get st p = Some e \<Longrightarrow> entry_ok (take p st) e"
  by (auto simp: scoped_def)

lemma scoped_entry: "scoped N st \<Longrightarrow> arena_get st p = Some e \<Longrightarrow> entry_ok st e"
  using scoped_before entry_ok_ext take_ext by blast

lemma scoped_take: "scoped N st \<Longrightarrow> scoped N (take n st)"
  unfolding scoped_iff by (auto simp: min.absorb1)

lemma get_take: "arena_get (take n st) p = Some e \<Longrightarrow> p < n \<and> arena_get st p = Some e"
  by (auto simp: nth_opt_def split: if_splits)

lemma scoped_goals: "scoped N st \<Longrightarrow> get_goals st p = Some gs \<Longrightarrow> g \<in> set gs \<Longrightarrow> goal_ok st g"
  using scoped_entry [of N st p "EGoals gs"] by (simp add: ir_access)

lemma scoped_goal: "scoped N st \<Longrightarrow> get_goal st p = Some g \<Longrightarrow> goal_ok st g"
  using scoped_entry [of N st p "EGoal g"] by (simp add: ir_access)

lemma scoped_assumptions: "scoped N st \<Longrightarrow> get_assumptions st p = Some xs \<Longrightarrow> a \<in> set xs \<Longrightarrow> assumption_ok st a"
  using scoped_entry [of N st p "EAssumptions xs"] by (simp add: ir_access)

lemma scoped_tys: "scoped N st \<Longrightarrow> get_tys st p = Some ts \<Longrightarrow> t \<in> set ts \<Longrightarrow> ty_ptr st t"
  using scoped_entry [of N st p "ETyPtrs ts"] by (simp add: ir_access)

lemma scoped_slice: "scoped N st \<Longrightarrow> get_tys st p = Some ts \<Longrightarrow> ty_slice st p"
  by (auto simp: ty_slice_def dest: scoped_tys)

lemma scoped_N: "scoped N st \<Longrightarrow> get_ty st p = Some t \<Longrightarrow> N t"
  by (auto simp: scoped_def ir_access)

lemma ty_scoped_decompose:
  "ty_scoped st t \<Longrightarrow> \<exists>d. decompose_ty st t = Some d \<and> (\<forall>c \<in> set (de_children d). ty_ptr st c)"
  by (cases "(st, t)" rule: decompose_ty.cases) (auto simp: ty_slice_def trait_ok_def leaf_def)

lemma scoped_children:
  assumes "scoped N st" and "get_ty st p = Some t"
  shows "\<exists>d. decompose st p = Some d \<and> (\<forall>c \<in> set (de_children d). c < p \<and> ty_ptr st c)"
proof -
  have "arena_get st p = Some (ETy t)" using assms(2) by (simp add: ir_access)
  from scoped_before [OF assms(1) this] have "ty_scoped (take p st) t" by simp
  then obtain d where d: "decompose_ty (take p st) t = Some d" and c: "\<forall>c \<in> set (de_children d). ty_ptr (take p st) c"
    using ty_scoped_decompose by blast
  have "decompose st p = Some d" using assms(2) decompose_ty_ext [OF take_ext d] by (simp add: decompose_def)
  moreover have "c < p \<and> ty_ptr st c" if "c \<in> set (de_children d)" for c
    using c that by (auto simp: ty_ptr_def ir_access dest: get_take)
  ultimately show ?thesis by blast
qed

end
