(* ===== verification/TraverseCorrect.thy ===== *)
theory TraverseCorrect
  imports Traverse Scoped EGraph
begin

text \<open>
  The traversal keeps its target arena well scoped.  The locales state what a client owes: its copy of
  a type, of a const and of a bound parameter keep the target well scoped, with a property \<open>N\<close> of
  every type in it and an invariant \<open>K\<close> of the client's state.
\<close>

lemma let2E:
  assumes "(let (a, b) = m in f a b) = Some y"
  obtains a b where "m = (a, b)" "f a b = Some y"
  using assms by (cases m) auto

lemma letE:
  assumes "(let a = m in f a) = Some y"
  obtains "f m = Some y"
  using assms by simp

lemma bind22E:
  assumes "Option.bind m (\<lambda>((a, b), c). f a b c) = Some y"
  obtains a b c where "m = Some ((a, b), c)" "f a b c = Some y"
  using assms by (cases m) auto

lemmas step_elims = bind22E bind2E bindE let2E letE

section \<open>Growth of the target\<close>

abbreviation no_infer :: "ty \<Rightarrow> bool" where
  "no_infer t \<equiv> \<not> is_infer_var t"

definition grown :: "('z threaded_scheme \<Rightarrow> bool) \<Rightarrow> (ty \<Rightarrow> bool) \<Rightarrow> 'z threaded_scheme \<Rightarrow> 'z threaded_scheme \<Rightarrow> bool" where
  "grown K N s s' \<longleftrightarrow> K s' \<and> scoped N (th_target s') \<and> arena_ext (th_target s) (th_target s')"

definition client :: "('z threaded_scheme \<Rightarrow> bool) \<Rightarrow> (ty \<Rightarrow> bool) \<Rightarrow> 'z threaded_scheme \<Rightarrow> bool" where
  "client K N s \<longleftrightarrow> K s \<and> scoped N (th_target s)"

lemma grown_client: "grown K N s s' \<Longrightarrow> client K N s'"
  by (simp add: grown_def client_def)

lemma grown_refl: "client K N s \<Longrightarrow> grown K N s s"
  by (simp add: grown_def client_def)

lemma grown_trans: "grown K N a b \<Longrightarrow> grown K N b c \<Longrightarrow> grown K N a c"
  unfolding grown_def by (blast intro: arena_ext_trans)

lemma grown_ext: "grown K N s s' \<Longrightarrow> arena_ext (th_target s) (th_target s')"
  by (simp add: grown_def)

lemma client_scoped: "client K N s \<Longrightarrow> scoped N (th_target s)"
  by (simp add: client_def)

lemma map_state_grown:
  assumes "client K N s" and "map_state f xs s = Some (ys, s')"
    and "\<And>x y s s'. x \<in> set xs \<Longrightarrow> client K N s \<Longrightarrow> f x s = Some (y, s') \<Longrightarrow> grown K N s s' \<and> ok (th_target s') y"
    and "\<And>st st' y. arena_ext st st' \<Longrightarrow> ok st y \<Longrightarrow> ok st' y"
  shows "grown K N s s' \<and> (\<forall>y \<in> set ys. ok (th_target s') y)"
  using assms(1-3)
proof (induction xs arbitrary: s ys)
  case Nil
  then show ?case by (simp add: grown_refl)
next
  case (Cons x xs)
  then obtain y s1 ys1 where f: "f x s = Some (y, s1)" and m: "map_state f xs s1 = Some (ys1, s')" and ys: "ys = y # ys1"
    by (auto simp: opt_simps)
  have 1: "grown K N s s1 \<and> ok (th_target s1) y" by (rule Cons.prems(3) [OF _ Cons.prems(1) f]) simp
  then have "client K N s1" by (blast intro: grown_client)
  from Cons.IH [OF this m] have 2: "grown K N s1 s' \<and> (\<forall>y \<in> set ys1. ok (th_target s') y)"
    by (rule meta_mp) (rule Cons.prems(3), simp_all)
  then have "ok (th_target s') y" using 1 assms(4) grown_ext by blast
  then show ?case using 1 2 ys by (auto intro: grown_trans)
qed

section \<open>Copying types\<close>

locale copying =
  fixes N :: "ty \<Rightarrow> bool" and K :: "'z threaded_scheme \<Rightarrow> bool"
    and cp :: "'z copy_fun" and cc :: "'z const_fun"
  assumes cp_ok: "client K N s \<Longrightarrow> cp p s = Some (q, s') \<Longrightarrow> grown K N s s' \<and> ty_ptr (th_target s') q"
    and cc_ok: "client K N s \<Longrightarrow> cc c s = Some (c', s') \<Longrightarrow> grown K N s s'"
    and K_target: "K s \<Longrightarrow> arena_ext (th_target s) st \<Longrightarrow> K (s\<lparr>th_target := st\<rparr>)"
    and N_structural: "\<not> is_infer_var t \<Longrightarrow> N t"
begin

lemma put_grown:
  assumes "client K N s" and "entry_ok (th_target s) e" and "\<And>t. e = ETy t \<Longrightarrow> N t" and "put e s = (p, s')"
  shows "grown K N s s' \<and> arena_get (th_target s') p = Some e"
proof -
  obtain st where i: "arena_intern (th_target s) e = (st, p)" and s': "s' = s\<lparr>th_target := st\<rparr>"
    using assms(4) by (auto simp: put_def split: prod.splits)
  from scoped_intern [OF client_scoped [OF assms(1)] assms(2,3) i] show ?thesis
    using assms(1) K_target by (simp add: grown_def client_def s')
qed

lemma slice_ok:
  assumes "client K N s" and "copy_slice_with cp src p s = Some (q, s')"
  shows "grown K N s s' \<and> ty_slice (th_target s') q"
proof -
  obtain source copied s1 where m: "map_state cp source s = Some (copied, s1)" and p: "put (ETyPtrs copied) s1 = (q, s')"
    using assms(2) by (auto simp: copy_slice_with_def opt_simps)
  from map_state_grown [OF assms(1) m, where ok = ty_ptr] cp_ok ty_ptr_ext
  have 1: "grown K N s s1" and 2: "\<forall>y \<in> set copied. ty_ptr (th_target s1) y" by blast+
  from put_grown [OF grown_client [OF 1] _ _ p] 2 have 3: "grown K N s1 s'" and 4: "get_tys (th_target s') q = Some copied"
    by (simp_all add: ir_access)
  then show ?thesis using 1 2 grown_ext [OF 3] by (auto simp: ty_slice_def intro: grown_trans ty_ptr_ext)
qed

lemma trait_ref_ok:
  assumes "client K N s" and "copy_trait_ref_with cp src tr s = Some (tr', s')"
  shows "grown K N s s' \<and> trait_ok (th_target s') tr'"
  using assms by (auto simp: copy_trait_ref_with_def opt_simps trait_ok_def dest: slice_ok)

text \<open>One step, and then the rest from a client state of its own.\<close>

lemma then_grown:
  assumes "grown K N s s1 \<and> A (th_target s1)" and "\<And>st st'. arena_ext st st' \<Longrightarrow> A st \<Longrightarrow> A st'"
    and "client K N s1 \<Longrightarrow> grown K N s1 s' \<and> B (th_target s')"
  shows "grown K N s s' \<and> A (th_target s') \<and> B (th_target s')"
  using assms grown_client grown_trans grown_ext by metis

lemma pair_ok:
  assumes "client K N s" and "cp p s = Some (q, s1)" and "copy_trait_ref_with cp src tr s1 = Some (tr', s')"
  shows "grown K N s s' \<and> ty_ptr (th_target s') q \<and> trait_ok (th_target s') tr'"
  by (rule then_grown [where A = "\<lambda>st. ty_ptr st q", OF cp_ok [OF assms(1,2)]]) (use ty_ptr_ext trait_ref_ok assms(3) in blast)+

lemma two_ok:
  assumes "client K N s" and "cp p s = Some (p', s1)" and "cp q s1 = Some (q', s')"
  shows "grown K N s s' \<and> ty_ptr (th_target s') p' \<and> ty_ptr (th_target s') q'"
  by (rule then_grown [where A = "\<lambda>st. ty_ptr st p'", OF cp_ok [OF assms(1,2)]]) (use ty_ptr_ext cp_ok assms(3) in blast)+

lemma alias_copied_ok:
  assumes "client K N s" and "copy_alias_with cp src a s = Some (a', s')"
  shows "grown K N s s' \<and> alias_ok (th_target s') a'"
proof (cases a)
  case (Associated projection)
  then obtain self_ty s1 tr s2 args where 1: "cp (pr_self_ty projection) s = Some (self_ty, s1)"
    and 2: "copy_trait_ref_with cp src (pr_trait_ref projection) s1 = Some (tr, s2)"
    and 3: "copy_slice_with cp src (pr_args projection) s2 = Some (args, s')"
    and a': "a' = Associated \<lparr>pr_associated_ty = pr_associated_ty projection, pr_self_ty = self_ty, pr_trait_ref = tr, pr_args = args\<rparr>"
    using assms(2) by (auto simp: copy_alias_with_def opt_simps)
  have "grown K N s s' \<and> (ty_ptr (th_target s') self_ty \<and> trait_ok (th_target s') tr) \<and> ty_slice (th_target s') args"
    by (rule then_grown [where A = "\<lambda>st. ty_ptr st self_ty \<and> trait_ok st tr", OF pair_ok [OF assms(1) 1 2]])
      (use slice_ok 3 ty_ptr_ext trait_ok_ext in blast)+
  then show ?thesis by (simp add: a')
qed (use assms in \<open>auto simp: copy_alias_with_def opt_simps dest: slice_ok\<close>)

lemma compound_ok:
  assumes "client K N s" and "copy_compound_with cp cc src t s = Some (t', s')" and "N t"
  shows "grown K N s s' \<and> ty_scoped (th_target s') t' \<and> N t'"
proof (cases t)
  case (TyFnPtr parameters result)
  then obtain ps s1 r where 1: "copy_slice_with cp src parameters s = Some (ps, s1)" and 2: "cp result s1 = Some (r, s')"
    and t': "t' = TyFnPtr ps r" using assms(2) by (auto simp: copy_compound_with_def opt_simps)
  have "grown K N s s' \<and> ty_slice (th_target s') ps \<and> ty_ptr (th_target s') r"
    by (rule then_grown [where A = "\<lambda>st. ty_slice st ps", OF slice_ok [OF assms(1) 1]]) (use ty_slice_ext cp_ok 2 in blast)+
  then show ?thesis by (simp add: t' N_structural)
next
  case (TyArray inner len)
  then obtain p s1 c where 1: "cp inner s = Some (p, s1)" and 2: "cc len s1 = Some (c, s')"
    and t': "t' = TyArray p c" using assms(2) by (auto simp: copy_compound_with_def opt_simps)
  have "grown K N s s' \<and> ty_ptr (th_target s') p \<and> True"
    by (rule then_grown [where A = "\<lambda>st. ty_ptr st p" and B = "\<lambda>_. True", OF cp_ok [OF assms(1) 1]]) (use ty_ptr_ext cc_ok 2 in blast)+
  then show ?thesis by (simp add: t' N_structural)
qed (use assms in \<open>auto simp: copy_compound_with_def opt_simps N_structural grown_refl dest: slice_ok cp_ok alias_copied_ok\<close>)

lemma predicate_copied_ok:
  assumes "client K N s" and "copy_predicate_with cp src w s = Some (w', s')"
  shows "grown K N s s' \<and> predicate_ok (th_target s') w'"
  using assms by (auto simp: copy_predicate_with_def opt_simps predicate_ok_def dest: pair_ok)

lemma atom_ok:
  assumes "client K N s" and "copy_atom_with cp src a s = Some (a', s')"
  shows "grown K N s s' \<and> goal_ok (th_target s') (GoalAtom a')"
  using assms by (cases a) (auto simp: copy_atom_with_def opt_simps dest: pair_ok two_ok)

lemma output_ok:
  assumes "client K N s" and "copy_output_with cp out s = Some (out', s')"
  shows "grown K N s s' \<and> (\<forall>t. out' = OutputType t \<longrightarrow> ty_ptr (th_target s') t)"
  using assms by (cases out) (auto simp: copy_output_with_def opt_simps grown_refl dest: cp_ok)

end

section \<open>Flattening\<close>

lemma push_goal_ok:
  "push_goal st g out = Some out' \<Longrightarrow> scoped N st \<Longrightarrow> goal_ok st g \<Longrightarrow> \<forall>x \<in> set out. goal_ok st x \<Longrightarrow> \<forall>x \<in> set out'. goal_ok st x"
proof (induction rule: push_goal.raw_induct [rotated 1, consumes 1, case_names step])
  case (step push st g out out')
  show ?case
  proof (cases "\<exists>p. g = GoalAll p")
    case True
    then obtain p gs where "g = GoalAll p" and gs: "get_goals st p = Some gs" and f: "fold_state (push st) gs out = Some out'"
      using step.hyps by (auto simp: opt_simps)
    show ?thesis
      by (rule fold_state_inv [where P = "\<lambda>out. \<forall>x \<in> set out. goal_ok st x", OF f step.prems(3)])
        (rule step.IH, assumption, rule step.prems(1), rule scoped_goals [OF step.prems(1) gs], assumption+)
  next
    case False
    then have "out' = out @ [g]" using step.hyps by (auto split: goal.splits)
    then show ?thesis using step.prems by auto
  qed
qed

lemma push_assumption_ok:
  "push_assumption st a out = Some out' \<Longrightarrow> scoped N st \<Longrightarrow> assumption_ok st a \<Longrightarrow> \<forall>x \<in> set out. assumption_ok st x \<Longrightarrow>
    \<forall>x \<in> set out'. assumption_ok st x"
proof (induction rule: push_assumption.raw_induct [rotated 1, consumes 1, case_names step])
  case (step push st a out out')
  show ?case
  proof (cases "\<exists>p. a = AsmAll p")
    case True
    then obtain p xs where "a = AsmAll p" and xs: "get_assumptions st p = Some xs" and f: "fold_state (push st) xs out = Some out'"
      using step.hyps by (auto simp: opt_simps)
    show ?thesis
      by (rule fold_state_inv [where P = "\<lambda>out. \<forall>x \<in> set out. assumption_ok st x", OF f step.prems(3)])
        (rule step.IH, assumption, rule step.prems(1), rule scoped_assumptions [OF step.prems(1) xs], assumption+)
  next
    case False
    then have "out' = out @ [a]" using step.hyps by (auto split: assumption.splits)
    then show ?thesis using step.prems by auto
  qed
qed

section \<open>Copying goals and assumptions\<close>

locale traversal = copying N K cp cc for N and K :: "'z threaded_scheme \<Rightarrow> bool" and cp cc +
  fixes fresh :: "'z fresh_fun"
  assumes fresh_ok: "client K N s \<Longrightarrow> fresh q s = Some (q', s') \<Longrightarrow> grown K N s s'"
    and K_binders: "K s \<Longrightarrow> K (s\<lparr>th_binders := b\<rparr>)"
begin

lemma binders_grown: "client K N s \<Longrightarrow> grown K N s (s\<lparr>th_binders := b\<rparr>)"
  by (simp add: grown_def client_def K_binders)

lemma put_all_ok:
  assumes "client K N s" and "\<forall>g \<in> set gs. goal_ok (th_target s) g" and "put_all gs s = Some (g, s')"
  shows "grown K N s s' \<and> goal_ok (th_target s') g"
proof -
  obtain flat where f: "fold_state (push_goal (th_target s)) gs [] = Some flat"
    using assms(3) by (auto simp: put_all_def goal_all_def opt_simps)
  obtain st p where i: "arena_intern (th_target s) (EGoals flat) = (st, p)" by fastforce
  have g: "g = GoalAll p" "s' = s\<lparr>th_target := st\<rparr>"
    using assms(3) f i by (simp_all add: put_all_def goal_all_def alloc_goals_def)
  have "\<forall>x \<in> set flat. goal_ok (th_target s) x"
  proof (rule fold_state_inv [where P = "\<lambda>out. \<forall>x \<in> set out. goal_ok (th_target s) x", OF f])
    show "\<forall>x \<in> set []. goal_ok (th_target s) x" by simp
    show "\<forall>x \<in> set u'. goal_ok (th_target s) x"
      if "x \<in> set gs" "\<forall>x \<in> set u. goal_ok (th_target s) x" "push_goal (th_target s) x u = Some u'" for x u u'
      by (rule push_goal_ok [OF that(3) client_scoped [OF assms(1)] _ that(2)]) (use assms(2) that(1) in blast)
  qed
  moreover have "put (EGoals flat) s = (p, s')" using i g by (simp add: put_def)
  ultimately have "grown K N s s' \<and> arena_get (th_target s') p = Some (EGoals flat)" by (intro put_grown [OF assms(1)]) simp_all
  then show ?thesis by (simp add: g(1) ir_access)
qed

lemma put_flat_ok:
  assumes "client K N s" and "\<forall>a \<in> set xs. assumption_ok (th_target s) a" and "put_flat xs s = Some (p, s')"
  shows "grown K N s s' \<and> get_assumptions (th_target s') p \<noteq> None"
proof -
  obtain flat where f: "fold_state (push_assumption (th_target s)) xs [] = Some flat"
    using assms(3) by (auto simp: put_flat_def flatten_assumptions_def opt_simps)
  obtain st q where iq: "arena_intern (th_target s) (EAssumptions flat) = (st, q)" by fastforce
  have q: "q = p" and s': "s' = s\<lparr>th_target := st\<rparr>"
    using assms(3) f iq by (simp_all add: put_flat_def flatten_assumptions_def alloc_assumptions_def)
  note i = iq [unfolded q]
  have "\<forall>x \<in> set flat. assumption_ok (th_target s) x"
  proof (rule fold_state_inv [where P = "\<lambda>out. \<forall>x \<in> set out. assumption_ok (th_target s) x", OF f])
    show "\<forall>x \<in> set []. assumption_ok (th_target s) x" by simp
    show "\<forall>x \<in> set u'. assumption_ok (th_target s) x"
      if "x \<in> set xs" "\<forall>x \<in> set u. assumption_ok (th_target s) x" "push_assumption (th_target s) x u = Some u'" for x u u'
      by (rule push_assumption_ok [OF that(3) client_scoped [OF assms(1)] _ that(2)]) (use assms(2) that(1) in blast)
  qed
  moreover have "put (EAssumptions flat) s = (p, s')" using i s' by (simp add: put_def)
  ultimately have "grown K N s s' \<and> arena_get (th_target s') p = Some (EAssumptions flat)"
    by (intro put_grown [OF assms(1)]) simp_all
  then show ?thesis by (simp add: ir_access)
qed

lemma enter_binder_ok:
  "client K N s \<Longrightarrow> enter_binder fresh ps s = Some (r, s') \<Longrightarrow> grown K N s s'"
proof (induction ps arbitrary: s r)
  case (Cons p ps)
  then obtain q s1 r1 where 1: "fresh p s = Some (q, s1)"
    and 2: "enter_binder fresh ps (s1\<lparr>th_binders := (th_binders s1)(p \<mapsto> q)\<rparr>) = Some (r1, s')"
    by (auto simp: opt_simps Let_def)
  have g: "grown K N s s1" by (rule fresh_ok [OF Cons.prems(1) 1])
  then have "grown K N s1 (s1\<lparr>th_binders := (th_binders s1)(p \<mapsto> q)\<rparr>)" by (intro binders_grown grown_client)
  with g Cons.IH [OF grown_client 2] show ?case by (blast intro: grown_trans)
qed (simp add: grown_refl)

lemma restore_binders_ok:
  "client K N s \<Longrightarrow> grown K N s (fold (\<lambda>(source, previous) s. s\<lparr>th_binders := (th_binders s)(source := previous)\<rparr>) xs s)"
proof (induction xs arbitrary: s)
  case (Cons x xs)
  obtain a b where x: "x = (a, b)" by (cases x)
  have g: "grown K N s (s\<lparr>th_binders := (th_binders s)(a := b)\<rparr>)" by (rule binders_grown [OF Cons.prems])
  from grown_trans [OF g Cons.IH [OF grown_client [OF g]]] show ?case unfolding x fold.simps comp_apply prod.case .
qed (simp add: grown_refl)

lemma leave_binder_ok: "client K N s \<Longrightarrow> grown K N s (leave_binder saved s)"
  unfolding leave_binder_def by (rule restore_binders_ok)

definition goal_fun_ok :: "(goal \<Rightarrow> 'z threaded_scheme \<Rightarrow> (goal \<times> 'z threaded_scheme) option) \<Rightarrow> bool" where
  "goal_fun_ok cg \<longleftrightarrow> (\<forall>g s g' s'. client K N s \<longrightarrow> cg g s = Some (g', s') \<longrightarrow> grown K N s s' \<and> goal_ok (th_target s') g')"

definition assumption_fun_ok :: "(assumption \<Rightarrow> 'z threaded_scheme \<Rightarrow> (assumption \<times> 'z threaded_scheme) option) \<Rightarrow> bool" where
  "assumption_fun_ok ca \<longleftrightarrow>
     (\<forall>a s a' s'. client K N s \<longrightarrow> ca a s = Some (a', s') \<longrightarrow> grown K N s s' \<and> assumption_ok (th_target s') a')"

lemma assumptions_step_ok:
  assumes "assumption_fun_ok ca" and "client K N s" and "copy_assumptions_step ca src p s = Some (q, s')"
  shows "grown K N s s' \<and> get_assumptions (th_target s') q \<noteq> None"
proof -
  obtain source copied s1 where m: "map_state ca source s = Some (copied, s1)" and p: "put_flat copied s1 = Some (q, s')"
    using assms(3) by (auto simp: copy_assumptions_step_def opt_simps)
  have "grown K N s s1 \<and> (\<forall>y \<in> set copied. assumption_ok (th_target s1) y)"
    by (rule map_state_grown [OF assms(2) m _ assumption_ok_ext]) (use assms(1) in \<open>auto simp: assumption_fun_ok_def\<close>)
  then show ?thesis using put_flat_ok [OF _ _ p] grown_client grown_trans by blast
qed

lemma goals_ok:
  assumes "goal_fun_ok cg" and "client K N s" and "map_state cg source s = Some (copied, s')"
  shows "grown K N s s' \<and> (\<forall>g \<in> set copied. goal_ok (th_target s') g)"
  by (rule map_state_grown [OF assms(2,3) _ goal_ok_ext]) (use assms(1) in \<open>auto simp: goal_fun_ok_def\<close>)

lemma goal_step_ok:
  assumes cg: "goal_fun_ok cg" and ca: "assumption_fun_ok ca" and c: "client K N s"
    and r: "copy_goal_step cp fresh src cg ca g s = Some (g', s')"
  shows "grown K N s s' \<and> goal_ok (th_target s') g'"
proof (cases g)
  case (GoalExists b)
  from r [unfolded copy_goal_step_def GoalExists goal.case]
  obtain ps saved targets s1 v v' s2 p s3 q s4 where 1: "enter_binder fresh ps s = Some ((saved, targets), s1)"
    and 2: "cg v s1 = Some (v', s2)" and 3: "put (EGoal v') (leave_binder saved s2) = (p, s3)"
    and 40: "put (EGenerics targets) s3 = (q, s4)" and eq: "Some (GoalExists \<lparr>bi_value = p, bi_generics = q\<rparr>, s4) = Some (g', s')"
    by (elim step_elims) (rule that, assumption+)
  from 40 eq have 4: "put (EGenerics targets) s3 = (q, s')" and g': "g' = GoalExists \<lparr>bi_value = p, bi_generics = q\<rparr>" by simp_all
  have a: "grown K N s s1" by (rule enter_binder_ok [OF c 1])
  have b: "grown K N s1 s2 \<and> goal_ok (th_target s2) v'" using cg 2 grown_client [OF a] by (auto simp: goal_fun_ok_def)
  then have d: "grown K N s2 (leave_binder saved s2)" by (blast intro: leave_binder_ok grown_client)
  then have e: "goal_ok (th_target (leave_binder saved s2)) v'" using b by (auto intro: goal_ok_ext grown_ext)
  have f: "grown K N (leave_binder saved s2) s3 \<and> arena_get (th_target s3) p = Some (EGoal v')"
    by (rule put_grown [OF grown_client [OF d] _ _ 3]) (use e in simp_all)
  then have h: "grown K N s3 s' \<and> arena_get (th_target s') q = Some (EGenerics targets)"
    by (intro put_grown [OF _ _ _ 4]) (auto intro: grown_client)
  have "arena_get (th_target s') p = Some (EGoal v')" by (rule arena_ext_get [OF grown_ext [OF conjunct1 [OF h]] conjunct2 [OF f]])
  moreover have "grown K N s s'"
    by (rule grown_trans [OF a grown_trans [OF conjunct1 [OF b] grown_trans [OF d grown_trans [OF conjunct1 [OF f] conjunct1 [OF h]]]]])
  ultimately show ?thesis using h by (simp add: g' ir_access)
next
  case (GoalImplies assumptions inner)
  from r [unfolded copy_goal_step_def GoalImplies goal.case]
  obtain xs s1 v v' s2 p s3 where 1: "copy_assumptions_step ca src assumptions s = Some (xs, s1)"
    and 2: "cg v s1 = Some (v', s2)" and 30: "put (EGoal v') s2 = (p, s3)" and eq: "Some (GoalImplies xs p, s3) = Some (g', s')"
    by (elim step_elims) (rule that, assumption+)
  from 30 eq have 3: "put (EGoal v') s2 = (p, s')" and g': "g' = GoalImplies xs p" by simp_all
  have a: "grown K N s s1 \<and> get_assumptions (th_target s1) xs \<noteq> None" by (rule assumptions_step_ok [OF ca c 1])
  then have b: "grown K N s1 s2 \<and> goal_ok (th_target s2) v'" using cg 2 by (auto simp: goal_fun_ok_def dest: grown_client)
  then have d: "grown K N s2 s' \<and> arena_get (th_target s') p = Some (EGoal v')"
    by (intro put_grown [OF _ _ _ 3]) (auto intro: grown_client)
  have "get_assumptions (th_target s') xs \<noteq> None"
    by (rule get_ext(3) [OF arena_ext_trans [OF grown_ext [OF conjunct1 [OF b]] grown_ext [OF conjunct1 [OF d]]] conjunct2 [OF a]])
  moreover have "grown K N s s'" by (rule grown_trans [OF conjunct1 [OF a] grown_trans [OF conjunct1 [OF b] conjunct1 [OF d]]])
  ultimately show ?thesis using d by (simp add: g' ir_access)
next
  case (GoalAll goals)
  then obtain source copied s1 where 1: "map_state cg source s = Some (copied, s1)" and 2: "put_all copied s1 = Some (g', s')"
    using r by (auto simp: copy_goal_step_def opt_simps)
  then show ?thesis using goals_ok [OF cg c 1] put_all_ok [OF _ _ 2] grown_client grown_trans by blast
next
  case (GoalAtom a)
  then show ?thesis using r c by (auto simp: copy_goal_step_def opt_simps dest: atom_ok)
next
  case GoalMaybe
  then show ?thesis using r c by (auto simp: copy_goal_step_def grown_refl)
qed

lemma assumption_step_ok:
  assumes cg: "goal_fun_ok cg" and ca: "assumption_fun_ok ca" and c: "client K N s"
    and r: "copy_assumption_step cp src cg ca a s = Some (a', s')"
  shows "grown K N s s' \<and> assumption_ok (th_target s') a'"
proof (cases a)
  case (AsmTraitImpl self_ty tr)
  then show ?thesis using r c by (auto simp: copy_assumption_step_def opt_simps dest: pair_ok)
next
  case (AsmNormalizesTo al0 t)
  then obtain al s1 t' where 1: "copy_alias_with cp src al0 s = Some (al, s1)" and 2: "cp t s1 = Some (t', s')"
    and a': "a' = AsmNormalizesTo al t'" using r by (auto simp: copy_assumption_step_def opt_simps)
  have "grown K N s s' \<and> alias_ok (th_target s') al \<and> ty_ptr (th_target s') t'"
    by (rule then_grown [where A = "\<lambda>st. alias_ok st al", OF alias_copied_ok [OF c 1]]) (use alias_ok_ext cp_ok 2 in blast)+
  then show ?thesis by (simp add: a')
next
  case (AsmImplies conditions consequence)
  from r [unfolded copy_assumption_step_def AsmImplies assumption.case]
  obtain source copied s1 p s2 w w' s3 q s4 where 1: "map_state cg source s = Some (copied, s1)"
    and 2: "put (EGoals copied) s1 = (p, s2)" and 3: "copy_predicate_with cp src w s2 = Some (w', s3)"
    and 40: "put (EPredicate w') s3 = (q, s4)" and eq: "Some (AsmImplies p q, s4) = Some (a', s')"
    by (elim step_elims) (rule that, assumption+)
  from 40 eq have 4: "put (EPredicate w') s3 = (q, s')" and a': "a' = AsmImplies p q" by simp_all
  have a: "grown K N s s1 \<and> (\<forall>g \<in> set copied. goal_ok (th_target s1) g)" by (rule goals_ok [OF cg c 1])
  then have b: "grown K N s1 s2 \<and> arena_get (th_target s2) p = Some (EGoals copied)"
    by (intro put_grown [OF _ _ _ 2]) (auto intro: grown_client)
  then have d: "grown K N s2 s3 \<and> predicate_ok (th_target s3) w'" using predicate_copied_ok [OF _ 3] grown_client by blast
  then have e: "grown K N s3 s' \<and> arena_get (th_target s') q = Some (EPredicate w')"
    by (intro put_grown [OF _ _ _ 4]) (auto intro: grown_client)
  have "arena_get (th_target s') p = Some (EGoals copied)"
    by (rule arena_ext_get [OF arena_ext_trans [OF grown_ext [OF conjunct1 [OF d]] grown_ext [OF conjunct1 [OF e]]] conjunct2 [OF b]])
  moreover have "grown K N s s'"
    by (rule grown_trans [OF conjunct1 [OF a] grown_trans [OF conjunct1 [OF b] grown_trans [OF conjunct1 [OF d] conjunct1 [OF e]]]])
  ultimately show ?thesis using e by (simp add: a' ir_access)
next
  case (AsmAll items)
  then obtain xs where "copy_assumptions_step ca src items s = Some (xs, s')" and "a' = AsmAll xs"
    using r by (auto simp: copy_assumption_step_def opt_simps)
  then show ?thesis using assumptions_step_ok [OF ca c] by simp
qed

definition formula_fun_ok :: "(formula \<Rightarrow> 'z threaded_scheme \<Rightarrow> (formula \<times> 'z threaded_scheme) option) \<Rightarrow> bool" where
  "formula_fun_ok cf \<longleftrightarrow> goal_fun_ok (via_goal cf) \<and> assumption_fun_ok (via_assumption cf)"

lemma formula_fun_okI:
  assumes "\<And>x s x' s'. client K N s \<Longrightarrow> cf x s = Some (x', s') \<Longrightarrow> grown K N s s' \<and> formula_ok (th_target s') x'"
  shows "goal_fun_ok (via_goal cf)" and "assumption_fun_ok (via_assumption cf)"
proof -
  show "goal_fun_ok (via_goal cf)" unfolding goal_fun_ok_def via_goal_def
  proof (intro allI impI, elim bind2E bindE)
    fix g s g' s' v s1 g1
    assume "client K N s" and f: "cf (FGoal g) s = Some (v, s1)" and "as_goal v = Some g1" and e: "Some (g1, s1) = Some (g', s')"
    then have "v = FGoal g'" by (cases v) auto
    then show "grown K N s s' \<and> goal_ok (th_target s') g'" using assms [OF \<open>client K N s\<close> f] e by (simp add: formula_ok_def)
  qed
  show "assumption_fun_ok (via_assumption cf)" unfolding assumption_fun_ok_def via_assumption_def
  proof (intro allI impI, elim bind2E bindE)
    fix a s a' s' v s1 a1
    assume "client K N s" and f: "cf (FAssumption a) s = Some (v, s1)" and "as_assumption v = Some a1" and e: "Some (a1, s1) = Some (a', s')"
    then have "v = FAssumption a'" by (cases v) auto
    then show "grown K N s s' \<and> assumption_ok (th_target s') a'" using assms [OF \<open>client K N s\<close> f] e by (simp add: formula_ok_def)
  qed
qed

lemma formula_copied_ok:
  assumes "copy_formula_with cp fresh src x s = Some r" and "client K N s"
  shows "grown K N s (snd r) \<and> formula_ok (th_target (snd r)) (fst r)"
proof -
  let ?P = "\<lambda>cp' fresh' src x s r. cp' = cp \<longrightarrow> fresh' = fresh \<longrightarrow> client K N s \<longrightarrow>
    grown K N s (snd r) \<and> formula_ok (th_target (snd r)) (fst r)"
  have "(case ((((cp, fresh), src), x), s) of (x, xa) \<Rightarrow> (case x of (x, xa) \<Rightarrow> (case x of (x, xa) \<Rightarrow>
        (case x of (x, xa) \<Rightarrow> ?P x xa) xa) xa) xa) r"
  proof (rule copy_formula_with.raw_induct [where P = ?P])
    show "(case ((((cp, fresh), src), x), s) of (x, xa) \<Rightarrow> (case x of (x, xa) \<Rightarrow> (case x of (x, xa) \<Rightarrow>
        (case x of (x, xa) \<Rightarrow> copy_formula_with x xa) xa) xa) xa) = Some r" using assms(1) by simp
    fix copy cp' fresh' src x s and r :: "formula \<times> 'z threaded_scheme"
    assume IH: "\<And>cp' fresh' src x s r. copy cp' fresh' src x s = Some r \<Longrightarrow> ?P cp' fresh' src x s r"
      and step: "(case x of
       FGoal g \<Rightarrow> Option.bind (copy_goal_step cp' fresh' src (via_goal (copy cp' fresh' src)) (via_assumption (copy cp' fresh' src)) g s)
         (\<lambda>(g, s). Some (FGoal g, s))
     | FAssumption a \<Rightarrow> Option.bind (copy_assumption_step cp' src (via_goal (copy cp' fresh' src)) (via_assumption (copy cp' fresh' src)) a s)
         (\<lambda>(a, s). Some (FAssumption a, s))) = Some r"
    show "?P cp' fresh' src x s r"
    proof (intro impI)
      assume e: "cp' = cp" "fresh' = fresh" and c: "client K N s"
      have ok: "goal_fun_ok (via_goal (copy cp fresh src))" "assumption_fun_ok (via_assumption (copy cp fresh src))"
        using IH [of cp fresh src] by (auto intro!: formula_fun_okI)
      show "grown K N s (snd r) \<and> formula_ok (th_target (snd r)) (fst r)"
      proof (cases x)
        case (FGoal g)
        then show ?thesis using step e goal_step_ok [OF ok c] by (auto simp: opt_simps formula_ok_def)
      next
        case (FAssumption a)
        then show ?thesis using step e assumption_step_ok [OF ok c] by (auto simp: opt_simps formula_ok_def)
      qed
    qed
  qed
  then show ?thesis using assms(2) by simp
qed

lemma goal_copied_ok:
  assumes "client K N s" and "copy_goal_with cp fresh src g s = Some (g', s')"
  shows "grown K N s s' \<and> goal_ok (th_target s') g'"
  using assms formula_fun_okI(1) [of "copy_formula_with cp fresh src"] formula_copied_ok
  by (fastforce simp: copy_goal_with_def goal_fun_ok_def)

lemma assumption_copied_ok:
  assumes "client K N s" and "copy_assumption_with cp fresh src a s = Some (a', s')"
  shows "grown K N s s' \<and> assumption_ok (th_target s') a'"
  using assms formula_fun_okI(2) [of "copy_formula_with cp fresh src"] formula_copied_ok
  by (fastforce simp: copy_assumption_with_def assumption_fun_ok_def)

lemma assumption_slice_ok:
  assumes "client K N s" and "copy_assumption_slice_with cp fresh src p s = Some (q, s')"
  shows "grown K N s s' \<and> get_assumptions (th_target s') q \<noteq> None"
  using assms assumptions_step_ok [of "copy_assumption_with cp fresh src"] assumption_copied_ok
  by (auto simp: copy_assumption_slice_with_def assumption_fun_ok_def)

lemma solver_goal_copied_ok:
  assumes "client K N s" and "copy_solver_goal_with cp fresh src g s = Some (g', s')"
  shows "grown K N s s' \<and> solver_goal_ok (th_target s') g'"
  using assms by (cases g) (auto simp: copy_solver_goal_with_def opt_simps solver_goal_ok_def dest: goal_copied_ok alias_copied_ok)

end

end
