(* ===== verification/BoundaryCorrect.thy ===== *)
theory BoundaryCorrect
  imports Boundary TraverseCorrect "HOL-Library.Code_Target_Nat"
begin

text \<open>
  A response is closed: the extractor never copies an inference variable, so the assertion that
  guards every extracted response holds.
\<close>

section \<open>The check on a well-scoped arena\<close>

lemma all_opt_True: "(\<And>x. x \<in> set xs \<Longrightarrow> f x = Some True) \<Longrightarrow> all_opt f xs = Some True"
  by (induction xs) auto

lemma and_opt_True [simp]: "and_opt (Some True) b = b"
  by (simp add: and_opt_def)

lemma ty_no_infer: "scoped no_infer st \<Longrightarrow> ty_ptr st p \<Longrightarrow> ty_contains_no_infer_vars st p = Some True"
proof (induction p rule: less_induct)
  case (less p)
  obtain t where t: "get_ty st p = Some t" using less.prems by (auto simp: ty_ptr_def)
  obtain d where d: "decompose st p = Some d" and c: "\<forall>c \<in> set (de_children d). c < p \<and> ty_ptr st c"
    using scoped_children [OF less.prems(1) t] by blast
  have "all_opt (ty_contains_no_infer_vars st) (de_children d) = Some True"
    by (rule all_opt_True) (use c less in blast)
  then show ?case using t d scoped_N [OF less.prems(1) t] by (simp add: ty_contains_no_infer_vars.simps [of st p])
qed

lemma args_no_infer: "scoped no_infer st \<Longrightarrow> ty_slice st p \<Longrightarrow> args_contain_no_infer_vars st p = Some True"
  by (auto simp: ty_slice_def args_contain_no_infer_vars_def intro!: all_opt_True ty_no_infer)

lemma alias_no_infer: "scoped no_infer st \<Longrightarrow> alias_ok st a \<Longrightarrow> alias_contains_no_infer_vars st a = Some True"
  by (cases a) (simp_all add: alias_contains_no_infer_vars_def args_no_infer ty_no_infer trait_ok_def)

lemma formula_check [simp]:
  "formula_contains_no_infer_vars st (FGoal (GoalExists b)) =
     do { g \<leftarrow> get_goal st (bi_value b); formula_contains_no_infer_vars st (FGoal g) }"
  "formula_contains_no_infer_vars st (FGoal (GoalImplies assumptions inner)) = do {
     xs \<leftarrow> get_assumptions st assumptions;
     and_opt (all_opt (\<lambda>a. formula_contains_no_infer_vars st (FAssumption a)) xs)
       (do { g \<leftarrow> get_goal st inner; formula_contains_no_infer_vars st (FGoal g) }) }"
  "formula_contains_no_infer_vars st (FGoal (GoalAll goals)) =
     do { gs \<leftarrow> get_goals st goals; all_opt (\<lambda>g. formula_contains_no_infer_vars st (FGoal g)) gs }"
  "formula_contains_no_infer_vars st (FGoal (GoalAtom (AtomTraitImpl self_ty tr))) =
     and_opt (ty_contains_no_infer_vars st self_ty) (args_contain_no_infer_vars st (tr_args tr))"
  "formula_contains_no_infer_vars st (FGoal (GoalAtom (AtomEquals left right))) =
     and_opt (ty_contains_no_infer_vars st left) (ty_contains_no_infer_vars st right)"
  "formula_contains_no_infer_vars st (FGoal GoalMaybe) = Some True"
  "formula_contains_no_infer_vars st (FAssumption (AsmTraitImpl self_ty tr)) =
     and_opt (ty_contains_no_infer_vars st self_ty) (args_contain_no_infer_vars st (tr_args tr))"
  "formula_contains_no_infer_vars st (FAssumption (AsmNormalizesTo al t)) =
     and_opt (alias_contains_no_infer_vars st al) (ty_contains_no_infer_vars st t)"
  "formula_contains_no_infer_vars st (FAssumption (AsmImplies conditions consequence)) = do {
     gs \<leftarrow> get_goals st conditions;
     and_opt (all_opt (\<lambda>g. formula_contains_no_infer_vars st (FGoal g)) gs)
       (do { w \<leftarrow> get_predicate st consequence;
             and_opt (ty_contains_no_infer_vars st (wp_self_ty w)) (args_contain_no_infer_vars st (tr_args (wp_trait_ref w))) }) }"
  "formula_contains_no_infer_vars st (FAssumption (AsmAll items)) =
     do { xs \<leftarrow> get_assumptions st items; all_opt (\<lambda>a. formula_contains_no_infer_vars st (FAssumption a)) xs }"
  by (subst formula_contains_no_infer_vars.simps, simp)+

lemma formula_no_infer:
  assumes "scoped no_infer st"
  shows "formula_ok (take n st) x \<Longrightarrow> formula_contains_no_infer_vars st x = Some True"
proof (induction n arbitrary: x rule: less_induct)
  case (less n)
  note wide = scope_ext [OF take_ext [of n st]]
  note checks = ty_no_infer [OF assms] args_no_infer [OF assms] alias_no_infer [OF assms]
  have before: "formula_contains_no_infer_vars st x = Some True"
    if "arena_get (take n st) p = Some e" "entry_ok (take p st) e \<Longrightarrow> formula_ok (take p st) x" for p e x
    using that less.IH [of p x] scoped_before [OF assms, of p e] get_take by metis
  have stored: "formula_contains_no_infer_vars st (FGoal g) = Some True" if "get_goal (take n st) p = Some g" for p g
    using that by (intro before [of p "EGoal g"]) (simp_all add: formula_ok_def ir_access)
  have goals: "all_opt (\<lambda>g. formula_contains_no_infer_vars st (FGoal g)) gs = Some True" if "get_goals (take n st) p = Some gs" for p gs
    by (intro all_opt_True before [of p "EGoals gs"]) (use that in \<open>simp_all add: formula_ok_def ir_access\<close>)
  have assumptions: "all_opt (\<lambda>a. formula_contains_no_infer_vars st (FAssumption a)) xs = Some True"
    if "get_assumptions (take n st) p = Some xs" for p xs
    by (intro all_opt_True before [of p "EAssumptions xs"]) (use that in \<open>simp_all add: formula_ok_def ir_access\<close>)
  have up: "get_goal (take n st) p = Some g \<Longrightarrow> get_goal st p = Some g"
    "get_goals (take n st) p = Some gs \<Longrightarrow> get_goals st p = Some gs"
    "get_assumptions (take n st) p = Some xs \<Longrightarrow> get_assumptions st p = Some xs"
    "get_predicate (take n st) p = Some w \<Longrightarrow> get_predicate st p = Some w" for p g gs xs w
    by (auto simp: ir_access dest: get_take)
  show ?case
  proof (cases x)
    case (FGoal g)
    have ok: "goal_ok (take n st) g" using less.prems FGoal by (simp add: formula_ok_def)
    show ?thesis
    proof (cases g)
      case (GoalAtom a)
      then show ?thesis using ok FGoal by (cases a) (auto simp: trait_ok_def checks wide)
    qed (use ok FGoal in \<open>auto simp: up stored goals assumptions\<close>)
  next
    case (FAssumption a)
    have ok: "assumption_ok (take n st) a" using less.prems FAssumption by (simp add: formula_ok_def)
    show ?thesis
    proof (cases a)
      case (AsmTraitImpl self_ty tr)
      then show ?thesis using ok FAssumption by (auto simp: trait_ok_def checks wide)
    next
      case (AsmNormalizesTo al t)
      then show ?thesis using ok FAssumption by (auto simp: checks wide)
    next
      case (AsmImplies conditions consequence)
      then obtain gs w where gs: "get_goals (take n st) conditions = Some gs" and w: "get_predicate (take n st) consequence = Some w"
        using ok by auto
      have "predicate_ok st w" using scoped_entry [OF assms, of consequence "EPredicate w"] up(4) [OF w] by (simp add: ir_access)
      then show ?thesis using FAssumption AsmImplies gs w up goals [OF gs] by (simp add: predicate_ok_def trait_ok_def checks)
    qed (use ok FAssumption in \<open>auto simp: up assumptions\<close>)
  qed
qed

section \<open>The extractor\<close>

abbreviation extracting :: "extractor \<Rightarrow> extractor \<Rightarrow> bool" where
  "extracting \<equiv> grown (\<lambda>_. True) no_infer"

abbreviation extractor_ok :: "extractor \<Rightarrow> bool" where
  "extractor_ok \<equiv> client (\<lambda>_. True) no_infer"

lemma same_extracted: "extractor_ok x \<Longrightarrow> th_target x' = th_target x \<Longrightarrow> extracting x x'"
  by (simp add: grown_def client_def)

lemma copier_const_same: "copier_const c s = Some (c', s') \<Longrightarrow> s' = s"
  by (auto simp: copier_const_def)

lemma extractor_copying:
  assumes "\<And>p x q x'. extractor_ok x \<Longrightarrow> cp p x = Some (q, x') \<Longrightarrow> extracting x x' \<and> ty_ptr (th_target x') q"
  shows "copying no_infer (\<lambda>_. True) cp copier_const"
  by unfold_locales (use assms in \<open>auto dest: copier_const_same intro: grown_refl\<close>)

lemma response_param_target: "response_param state v root index x = Some (q, x') \<Longrightarrow> th_target x' = th_target x"
  by (auto simp: response_param_def opt_simps Let_def split: option.splits)

lemma extractor_copy_root_ok:
  assumes "copying no_infer (\<lambda>_. True) cp copier_const" and "extractor_ok x"
    and "extractor_copy_root state v cp root t x = Some (t', x')"
  shows "extracting x x' \<and> ty_scoped (th_target x') t' \<and> no_infer t'"
proof (cases t)
  case (TyParam q)
  then show ?thesis using assms(2,3) by (auto simp: extractor_copy_root_def intro: grown_refl)
next
  case (TyInferVar index)
  then show ?thesis using assms(2,3)
    by (auto simp: extractor_copy_root_def opt_simps intro: same_extracted dest: response_param_target)
qed (use assms copying.compound_ok [OF assms(1,2)] in \<open>auto simp: extractor_copy_root_def\<close>)

lemma extractor_copy_ty_step:
  assumes IH: "\<And>p x q x'. extractor_ok x \<Longrightarrow> copy p x = Some (q, x') \<Longrightarrow> extracting x x' \<and> ty_ptr (th_target x') q"
    and x: "extractor_ok x"
    and step: "Option.bind (class_param (fst sv) (snd sv) p x) (\<lambda>c. case c of
       Some param \<Rightarrow> Some (put (ETy (TyParam (AlphaEquiv param))) x)
     | None \<Rightarrow> Option.bind (find (ps_egraph (fst sv)) (snd sv) p) (\<lambda>root.
         Option.bind (get_ty (ps_stash (fst sv)) root) (\<lambda>t.
         Option.bind (extractor_copy_root (fst sv) (snd sv) copy root t x) (\<lambda>(copied, x). Some (put (ETy copied) x))))) = Some r"
  shows "extracting x (snd r) \<and> ty_ptr (th_target (snd r)) (fst r)"
proof -
  have cp: "copying no_infer (\<lambda>_. True) copy copier_const" by (rule extractor_copying) (rule IH)
  have stored: "extracting y (snd r) \<and> ty_ptr (th_target (snd r)) (fst r)"
    if "extractor_ok y" "ty_scoped (th_target y) t" "no_infer t" "put (ETy t) y = r" for y t
    using copying.put_grown [OF cp that(1), of "ETy t" "fst r" "snd r"] that by (simp add: ty_ptr_def ir_access)
  obtain c where c: "class_param (fst sv) (snd sv) p x = Some c" using step by (auto simp: opt_simps)
  show ?thesis
  proof (cases c)
    case (Some param)
    show ?thesis by (rule stored [OF x, of "TyParam (AlphaEquiv param)"]) (use step c Some in simp_all)
  next
    case None
    then obtain root t copied x1 where e: "extractor_copy_root (fst sv) (snd sv) copy root t x = Some (copied, x1)"
      and r: "put (ETy copied) x1 = r" using step c by (auto simp: opt_simps)
    have g: "extracting x x1 \<and> ty_scoped (th_target x1) copied \<and> no_infer copied"
      by (rule extractor_copy_root_ok [OF cp x e])
    have "extracting x1 (snd r) \<and> ty_ptr (th_target (snd r)) (fst r)"
      by (rule stored [OF grown_client [OF conjunct1 [OF g]] _ _ r]) (use g in simp_all)
    then show ?thesis using g grown_trans by blast
  qed
qed

lemma extractor_copy_ty_ok:
  assumes "extractor_copy_ty sv p x = Some r" and "extractor_ok x"
  shows "extracting x (snd r) \<and> ty_ptr (th_target (snd r)) (fst r)"
proof -
  let ?P = "\<lambda>sv p x r. extractor_ok x \<longrightarrow> extracting x (snd r) \<and> ty_ptr (th_target (snd r)) (fst r)"
  have "(case ((sv, p), x) of (x, xa) \<Rightarrow> (case x of (x, xa) \<Rightarrow> ?P x xa) xa) r"
  proof (rule extractor_copy_ty.raw_induct [where P = ?P])
    show "(case ((sv, p), x) of (x, xa) \<Rightarrow> (case x of (x, xa) \<Rightarrow> extractor_copy_ty x xa) xa) = Some r" using assms(1) by simp
  next
    fix copy and sv :: "query_proof_state \<times> version" and p x r
    assume IH: "\<And>sv p x r. copy sv p x = Some r \<Longrightarrow> ?P sv p x r"
      and step: "Option.bind (class_param (fst sv) (snd sv) p x) (\<lambda>c. case c of
       None \<Rightarrow> Option.bind (find (ps_egraph (fst sv)) (snd sv) p) (\<lambda>root.
         Option.bind (get_ty (ps_stash (fst sv)) root) (\<lambda>t.
         Option.bind (extractor_copy_root (fst sv) (snd sv) (copy sv) root t x) (\<lambda>(copied, x). Some (put (ETy copied) x))))
       | Some param \<Rightarrow> Some (put (ETy (TyParam (AlphaEquiv param))) x)) = Some r"
    show "?P sv p x r" using extractor_copy_ty_step [OF _ _ step] IH by fastforce
  qed
  then show ?thesis using assms(2) by simp
qed

interpretation extractor: traversal no_infer "\<lambda>_ :: extractor. True" "extractor_copy_ty sv" copier_const extractor_fresh for sv
proof unfold_locales
  fix x x' :: extractor and p q
  assume "extractor_ok x" and "extractor_copy_ty sv p x = Some (q, x')"
  then show "extracting x x' \<and> ty_ptr (th_target x') q" using extractor_copy_ty_ok by fastforce
next
  fix x x' :: extractor and q q'
  assume "extractor_ok x" and "extractor_fresh q x = Some (q', x')"
  then show "extracting x x'" by (auto simp: extractor_fresh_def opt_simps Let_def intro: same_extracted)
qed (auto dest: copier_const_same intro: grown_refl)

section \<open>The response\<close>

lemma register_input_target: "register_input state v input x = Some x' \<Longrightarrow> th_target x' = th_target x"
  by (auto simp: register_input_def opt_simps Let_def split: if_splits option.splits)

lemma extractor_new_ok: "extractor_new state v = Some x \<Longrightarrow> extractor_ok x"
  unfolding extractor_new_def client_def
  by (rule fold_state_inv [where P = "\<lambda>x. True \<and> scoped no_infer (th_target x)"]) (auto dest: register_input_target)

lemma extract_entry_ok:
  assumes "extract_entry state v input (es, x) = Some (es', x')" and "extractor_ok x" and "\<forall>e \<in> set es. ty_ptr (th_target x) (se_value e)"
  shows "extracting x x' \<and> (\<forall>e \<in> set es'. ty_ptr (th_target x') (se_value e))"
proof (cases "ii_role input = ExistentialInput")
  case True
  then obtain q t where c: "extractor_copy_ty (state, v) (ii_ty input) x = Some (q, x')"
    and es': "es' = (if t \<noteq> TyParam (AlphaEquiv (ii_param input)) then es @ [\<lparr>se_key = ii_param input, se_value = q\<rparr>] else es)"
    using assms(1) by (auto simp: extract_entry_def opt_simps)
  from extractor_copy_ty_ok [OF c assms(2)] have "extracting x x' \<and> ty_ptr (th_target x') q" by simp
  then show ?thesis using assms(3) es' by (auto intro: ty_ptr_ext grown_ext)
qed (use assms in \<open>auto simp: extract_entry_def grown_refl\<close>)

lemma extract_entries_ok:
  "fold_state (extract_entry state v) inputs (es, x) = Some (es', x') \<Longrightarrow> extractor_ok x \<Longrightarrow> \<forall>e \<in> set es. ty_ptr (th_target x) (se_value e) \<Longrightarrow>
    extracting x x' \<and> (\<forall>e \<in> set es'. ty_ptr (th_target x') (se_value e))"
proof (induction inputs arbitrary: es x)
  case (Cons input inputs)
  then obtain es1 x1 where e: "extract_entry state v input (es, x) = Some (es1, x1)"
    and f: "fold_state (extract_entry state v) inputs (es1, x1) = Some (es', x')" by (auto simp: opt_simps)
  have 1: "extracting x x1 \<and> (\<forall>e \<in> set es1. ty_ptr (th_target x1) (se_value e))" by (rule extract_entry_ok [OF e Cons.prems(2,3)])
  from Cons.IH [OF f grown_client [OF conjunct1 [OF 1]]] 1 show ?case using grown_trans by blast
qed (simp add: grown_refl)

lemma extract_substitution_ok:
  assumes "extract_substitution state v x = Some (p, x')" and "extractor_ok x"
  shows "extracting x x' \<and> entries_contain_no_infer_vars (th_target x') p = Some True
    \<and> (\<forall>st. arena_ext (th_target x') st \<longrightarrow> scoped no_infer st \<longrightarrow> entries_contain_no_infer_vars st p = Some True)"
proof -
  obtain es x1 where f: "fold_state (extract_entry state v) (ps_inputs state) ([], x) = Some (es, x1)"
    and p: "put (ESubst es) x1 = (p, x')" using assms(1) by (auto simp: extract_substitution_def opt_simps)
  have 1: "extracting x x1 \<and> (\<forall>e \<in> set es. ty_ptr (th_target x1) (se_value e))"
    by (rule extract_entries_ok [OF f assms(2)]) simp
  then have 2: "extracting x1 x' \<and> arena_get (th_target x') p = Some (ESubst es)"
    by (intro extractor.put_grown [OF _ _ _ p]) (auto intro: grown_client)
  have "entries_contain_no_infer_vars st p = Some True" if "arena_ext (th_target x') st" "scoped no_infer st" for st
  proof -
    have "get_subst st p = Some es" using 2 arena_ext_get [OF that(1)] by (simp add: ir_access)
    moreover have "\<forall>e \<in> set es. ty_ptr st (se_value e)"
      using 1 2 that(1) ty_ptr_ext grown_ext arena_ext_trans by meson
    ultimately show ?thesis using that(2) by (auto simp: entries_contain_no_infer_vars_def intro!: all_opt_True ty_no_infer)
  qed
  moreover have "scoped no_infer (th_target x')" using 2 grown_client client_scoped by blast
  ultimately show ?thesis using 1 2 grown_trans by auto
qed

lemma extract_value_ok:
  assumes "extract_value state v out result x = Some (val, x')" and "extractor_ok x" and "arena_ext (th_target x') st" and "scoped no_infer st"
  shows "response_contains_no_infer_vars st \<lparr>qr_bound_vars = b, qr_value = val\<rparr> = Some True"
proof (cases result)
  case GoalNo
  then show ?thesis using assms(1) by (auto simp: extract_value_def response_contains_no_infer_vars_def)
next
  case GoalUndecided
  then obtain hints where "extract_substitution state v x = Some (hints, x')" and "val = ResultMaybe hints"
    using assms(1) by (auto simp: extract_value_def opt_simps)
  then show ?thesis using extract_substitution_ok [OF _ assms(2)] assms(3,4) by (auto simp: response_contains_no_infer_vars_def)
next
  case (GoalYes residual)
  then obtain subst x1 out' x2 residual' where 1: "extract_substitution state v x = Some (subst, x1)"
    and 2: "extractor_copy_output state v out x1 = Some (out', x2)"
    and 3: "extractor_copy_goal state v residual x2 = Some (residual', x')" and val: "val = ResultYes out' subst residual'"
    using assms(1) by (auto simp: extract_value_def opt_simps)
  have a: "extracting x x1" and a': "\<And>st. arena_ext (th_target x1) st \<Longrightarrow> scoped no_infer st \<Longrightarrow> entries_contain_no_infer_vars st subst = Some True"
    using extract_substitution_ok [OF 1 assms(2)] by auto
  have b: "extracting x1 x2 \<and> (\<forall>t. out' = OutputType t \<longrightarrow> ty_ptr (th_target x2) t)"
    using 2 extractor_copy_ty_ok grown_client [OF a]
    by (cases out) (fastforce simp: extractor_copy_output_def copy_output_with_def opt_simps intro: grown_refl)+
  have c: "extracting x2 x' \<and> goal_ok (th_target x') residual'"
    by (rule extractor.goal_copied_ok [OF grown_client [OF conjunct1 [OF b]] 3 [unfolded extractor_copy_goal_def]])
  have e2: "arena_ext (th_target x2) st" by (rule arena_ext_trans [OF grown_ext [OF conjunct1 [OF c]] assms(3)])
  have "entries_contain_no_infer_vars st subst = Some True"
    by (rule a' [OF arena_ext_trans [OF grown_ext [OF conjunct1 [OF b]] e2] assms(4)])
  moreover have "ty_contains_no_infer_vars st t = Some True" if "out' = OutputType t" for t
    using that b ty_no_infer [OF assms(4) ty_ptr_ext [OF e2]] by blast
  moreover have "formula_contains_no_infer_vars st (FGoal residual') = Some True"
    by (rule formula_no_infer [OF assms(4), of "length st"]) (use c goal_ok_ext [OF assms(3)] in \<open>simp add: formula_ok_def\<close>)
  ultimately show ?thesis by (cases out') (simp_all add: val response_contains_no_infer_vars_def)
qed

lemma extract_value_grown:
  assumes "extract_value state v out result x = Some (val, x')" and "extractor_ok x"
  shows "extracting x x'"
proof (cases result)
  case (GoalYes residual)
  then obtain subst x1 out' x2 residual' where 1: "extract_substitution state v x = Some (subst, x1)"
    and 2: "extractor_copy_output state v out x1 = Some (out', x2)"
    and 3: "extractor_copy_goal state v residual x2 = Some (residual', x')"
    using assms(1) by (auto simp: extract_value_def opt_simps)
  have a: "extracting x x1" using extract_substitution_ok [OF 1 assms(2)] by simp
  have b: "extracting x1 x2"
    using 2 extractor_copy_ty_ok grown_client [OF a]
    by (cases out) (fastforce simp: extractor_copy_output_def copy_output_with_def opt_simps intro: grown_refl)+
  have c: "extracting x2 x'"
    using extractor.goal_copied_ok [OF grown_client [OF b] 3 [unfolded extractor_copy_goal_def]] by simp
  show ?thesis by (rule grown_trans [OF a grown_trans [OF b c]])
next
  case GoalUndecided
  then show ?thesis using assms extract_substitution_ok by (fastforce simp: extract_value_def opt_simps)
qed (use assms in \<open>auto simp: extract_value_def grown_refl\<close>)

text \<open>A proof state with two inputs; the first is bound to a slice of a variable of the proof.\<close>

definition sample_query :: "ir \<times> goal_query_data" where
  "sample_query = (
     [ECanonicalVars [
        \<lparr>cv_param = \<lparr>alpha_kind = KindType, alpha_index = 0\<rparr>, cv_kind = KindType, cv_role = ExistentialInput,
         cv_relative_universe = 1, cv_domain = DomAny\<rparr>,
        \<lparr>cv_param = \<lparr>alpha_kind = KindType, alpha_index = 1\<rparr>, cv_kind = KindType, cv_role = ExistentialInput,
         cv_relative_universe = 1, cv_domain = DomAny\<rparr>],
      EAssumptions []],
     \<lparr>gq_local_crate = 0, gq_canonical_universe = 1, gq_canonical_vars = 0, gq_next_response_param = 2,
      gq_assumptions_complete = True, gq_assumptions = 1, gq_goal = Prove GoalMaybe\<rparr>)"

definition sample_proof :: "query_proof_state option" where
  "sample_proof = do {
     state \<leftarrow> instantiate_query sample_query;
     (g, i) \<leftarrow> alloc_var (ps_egraph state) ROOT 1;
     let (stash, x) = alloc_ty (ps_stash state) (TyInferVar i);
     let (stash, t) = alloc_ty stash (TySlice x);
     (_, g, stash) \<leftarrow> try_unify (\<lambda>_. []) g stash ROOT 0 t;
     Some (state\<lparr>ps_stash := stash, ps_egraph := g\<rparr>) }"

text \<open>C11: The response that is built from a finished proof mentions no inference variable of that proof,
  in its substitution, its output or its residual goal, so the assertion of
  \<open>extract_query_result_with_output_at\<close> cannot fail: extraction returns what it built.\<close>

theorem response_closed:
  assumes "build_response state v out result = Some (target, r)"
  shows "response_contains_no_infer_vars target r = Some True \<and>
    extract_query_result_with_output_at state v out result = Some (target, r)"
proof -
  obtain x val x' where 1: "extractor_new state v = Some x" and 2: "extract_value state v out result x = Some (val, x')"
    and t: "target = fst (alloc_response_vars (th_target x') (ex_response_vars x'))"
    and r: "r = \<lparr>qr_bound_vars = snd (alloc_response_vars (th_target x') (ex_response_vars x')), qr_value = val\<rparr>"
    using assms unfolding build_response_def by (elim bind2E bindE) (rule that, assumption+, auto split: prod.splits)
  have x: "extractor_ok x" by (rule extractor_new_ok [OF 1])
  have g: "extracting x x'" by (rule extract_value_grown [OF 2 x])
  obtain b where i: "arena_intern (th_target x') (EResponseVars (ex_response_vars x')) = (target, b)"
    using t by (cases "arena_intern (th_target x') (EResponseVars (ex_response_vars x'))") (simp add: alloc_response_vars_def)
  have e: "scoped no_infer target \<and> arena_ext (th_target x') target"
    using scoped_intern [OF client_scoped [OF grown_client [OF g]] _ _ i] by simp
  have "response_contains_no_infer_vars target r = Some True"
    unfolding r by (rule extract_value_ok [OF 2 x]) (use e in simp_all)
  then show ?thesis using assms by (simp add: extract_query_result_with_output_at_def)
qed

theorem response_closed_witness:
  "\<exists>state target r. sample_proof = Some state \<and>
     build_response state ROOT Proven (GoalYes (GoalAtom (AtomEquals 0 1))) = Some (target, r) \<and>
     response_contains_no_infer_vars target r = Some True"
proof -
  have "\<not> Option.is_none (Option.bind sample_proof (\<lambda>s. build_response s ROOT Proven (GoalYes (GoalAtom (AtomEquals 0 1)))))"
    by code_simp
  then obtain state r where 1: "sample_proof = Some state"
    and 2: "build_response state ROOT Proven (GoalYes (GoalAtom (AtomEquals 0 1))) = Some r" by (rule bind_runs)
  from 2 response_closed [of state ROOT Proven _ "fst r" "snd r"] have "response_contains_no_infer_vars (fst r) (snd r) = Some True"
    by simp
  with 1 2 show ?thesis by (metis prod.collapse)
qed

end
