(* ===== verification/ImportCorrect.thy ===== *)
theory ImportCorrect
  imports Boundary TraverseCorrect "HOL-Library.Code_Target_Nat"
begin

text \<open>
  Importing a canonical query: the proof state is well scoped, and the only inference variables in it
  are those that were allocated for its existential inputs.
\<close>

section \<open>The variables of the inputs\<close>

definition input_vars :: "ir \<Rightarrow> input_instance list \<Rightarrow> infer_var_index set" where
  "input_vars st inputs = {i. \<exists>inp \<in> set inputs. ii_role inp = ExistentialInput \<and> get_ty st (ii_ty inp) = Some (TyInferVar i)}"

definition only_vars :: "infer_var_index set \<Rightarrow> ty \<Rightarrow> bool" where
  "only_vars vs t \<longleftrightarrow> (\<forall>i. t = TyInferVar i \<longrightarrow> i \<in> vs)"

lemma only_vars_no_infer [simp]: "no_infer t \<Longrightarrow> only_vars vs t"
  by (auto simp: only_vars_def)

lemma scoped_mono: "scoped N st \<Longrightarrow> (\<And>t. N t \<Longrightarrow> N' t) \<Longrightarrow> scoped N' st"
  by (simp add: scoped_def)

lemma input_vars_ext: "arena_ext st st' \<Longrightarrow> input_vars st inputs \<subseteq> input_vars st' (inputs @ later)"
  by (auto simp: input_vars_def dest: get_ty_ext)

section \<open>Inputs\<close>

definition mapping_ok :: "(generic_param \<Rightarrow> ptr option) \<Rightarrow> ir \<Rightarrow> bool" where
  "mapping_ok m st \<longleftrightarrow> (\<forall>q p. m q = Some p \<longrightarrow> ty_ptr st p)"

definition instance_of :: "ir \<Rightarrow> canonical_var_info \<Rightarrow> input_instance \<Rightarrow> bool" where
  "instance_of st info inp \<longleftrightarrow> ii_param inp = cv_param info \<and> ii_role inp = cv_role info \<and> ii_domain inp = cv_domain info \<and>
     ii_universe inp = cv_relative_universe info \<and>
     (case cv_role info of
        RigidPlaceholder \<Rightarrow> get_ty st (ii_ty inp) = Some (TyParam (AlphaEquiv (cv_param info)))
      | ExistentialInput \<Rightarrow> (\<exists>i. get_ty st (ii_ty inp) = Some (TyInferVar i)))"

lemma instance_ext: "instance_of st info inp \<Longrightarrow> arena_ext st st' \<Longrightarrow> instance_of st' info inp"
  by (cases "cv_role info") (auto simp: instance_of_def dest: get_ty_ext)

definition import_ok :: "canonical_var_info list \<Rightarrow> import_state \<Rightarrow> bool" where
  "import_ok infos s = (case s of (st, g, m, inputs) \<Rightarrow>
     scoped (only_vars (input_vars st inputs)) st \<and> mapping_ok m st \<and> list_all2 (instance_of st) infos inputs)"

lemma import_input_ok:
  assumes "import_input info s = Some s'" and "import_ok infos s"
  shows "import_ok (infos @ [info]) s'"
proof -
  obtain st g m inputs where s: "s = (st, g, m, inputs)" by (cases s)
  obtain t g' st' p where i: "alloc_ty st t = (st', p)"
    and t: "case cv_role info of RigidPlaceholder \<Rightarrow> t = TyParam (AlphaEquiv (cv_param info)) | ExistentialInput \<Rightarrow> (\<exists>i. t = TyInferVar i)"
    and s': "s' = (st', g', m(AlphaEquiv (cv_param info) \<mapsto> p),
       inputs @ [\<lparr>ii_param = cv_param info, ii_role = cv_role info, ii_domain = cv_domain info,
         ii_universe = cv_relative_universe info, ii_ty = p\<rparr>])"
  proof (cases "cv_role info")
    case RigidPlaceholder
    obtain st' p where "alloc_ty st (TyParam (AlphaEquiv (cv_param info))) = (st', p)" by fastforce
    then show thesis using assms(1) RigidPlaceholder by (auto simp: import_input_def s Let_def opt_simps intro: that)
  next
    case ExistentialInput
    then obtain g1 i where a: "alloc_var_in_domain g ROOT (cv_relative_universe info) (cv_domain info) = Some (g1, i)"
      using assms(1) by (auto simp: import_input_def s Let_def opt_simps)
    obtain st' p where "alloc_ty st (TyInferVar i) = (st', p)" by fastforce
    then show thesis using assms(1) ExistentialInput a by (auto simp: import_input_def s Let_def opt_simps intro: that)
  qed
  let ?inputs = "inputs @ [\<lparr>ii_param = cv_param info, ii_role = cv_role info, ii_domain = cv_domain info,
         ii_universe = cv_relative_universe info, ii_ty = p\<rparr>]"
  have old: "scoped (only_vars (input_vars st inputs)) st" "mapping_ok m st" "list_all2 (instance_of st) infos inputs"
    using assms(2) by (simp_all add: import_ok_def s)
  have ext: "arena_ext st st'" and got: "get_ty st' p = Some t"
    using i by (auto simp: alloc_ty_def ir_access dest: arena_intern_ext arena_intern_get)
  have sub: "input_vars st inputs \<subseteq> input_vars st' ?inputs" by (rule input_vars_ext [OF ext])
  have "scoped (only_vars (input_vars st' ?inputs)) st"
    by (rule scoped_mono [OF old(1)]) (use sub in \<open>auto simp: only_vars_def\<close>)
  then have "scoped (only_vars (input_vars st' ?inputs)) st'"
    by (rule conjunct1 [OF scoped_intern [OF _ _ _ i [unfolded alloc_ty_def]]])
      (use t got in \<open>auto simp: only_vars_def input_vars_def split: canonical_var_role.splits\<close>)
  moreover have "mapping_ok (m(AlphaEquiv (cv_param info) \<mapsto> p)) st'"
    using old(2) got ty_ptr_ext [OF ext] by (auto simp: mapping_ok_def ty_ptr_def)
  moreover have "list_all2 (instance_of st') (infos @ [info]) ?inputs"
    using list_all2_mono [OF old(3)] instance_ext [OF _ ext] t got
    by (intro list_all2_appendI) (auto simp: instance_of_def split: canonical_var_role.splits)
  ultimately show ?thesis by (simp add: import_ok_def s')
qed

lemma import_inputs_ok:
  "fold_state import_input later s = Some s' \<Longrightarrow> import_ok infos s \<Longrightarrow> import_ok (infos @ later) s'"
proof (induction later arbitrary: infos s)
  case (Cons info later)
  then obtain s1 where "import_input info s = Some s1" and "fold_state import_input later s1 = Some s'" by (auto simp: opt_simps)
  then show ?case using Cons.IH [of s1 "infos @ [info]"] import_input_ok Cons.prems(2) by simp
qed simp

section \<open>The copier\<close>

definition copier_inv :: "copier \<Rightarrow> bool" where
  "copier_inv s \<longleftrightarrow> mapping_ok (co_type_mapping s) (th_target s)"

lemma copier_inv_thread:
  "copier_inv s \<Longrightarrow> arena_ext (th_target s) st \<Longrightarrow> copier_inv (s\<lparr>th_target := st\<rparr>)" "copier_inv (s\<lparr>th_binders := b\<rparr>) = copier_inv s"
  "copier_inv (s\<lparr>co_fresh_binders := n\<rparr>) = copier_inv s"
  by (cases s; auto simp: copier_inv_def mapping_ok_def intro: ty_ptr_ext)+

lemma copier_const_keeps: "copier_const c s = Some (c', s') \<Longrightarrow> s' = s"
  by (auto simp: copier_const_def)

lemma copier_copying:
  assumes "\<And>p s q s'. client copier_inv (only_vars vs) s \<Longrightarrow> cp p s = Some (q, s') \<Longrightarrow>
      grown copier_inv (only_vars vs) s s' \<and> ty_ptr (th_target s') q"
  shows "copying (only_vars vs) copier_inv cp copier_const"
  by unfold_locales (use assms copier_inv_thread in \<open>auto dest: copier_const_keeps intro: grown_refl\<close>)

lemma copier_copy_ty_ok:
  "copier_copy_ty src p s = Some r \<Longrightarrow> scoped no_infer src \<Longrightarrow> client copier_inv (only_vars vs) s \<Longrightarrow>
    grown copier_inv (only_vars vs) s (snd r) \<and> ty_ptr (th_target (snd r)) (fst r)"
proof (induction rule: copier_copy_ty.raw_induct [rotated 1, consumes 1, case_names step])
  case (step copy src p s r)
  have cp: "copying (only_vars vs) copier_inv (copy src) copier_const"
    by (rule copier_copying) (use step.IH step.prems(1) in fastforce)
  obtain t where t: "get_ty src p = Some t" using step.hyps by (auto simp: opt_simps)
  have n: "no_infer t" by (rule scoped_N [OF step.prems(1) t])
  let ?m = "case t of TyParam q \<Rightarrow> co_type_mapping s q | _ \<Rightarrow> None"
  show ?case
  proof (cases ?m)
    case (Some mapped)
    then have "r = (mapped, s)" using step.hyps t by simp
    moreover have "ty_ptr (th_target s) mapped"
      using Some step.prems(2) by (auto simp: client_def copier_inv_def mapping_ok_def split: ty.splits)
    ultimately show ?thesis using step.prems(2) by (simp add: grown_refl)
  next
    case None
    then obtain copied s1 where c: "(case t of TyParam q \<Rightarrow> Some (TyParam (renamed_param s q), s)
           | _ \<Rightarrow> copy_compound_with (copy src) copier_const src t s) = Some (copied, s1)"
      and r: "r = put (ETy copied) s1" using step.hyps t by (auto simp: opt_simps)
    have g: "grown copier_inv (only_vars vs) s s1 \<and> ty_scoped (th_target s1) copied \<and> only_vars vs copied"
    proof (cases t)
      case (TyParam q)
      then show ?thesis using c step.prems(2) by (auto simp: grown_refl)
    qed (use c copying.compound_ok [OF cp step.prems(2)] n in auto)
    have "grown copier_inv (only_vars vs) s1 (snd r) \<and> arena_get (th_target (snd r)) (fst r) = Some (ETy copied)"
      by (rule copying.put_grown [OF cp grown_client [OF conjunct1 [OF g]]]) (use g r in simp_all)
    then show ?thesis using g grown_trans by (auto simp: ty_ptr_def ir_access)
  qed
qed

lemma copier_traversal:
  assumes "scoped no_infer src"
  shows "traversal (only_vars vs) copier_inv (copier_copy_ty src) copier_const copier_fresh"
proof (unfold_locales, goal_cases)
  case (1 s p q s')
  then show ?case using copier_copy_ty_ok [OF 1(2) assms 1(1)] by simp
next
  case (2 s c c' s')
  then show ?case by (auto dest: copier_const_keeps intro: grown_refl)
qed (use copier_inv_thread in \<open>auto simp: grown_def client_def copier_fresh_def opt_simps split: option.splits\<close>)

section \<open>The proof state\<close>

text \<open>A query with one existential and one rigid input, whose goal equates them.\<close>

definition sample_query_source :: ir where
  "sample_query_source = [ETy (TyParam (AlphaEquiv \<lparr>alpha_kind = KindType, alpha_index = 0\<rparr>)),
     ETy (TyParam (AlphaEquiv \<lparr>alpha_kind = KindType, alpha_index = 1\<rparr>)), EAssumptions [],
     ECanonicalVars [
        \<lparr>cv_param = \<lparr>alpha_kind = KindType, alpha_index = 0\<rparr>, cv_kind = KindType, cv_role = ExistentialInput,
         cv_relative_universe = 1, cv_domain = DomInteger\<rparr>,
        \<lparr>cv_param = \<lparr>alpha_kind = KindType, alpha_index = 1\<rparr>, cv_kind = KindType, cv_role = RigidPlaceholder,
         cv_relative_universe = 0, cv_domain = DomAny\<rparr>]]"

definition sample_query_data :: goal_query_data where
  "sample_query_data = \<lparr>gq_local_crate = 0, gq_canonical_universe = 1, gq_canonical_vars = 3, gq_next_response_param = 2,
     gq_assumptions_complete = True, gq_assumptions = 2, gq_goal = Prove (GoalAtom (AtomEquals 0 1))\<rparr>"

text \<open>C12: A query without inference variables is imported into a well-scoped proof state: there is one
  input for each canonical variable, with its role, domain and universe, an existential one being an
  inference variable and a rigid one its parameter; assumptions and goal are handles of the state; and
  every inference variable in its arena is that of an existential input.\<close>

theorem imported_state_scoped:
  assumes "instantiate_query (src, q) = Some state" and "scoped no_infer src"
  shows "\<exists>infos. get_canonical_vars src (gq_canonical_vars q) = Some infos \<and>
    list_all2 (instance_of (ps_stash state)) infos (ps_inputs state) \<and>
    scoped (only_vars (input_vars (ps_stash state) (ps_inputs state))) (ps_stash state) \<and>
    get_assumptions (ps_stash state) (ps_assumptions state) \<noteq> None \<and> solver_goal_ok (ps_stash state) (ps_goal state)"
proof -
  obtain infos st g m inputs as s1 goal s where v: "get_canonical_vars src (gq_canonical_vars q) = Some infos"
    and f: "fold_state import_input infos ([], egraph_new, Map.empty, []) = Some (st, g, m, inputs)"
    and 1: "copier_copy_assumption_slice src (gq_assumptions q) (copier_new st m None) = Some (as, s1)"
    and 2: "copier_copy_solver_goal src (gq_goal q) s1 = Some (goal, s)"
    and state: "ps_stash state = th_target s" "ps_inputs state = inputs" "ps_assumptions state = as" "ps_goal state = goal"
    using assms(1) by (auto simp: instantiate_query_def opt_simps)
  have "import_ok ([] @ infos) (st, g, m, inputs)"
    by (rule import_inputs_ok [OF f]) (simp add: import_ok_def mapping_ok_def)
  then have sc: "scoped (only_vars (input_vars st inputs)) st" and mp: "mapping_ok m st" and inst: "list_all2 (instance_of st) infos inputs"
    by (simp_all add: import_ok_def)
  note tr = copier_traversal [OF assms(2), of "input_vars st inputs"]
  have "client copier_inv (only_vars (input_vars st inputs)) (copier_new st m None)"
    using sc mp by (simp add: client_def copier_inv_def copier_new_def)
  from traversal.assumption_slice_ok [OF tr this 1 [unfolded copier_copy_assumption_slice_def]]
  have a: "grown copier_inv (only_vars (input_vars st inputs)) (copier_new st m None) s1" and as: "get_assumptions (th_target s1) as \<noteq> None"
    by simp_all
  from traversal.solver_goal_copied_ok [OF tr grown_client [OF a] 2 [unfolded copier_copy_solver_goal_def]]
  have b: "grown copier_inv (only_vars (input_vars st inputs)) s1 s" and g: "solver_goal_ok (th_target s) goal" by simp_all
  have ext: "arena_ext st (th_target s)" using grown_ext [OF grown_trans [OF a b]] by (simp add: copier_new_def)
  have "input_vars st inputs \<subseteq> input_vars (th_target s) inputs" using input_vars_ext [OF ext, of inputs "[]"] by simp
  then have "scoped (only_vars (input_vars (th_target s) inputs)) (th_target s)"
    by (intro scoped_mono [OF client_scoped [OF grown_client [OF b]]]) (auto simp: only_vars_def)
  moreover have "list_all2 (instance_of (th_target s)) infos inputs"
    using list_all2_mono [OF inst] instance_ext [OF _ ext] by blast
  ultimately show ?thesis using v g get_ext(3) [OF grown_ext [OF b] as] by (simp add: state)
qed

theorem imported_state_scoped_witness:
  "\<exists>state. instantiate_query (sample_query_source, sample_query_data) = Some state \<and>
     scoped (only_vars (input_vars (ps_stash state) (ps_inputs state))) (ps_stash state) \<and> solver_goal_ok (ps_stash state) (ps_goal state)"
proof -
  have "\<not> Option.is_none (instantiate_query (sample_query_source, sample_query_data))" by code_simp
  then obtain state where i: "instantiate_query (sample_query_source, sample_query_data) = Some state"
    by (auto simp: Option.is_none_def)
  have "scoped no_infer sample_query_source"
    by (auto simp: sample_query_source_def scoped_iff less_Suc_eq)
  from imported_state_scoped [OF i this] i show ?thesis by blast
qed

end
