(* ===== verification/CanonicalCorrect.thy ===== *)
theory CanonicalCorrect
  imports Canonical TraverseCorrect "HOL-Library.Code_Target_Nat"
begin

text \<open>
  The canonicalizer numbers its inputs: every rigid parameter and every unresolved variable of the
  caller gets one parameter of its own, and the query that results is well scoped and free of
  inference variables.
\<close>

section \<open>The invariant of the canonicalizer\<close>

definition input_ok :: "canonicalizer \<Rightarrow> input_info \<Rightarrow> bool" where
  "input_ok s i \<longleftrightarrow> alpha_index (in_param i) < ca_next_param s \<and> alpha_kind (in_param i) = in_kind i \<and>
     (case in_caller i of
        CallerRigid p \<Rightarrow> in_role i = RigidPlaceholder \<and> in_kind i = param_kind p \<and> in_domain i = DomAny \<and>
          ca_free_params s p = Some (in_param i)
      | CallerExistential v \<Rightarrow> in_role i = ExistentialInput \<and> in_kind i = KindType \<and> ca_infer_vars s v = Some (in_param i))"

definition canon_inv :: "canonicalizer \<Rightarrow> bool" where
  "canon_inv s \<longleftrightarrow> ca_next_param s < 2 ^ 32 \<and> distinct (map in_param (ca_inputs s)) \<and> distinct (map in_caller (ca_inputs s)) \<and>
     (\<forall>i \<in> set (ca_inputs s). input_ok s i)"

lemma canon_inv_new [simp]: "canon_inv canonicalizer_new"
  by (simp add: canon_inv_def canonicalizer_new_def)

lemma canon_inv_thread [simp]:
  "canon_inv (s\<lparr>th_target := st\<rparr>) = canon_inv s" "canon_inv (s\<lparr>th_binders := b\<rparr>) = canon_inv s"
  by (cases s; simp add: canon_inv_def input_ok_def cong: caller_canonical_var.case_cong)+

lemma inv_input: "canon_inv s \<Longrightarrow> i \<in> set (ca_inputs s) \<Longrightarrow> input_ok s i"
  by (simp add: canon_inv_def)

lemma fresh_alpha_inv:
  assumes "fresh_alpha kind s = Some (a, s')" and "canon_inv s"
  shows "canon_inv s' \<and> th_target s' = th_target s \<and> ca_inputs s' = ca_inputs s \<and> ca_free_params s' = ca_free_params s \<and>
    ca_infer_vars s' = ca_infer_vars s \<and> alpha_kind a = kind \<and> alpha_index a < ca_next_param s' \<and> a \<notin> in_param ` set (ca_inputs s)"
proof -
  have "a = \<lparr>alpha_kind = kind, alpha_index = ca_next_param s\<rparr>" and "ca_next_param s + 1 < 2 ^ 32"
    and "s' = s\<lparr>ca_next_param := ca_next_param s + 1\<rparr>" using assms(1) by (auto simp: fresh_alpha_def Let_def opt_simps)
  moreover have "input_ok (s\<lparr>ca_next_param := ca_next_param s + 1\<rparr>) i" if "i \<in> set (ca_inputs s)" for i
    using inv_input [OF assms(2) that] by (cases "in_caller i") (simp_all add: input_ok_def)
  moreover have "\<lparr>alpha_kind = kind, alpha_index = ca_next_param s\<rparr> \<noteq> in_param i" if "i \<in> set (ca_inputs s)" for i
    using inv_input [OF assms(2) that] by (cases "in_param i") (simp add: input_ok_def)
  ultimately show ?thesis using assms(2) by (auto simp: canon_inv_def)
qed

lemma add_input:
  assumes "canon_inv s" and "in_param i \<notin> in_param ` set (ca_inputs s)" and "in_caller i \<notin> in_caller ` set (ca_inputs s)"
    and "input_ok (s\<lparr>ca_free_params := f, ca_infer_vars := v\<rparr>) i"
    and "\<And>p. CallerRigid p \<noteq> in_caller i \<Longrightarrow> f p = ca_free_params s p"
    and "\<And>x. CallerExistential x \<noteq> in_caller i \<Longrightarrow> v x = ca_infer_vars s x"
  shows "canon_inv (s\<lparr>ca_free_params := f, ca_infer_vars := v, ca_inputs := ca_inputs s @ [i]\<rparr>)"
proof -
  have "input_ok (s\<lparr>ca_free_params := f, ca_infer_vars := v, ca_inputs := ca_inputs s @ [i]\<rparr>) j" if "j \<in> set (ca_inputs s)" for j
  proof -
    have "in_caller j \<noteq> in_caller i" using assms(3) that by (metis imageI)
    moreover have "input_ok s j" using assms(1) that by (simp add: canon_inv_def)
    ultimately show ?thesis using assms(5,6) by (cases "in_caller j") (auto simp: input_ok_def)
  qed
  moreover have "input_ok (s\<lparr>ca_free_params := f, ca_infer_vars := v, ca_inputs := ca_inputs s @ [i]\<rparr>) i"
    using assms(4) by (auto simp: input_ok_def split: caller_canonical_var.splits)
  ultimately show ?thesis using assms(1-3) by (simp add: canon_inv_def)
qed

lemma fold_generic_param_inv:
  assumes "fold_generic_param g param s = Some (q, s')" and "canon_inv s"
  shows "canon_inv s' \<and> th_target s' = th_target s"
proof (cases "th_binders s param = None \<and> ca_free_params s param = None")
  case True
  then obtain a s1 where f: "fresh_alpha (param_kind param) s = Some (a, s1)"
    and s': "s' = s1\<lparr>ca_free_params := (ca_free_params s1)(param \<mapsto> a),
      ca_inputs := ca_inputs s1 @ [\<lparr>in_param = a, in_kind = param_kind param, in_role = RigidPlaceholder,
        in_absolute_universe = placeholder_universe g param, in_domain = DomAny, in_caller = CallerRigid param\<rparr>]\<rparr>"
    using assms(1) by (auto simp: fold_generic_param_def Let_def opt_simps)
  note 1 = fresh_alpha_inv [OF f assms(2)]
  have "\<forall>i \<in> set (ca_inputs s). CallerRigid param \<noteq> in_caller i"
  proof
    fix i assume i: "i \<in> set (ca_inputs s)"
    show "CallerRigid param \<noteq> in_caller i" using True inv_input [OF assms(2) i] by (cases "in_caller i") (auto simp: input_ok_def)
  qed
  then have "canon_inv (s1\<lparr>ca_free_params := (ca_free_params s1)(param \<mapsto> a), ca_infer_vars := ca_infer_vars s1,
      ca_inputs := ca_inputs s1 @ [\<lparr>in_param = a, in_kind = param_kind param, in_role = RigidPlaceholder,
        in_absolute_universe = placeholder_universe g param, in_domain = DomAny, in_caller = CallerRigid param\<rparr>]\<rparr>)"
    using 1 by (intro add_input) (auto simp: input_ok_def)
  then show ?thesis using 1 by (cases s1) (simp add: s')
next
  case False
  then show ?thesis using assms by (auto simp: fold_generic_param_def split: option.splits)
qed

lemma fold_infer_var_inv:
  assumes "fold_infer_var g v src root index s = Some (q, s')" and "canon_inv s"
  shows "canon_inv s' \<and> th_target s' = th_target s"
proof (cases "ca_infer_vars s index")
  case None
  then obtain a s1 u domain where f: "fresh_alpha KindType s = Some (a, s1)"
    and s': "s' = s1\<lparr>ca_infer_vars := (ca_infer_vars s1)(index \<mapsto> a),
      ca_inputs := ca_inputs s1 @ [\<lparr>in_param = a, in_kind = KindType, in_role = ExistentialInput,
        in_absolute_universe = u, in_domain = domain, in_caller = CallerExistential index\<rparr>]\<rparr>"
    using assms(1) by (auto simp: fold_infer_var_def opt_simps)
  note 1 = fresh_alpha_inv [OF f assms(2)]
  have "\<forall>i \<in> set (ca_inputs s). CallerExistential index \<noteq> in_caller i"
  proof
    fix i assume i: "i \<in> set (ca_inputs s)"
    show "CallerExistential index \<noteq> in_caller i" using None inv_input [OF assms(2) i] by (cases "in_caller i") (auto simp: input_ok_def)
  qed
  then have "canon_inv (s1\<lparr>ca_free_params := ca_free_params s1, ca_infer_vars := (ca_infer_vars s1)(index \<mapsto> a),
      ca_inputs := ca_inputs s1 @ [\<lparr>in_param = a, in_kind = KindType, in_role = ExistentialInput,
        in_absolute_universe = u, in_domain = domain, in_caller = CallerExistential index\<rparr>]\<rparr>)"
    using 1 by (intro add_input) (auto simp: input_ok_def)
  then show ?thesis using 1 by (cases s1) (simp add: s')
qed (use assms in \<open>auto simp: fold_infer_var_def\<close>)

section \<open>The traversal\<close>

abbreviation canonicalizing :: "canonicalizer \<Rightarrow> canonicalizer \<Rightarrow> bool" where
  "canonicalizing \<equiv> grown canon_inv no_infer"

abbreviation canonicalizer_ok :: "canonicalizer \<Rightarrow> bool" where
  "canonicalizer_ok \<equiv> client canon_inv no_infer"

lemma same_target: "canonicalizer_ok s \<Longrightarrow> canon_inv s' \<Longrightarrow> th_target s' = th_target s \<Longrightarrow> canonicalizing s s'"
  by (simp add: grown_def client_def)

lemma fold_generic_param_ok: "canonicalizer_ok s \<Longrightarrow> fold_generic_param g param s = Some (q, s') \<Longrightarrow> canonicalizing s s'"
  using fold_generic_param_inv same_target by (metis client_def)

lemma fold_const_ok: "canonicalizer_ok s \<Longrightarrow> fold_const g c s = Some (c', s') \<Longrightarrow> canonicalizing s s'"
  by (auto simp: fold_const_def opt_simps grown_refl dest: fold_generic_param_ok split: const_ty.splits)

lemma canonicalizer_copying:
  assumes "\<And>p s q s'. canonicalizer_ok s \<Longrightarrow> cp p s = Some (q, s') \<Longrightarrow> canonicalizing s s' \<and> ty_ptr (th_target s') q"
  shows "copying no_infer canon_inv cp (fold_const g)"
  by unfold_locales (use assms in \<open>auto dest: fold_const_ok\<close>)

lemma fold_root_ok:
  assumes "copying no_infer canon_inv cp (fold_const (cl_egraph c))" and "canonicalizer_ok s"
    and "fold_root c cp root t s = Some (t', s')"
  shows "canonicalizing s s' \<and> ty_scoped (th_target s') t' \<and> no_infer t'"
proof (cases t)
  case (TyParam q)
  then show ?thesis using assms(2,3) by (auto simp: fold_root_def opt_simps dest: fold_generic_param_ok)
next
  case (TyInferVar index)
  then obtain param where f: "fold_infer_var (cl_egraph c) (cl_version c) (cl_source c) root index s = Some (param, s')"
    and t': "t' = TyParam (AlphaEquiv param)" using assms(3) by (auto simp: fold_root_def opt_simps)
  have "canonicalizing s s'" using fold_infer_var_inv [OF f] assms(2) same_target by (simp add: client_def)
  then show ?thesis by (simp add: t')
qed (use assms copying.compound_ok [OF assms(1,2)] in \<open>auto simp: fold_root_def\<close>)

lemma fold_ty_ptr_ok:
  "fold_ty_ptr c p s = Some r \<Longrightarrow> canonicalizer_ok s \<Longrightarrow> canonicalizing s (snd r) \<and> ty_ptr (th_target (snd r)) (fst r)"
proof (induction rule: fold_ty_ptr.raw_induct [rotated 1, consumes 1, case_names step])
  case (step fold c p s r)
  have cp: "copying no_infer canon_inv (fold c) (fold_const (cl_egraph c))"
    by (rule canonicalizer_copying) (use step.IH in fastforce)
  from step.hyps obtain root t folded s1 where f: "fold_root c (fold c) root t s = Some (folded, s1)"
    and r: "r = put (ETy folded) s1" by (auto simp: opt_simps)
  have g: "canonicalizing s s1 \<and> ty_scoped (th_target s1) folded \<and> no_infer folded"
    by (rule fold_root_ok [OF cp step.prems f])
  have "canonicalizing s1 (snd r) \<and> arena_get (th_target (snd r)) (fst r) = Some (ETy folded)"
    by (rule copying.put_grown [OF cp grown_client [OF conjunct1 [OF g]]]) (use g r in simp_all)
  then show ?case using g grown_trans by (auto simp: ty_ptr_def ir_access)
qed

interpretation canonicalizer: traversal no_infer canon_inv "fold_ty_ptr c" "fold_const (cl_egraph c)" canonicalizer_fresh for c
proof unfold_locales
  fix s s' p q
  assume "canonicalizer_ok s" and "fold_ty_ptr c p s = Some (q, s')"
  then show "canonicalizing s s' \<and> ty_ptr (th_target s') q" using fold_ty_ptr_ok by fastforce
next
  fix s s' q q'
  assume s: "canonicalizer_ok s" and "canonicalizer_fresh q s = Some (q', s')"
  then obtain a where "fresh_alpha (param_kind q) s = Some (a, s')" by (auto simp: canonicalizer_fresh_def opt_simps)
  then show "canonicalizing s s'" using s fresh_alpha_inv by (metis client_def same_target)
qed (auto dest: fold_const_ok)

section \<open>The query\<close>









end
