(* ===== verification/Merge.thy ===== *)
theory Merge
  imports AntiUnify
begin

text \<open>
  \<open>check/solve/merge.rs\<close>: the answers of the candidates of a goal are put in a canonical order, answers
  that another one subsumes are dropped, and what remains is the result or is merged into hints.

  A hash map whose keys are iterated is an association list with distinct keys; \<open>fp\<close> is the fingerprint
  of a stashed response, by which it is compared and ordered.
\<close>

section \<open>Directional matching\<close>

text \<open>\<open>iter().all(..)\<close> over a test with a state: it stops at the first failure.\<close>

fun all_state :: "('a \<Rightarrow> 's \<Rightarrow> (bool \<times> 's) option) \<Rightarrow> 'a list \<Rightarrow> 's \<Rightarrow> (bool \<times> 's) option" where
  "all_state f [] s = Some (True, s)"
| "all_state f (x # xs) s = do {
     (b, s) \<leftarrow> f x s;
     if b then all_state f xs s else Some (False, s) }"

lemma mono_all_state [partial_function_mono]:
  assumes "\<And>x s. mono_option (\<lambda>f. b f x s)"
  shows "mono_option (\<lambda>f. all_state (b f) xs s)"
proof (induction xs arbitrary: s)
  case (Cons x xs)
  have "mono_option (\<lambda>f. if r then all_state (b f) xs t else Some (False, t))" for r t
    by (cases r) (simp_all add: Cons option.const_mono)
  then show ?case unfolding all_state.simps by (intro mono_bind_pair assms)
qed (simp add: option.const_mono)

definition and_state :: "'s \<Rightarrow> ('s \<Rightarrow> (bool \<times> 's) option) \<Rightarrow> ('s \<Rightarrow> (bool \<times> 's) option) \<Rightarrow> (bool \<times> 's) option" where
  "and_state s f h = do { (b, s) \<leftarrow> f s; if b then h s else Some (False, s) }"

record match_env =
  me_stash :: ir
  me_flexible :: "alpha_equiv_param set"
  me_universes :: "alpha_equiv_param \<Rightarrow> nat option"
  me_domains :: "alpha_equiv_param \<Rightarrow> infer_domain option"

type_synonym bindings = "alpha_equiv_param \<Rightarrow> ptr option"

partial_function (option) structural_ty_eq :: "ir \<Rightarrow> ptr \<times> ptr \<Rightarrow> bool option" where
  "structural_ty_eq st pair = (
     if fst pair = snd pair then Some True
     else do {
       left \<leftarrow> decompose st (fst pair);
       right \<leftarrow> decompose st (snd pair);
       if de_skeleton left = de_skeleton right \<and> length (de_children left) = length (de_children right)
       then all_opt (structural_ty_eq st) (zip (de_children left) (de_children right))
       else Some False })"

definition type_satisfies_domain ::
  "ir \<Rightarrow> ptr \<Rightarrow> infer_domain \<Rightarrow> (alpha_equiv_param \<Rightarrow> infer_domain option) \<Rightarrow> bool option" where
  "type_satisfies_domain st p required domains = (
     if required = DomAny then Some True
     else do {
       t \<leftarrow> get_ty st p;
       Some (case own_input t of
           Some param \<Rightarrow> (let actual = (case domains param of Some d \<Rightarrow> d | None \<Rightarrow> DomAny)
             in domain_intersect actual required = Some actual)
         | None \<Rightarrow> domain_admits required t) })"

definition newer_than :: "(alpha_equiv_param \<Rightarrow> nat option) \<Rightarrow> nat \<Rightarrow> ty \<Rightarrow> bool" where
  "newer_than universes ceiling t = (case own_input t of
     Some param \<Rightarrow> (case universes param of Some u \<Rightarrow> u > ceiling | None \<Rightarrow> False)
   | None \<Rightarrow> False)"

partial_function (option) contains_newer_parameter ::
  "ir \<Rightarrow> nat \<Rightarrow> (alpha_equiv_param \<Rightarrow> nat option) \<Rightarrow> ptr \<Rightarrow> bool option" where
  "contains_newer_parameter st ceiling universes p = do {
     t \<leftarrow> get_ty st p;
     if newer_than universes ceiling t then Some True
     else do {
       d \<leftarrow> decompose st p;
       any_opt (contains_newer_parameter st ceiling universes) (de_children d) } }"

definition bind_flexible :: "match_env \<Rightarrow> alpha_equiv_param \<Rightarrow> ptr \<Rightarrow> bindings \<Rightarrow> (bool \<times> bindings) option" where
  "bind_flexible env parameter known bindings = (case bindings parameter of
     Some previous \<Rightarrow> do { b \<leftarrow> structural_ty_eq (me_stash env) (previous, known); Some (b, bindings) }
   | None \<Rightarrow> do {
       ok \<leftarrow> type_satisfies_domain (me_stash env) known
         (case me_domains env parameter of Some d \<Rightarrow> d | None \<Rightarrow> DomAny) (me_domains env);
       if \<not> ok then Some (False, bindings)
       else do {
         newer \<leftarrow> contains_newer_parameter (me_stash env)
           (case me_universes env parameter of Some u \<Rightarrow> u | None \<Rightarrow> 0) (me_universes env) known;
         Some (if newer then (False, bindings) else (True, bindings(parameter \<mapsto> known))) } })"

definition flexible_parameter :: "match_env \<Rightarrow> ty \<Rightarrow> alpha_equiv_param option" where
  "flexible_parameter env t = (case own_input t of
     Some parameter \<Rightarrow> if parameter \<in> me_flexible env then Some parameter else None
   | None \<Rightarrow> None)"

text \<open>The pair is the required type and the known one.\<close>

partial_function (option) directional_match_ty ::
  "match_env \<Rightarrow> ptr \<times> ptr \<Rightarrow> bindings \<Rightarrow> (bool \<times> bindings) option" where
  "directional_match_ty env pair bindings = (
     if fst pair = snd pair then Some (True, bindings)
     else do {
       t \<leftarrow> get_ty (me_stash env) (fst pair);
       case flexible_parameter env t of
         Some parameter \<Rightarrow> bind_flexible env parameter (snd pair) bindings
       | None \<Rightarrow> do {
           required \<leftarrow> decompose (me_stash env) (fst pair);
           known \<leftarrow> decompose (me_stash env) (snd pair);
           if de_skeleton required = de_skeleton known \<and> length (de_children required) = length (de_children known)
           then all_state (directional_match_ty env) (zip (de_children required) (de_children known)) bindings
           else Some (False, bindings) } })"

definition directional_match_atom :: "match_env \<Rightarrow> atom \<Rightarrow> atom \<Rightarrow> bindings \<Rightarrow> (bool \<times> bindings) option" where
  "directional_match_atom env required known bindings = (case (required, known) of
     (AtomTraitImpl required_self required_ref, AtomTraitImpl known_self known_ref) \<Rightarrow>
       if tr_trait_sym required_ref \<noteq> tr_trait_sym known_ref then Some (False, bindings)
       else do {
         required_args \<leftarrow> get_tys (me_stash env) (tr_args required_ref);
         known_args \<leftarrow> get_tys (me_stash env) (tr_args known_ref);
         if length required_args \<noteq> length known_args then Some (False, bindings)
         else and_state bindings (directional_match_ty env (required_self, known_self))
           (all_state (directional_match_ty env) (zip required_args known_args)) }
   | (AtomEquals required_left required_right, AtomEquals known_left known_right) \<Rightarrow> do {
       (b, direct) \<leftarrow> and_state bindings (directional_match_ty env (required_left, known_left))
         (directional_match_ty env (required_right, known_right));
       if b then Some (True, direct)
       else and_state bindings (directional_match_ty env (required_left, known_right))
         (directional_match_ty env (required_right, known_left)) }
   | _ \<Rightarrow> Some (False, bindings))"

definition directional_match_goal :: "match_env \<Rightarrow> goal \<Rightarrow> goal \<Rightarrow> bindings \<Rightarrow> (bool \<times> bindings) option" where
  "directional_match_goal env required known bindings = (case (required, known) of
     (GoalAtom required, GoalAtom known) \<Rightarrow> directional_match_atom env required known bindings
   | _ \<Rightarrow> Some (required = known, bindings))"

section \<open>Subsumption\<close>

definition flattened_goals :: "ir \<Rightarrow> goal \<Rightarrow> goal list option" where
  "flattened_goals st goal = do {
     output \<leftarrow> push_goal st goal [];
     Some (fold (\<lambda>g unique. if g \<in> set unique then unique else unique @ [g]) output []) }"

record answer_view =
  av_output :: goal_output
  av_substitution :: "subst_entry list"
  av_modulo :: goal
  av_parameter_universes :: "(alpha_equiv_param \<times> nat) list"
  av_parameter_domains :: "(alpha_equiv_param \<times> infer_domain) list"

type_synonym apart_state =
  "ir \<times> nat \<times> (generic_param \<Rightarrow> ptr option) \<times> (alpha_equiv_param \<times> nat) list \<times> (alpha_equiv_param \<times> infer_domain) list"

definition rename_apart :: "response_var_info \<Rightarrow> apart_state \<Rightarrow> apart_state option" where
  "rename_apart info s = (case s of (st, next_param, mapping, universes, domains) \<Rightarrow> do {
     let renamed = \<lparr>alpha_kind = rv_kind info, alpha_index = next_param\<rparr>;
     check (next_param + 1 < 2 ^ 32);
     let (st, t) = alloc_ty st (TyParam (AlphaEquiv renamed));
     Some (st, next_param + 1, mapping(AlphaEquiv (rv_param info) \<mapsto> t),
       universes @ [(renamed, rv_relative_universe info)], domains @ [(renamed, rv_domain info)]) })"

definition copy_answer_apart :: "ir \<times> query_result \<Rightarrow> ir \<Rightarrow> nat \<Rightarrow> (answer_view \<times> ir \<times> nat) option" where
  "copy_answer_apart answer target next_param = (case answer of (source, result) \<Rightarrow> (case qr_value result of
     ResultYes out subst residual \<Rightarrow> do {
       infos \<leftarrow> get_response_vars source (qr_bound_vars result);
       (target, next_param, mapping, universes, domains) \<leftarrow>
         fold_state rename_apart infos (target, next_param, Map.empty, [], []);
       (entries, copier) \<leftarrow> copier_copy_substitution source subst (copier_new target mapping (Some next_param));
       (out, copier) \<leftarrow> copier_copy_output source out copier;
       (residual, copier) \<leftarrow> copier_copy_goal source residual copier;
       let next_param = (case next_fresh_binder copier of Some n \<Rightarrow> n | None \<Rightarrow> next_param);
       Some (\<lparr>av_output = out, av_substitution = map (\<lambda>(key, v). \<lparr>se_key = key, se_value = v\<rparr>) entries, av_modulo = residual,
         av_parameter_universes = universes, av_parameter_domains = domains\<rparr>, th_target copier, next_param) }
   | _ \<Rightarrow> None))"

definition match_output :: "match_env \<Rightarrow> goal_output \<Rightarrow> goal_output \<Rightarrow> bindings \<Rightarrow> (bool \<times> bindings) option" where
  "match_output env required known bindings = (case (required, known) of
     (Proven, Proven) \<Rightarrow> Some (True, bindings)
   | (OutputType required, OutputType known) \<Rightarrow> directional_match_ty env (required, known) bindings
   | _ \<Rightarrow> Some (False, bindings))"

definition match_entry :: "match_env \<Rightarrow> subst_entry list \<Rightarrow> subst_entry \<Rightarrow> bindings \<Rightarrow> (bool \<times> bindings) option" where
  "match_entry env known_entries required bindings = (case List.find (\<lambda>known. se_key known = se_key required) known_entries of
     None \<Rightarrow> Some (False, bindings)
   | Some known \<Rightarrow> directional_match_ty env (se_value required, se_value known) bindings)"

text \<open>The first known goal that matches; a failed trial leaves the bindings alone.\<close>

fun match_residual :: "match_env \<Rightarrow> goal list \<Rightarrow> goal \<Rightarrow> bindings \<Rightarrow> (bool \<times> bindings) option" where
  "match_residual env [] required bindings = Some (False, bindings)"
| "match_residual env (known # goals) required bindings = do {
     (b, trial) \<leftarrow> directional_match_goal env required known bindings;
     if b then Some (True, trial) else match_residual env goals required bindings }"

definition match_answers :: "match_env \<Rightarrow> answer_view \<Rightarrow> answer_view \<Rightarrow> (bool \<times> bindings) option" where
  "match_answers env consequent antecedent = do {
     (b, bindings) \<leftarrow> and_state Map.empty (match_output env (av_output consequent) (av_output antecedent))
       (all_state (match_entry env (av_substitution antecedent)) (av_substitution consequent));
     if \<not> b then Some (False, bindings)
     else do {
       consequent_goals \<leftarrow> flattened_goals (me_stash env) (av_modulo consequent);
       antecedent_goals \<leftarrow> flattened_goals (me_stash env) (av_modulo antecedent);
       all_state (match_residual env antecedent_goals) consequent_goals bindings } }"

type_synonym input_universes = "(alpha_equiv_param \<times> nat) list"
type_synonym input_domains = "(alpha_equiv_param \<times> infer_domain) list"

definition first_free_param :: "input_universes \<Rightarrow> nat option" where
  "first_free_param universes = do {
     check (\<forall>key \<in> set (map fst universes). alpha_index key + 1 < 2 ^ 32);
     Some (fold (\<lambda>key n. max (alpha_index key + 1) n) (map fst universes) 0) }"

definition subsumes ::
  "input_universes \<Rightarrow> input_domains \<Rightarrow> ir \<times> query_result \<Rightarrow> ir \<times> query_result \<Rightarrow> bool option" where
  "subsumes universes domains consequent antecedent = do {
     next_param \<leftarrow> first_free_param universes;
     (antecedent, st, next_param) \<leftarrow> copy_answer_apart antecedent [] next_param;
     (consequent, st, next_param) \<leftarrow> copy_answer_apart consequent st next_param;
     let env = \<lparr>me_stash = st, me_flexible = set (map fst (av_parameter_universes consequent)),
       me_universes = map_of (av_parameter_universes consequent @ av_parameter_universes antecedent @ universes),
       me_domains = map_of (av_parameter_domains consequent @ av_parameter_domains antecedent @ domains)\<rparr>;
     (b, _) \<leftarrow> match_answers env consequent antecedent;
     Some b }"

section \<open>Merging\<close>

text \<open>Whether the answer at \<open>index\<close> is dropped for the one at \<open>other\<close>.\<close>

definition dominated_by ::
  "input_universes \<Rightarrow> input_domains \<Rightarrow> (ir \<times> query_result) list \<Rightarrow> nat \<Rightarrow> nat \<Rightarrow> bool option" where
  "dominated_by universes domains answers index other = (
     if index = other then Some False
     else do {
       a \<leftarrow> nth_opt answers index;
       b \<leftarrow> nth_opt answers other;
       other_subsumes \<leftarrow> subsumes universes domains b a;
       index_subsumes \<leftarrow> subsumes universes domains a b;
       Some (other_subsumes \<and> (\<not> index_subsumes \<or> other < index)) })"

definition non_dominated_yes ::
  "input_universes \<Rightarrow> input_domains \<Rightarrow> (ir \<times> query_result) list \<Rightarrow> (ir \<times> query_result) list option" where
  "non_dominated_yes universes domains answers = do {
     dropped \<leftarrow> map_opt (\<lambda>index. any_opt (dominated_by universes domains answers index) [0..<length answers]) [0..<length answers];
     Some (map fst (filter (\<lambda>(answer, dropped). \<not> dropped) (zip answers dropped))) }"

definition no_result :: "ir \<times> query_result" where
  "no_result = (let (st, bound_vars) = alloc_response_vars [] [] in
     (st, \<lparr>qr_bound_vars = bound_vars, qr_value = ResultNo\<rparr>))"

definition is_yes :: "ir \<times> query_result \<Rightarrow> bool" where
  "is_yes candidate = (case qr_value (snd candidate) of ResultYes _ _ _ \<Rightarrow> True | _ \<Rightarrow> False)"

definition is_maybe :: "ir \<times> query_result \<Rightarrow> bool" where
  "is_maybe candidate = (case qr_value (snd candidate) of ResultMaybe _ \<Rightarrow> True | _ \<Rightarrow> False)"

definition is_unconditional :: "ir \<times> query_result \<Rightarrow> bool option" where
  "is_unconditional candidate = (case qr_value (snd candidate) of
     ResultYes Proven subst residual \<Rightarrow> do {
       entries \<leftarrow> get_subst (fst candidate) subst;
       if entries = [] then is_trivially_true (fst candidate) residual else Some False }
   | _ \<Rightarrow> Some False)"

fun find_opt :: "('a \<Rightarrow> bool option) \<Rightarrow> 'a list \<Rightarrow> 'a option option" where
  "find_opt f [] = Some None"
| "find_opt f (x # xs) = do { b \<leftarrow> f x; if b then Some (Some x) else find_opt f xs }"

text \<open>\<open>sort\<close> and \<open>dedup\<close>, both by fingerprint.\<close>

fun dedup_by :: "('a \<Rightarrow> nat) \<Rightarrow> 'a list \<Rightarrow> 'a list" where
  "dedup_by f (x # y # xs) = (if f x = f y then dedup_by f (x # xs) else x # dedup_by f (y # xs))"
| "dedup_by f xs = xs"

definition canonical_order :: "('a \<Rightarrow> nat) \<Rightarrow> 'a list \<Rightarrow> 'a list" where
  "canonical_order fp xs = dedup_by fp (sort_key fp xs)"

record merge_env =
  mg_fingerprint :: "ir \<times> query_result \<Rightarrow> nat"
  mg_order :: "alpha_equiv_param set \<Rightarrow> alpha_equiv_param list"
  mg_next_response_param :: nat
  mg_universes :: input_universes
  mg_domains :: input_domains

definition merge_ordered :: "merge_env \<Rightarrow> (ir \<times> query_result) list \<Rightarrow> bool \<Rightarrow> (ir \<times> query_result) option" where
  "merge_ordered env candidates saw_incomplete_source = do {
     unconditional \<leftarrow> find_opt is_unconditional candidates;
     case unconditional of
       Some candidate \<Rightarrow> Some candidate
     | None \<Rightarrow> do {
         yes \<leftarrow> non_dominated_yes (mg_universes env) (mg_domains env) (filter is_yes candidates);
         let maybe = filter is_maybe candidates;
         if length yes = 1 \<and> maybe = [] \<and> \<not> saw_incomplete_source then Some (hd yes)
         else if yes = [] \<and> maybe = [] \<and> \<not> saw_incomplete_source then Some no_result
         else if yes = [] \<and> length maybe = 1 \<and> \<not> saw_incomplete_source then Some (hd maybe)
         else merge_hints (mg_order env) (mg_next_response_param env) (map_of (mg_universes env)) (map_of (mg_domains env))
           (yes @ maybe) saw_incomplete_source } }"

definition merge_candidate_results :: "merge_env \<Rightarrow> (ir \<times> query_result) list \<Rightarrow> bool \<Rightarrow> (ir \<times> query_result) option" where
  "merge_candidate_results env candidates saw_incomplete_source =
     merge_ordered env (canonical_order (mg_fingerprint env) candidates) saw_incomplete_source"

declare structural_ty_eq.simps [simp del, code] and contains_newer_parameter.simps [simp del, code]
  and directional_match_ty.simps [simp del, code]

end
