(* ===== verification/MergeCorrect.thy ===== *)
theory MergeCorrect
  imports Merge TyFoldCorrect Scoped
begin

text \<open>
  Directional matching is sound: what it accepts is an instance, by the bindings it found.  The result
  of merging depends on the set of candidates only.
\<close>

section \<open>Trees of a well-scoped arena\<close>

lemma ptr_tree_unfold:
  "ptr_tree st p T \<longleftrightarrow> (\<exists>d Ts. decompose st p = Some d \<and> T = TNode (de_skeleton d) Ts \<and> list_all2 (ptr_tree st) (de_children d) Ts)"
proof
  assume "ptr_tree st p T"
  then obtain t where t: "get_ty st p = Some t" and T: "tree_of st t T" by (auto simp: ptr_tree_def)
  from T obtain d Ts where "decompose_ty st t = Some d" "T = TNode (de_skeleton d) Ts"
      "list_all2 (\<lambda>p T. \<exists>u. get_ty st p = Some u \<and> tree_of st u T) (de_children d) Ts"
    by (cases rule: tree_of.cases)
  with t show "\<exists>d Ts. decompose st p = Some d \<and> T = TNode (de_skeleton d) Ts \<and> list_all2 (ptr_tree st) (de_children d) Ts"
    by (auto simp: decompose_def ptr_tree_def [abs_def])
next
  assume "\<exists>d Ts. decompose st p = Some d \<and> T = TNode (de_skeleton d) Ts \<and> list_all2 (ptr_tree st) (de_children d) Ts"
  then show "ptr_tree st p T" by (auto simp: decompose_def opt_simps ptr_tree_def intro!: tree_of_node)
qed

lemma ptr_tree_unique: "ptr_tree st p T \<Longrightarrow> ptr_tree st p U \<Longrightarrow> T = U"
proof (induction T arbitrary: p U)
  case (TNode sk Ts)
  obtain d where d: "decompose st p = Some d" "sk = de_skeleton d" "list_all2 (ptr_tree st) (de_children d) Ts"
    using TNode.prems(1) by (subst (asm) ptr_tree_unfold) auto
  obtain Us where U: "U = TNode (de_skeleton d) Us" "list_all2 (ptr_tree st) (de_children d) Us"
    using TNode.prems(2) d(1) by (subst (asm) ptr_tree_unfold) auto
  have "Ts = Us"
  proof (rule nth_equalityI)
    show "length Ts = length Us" using d(3) U(2) by (auto dest!: list_all2_lengthD)
    fix i assume "i < length Ts"
    then show "Ts ! i = Us ! i" using TNode.IH d(3) U(2) by (metis list_all2_conv_all_nth nth_mem)
  qed
  then show ?case by (simp add: d U)
qed

lemma scoped_tree: "scoped N st \<Longrightarrow> ty_ptr st p \<Longrightarrow> \<exists>T. ptr_tree st p T"
proof (induction p rule: less_induct)
  case (less p)
  obtain t where t: "get_ty st p = Some t" using less.prems(2) by (auto simp: ty_ptr_def)
  obtain d where d: "decompose st p = Some d" and c: "\<forall>c \<in> set (de_children d). c < p \<and> ty_ptr st c"
    using scoped_children [OF less.prems(1) t] by blast
  have "\<forall>c \<in> set (de_children d). \<exists>T. ptr_tree st c T" using c less by blast
  then obtain f where "\<forall>c \<in> set (de_children d). ptr_tree st c (f c)" by metis
  then have "list_all2 (ptr_tree st) (de_children d) (map f (de_children d))" by (simp add: list_all2_map2 list_all2_same)
  with d show ?case by (subst ptr_tree_unfold) blast
qed

section \<open>Structural equality\<close>

lemma all_opt_iff: "all_opt f xs = Some b \<Longrightarrow> (\<And>x c. x \<in> set xs \<Longrightarrow> f x = Some c \<Longrightarrow> c \<longleftrightarrow> P x) \<Longrightarrow> b \<longleftrightarrow> (\<forall>x \<in> set xs. P x)"
proof (induction xs arbitrary: b)
  case (Cons x xs)
  then obtain c where c: "f x = Some c" and rest: "(if c then all_opt f xs else Some False) = Some b" by (auto simp: opt_simps)
  have "c \<longleftrightarrow> P x" using Cons.prems(2) c by simp
  then show ?case using Cons.IH [of b] Cons.prems(2) rest by (cases c) auto
qed simp

lemma same_trees_iff:
  assumes "list_all2 (ptr_tree st) ps Ts" and "list_all2 (ptr_tree st) qs Us" and "length ps = length qs"
  shows "Ts = Us \<longleftrightarrow> (\<forall>(p, q) \<in> set (zip ps qs). \<forall>T U. ptr_tree st p T \<longrightarrow> ptr_tree st q U \<longrightarrow> T = U)"
  using assms
proof (induction arbitrary: qs Us rule: list_all2_induct)
  case (Cons p ps T Ts)
  then obtain q qs' U Us' where qs: "qs = q # qs'" and Us: "Us = U # Us'" and q: "ptr_tree st q U" and t: "list_all2 (ptr_tree st) qs' Us'"
    by (cases qs; cases Us) auto
  have "T = U \<longleftrightarrow> (\<forall>T U. ptr_tree st p T \<longrightarrow> ptr_tree st q U \<longrightarrow> T = U)"
    using q Cons.hyps(1) ptr_tree_unique by blast
  then show ?case using Cons.IH [OF t] Cons.prems(2) by (simp add: qs Us)
qed auto

lemma structural_ty_eq_trees:
  "structural_ty_eq st pq = Some b \<Longrightarrow> ptr_tree st (fst pq) T \<Longrightarrow> ptr_tree st (snd pq) U \<Longrightarrow> b \<longleftrightarrow> T = U"
proof (induction arbitrary: T U rule: structural_ty_eq.raw_induct [rotated 1, consumes 1, case_names step])
  case (step eq st pq b)
  show ?case
  proof (cases "fst pq = snd pq")
    case True
    then show ?thesis using step.hyps step.prems ptr_tree_unique by auto
  next
    case False
    obtain d Ts where d: "decompose st (fst pq) = Some d" "T = TNode (de_skeleton d) Ts" "list_all2 (ptr_tree st) (de_children d) Ts"
      using step.prems(1) by (subst (asm) ptr_tree_unfold) auto
    obtain e Us where e: "decompose st (snd pq) = Some e" "U = TNode (de_skeleton e) Us" "list_all2 (ptr_tree st) (de_children e) Us"
      using step.prems(2) by (subst (asm) ptr_tree_unfold) auto
    note len = list_all2_lengthD [OF d(3)] list_all2_lengthD [OF e(3)]
    show ?thesis
    proof (cases "de_skeleton d = de_skeleton e \<and> length (de_children d) = length (de_children e)")
      case True
      then have "all_opt (eq st) (zip (de_children d) (de_children e)) = Some b" using step.hyps False d e by simp
      then have "b \<longleftrightarrow> (\<forall>x \<in> set (zip (de_children d) (de_children e)). \<forall>T U. ptr_tree st (fst x) T \<longrightarrow> ptr_tree st (snd x) U \<longrightarrow> T = U)"
      proof (rule all_opt_iff)
        fix x c assume x: "x \<in> set (zip (de_children d) (de_children e))" and c: "eq st x = Some c"
        obtain n where "n < length (de_children d)" "n < length (de_children e)" "x = (de_children d ! n, de_children e ! n)"
          using x by (auto simp: in_set_zip prod_eq_iff)
        then have t: "ptr_tree st (fst x) (Ts ! n)" "ptr_tree st (snd x) (Us ! n)"
          using d(3) e(3) by (auto simp: list_all2_conv_all_nth)
        show "c \<longleftrightarrow> (\<forall>T U. ptr_tree st (fst x) T \<longrightarrow> ptr_tree st (snd x) U \<longrightarrow> T = U)"
          using step.IH [OF c t] t ptr_tree_unique by metis
      qed
      then show ?thesis using same_trees_iff [OF d(3) e(3)] True by (auto simp: d(2) e(2) split: prod.split)
    next
      case ne: False
      then have "b = False" using step.hyps False d e by auto
      moreover have "T \<noteq> U" using ne len by (auto simp: d(2) e(2))
      ultimately show ?thesis by simp
    qed
  qed
qed

section \<open>Instances\<close>

fun avoids :: "alpha_equiv_param set \<Rightarrow> ty_tree \<Rightarrow> bool" where
  "avoids F (TNode sk Ts) = ((\<forall>p \<in> F. sk \<noteq> SkParam (AlphaEquiv p)) \<and> (\<forall>T \<in> set Ts. avoids F T))"

definition bindings_denote :: "match_env \<Rightarrow> bindings \<Rightarrow> (generic_param \<Rightarrow> ty_tree option) \<Rightarrow> bool" where
  "bindings_denote env b s \<longleftrightarrow> dom b \<subseteq> me_flexible env \<and>
     (\<forall>g. case g of
        AlphaEquiv p \<Rightarrow> (case b p of Some q \<Rightarrow> \<exists>T. s g = Some T \<and> ptr_tree (me_stash env) q T | None \<Rightarrow> s g = None)
      | _ \<Rightarrow> s g = None)"

lemma denotes_some: "bindings_denote env b s \<Longrightarrow> b p = Some q \<Longrightarrow> \<exists>T. s (AlphaEquiv p) = Some T \<and> ptr_tree (me_stash env) q T"
  unfolding bindings_denote_def by (auto dest!: spec [of _ "AlphaEquiv p"])

lemma denotes_dom:
  assumes "bindings_denote env b s" and "s g = Some T"
  shows "\<exists>p \<in> me_flexible env. g = AlphaEquiv p"
proof -
  have 1: "case g of AlphaEquiv p \<Rightarrow> (case b p of Some q \<Rightarrow> \<exists>T. s g = Some T \<and> ptr_tree (me_stash env) q T | None \<Rightarrow> s g = None) | _ \<Rightarrow> s g = None"
    and 2: "dom b \<subseteq> me_flexible env" using assms(1) by (simp_all add: bindings_denote_def)
  show ?thesis
  proof (cases g)
    case (AlphaEquiv p)
    then show ?thesis using 1 2 assms(2) by (cases "b p") auto
  qed (use 1 assms(2) in simp_all)
qed

lemma subst_avoids: "bindings_denote env b s \<Longrightarrow> avoids (me_flexible env) T \<Longrightarrow> subst_tree s T = T"
proof (induction T)
  case (TNode sk Ts)
  have "(case sk of SkParam p \<Rightarrow> s p | _ \<Rightarrow> None) = None"
  proof (rule ccontr)
    assume "(case sk of SkParam p \<Rightarrow> s p | _ \<Rightarrow> None) \<noteq> None"
    then obtain g T where "sk = SkParam g" "s g = Some T" by (auto split: skeleton.splits)
    then show False using denotes_dom [OF TNode.prems(1)] TNode.prems(2) by fastforce
  qed
  then show ?case using TNode by (auto intro!: map_idI)
qed

definition type_instance :: "match_env \<Rightarrow> (generic_param \<Rightarrow> ty_tree option) \<Rightarrow> ptr \<Rightarrow> ptr \<Rightarrow> bool" where
  "type_instance env s required known \<longleftrightarrow>
     (\<forall>R K. ptr_tree (me_stash env) required R \<longrightarrow> ptr_tree (me_stash env) known K \<longrightarrow> subst_tree s R = K)"

definition known_ok :: "match_env \<Rightarrow> ptr \<Rightarrow> bool" where
  "known_ok env p \<longleftrightarrow> ty_ptr (me_stash env) p \<and> (\<forall>K. ptr_tree (me_stash env) p K \<longrightarrow> avoids (me_flexible env) K)"

text \<open>What a successful match says, of any bindings that extend those it returns.\<close>

definition matched :: "match_env \<Rightarrow> ((generic_param \<Rightarrow> ty_tree option) \<Rightarrow> bool) \<Rightarrow> bindings \<Rightarrow> bool \<times> bindings \<Rightarrow> bool" where
  "matched env P b r \<longleftrightarrow> b \<subseteq>\<^sub>m snd r \<and> (dom b \<subseteq> me_flexible env \<longrightarrow> dom (snd r) \<subseteq> me_flexible env) \<and>
     ((\<forall>q \<in> ran b. known_ok env q) \<longrightarrow> (\<forall>q \<in> ran (snd r). known_ok env q)) \<and>
     (fst r \<longrightarrow> (\<forall>b' s. snd r \<subseteq>\<^sub>m b' \<longrightarrow> bindings_denote env b' s \<longrightarrow> P s))"

lemma matched_refl: "(fst r \<Longrightarrow> (\<And>s b'. b \<subseteq>\<^sub>m b' \<Longrightarrow> bindings_denote env b' s \<Longrightarrow> P s)) \<Longrightarrow> snd r = b \<Longrightarrow> matched env P b r"
  by (auto simp: matched_def)

lemma matchedD: "matched env P b (True, b1) \<Longrightarrow> bindings_denote env b1 s \<Longrightarrow> P s"
  unfolding matched_def fst_conv snd_conv by (blast intro: map_le_refl)

lemma matched_weaken: "matched env P b r \<Longrightarrow> (\<And>b' s. bindings_denote env b' s \<Longrightarrow> P s \<Longrightarrow> Q s) \<Longrightarrow> matched env Q b r"
  unfolding matched_def by blast

lemma matched_seq:
  assumes "matched env P b r" and "fst r \<Longrightarrow> matched env Q (snd r) r'" and "r'' = (if fst r then r' else (False, snd r))"
  shows "matched env (\<lambda>s. P s \<and> Q s) b r''"
  using assms by (cases "fst r") (auto simp: matched_def intro: map_le_trans)

lemma all_state_matched:
  assumes "all_state f xs b = Some r" and "\<And>x b r. x \<in> set xs \<Longrightarrow> f x b = Some r \<Longrightarrow> matched env (P x) b r"
  shows "matched env (\<lambda>s. \<forall>x \<in> set xs. P x s) b r"
  using assms
proof (induction xs arbitrary: b)
  case (Cons x xs)
  then obtain c b1 where f: "f x b = Some (c, b1)" and rest: "(if c then all_state f xs b1 else Some (False, b1)) = Some r"
    by (auto simp: opt_simps)
  have 1: "matched env (P x) b (c, b1)" by (rule Cons.prems(2) [OF _ f]) simp
  have 2: "matched env (\<lambda>s. \<forall>x \<in> set xs. P x s) b1 r" if c using Cons.IH [of b1] Cons.prems(2) rest that by simp
  have "matched env (\<lambda>s. P x s \<and> (\<forall>x \<in> set xs. P x s)) b r"
    by (rule matched_seq [OF 1, of _ r]) (use 2 rest in \<open>auto split: if_splits\<close>)
  then show ?case by simp
qed (auto intro: matched_refl)

lemma and_state_matched:
  assumes "and_state b f h = Some r" and "\<And>r. f b = Some r \<Longrightarrow> matched env P b r" and "\<And>b r. h b = Some r \<Longrightarrow> matched env Q b r"
  shows "matched env (\<lambda>s. P s \<and> Q s) b r"
proof -
  obtain c b1 where f: "f b = Some (c, b1)" and rest: "(if c then h b1 else Some (False, b1)) = Some r"
    using assms(1) by (auto simp: and_state_def opt_simps)
  show ?thesis by (rule matched_seq [OF assms(2) [OF f], of _ r]) (use assms(3) rest in \<open>auto split: if_splits\<close>)
qed

section \<open>Matching types\<close>

lemma bind_flexible_matched:
  assumes r: "bind_flexible env parameter known b = Some r" and flex: "parameter \<in> me_flexible env" and k: "known_ok env known"
    and sc: "scoped N (me_stash env)"
  shows "matched env (\<lambda>s. \<forall>K. ptr_tree (me_stash env) known K \<longrightarrow> s (AlphaEquiv parameter) = Some K) b r"
proof (cases "b parameter")
  case (Some previous)
  then obtain c where e: "structural_ty_eq (me_stash env) (previous, known) = Some c" and r: "r = (c, b)"
    using r by (auto simp: bind_flexible_def opt_simps)
  have "s (AlphaEquiv parameter) = Some K"
    if c: c and b: "b \<subseteq>\<^sub>m b'" and s: "bindings_denote env b' s" and K: "ptr_tree (me_stash env) known K" for b' s K
  proof -
    have "b' parameter = Some previous" using b Some by (simp add: map_le_def dom_def)
    then obtain T where "s (AlphaEquiv parameter) = Some T" "ptr_tree (me_stash env) previous T"
      using denotes_some [OF s] by blast
    then show ?thesis using structural_ty_eq_trees [OF e] c K by simp
  qed
  then show ?thesis by (auto simp: r matched_def)
next
  case None
  then have "r = (True, b(parameter \<mapsto> known)) \<or> r = (False, b)"
    using r by (auto simp: bind_flexible_def opt_simps split: if_splits)
  then show ?thesis
  proof
    assume r: "r = (True, b(parameter \<mapsto> known))"
    have "s (AlphaEquiv parameter) = Some K"
      if "b(parameter \<mapsto> known) \<subseteq>\<^sub>m b'" and "bindings_denote env b' s" and "ptr_tree (me_stash env) known K" for b' s K
    proof -
      have "b' parameter = Some known" using that(1) by (force simp: map_le_def dom_def split: if_splits)
      then show ?thesis using denotes_some [OF that(2)] that(3) ptr_tree_unique by blast
    qed
    moreover have "b \<subseteq>\<^sub>m b(parameter \<mapsto> known)" using None by (simp add: map_le_def dom_def)
    moreover have "dom b \<subseteq> me_flexible env \<longrightarrow> dom (b(parameter \<mapsto> known)) \<subseteq> me_flexible env" using flex by auto
    moreover have "(\<forall>q \<in> ran b. known_ok env q) \<longrightarrow> (\<forall>q \<in> ran (b(parameter \<mapsto> known)). known_ok env q)"
      using k None by simp
    ultimately show ?thesis unfolding matched_def r fst_conv snd_conv by blast
  qed (auto simp: matched_def)
qed

lemma known_children:
  assumes "known_ok env p" and "decompose (me_stash env) p = Some d" and "scoped N (me_stash env)" and "c \<in> set (de_children d)"
  shows "known_ok env c"
proof -
  obtain t where t: "get_ty (me_stash env) p = Some t" using assms(1) by (auto simp: known_ok_def ty_ptr_def)
  have c: "ty_ptr (me_stash env) c" using scoped_children [OF assms(3) t] assms(2,4) by auto
  obtain K where K: "ptr_tree (me_stash env) p K" using scoped_tree [OF assms(3)] assms(1) by (auto simp: known_ok_def)
  then obtain Ks where Ks: "K = TNode (de_skeleton d) Ks" "list_all2 (ptr_tree (me_stash env)) (de_children d) Ks"
    using assms(2) by (subst (asm) ptr_tree_unfold) auto
  then obtain C where "C \<in> set Ks" "ptr_tree (me_stash env) c C" using assms(4) by (metis in_set_conv_nth list_all2_conv_all_nth)
  moreover have "avoids (me_flexible env) K" using assms(1) K by (simp add: known_ok_def)
  ultimately have "ptr_tree (me_stash env) c C" and "avoids (me_flexible env) C" by (simp_all add: Ks(1))
  then show ?thesis using c ptr_tree_unique by (metis known_ok_def)
qed

lemma instance_node:
  assumes d: "decompose (me_stash env) p = Some d" and e: "decompose (me_stash env) q = Some e"
    and sk: "de_skeleton d = de_skeleton e" and len: "length (de_children d) = length (de_children e)"
    and s: "\<And>g. de_skeleton d = SkParam g \<Longrightarrow> s g = None"
    and c: "\<forall>x \<in> set (zip (de_children d) (de_children e)). type_instance env s (fst x) (snd x)"
  shows "type_instance env s p q"
  unfolding type_instance_def
proof (intro allI impI)
  fix R K assume "ptr_tree (me_stash env) p R" and "ptr_tree (me_stash env) q K"
  then obtain Rs Ks where R: "R = TNode (de_skeleton d) Rs" "list_all2 (ptr_tree (me_stash env)) (de_children d) Rs"
    and K: "K = TNode (de_skeleton e) Ks" "list_all2 (ptr_tree (me_stash env)) (de_children e) Ks"
    using d e by (auto simp: ptr_tree_unfold [of _ p] ptr_tree_unfold [of _ q])
  have "subst_tree s (Rs ! i) = Ks ! i" if i: "i < length Rs" for i
  proof -
    have "(de_children d ! i, de_children e ! i) \<in> set (zip (de_children d) (de_children e))"
      using i len list_all2_lengthD [OF R(2)] by (auto simp: set_zip)
    then have "type_instance env s (de_children d ! i) (de_children e ! i)" using c by fastforce
    moreover have "ptr_tree (me_stash env) (de_children d ! i) (Rs ! i)" "ptr_tree (me_stash env) (de_children e ! i) (Ks ! i)"
      using R(2) K(2) i len by (auto simp: list_all2_conv_all_nth)
    ultimately show ?thesis by (simp add: type_instance_def)
  qed
  then have "map (subst_tree s) Rs = Ks"
    using len list_all2_lengthD [OF R(2)] list_all2_lengthD [OF K(2)] by (intro nth_equalityI) auto
  moreover have "(case de_skeleton d of SkParam g \<Rightarrow> s g | _ \<Rightarrow> None) = None" using s by (auto split: skeleton.split)
  ultimately show "subst_tree s R = K" by (simp add: R(1) K(1) sk)
qed

lemma param_skeleton: "decompose st p = Some d \<Longrightarrow> de_skeleton d = SkParam g \<Longrightarrow> get_ty st p = Some (TyParam g)"
  by (auto simp: decompose_def opt_simps elim!: decompose_ty.elims simp: leaf_def)

lemma directional_match_matched:
  "directional_match_ty env pq b = Some r \<Longrightarrow> scoped N (me_stash env) \<Longrightarrow> ty_ptr (me_stash env) (fst pq) \<Longrightarrow> known_ok env (snd pq) \<Longrightarrow>
    matched env (\<lambda>s. type_instance env s (fst pq) (snd pq)) b r"
proof (induction rule: directional_match_ty.raw_induct [rotated 1, consumes 1, case_names step])
  case (step match env pq b r)
  note sc = step.prems(1) and k = step.prems(3)
  show ?case
  proof (cases "fst pq = snd pq")
    case True
    have "type_instance env s (fst pq) (snd pq)" if "bindings_denote env b' s" for b' s
      using True k subst_avoids [OF that] ptr_tree_unique by (fastforce simp: type_instance_def known_ok_def)
    moreover have "r = (True, b)" using step.hyps True by simp
    ultimately show ?thesis by (auto intro: matched_refl)
  next
    case False
    obtain t where t: "get_ty (me_stash env) (fst pq) = Some t" using step.prems(2) by (auto simp: ty_ptr_def)
    show ?thesis
    proof (cases "flexible_parameter env t")
      case (Some parameter)
      then have p: "t = TyParam (AlphaEquiv parameter)" "parameter \<in> me_flexible env"
        by (auto simp: flexible_parameter_def split: option.splits if_splits elim!: own_input.elims)
      have "bind_flexible env parameter (snd pq) b = Some r" using step.hyps False t Some by simp
      from bind_flexible_matched [OF this p(2) k sc]
      have m: "matched env (\<lambda>s. \<forall>K. ptr_tree (me_stash env) (snd pq) K \<longrightarrow> s (AlphaEquiv parameter) = Some K) b r" .
      have tree: "R = TNode (SkParam (AlphaEquiv parameter)) []" if "ptr_tree (me_stash env) (fst pq) R" for R
        using that t p(1) by (subst (asm) ptr_tree_unfold) (auto simp: decompose_def leaf_def)
      show ?thesis by (rule matched_weaken [OF m]) (auto simp: type_instance_def dest!: tree)
    next
      case None
      obtain d e where d: "decompose (me_stash env) (fst pq) = Some d" and e: "decompose (me_stash env) (snd pq) = Some e"
        and rest: "(if de_skeleton d = de_skeleton e \<and> length (de_children d) = length (de_children e)
           then all_state (match env) (zip (de_children d) (de_children e)) b else Some (False, b)) = Some r"
        using step.hyps False t None by (auto simp: opt_simps)
      show ?thesis
      proof (cases "de_skeleton d = de_skeleton e \<and> length (de_children d) = length (de_children e)")
        case True
        have child: "matched env (\<lambda>s. type_instance env s (fst x) (snd x)) b r"
          if "x \<in> set (zip (de_children d) (de_children e))" and "match env x b = Some r" for x b r
        proof -
          have "ty_ptr (me_stash env) (fst x)" using scoped_children [OF sc t] d that(1) by (cases x) (auto dest: set_zip_leftD)
          moreover have "known_ok env (snd x)" using known_children [OF k e sc] that(1) by (cases x) (auto dest: set_zip_rightD)
          ultimately show ?thesis using step.IH [OF that(2) sc] by simp
        qed
        have m: "matched env (\<lambda>s. \<forall>x \<in> set (zip (de_children d) (de_children e)). type_instance env s (fst x) (snd x)) b r"
          by (rule all_state_matched [OF _ child]) (use rest True in simp_all)
        have free: "s g = None" if s: "bindings_denote env b' s" and g: "de_skeleton d = SkParam g" for b' s g
        proof (rule ccontr)
          assume "s g \<noteq> None"
          then obtain p where "p \<in> me_flexible env" "g = AlphaEquiv p" using denotes_dom [OF s] by blast
          then show False using param_skeleton [OF d g] t None by (simp add: flexible_parameter_def)
        qed
        show ?thesis by (rule matched_weaken [OF m]) (use instance_node [OF d e] True free in blast)
      next
        case False
        then have "r = (False, b)" using rest by auto
        then show ?thesis by (simp add: matched_def)
      qed
    qed
  qed
qed

section \<open>Matching goals and answers\<close>

definition instances :: "match_env \<Rightarrow> (generic_param \<Rightarrow> ty_tree option) \<Rightarrow> ptr list \<Rightarrow> ptr list \<Rightarrow> bool" where
  "instances env s = list_all2 (type_instance env s)"

fun goal_instance :: "match_env \<Rightarrow> (generic_param \<Rightarrow> ty_tree option) \<Rightarrow> goal \<Rightarrow> goal \<Rightarrow> bool" where
  "goal_instance env s (GoalAtom (AtomTraitImpl r tr)) (GoalAtom (AtomTraitImpl k tk)) =
     (tr_trait_sym tr = tr_trait_sym tk \<and> type_instance env s r k \<and>
      (\<exists>rs ks. get_tys (me_stash env) (tr_args tr) = Some rs \<and> get_tys (me_stash env) (tr_args tk) = Some ks \<and> instances env s rs ks))"
| "goal_instance env s (GoalAtom (AtomEquals r1 r2)) (GoalAtom (AtomEquals k1 k2)) =
     ((type_instance env s r1 k1 \<and> type_instance env s r2 k2) \<or> (type_instance env s r1 k2 \<and> type_instance env s r2 k1))"
| "goal_instance env s required known = (required = known)"

definition atom_tys :: "ir \<Rightarrow> atom \<Rightarrow> ptr set" where
  "atom_tys st a = (case a of
     AtomTraitImpl self_ty tr \<Rightarrow> insert self_ty (case get_tys st (tr_args tr) of Some ts \<Rightarrow> set ts | None \<Rightarrow> {})
   | AtomEquals left right \<Rightarrow> {left, right})"

definition goal_tys :: "ir \<Rightarrow> goal \<Rightarrow> ptr set" where
  "goal_tys st g = (case g of GoalAtom a \<Rightarrow> atom_tys st a | _ \<Rightarrow> {})"

definition view_tys :: "ir \<Rightarrow> answer_view \<Rightarrow> ptr set" where
  "view_tys st v = (case av_output v of OutputType t \<Rightarrow> {t} | Proven \<Rightarrow> {}) \<union> se_value ` set (av_substitution v) \<union>
     (case flattened_goals st (av_modulo v) of Some gs \<Rightarrow> \<Union> (goal_tys st ` set gs) | None \<Rightarrow> {})"

lemma pairs_matched:
  assumes sc: "scoped N (me_stash env)" and "all_state (directional_match_ty env) (zip rs ks) b = Some r" and "length rs = length ks"
    and "\<forall>p \<in> set rs. ty_ptr (me_stash env) p" and "\<forall>p \<in> set ks. known_ok env p"
  shows "matched env (\<lambda>s. instances env s rs ks) b r"
proof -
  have "matched env (\<lambda>s. \<forall>x \<in> set (zip rs ks). type_instance env s (fst x) (snd x)) b r"
    by (rule all_state_matched [OF assms(2)], rule directional_match_matched [OF _ sc])
      (use assms(4,5) in \<open>auto dest: set_zip_leftD set_zip_rightD\<close>)
  then show ?thesis using assms(3) by (auto simp: instances_def list_all2_iff split: prod.split elim!: matched_weaken)
qed

lemma two_matched:
  assumes sc: "scoped N (me_stash env)" and "and_state b (directional_match_ty env (r1, k1)) (directional_match_ty env (r2, k2)) = Some r"
    and "ty_ptr (me_stash env) r1" "ty_ptr (me_stash env) r2" "known_ok env k1" "known_ok env k2"
  shows "matched env (\<lambda>s. type_instance env s r1 k1 \<and> type_instance env s r2 k2) b r"
  by (rule and_state_matched [OF assms(2)])
    (use directional_match_matched [OF _ sc, of "(r1, k1)"] directional_match_matched [OF _ sc, of "(r2, k2)"] assms(3-) in auto)

lemma atom_matched:
  assumes sc: "scoped N (me_stash env)" and "directional_match_atom env required known b = Some r"
    and "\<forall>p \<in> atom_tys (me_stash env) required. ty_ptr (me_stash env) p" and "\<forall>p \<in> atom_tys (me_stash env) known. known_ok env p"
  shows "fst r \<Longrightarrow> matched env (\<lambda>s. goal_instance env s (GoalAtom required) (GoalAtom known)) b r"
proof (cases required; cases known)
  fix r1 tr k1 tk assume t: "fst r" and req: "required = AtomTraitImpl r1 tr" and kn: "known = AtomTraitImpl k1 tk"
  then obtain rs ks where "tr_trait_sym tr = tr_trait_sym tk" and g: "get_tys (me_stash env) (tr_args tr) = Some rs"
      "get_tys (me_stash env) (tr_args tk) = Some ks" and l: "length rs = length ks"
    and m: "and_state b (directional_match_ty env (r1, k1)) (all_state (directional_match_ty env) (zip rs ks)) = Some r"
    using assms(2) t by (auto simp: directional_match_atom_def opt_simps split: if_splits)
  have "matched env (\<lambda>s. type_instance env s r1 k1 \<and> instances env s rs ks) b r"
    by (rule and_state_matched [OF m])
      (use directional_match_matched [OF _ sc, of "(r1, k1)"] pairs_matched [OF sc] l assms(3,4) g in \<open>auto simp: req kn atom_tys_def\<close>)
  then show ?thesis by (rule matched_weaken) (use \<open>tr_trait_sym tr = tr_trait_sym tk\<close> g in \<open>auto simp: req kn\<close>)
next
  fix r1 r2 k1 k2 assume req: "required = AtomEquals r1 r2" and kn: "known = AtomEquals k1 k2"
  note tys = assms(3,4) [unfolded req kn atom_tys_def atom.case, simplified]
  obtain c direct where a: "and_state b (directional_match_ty env (r1, k1)) (directional_match_ty env (r2, k2)) = Some (c, direct)"
    and rest: "(if c then Some (True, direct)
       else and_state b (directional_match_ty env (r1, k2)) (directional_match_ty env (r2, k1))) = Some r"
    using assms(2) by (auto simp: directional_match_atom_def req kn opt_simps)
  show ?thesis
  proof (cases c)
    case True
    then have "r = (c, direct)" using rest by simp
    then show ?thesis using two_matched [OF sc a] tys by (auto simp: req kn elim!: matched_weaken)
  next
    case False
    then have "and_state b (directional_match_ty env (r1, k2)) (directional_match_ty env (r2, k1)) = Some r" using rest by simp
    from two_matched [OF sc this] tys show ?thesis by (auto simp: req kn elim!: matched_weaken)
  qed
qed (use assms(2) in \<open>auto simp: directional_match_atom_def\<close>)

lemma goal_matched:
  assumes sc: "scoped N (me_stash env)" and "directional_match_goal env required known b = Some r" and "fst r"
    and "\<forall>p \<in> goal_tys (me_stash env) required. ty_ptr (me_stash env) p" and "\<forall>p \<in> goal_tys (me_stash env) known. known_ok env p"
  shows "matched env (\<lambda>s. goal_instance env s required known) b r"
proof (cases "(\<exists>x. required = GoalAtom x) \<and> (\<exists>y. known = GoalAtom y)")
  case True
  then show ?thesis using assms(2-) atom_matched [OF sc, of _ _ b r] by (auto simp: directional_match_goal_def goal_tys_def)
next
  case False
  then have "required = known" "r = (True, b)" using assms(2,3) by (auto simp: directional_match_goal_def split: goal.splits)
  then show ?thesis using False by (cases known) (auto intro: matched_refl)
qed

lemma residual_matched:
  assumes sc: "scoped N (me_stash env)" and "match_residual env goals required b = Some r"
    and "\<forall>p \<in> goal_tys (me_stash env) required. ty_ptr (me_stash env) p" and "\<forall>g \<in> set goals. \<forall>p \<in> goal_tys (me_stash env) g. known_ok env p"
  shows "matched env (\<lambda>s. \<exists>known \<in> set goals. goal_instance env s required known) b r"
  using assms(2-)
proof (induction goals)
  case (Cons known goals)
  then obtain c trial where d: "directional_match_goal env required known b = Some (c, trial)"
    and rest: "(if c then Some (True, trial) else match_residual env goals required b) = Some r" by (auto simp: opt_simps)
  show ?case
  proof (cases c)
    case True
    then have "r = (c, trial)" using rest by simp
    then show ?thesis using goal_matched [OF sc d] True Cons.prems(2,3) by (auto elim!: matched_weaken)
  next
    case False
    then have "matched env (\<lambda>s. \<exists>known \<in> set goals. goal_instance env s required known) b r"
      using rest Cons by simp
    then show ?thesis by (rule matched_weaken) auto
  qed
qed (auto simp: matched_def)

end
