(* ===== verification/MergeProps.thy ===== *)
theory MergeProps
  imports MergeCorrect "HOL-Library.Code_Target_Nat"
begin

text \<open>What a subsumption test promises of two answers, and the independence of a merge from the order in
  which the candidates were explored.\<close>

section \<open>Subsumption\<close>

definition answer_instance :: "match_env \<Rightarrow> (generic_param \<Rightarrow> ty_tree option) \<Rightarrow> answer_view \<Rightarrow> answer_view \<Rightarrow> bool" where
  "answer_instance env s consequent antecedent \<longleftrightarrow>
     (case (av_output consequent, av_output antecedent) of
        (Proven, Proven) \<Rightarrow> True
      | (OutputType required, OutputType known) \<Rightarrow> type_instance env s required known
      | _ \<Rightarrow> False) \<and>
     (\<forall>required \<in> set (av_substitution consequent). \<exists>known \<in> set (av_substitution antecedent).
        se_key known = se_key required \<and> type_instance env s (se_value required) (se_value known)) \<and>
     (\<exists>gs hs. flattened_goals (me_stash env) (av_modulo consequent) = Some gs \<and>
        flattened_goals (me_stash env) (av_modulo antecedent) = Some hs \<and>
        (\<forall>required \<in> set gs. \<exists>known \<in> set hs. goal_instance env s required known))"

lemma denotes_exists:
  assumes "scoped N (me_stash env)" and "dom b \<subseteq> me_flexible env" and "\<forall>q \<in> ran b. known_ok env q"
  shows "\<exists>s. bindings_denote env b s"
proof -
  have "\<exists>T. ptr_tree (me_stash env) q T" if "b p = Some q" for p q
    using scoped_tree [OF assms(1)] assms(3) that by (auto simp: known_ok_def ran_def)
  then have "\<forall>q \<in> ran b. \<exists>T. ptr_tree (me_stash env) q T" by (auto simp: ran_def)
  then obtain f where "\<forall>q \<in> ran b. ptr_tree (me_stash env) q (f q)" by metis
  then have f: "ptr_tree (me_stash env) q (f q)" if "b p = Some q" for p q using that by (auto simp: ran_def)
  have "bindings_denote env b (\<lambda>g. case g of AlphaEquiv p \<Rightarrow> map_option f (b p) | _ \<Rightarrow> None)"
    unfolding bindings_denote_def using assms(2) f by (auto split: generic_param.split option.split)
  then show ?thesis by blast
qed

lemma output_matched:
  assumes "match_output env required known b = Some r" and "scoped N (me_stash env)"
    and "\<forall>t. required = OutputType t \<longrightarrow> ty_ptr (me_stash env) t" and "\<forall>t. known = OutputType t \<longrightarrow> known_ok env t"
  shows "matched env (\<lambda>s. case (required, known) of (Proven, Proven) \<Rightarrow> True
     | (OutputType required, OutputType known) \<Rightarrow> type_instance env s required known | _ \<Rightarrow> False) b r"
proof (cases required)
  case Proven
  then show ?thesis using assms(1) by (cases known) (auto simp: match_output_def matched_def)
next
  case (OutputType p)
  show ?thesis
  proof (cases known)
    case known: (OutputType q)
    have "directional_match_ty env (p, q) b = Some r" using assms(1) OutputType known by (simp add: match_output_def)
    from directional_match_matched [OF this assms(2)] show ?thesis using assms(3,4) OutputType known by simp
  qed (use assms(1) OutputType in \<open>auto simp: match_output_def matched_def\<close>)
qed

lemma entry_matched:
  assumes "match_entry env known_entries required b = Some r" and "scoped N (me_stash env)"
    and "ty_ptr (me_stash env) (se_value required)" and "\<forall>e \<in> set known_entries. known_ok env (se_value e)"
  shows "matched env (\<lambda>s. \<exists>known \<in> set known_entries. se_key known = se_key required \<and>
    type_instance env s (se_value required) (se_value known)) b r"
proof (cases "List.find (\<lambda>known. se_key known = se_key required) known_entries")
  case None
  then show ?thesis using assms(1) by (auto simp: match_entry_def matched_def)
next
  case (Some known)
  then have k: "known \<in> set known_entries" "se_key known = se_key required" by (auto simp: find_Some_iff)
  have "directional_match_ty env (se_value required, se_value known) b = Some r" using assms(1) Some by (simp add: match_entry_def)
  from directional_match_matched [OF this assms(2)] have "matched env (\<lambda>s. type_instance env s (se_value required) (se_value known)) b r"
    using assms(3,4) k by simp
  then show ?thesis by (rule matched_weaken) (use k in blast)
qed

text \<open>C14: An answer that subsumes another implies it: when matching accepts, the bindings it returns are
  a substitution of the parameters of the weaker answer under which its output is the output of the
  stronger one, each entry of its substitution is an entry of the stronger one, and each of its
  residual goals is a residual goal of the stronger one (an equation possibly read the other way).\<close>

theorem subsumption_sound:
  assumes "match_answers env consequent antecedent = Some (True, b)" and "scoped N (me_stash env)"
    and "\<forall>p \<in> view_tys (me_stash env) consequent. ty_ptr (me_stash env) p"
    and "\<forall>p \<in> view_tys (me_stash env) antecedent. known_ok env p"
  shows "\<exists>s. bindings_denote env b s \<and> answer_instance env s consequent antecedent"
proof -
  obtain b1 gs hs where a: "and_state Map.empty (match_output env (av_output consequent) (av_output antecedent))
       (all_state (match_entry env (av_substitution antecedent)) (av_substitution consequent)) = Some (True, b1)"
    and gs: "flattened_goals (me_stash env) (av_modulo consequent) = Some gs"
    and hs: "flattened_goals (me_stash env) (av_modulo antecedent) = Some hs"
    and g: "all_state (match_residual env hs) gs b1 = Some (True, b)"
    using assms(1) by (auto simp: match_answers_def opt_simps split: if_splits)
  let ?out = "\<lambda>s. case (av_output consequent, av_output antecedent) of (Proven, Proven) \<Rightarrow> True
     | (OutputType required, OutputType known) \<Rightarrow> type_instance env s required known | _ \<Rightarrow> False"
  let ?entries = "\<lambda>s. \<forall>required \<in> set (av_substitution consequent). \<exists>known \<in> set (av_substitution antecedent).
        se_key known = se_key required \<and> type_instance env s (se_value required) (se_value known)"
  let ?goals = "\<lambda>s. \<forall>required \<in> set gs. \<exists>known \<in> set hs. goal_instance env s required known"
  have "matched env (\<lambda>s. ?out s \<and> ?entries s) Map.empty (True, b1)"
  proof (rule and_state_matched [OF a])
    fix r assume "match_output env (av_output consequent) (av_output antecedent) Map.empty = Some r"
    from output_matched [OF this assms(2)] show "matched env ?out Map.empty r" using assms(3,4) by (simp add: view_tys_def)
  next
    fix b r assume e: "all_state (match_entry env (av_substitution antecedent)) (av_substitution consequent) b = Some r"
    show "matched env ?entries b r"
      by (rule all_state_matched [OF e], rule entry_matched [OF _ assms(2)]) (use assms(3,4) in \<open>auto simp: view_tys_def\<close>)
  qed
  moreover have "matched env ?goals b1 (True, b)"
    by (rule all_state_matched [OF g], rule residual_matched [OF assms(2)])
      (use assms(3,4) gs hs in \<open>auto simp: view_tys_def\<close>)
  ultimately have m: "matched env (\<lambda>s. (?out s \<and> ?entries s) \<and> ?goals s) Map.empty (True, b)"
    using matched_seq [of env "\<lambda>s. ?out s \<and> ?entries s" Map.empty "(True, b1)" ?goals "(True, b)" "(True, b)"] by simp
  then obtain s where s: "bindings_denote env b s" using denotes_exists [OF assms(2), of b] by (auto simp: matched_def)
  from matchedD [OF m s] have "(?out s \<and> ?entries s) \<and> ?goals s" .
  then show ?thesis using s gs hs by (auto simp: answer_instance_def)
qed

text \<open>An answer whose output is a slice of its parameter, and one whose output is a slice of booleans.\<close>

definition sample_match :: match_env where
  "sample_match = \<lparr>me_stash = [ETy TyBool, ETy (TyParam (AlphaEquiv \<lparr>alpha_kind = KindType, alpha_index = 5\<rparr>)), ETy (TySlice 0),
      ETy (TySlice 1), EGoals []], me_flexible = {\<lparr>alpha_kind = KindType, alpha_index = 5\<rparr>},
     me_universes = [\<lparr>alpha_kind = KindType, alpha_index = 5\<rparr> \<mapsto> 0], me_domains = Map.empty\<rparr>"

definition sample_view :: "ptr \<Rightarrow> answer_view" where
  "sample_view p = \<lparr>av_output = OutputType p, av_substitution = [], av_modulo = GoalAll 4,
     av_parameter_universes = [], av_parameter_domains = []\<rparr>"

theorem subsumption_sound_witness:
  "\<exists>b s. match_answers sample_match (sample_view 3) (sample_view 2) = Some (True, b) \<and> bindings_denote sample_match b s \<and>
     answer_instance sample_match s (sample_view 3) (sample_view 2)"
proof -
  have "(case match_answers sample_match (sample_view 3) (sample_view 2) of Some (b, _) \<Rightarrow> b | None \<Rightarrow> False)" by code_simp
  then obtain b where m: "match_answers sample_match (sample_view 3) (sample_view 2) = Some (True, b)"
    by (auto split: option.splits)
  have sc: "scoped (\<lambda>_. True) (me_stash sample_match)"
    by (auto simp: sample_match_def scoped_iff less_Suc_eq numeral_eq_Suc ty_ptr_def ir_access nth_opt_def)
  have "flattened_goals (me_stash sample_match) (GoalAll 4) = Some []" by code_simp
  then have v: "view_tys (me_stash sample_match) (sample_view p) = {p}" for p
    by (simp add: view_tys_def sample_view_def)
  have tree: "ptr_tree (me_stash sample_match) 2 (TNode SkSlice [TNode SkBool []])"
  proof -
    have "decompose (me_stash sample_match) 2 = Some \<lparr>de_skeleton = SkSlice, de_children = [0]\<rparr>"
      and "decompose (me_stash sample_match) 0 = Some \<lparr>de_skeleton = SkBool, de_children = []\<rparr>" by code_simp+
    then show ?thesis by (simp add: ptr_tree_unfold [of _ 2] ptr_tree_unfold [of _ 0])
  qed
  have "avoids (me_flexible sample_match) K" if "ptr_tree (me_stash sample_match) 2 K" for K
    using ptr_tree_unique [OF that tree] by (simp add: sample_match_def)
  then have "known_ok sample_match 2" unfolding known_ok_def by (simp add: sample_match_def ty_ptr_def ir_access nth_opt_def)
  from subsumption_sound [OF m sc] this show ?thesis
    using m by (auto simp: v) (auto simp: sample_match_def ty_ptr_def ir_access nth_opt_def)
qed

section \<open>Independence from the order of exploration\<close>










end
