(* ===== verification/Whiteboard.thy ===== *)
theory Whiteboard
  imports Runtime
begin

text \<open>
  \<open>Whiteboard\<close> of \<open>check/solve/prove.rs\<close>: the table of proof frames that one solver query shares, and the
  loop that drives their producers.

  A producer is a future, foreign code whose only effect here is to request, poll and drop proof
  futures: it is kept as the list of the proof futures that it owns, each a frame and a subscription.
  Queries are compared by equality and results are opaque, so both are type parameters.  A waker that
  a proof future is polled with leads to a producer or to the root future.  \<open>None\<close> is a panic, or a loop
  that does not return.
\<close>

section \<open>Frames\<close>

type_synonym frame_id = nat
type_synonym subscription_id = nat
type_synonym proof_future = "frame_id \<times> subscription_id"

datatype proof_waker = WakeRoot | WakeProducer frame_id

datatype 'r frame_state = FramePending | FrameReady 'r | FrameAbandoned

record ('q, 'r) proof_frame =
  pf_query :: 'q
  pf_parent :: "frame_id option"
  pf_remaining_depth :: nat
  pf_state :: "'r frame_state"
  pf_producer_started :: bool
  pf_subscriptions :: "(subscription_id \<times> proof_waker option) list"

type_synonym 'q frame_key = "'q \<times> frame_id option \<times> nat"

record ('q, 'r) whiteboard =
  wb_next_subscription :: nat
  wb_frames :: "('q, 'r) proof_frame list"
  wb_entries :: "'q frame_key \<Rightarrow> frame_id option"
  wb_producers :: "proof_future list option list"
  wb_ready :: "frame_id ready_queue"
  wb_root_ready :: bool

definition whiteboard_new :: "('q, 'r) whiteboard" where
  "whiteboard_new = \<lparr>wb_next_subscription = 0, wb_frames = [], wb_entries = Map.empty, wb_producers = [],
     wb_ready = ready_queue_new, wb_root_ready = True\<rparr>"

definition max_proof_depth :: nat where
  "max_proof_depth = 64"

definition frame_key :: "('q, 'r) proof_frame \<Rightarrow> 'q frame_key" where
  "frame_key frame = (pf_query frame, pf_parent frame, pf_remaining_depth frame)"

fun is_pending :: "'r frame_state \<Rightarrow> bool" where
  "is_pending FramePending = True"
| "is_pending _ = False"

definition set_frame :: "frame_id \<Rightarrow> ('q, 'r) proof_frame \<Rightarrow> ('q, 'r) whiteboard \<Rightarrow> ('q, 'r) whiteboard" where
  "set_frame f frame wb = wb\<lparr>wb_frames := (wb_frames wb)[f := frame]\<rparr>"

definition set_producer :: "frame_id \<Rightarrow> proof_future list option \<Rightarrow> ('q, 'r) whiteboard \<Rightarrow> ('q, 'r) whiteboard" where
  "set_producer f producer wb = wb\<lparr>wb_producers := (wb_producers wb)[f := producer]\<rparr>"

fun wake_proof :: "proof_waker \<Rightarrow> ('q, 'r) whiteboard \<Rightarrow> ('q, 'r) whiteboard" where
  "wake_proof WakeRoot wb = wb\<lparr>wb_root_ready := True\<rparr>"
| "wake_proof (WakeProducer f) wb = wb\<lparr>wb_ready := enqueue (wb_ready wb) f\<rparr>"

section \<open>Requests\<close>

text \<open>Whether the query is that of the frame or of one of its ancestors.\<close>

partial_function (option) has_ancestor :: "('q, 'r) whiteboard \<Rightarrow> 'q \<Rightarrow> frame_id option \<Rightarrow> bool option" where
  "has_ancestor wb query ancestor = (case ancestor of
     None \<Rightarrow> Some False
   | Some frame \<Rightarrow> do {
       data \<leftarrow> nth_opt (wb_frames wb) frame;
       if pf_query data = query then Some True else has_ancestor wb query (pf_parent data) })"

datatype 'r request_outcome = Immediate 'r | Subscribed frame_id subscription_id

definition find_or_add_frame :: "'q frame_key \<Rightarrow> ('q, 'r) whiteboard \<Rightarrow> frame_id \<times> ('q, 'r) whiteboard" where
  "find_or_add_frame key wb = (case wb_entries wb key of
     Some frame \<Rightarrow> (frame, wb)
   | None \<Rightarrow> (let frame = length (wb_frames wb) in
       (frame, wb\<lparr>
         wb_frames := wb_frames wb @ [\<lparr>pf_query = fst key, pf_parent = fst (snd key), pf_remaining_depth = snd (snd key),
           pf_state = FramePending, pf_producer_started = False, pf_subscriptions = []\<rparr>],
         wb_producers := wb_producers wb @ [None],
         wb_entries := (wb_entries wb)(key \<mapsto> frame)\<rparr>)))"

definition subscribe :: "'q frame_key \<Rightarrow> ('q, 'r) whiteboard \<Rightarrow> ('r request_outcome \<times> ('q, 'r) whiteboard) option" where
  "subscribe key wb = do {
     let (frame, wb) = find_or_add_frame key wb;
     let subscription = wb_next_subscription wb;
     check (subscription + 1 < 2 ^ 32);
     data \<leftarrow> nth_opt (wb_frames wb) frame;
     check (subscription \<notin> fst ` set (pf_subscriptions data));
     let start = (\<not> pf_producer_started data);
     let wb = set_frame frame (data\<lparr>pf_subscriptions := pf_subscriptions data @ [(subscription, None)], pf_producer_started := True\<rparr>)
       (wb\<lparr>wb_next_subscription := subscription + 1\<rparr>);
     if start then do {
       producer \<leftarrow> nth_opt (wb_producers wb) frame;
       check (producer = None);
       let wb = set_producer frame (Some []) wb;
       Some (Subscribed frame subscription, wb\<lparr>wb_ready := enqueue (wb_ready wb) frame\<rparr>) }
     else Some (Subscribed frame subscription, wb) }"

text \<open>\<open>no\<close> is the negative result, the answer to a query that is its own ancestor.\<close>

definition request ::
  "'r \<Rightarrow> 'q \<Rightarrow> frame_id option \<Rightarrow> nat \<Rightarrow> ('q, 'r) whiteboard \<Rightarrow> ('r request_outcome \<times> ('q, 'r) whiteboard) option" where
  "request no query parent depth wb = do {
     check (depth \<le> max_proof_depth);
     let remaining_depth = max_proof_depth - depth;
     cyclic \<leftarrow> has_ancestor wb query parent;
     if cyclic then Some (Immediate no, wb)
     else do {
       let key = (query, parent, remaining_depth);
       case wb_entries wb key of
         None \<Rightarrow> subscribe key wb
       | Some frame \<Rightarrow> do {
           data \<leftarrow> nth_opt (wb_frames wb) frame;
           case pf_state data of
             FrameReady result \<Rightarrow> Some (Immediate result, wb)
           | FramePending \<Rightarrow> subscribe key wb
           | FrameAbandoned \<Rightarrow> None } } }"

section \<open>Proof futures\<close>

text \<open>Polling a subscribed future; a result ends it.\<close>

definition set_waker :: "subscription_id \<Rightarrow> proof_waker \<Rightarrow> (subscription_id \<times> proof_waker option) list \<Rightarrow> (subscription_id \<times> proof_waker option) list" where
  "set_waker s w subs = filter (\<lambda>x. fst x \<noteq> s) subs @ [(s, Some w)]"

definition poll_proof :: "proof_future \<Rightarrow> proof_waker \<Rightarrow> ('q, 'r) whiteboard \<Rightarrow> ('r option \<times> ('q, 'r) whiteboard) option" where
  "poll_proof fs w wb = do {
     data \<leftarrow> nth_opt (wb_frames wb) (fst fs);
     case pf_state data of
       FrameReady result \<Rightarrow> Some (Some result, wb)
     | FramePending \<Rightarrow> Some (None, set_frame (fst fs) (data\<lparr>pf_subscriptions := set_waker (snd fs) w (pf_subscriptions data)\<rparr>) wb)
     | FrameAbandoned \<Rightarrow> None }"

text \<open>Dropping a proof future: the last one of a pending frame abandons the frame, and its producer with
  the futures that it owns.\<close>

definition leave_frame :: "frame_id \<Rightarrow> subscription_id \<Rightarrow> ('q, 'r) whiteboard \<Rightarrow> (proof_future list option \<times> ('q, 'r) whiteboard) option" where
  "leave_frame f s wb = do {
     data \<leftarrow> nth_opt (wb_frames wb) f;
     let data = data\<lparr>pf_subscriptions := filter (\<lambda>x. fst x \<noteq> s) (pf_subscriptions data)\<rparr>;
     if is_pending (pf_state data) \<and> pf_subscriptions data = [] then do {
       producer \<leftarrow> nth_opt (wb_producers wb) f;
       Some (producer, set_producer f None (set_frame f (data\<lparr>pf_state := FrameAbandoned\<rparr>)
         (wb\<lparr>wb_entries := (wb_entries wb)(frame_key data := None)\<rparr>))) }
     else Some (None, set_frame f data wb) }"

partial_function (option) unsubscribe :: "proof_future \<Rightarrow> ('q, 'r) whiteboard \<Rightarrow> ('q, 'r) whiteboard option" where
  "unsubscribe fs wb = do {
     (producer, wb) \<leftarrow> leave_frame (fst fs) (snd fs) wb;
     case producer of
       None \<Rightarrow> Some wb
     | Some owned \<Rightarrow> fold_state unsubscribe owned (wb\<lparr>wb_ready := remove (wb_ready wb) (fst fs)\<rparr>) }"

section \<open>Driving the producers\<close>

text \<open>One round of the inner loop: the next queued frame and its producer, if it still has one.\<close>

definition take_producer :: "('q, 'r) whiteboard \<Rightarrow> ((frame_id \<times> proof_future list option) option \<times> ('q, 'r) whiteboard) option" where
  "take_producer wb = (case pop (wb_ready wb) of
     (None, _) \<Rightarrow> Some (None, wb)
   | (Some frame, ready) \<Rightarrow> do {
       let wb = wb\<lparr>wb_ready := ready\<rparr>;
       data \<leftarrow> nth_opt (wb_frames wb) frame;
       if is_pending (pf_state data) then do {
         producer \<leftarrow> nth_opt (wb_producers wb) frame;
         Some (Some (frame, producer), set_producer frame None wb) }
       else Some (Some (frame, None), wb) })"

text \<open>A producer that returned \<open>Pending\<close> is put back; one whose frame is no longer pending is dropped.\<close>

definition put_back :: "frame_id \<Rightarrow> proof_future list \<Rightarrow> ('q, 'r) whiteboard \<Rightarrow> ('q, 'r) whiteboard option" where
  "put_back frame owned wb = do {
     data \<leftarrow> nth_opt (wb_frames wb) frame;
     if is_pending (pf_state data) then do {
       producer \<leftarrow> nth_opt (wb_producers wb) frame;
       check (producer = None);
       Some (set_producer frame (Some owned) wb) }
     else fold_state unsubscribe owned wb }"

text \<open>\<open>ord\<close> is the order in which the hash map of subscriptions is drained.\<close>

definition complete ::
  "((subscription_id \<times> proof_waker option) list \<Rightarrow> (subscription_id \<times> proof_waker option) list) \<Rightarrow>
     frame_id \<Rightarrow> 'r \<Rightarrow> ('q, 'r) whiteboard \<Rightarrow> ('q, 'r) whiteboard option" where
  "complete ord frame result wb = do {
     data \<leftarrow> nth_opt (wb_frames wb) frame;
     check (is_pending (pf_state data));
     let wakers = List.map_filter snd (ord (pf_subscriptions data));
     let wb = set_frame frame (data\<lparr>pf_state := FrameReady result, pf_subscriptions := []\<rparr>) wb;
     let wb = wb\<lparr>wb_ready := remove (wb_ready wb) frame\<rparr>;
     Some (fold wake_proof wakers wb) }"

text \<open>The assertions that end a query.\<close>

definition drained :: "('q, 'r) whiteboard \<Rightarrow> bool" where
  "drained wb \<longleftrightarrow> (\<forall>frame \<in> set (wb_frames wb). \<not> is_pending (pf_state frame)) \<and>
     (\<forall>producer \<in> set (wb_producers wb). producer = None) \<and>
     (\<forall>frame \<in> set (wb_frames wb). pf_subscriptions frame = []) \<and>
     is_empty (wb_ready wb)"

section \<open>A query in progress\<close>

text \<open>
  One agent runs at a time: the root future while \<open>so_root_running\<close>, or the producer that was taken from
  the board.  The root future is the list of the proof futures that it owns, too; a request that is made
  before the loop counts as its first step.
\<close>

record ('q, 'r) solving =
  so_board :: "('q, 'r) whiteboard"
  so_root :: "proof_future list"
  so_root_running :: bool
  so_running :: "(frame_id \<times> proof_future list) option"

definition solving_new :: "('q, 'r) solving" where
  "solving_new = \<lparr>so_board = whiteboard_new, so_root = [], so_root_running = False, so_running = None\<rparr>"

text \<open>The frame of the agent that runs, the waker it polls with, and the futures it owns.\<close>

definition agent :: "('q, 'r) solving \<Rightarrow> frame_id option" where
  "agent s = map_option fst (so_running s)"

definition agent_waker :: "('q, 'r) solving \<Rightarrow> proof_waker" where
  "agent_waker s = (case so_running s of None \<Rightarrow> WakeRoot | Some (f, _) \<Rightarrow> WakeProducer f)"

definition agent_owned :: "('q, 'r) solving \<Rightarrow> proof_future list" where
  "agent_owned s = (case so_running s of None \<Rightarrow> so_root s | Some (_, owned) \<Rightarrow> owned)"

definition set_owned :: "proof_future list \<Rightarrow> ('q, 'r) solving \<Rightarrow> ('q, 'r) solving" where
  "set_owned owned s = (case so_running s of
     None \<Rightarrow> s\<lparr>so_root := owned\<rparr>
   | Some (f, _) \<Rightarrow> s\<lparr>so_running := Some (f, owned)\<rparr>)"

definition agent_runs :: "('q, 'r) solving \<Rightarrow> bool" where
  "agent_runs s \<longleftrightarrow> so_root_running s \<or> so_running s \<noteq> None"

text \<open>The place of the new future among those that the agent owns decides when it is dropped; \<open>at\<close> is any.\<close>

definition agent_requests :: "'r \<Rightarrow> 'q \<Rightarrow> nat \<Rightarrow> nat \<Rightarrow> ('q, 'r) solving \<Rightarrow> ('q, 'r) solving option" where
  "agent_requests no query depth at s = do {
     (outcome, wb) \<leftarrow> request no query (agent s) depth (so_board s);
     let s = s\<lparr>so_board := wb\<rparr>;
     Some (case outcome of
         Immediate _ \<Rightarrow> s
       | Subscribed f sub \<Rightarrow> set_owned (take at (agent_owned s) @ (f, sub) # drop at (agent_owned s)) s) }"

definition agent_polls :: "proof_future \<Rightarrow> ('q, 'r) solving \<Rightarrow> ('q, 'r) solving option" where
  "agent_polls fs s = do {
     check (fs \<in> set (agent_owned s));
     (result, wb) \<leftarrow> poll_proof fs (agent_waker s) (so_board s);
     let s = s\<lparr>so_board := wb\<rparr>;
     Some (if result = None then s else set_owned (remove1 fs (agent_owned s)) s) }"

definition agent_drops :: "proof_future \<Rightarrow> ('q, 'r) solving \<Rightarrow> ('q, 'r) solving option" where
  "agent_drops fs s = do {
     check (fs \<in> set (agent_owned s));
     wb \<leftarrow> unsubscribe fs (so_board s);
     Some (set_owned (remove1 fs (agent_owned s)) (s\<lparr>so_board := wb\<rparr>)) }"

definition producer_taken :: "('q, 'r) solving \<Rightarrow> ('q, 'r) solving option" where
  "producer_taken s = do {
     (r, wb) \<leftarrow> take_producer (so_board s);
     Some (s\<lparr>so_board := wb, so_running := (case r of Some (f, Some owned) \<Rightarrow> Some (f, owned) | _ \<Rightarrow> None)\<rparr>) }"

definition producer_waits :: "('q, 'r) solving \<Rightarrow> ('q, 'r) solving option" where
  "producer_waits s = do {
     (f, owned) \<leftarrow> so_running s;
     wb \<leftarrow> put_back f owned (so_board s);
     Some (s\<lparr>so_board := wb, so_running := None\<rparr>) }"

definition producer_returns ::
  "((subscription_id \<times> proof_waker option) list \<Rightarrow> (subscription_id \<times> proof_waker option) list) \<Rightarrow> 'r \<Rightarrow>
     ('q, 'r) solving \<Rightarrow> ('q, 'r) solving option" where
  "producer_returns ord result s = do {
     (f, owned) \<leftarrow> so_running s;
     check (owned = []);
     wb \<leftarrow> complete ord f result (so_board s);
     Some (s\<lparr>so_board := wb, so_running := None\<rparr>) }"

text \<open>The root future runs when it was woken, until it waits.  Nothing left to run is the deadlock that
  ends the loop with a panic.\<close>

definition root_taken :: "('q, 'r) solving \<Rightarrow> ('q, 'r) solving option" where
  "root_taken s = do {
     check (wb_root_ready (so_board s));
     Some (s\<lparr>so_board := (so_board s)\<lparr>wb_root_ready := False\<rparr>, so_root_running := True\<rparr>) }"

definition root_waits :: "('q, 'r) solving \<Rightarrow> ('q, 'r) solving option" where
  "root_waits s = do { check (so_root_running s); Some (s\<lparr>so_root_running := False\<rparr>) }"

definition deadlocked :: "('q, 'r) solving \<Rightarrow> bool" where
  "deadlocked s \<longleftrightarrow> \<not> agent_runs s \<and> \<not> wb_root_ready (so_board s) \<and> is_empty (wb_ready (so_board s))"

text \<open>Every interleaving: the agent that runs requests, polls and drops as it likes, until it waits or
  returns; then another one is taken.\<close>

inductive solving_step :: "('q, 'r) solving \<Rightarrow> ('q, 'r) solving \<Rightarrow> bool" where
  requests: "agent_runs s \<Longrightarrow> agent_requests no query depth at s = Some s' \<Longrightarrow> solving_step s s'"
| polls: "agent_runs s \<Longrightarrow> agent_polls fs s = Some s' \<Longrightarrow> solving_step s s'"
| drops: "agent_runs s \<Longrightarrow> agent_drops fs s = Some s' \<Longrightarrow> solving_step s s'"
| root_taken: "\<not> agent_runs s \<Longrightarrow> root_taken s = Some s' \<Longrightarrow> solving_step s s'"
| root_waits: "root_waits s = Some s' \<Longrightarrow> solving_step s s'"
| taken: "\<not> agent_runs s \<Longrightarrow> producer_taken s = Some s' \<Longrightarrow> solving_step s s'"
| waits: "producer_waits s = Some s' \<Longrightarrow> solving_step s s'"
| returns: "producer_returns ord result s = Some s' \<Longrightarrow> (\<And>xs. set (ord xs) = set xs) \<Longrightarrow> solving_step s s'"

inductive solving_reachable :: "('q, 'r) solving \<Rightarrow> bool" where
  start: "solving_reachable solving_new"
| step: "solving_reachable s \<Longrightarrow> solving_step s s' \<Longrightarrow> solving_reachable s'"

declare has_ancestor.simps [simp del, code] and unsubscribe.simps [simp del, code]

end
