(* ===== verification/WhiteboardCorrect.thy ===== *)
theory WhiteboardCorrect
  imports Whiteboard RuntimeCorrect
begin

text \<open>
  The invariant of the whiteboard: a frame is asked for by one agent only, its parent; it is pending
  exactly while someone waits for it and its producer exists; a lookup key leads to a live frame.  So no
  operation of an agent panics, and a query whose root future holds no proof future is drained.
\<close>

section \<open>The invariant\<close>

abbreviation "frame_of wb f \<equiv> wb_frames wb ! f"

definition pending :: "('q, 'r) whiteboard \<Rightarrow> frame_id \<Rightarrow> bool" where
  "pending wb f \<longleftrightarrow> f < length (wb_frames wb) \<and> is_pending (pf_state (frame_of wb f))"

definition subscribed :: "('q, 'r) whiteboard \<Rightarrow> frame_id \<Rightarrow> subscription_id set" where
  "subscribed wb f = fst ` set (pf_subscriptions (frame_of wb f))"

definition stored :: "('q, 'r) whiteboard \<Rightarrow> frame_id \<Rightarrow> proof_future list" where
  "stored wb p = (if p < length (wb_producers wb) then (case wb_producers wb ! p of Some l \<Rightarrow> l | None \<Rightarrow> []) else [])"

definition owned_by :: "('q, 'r) solving \<Rightarrow> frame_id option \<Rightarrow> proof_future list" where
  "owned_by s a = (case a of
     None \<Rightarrow> so_root s
   | Some p \<Rightarrow> if agent s = Some p then snd (the (so_running s)) else stored (so_board s) p)"

fun waker_of :: "frame_id option \<Rightarrow> proof_waker" where
  "waker_of None = WakeRoot"
| "waker_of (Some p) = WakeProducer p"

definition shape_ok :: "('q, 'r) whiteboard \<Rightarrow> bool" where
  "shape_ok wb \<longleftrightarrow> length (wb_producers wb) = length (wb_frames wb) \<and>
     (\<forall>f < length (wb_frames wb). \<forall>p. pf_parent (frame_of wb f) = Some p \<longrightarrow> p < f)"

definition entries_ok :: "('q, 'r) whiteboard \<Rightarrow> bool" where
  "entries_ok wb \<longleftrightarrow> (\<forall>k f. wb_entries wb k = Some f \<longleftrightarrow>
     f < length (wb_frames wb) \<and> frame_key (frame_of wb f) = k \<and> pf_state (frame_of wb f) \<noteq> FrameAbandoned)"

definition frame_ok :: "proof_future set \<Rightarrow> ('q, 'r) solving \<Rightarrow> frame_id \<Rightarrow> bool" where
  "frame_ok L s f \<longleftrightarrow> (let wb = so_board s; data = frame_of wb f in
     pf_producer_started data \<and>
     (is_pending (pf_state data) \<longleftrightarrow> wb_producers wb ! f \<noteq> None \<or> agent s = Some f) \<and>
     (agent s = Some f \<longrightarrow> wb_producers wb ! f = None) \<and>
     (is_pending (pf_state data) \<longleftrightarrow> pf_subscriptions data \<noteq> []) \<and>
     distinct (map fst (pf_subscriptions data)) \<and>
     (\<forall>x \<in> subscribed wb f. x < wb_next_subscription wb \<and> (f, x) \<in> set (owned_by s (pf_parent data)) \<union> L) \<and>
     (\<forall>x w. (x, Some w) \<in> set (pf_subscriptions data) \<longrightarrow> w = waker_of (pf_parent data)))"

definition future_ok :: "('q, 'r) whiteboard \<Rightarrow> proof_future \<Rightarrow> bool" where
  "future_ok wb fx \<longleftrightarrow> fst fx < length (wb_frames wb) \<and> pf_state (frame_of wb (fst fx)) \<noteq> FrameAbandoned \<and>
     snd fx < wb_next_subscription wb \<and> (is_pending (pf_state (frame_of wb (fst fx))) \<longrightarrow> snd fx \<in> subscribed wb (fst fx))"

definition owners_ok :: "proof_future set \<Rightarrow> ('q, 'r) solving \<Rightarrow> bool" where
  "owners_ok L s \<longleftrightarrow> (\<forall>a. distinct (owned_by s a) \<and>
     (\<forall>fx \<in> set (owned_by s a). future_ok (so_board s) fx \<and> pf_parent (frame_of (so_board s) (fst fx)) = a \<and> fx \<notin> L))"

definition ready_ok :: "('q, 'r) whiteboard \<Rightarrow> bool" where
  "ready_ok wb \<longleftrightarrow> queue_ok (wb_ready wb) \<and> (\<forall>p \<in> set (rq_queue (wb_ready wb)). pending wb p)"

definition board_ok :: "proof_future set \<Rightarrow> ('q, 'r) solving \<Rightarrow> bool" where
  "board_ok L s \<longleftrightarrow> shape_ok (so_board s) \<and> entries_ok (so_board s) \<and>
     (\<forall>f < length (wb_frames (so_board s)). frame_ok L s f) \<and> owners_ok L s \<and> (\<forall>fx \<in> L. future_ok (so_board s) fx) \<and>
     ready_ok (so_board s) \<and> (\<forall>f. agent s = Some f \<longrightarrow> f < length (wb_frames (so_board s)))"

lemma board_okD:
  assumes "board_ok L s"
  shows "shape_ok (so_board s)" "entries_ok (so_board s)" "f < length (wb_frames (so_board s)) \<Longrightarrow> frame_ok L s f"
    "owners_ok L s" "fx \<in> L \<Longrightarrow> future_ok (so_board s) fx" "ready_ok (so_board s)"
    "agent s = Some f \<Longrightarrow> f < length (wb_frames (so_board s))"
  using assms by (simp_all add: board_ok_def)

lemma frame_okD:
  assumes "frame_ok L s f"
  shows "pf_producer_started (frame_of (so_board s) f)"
    "is_pending (pf_state (frame_of (so_board s) f)) \<longleftrightarrow> wb_producers (so_board s) ! f \<noteq> None \<or> agent s = Some f"
    "agent s = Some f \<Longrightarrow> wb_producers (so_board s) ! f = None"
    "is_pending (pf_state (frame_of (so_board s) f)) \<longleftrightarrow> pf_subscriptions (frame_of (so_board s) f) \<noteq> []"
    "distinct (map fst (pf_subscriptions (frame_of (so_board s) f)))"
    "x \<in> subscribed (so_board s) f \<Longrightarrow> x < wb_next_subscription (so_board s)"
    "x \<in> subscribed (so_board s) f \<Longrightarrow> (f, x) \<in> set (owned_by s (pf_parent (frame_of (so_board s) f))) \<union> L"
    "(x, Some w) \<in> set (pf_subscriptions (frame_of (so_board s) f)) \<Longrightarrow> w = waker_of (pf_parent (frame_of (so_board s) f))"
  using assms unfolding frame_ok_def Let_def by blast+

lemma owners_okD:
  assumes "owners_ok L s" and "fx \<in> set (owned_by s a)"
  shows "future_ok (so_board s) fx" "pf_parent (frame_of (so_board s) (fst fx)) = a" "fx \<notin> L"
  using assms by (auto simp: owners_ok_def)

lemma board_ok_new: "board_ok {} solving_new"
  by (auto simp: board_ok_def solving_new_def whiteboard_new_def shape_ok_def entries_ok_def owners_ok_def owned_by_def
      stored_def ready_ok_def agent_def split: option.splits)

lemma stored_none:
  assumes "stored wb p \<noteq> []"
  shows "p < length (wb_producers wb) \<and> wb_producers wb ! p \<noteq> None"
  using assms unfolding stored_def by (cases "p < length (wb_producers wb)") (auto split: option.split_asm)

text \<open>Who owns a future waits for it: the owner is the root, or a pending frame.\<close>

lemma owner_pending:
  assumes "board_ok L s" and "fx \<in> set (owned_by s (Some p))"
  shows "pending (so_board s) p"
proof -
  have p: "p < length (wb_frames (so_board s)) \<and> (wb_producers (so_board s) ! p \<noteq> None \<or> agent s = Some p)"
  proof (cases "agent s = Some p")
    case True
    then show ?thesis using board_okD(7) [OF assms(1)] by simp
  next
    case False
    then have "stored (so_board s) p \<noteq> []" using assms(2) by (auto simp: owned_by_def)
    then have "p < length (wb_producers (so_board s)) \<and> wb_producers (so_board s) ! p \<noteq> None"
      using stored_none by blast
    then show ?thesis using board_okD(1) [OF assms(1)] by (simp add: shape_ok_def)
  qed
  have "frame_ok L s p" using p by (simp add: board_okD(3) [OF assms(1)])
  from frame_okD(2) [OF this] p show ?thesis unfolding pending_def by blast
qed

section \<open>A drained board\<close>

lemma nothing_pending:
  assumes ok: "board_ok {} s" and "so_running s = None" and "so_root s = []"
  shows "\<not> pending (so_board s) f"
proof (induction f rule: less_induct)
  case (less f)
  show ?case
  proof
    assume p: "pending (so_board s) f"
    then have f: "f < length (wb_frames (so_board s))" by (simp add: pending_def)
    note fr = board_okD(3) [OF ok f]
    obtain x where "x \<in> subscribed (so_board s) f"
      using frame_okD(4) [OF fr] p by (cases "pf_subscriptions (frame_of (so_board s) f)") (auto simp: pending_def subscribed_def)
    then have o: "(f, x) \<in> set (owned_by s (pf_parent (frame_of (so_board s) f)))" using frame_okD(7) [OF fr] by simp
    show False
    proof (cases "pf_parent (frame_of (so_board s) f)")
      case None
      then show False using o assms(3) by (simp add: owned_by_def)
    next
      case (Some q)
      have "q < f" using board_okD(1) [OF ok] Some f by (simp add: shape_ok_def)
      moreover have "pending (so_board s) q" using owner_pending [OF ok] o Some by simp
      ultimately show False using less.IH by blast
    qed
  qed
qed

lemma drained_board:
  assumes ok: "board_ok {} s" and "so_running s = None" and "so_root s = []"
  shows "drained (so_board s)"
proof -
  note none = nothing_pending [OF assms]
  have 1: "\<not> is_pending (pf_state (frame_of (so_board s) f)) \<and> pf_subscriptions (frame_of (so_board s) f) = [] \<and> wb_producers (so_board s) ! f = None"
    if "f < length (wb_frames (so_board s))" for f
    using none [of f] frame_okD(2,4) [OF board_okD(3) [OF ok that]] that by (auto simp: pending_def)
  have "rq_queue (wb_ready (so_board s)) = []"
    using board_okD(6) [OF ok] none by (cases "rq_queue (wb_ready (so_board s))") (auto simp: ready_ok_def)
  then show ?thesis using 1 board_okD(1) [OF ok] by (auto simp: drained_def is_empty_def shape_ok_def in_set_conv_nth)
qed

section \<open>What an operation leaves alone\<close>

lemma frame_okI:
  assumes "pf_producer_started (frame_of (so_board s) f)"
    and "is_pending (pf_state (frame_of (so_board s) f)) \<longleftrightarrow> wb_producers (so_board s) ! f \<noteq> None \<or> agent s = Some f"
    and "agent s = Some f \<Longrightarrow> wb_producers (so_board s) ! f = None"
    and "is_pending (pf_state (frame_of (so_board s) f)) \<longleftrightarrow> pf_subscriptions (frame_of (so_board s) f) \<noteq> []"
    and "distinct (map fst (pf_subscriptions (frame_of (so_board s) f)))"
    and "\<And>x. x \<in> subscribed (so_board s) f \<Longrightarrow>
      x < wb_next_subscription (so_board s) \<and> (f, x) \<in> set (owned_by s (pf_parent (frame_of (so_board s) f))) \<union> L"
    and "\<And>x w. (x, Some w) \<in> set (pf_subscriptions (frame_of (so_board s) f)) \<Longrightarrow> w = waker_of (pf_parent (frame_of (so_board s) f))"
  shows "frame_ok L s f"
  using assms unfolding frame_ok_def Let_def by blast

lemma frame_ok_keep:
  assumes "frame_ok L s f" and same: "frame_of (so_board s') f = frame_of (so_board s) f"
    and "wb_producers (so_board s') ! f = wb_producers (so_board s) ! f" and "agent s' = Some f \<longleftrightarrow> agent s = Some f"
    and nxt: "wb_next_subscription (so_board s) \<le> wb_next_subscription (so_board s')"
    and own: "\<And>x. (f, x) \<in> set (owned_by s (pf_parent (frame_of (so_board s) f))) \<union> L \<Longrightarrow>
      (f, x) \<in> set (owned_by s' (pf_parent (frame_of (so_board s) f))) \<union> L'"
  shows "frame_ok L' s' f"
proof (rule frame_okI)
  note fr = frame_okD [OF assms(1)]
  have sub: "subscribed (so_board s') f = subscribed (so_board s) f" by (simp add: subscribed_def same)
  show "x < wb_next_subscription (so_board s') \<and> (f, x) \<in> set (owned_by s' (pf_parent (frame_of (so_board s') f))) \<union> L'"
    if "x \<in> subscribed (so_board s') f" for x
    using own [OF fr(7)] fr(6) nxt that unfolding sub same by fastforce
qed (use frame_okD [OF assms(1)] assms(3,4) in \<open>simp_all add: same\<close>)

lemma future_ok_keep:
  assumes "future_ok wb fx" and "frame_of wb' (fst fx) = frame_of wb (fst fx)"
    and "length (wb_frames wb) \<le> length (wb_frames wb')" and "wb_next_subscription wb \<le> wb_next_subscription wb'"
  shows "future_ok wb' fx"
  using assms by (auto simp: future_ok_def subscribed_def)

lemma agent_set_owned [simp]: "agent (set_owned os s) = agent s" "so_board (set_owned os s) = so_board s"
  by (auto simp: set_owned_def agent_def split: option.splits)

lemma agent_board [simp]: "agent (s\<lparr>so_board := wb\<rparr>) = agent s" "agent_owned (s\<lparr>so_board := wb\<rparr>) = agent_owned s"
    "agent_waker (s\<lparr>so_board := wb\<rparr>) = agent_waker s"
  by (auto simp: agent_def agent_owned_def agent_waker_def split: option.splits)

lemma agent_owned_by: "agent_owned s = owned_by s (agent s)"
  by (auto simp: agent_owned_def owned_by_def agent_def split: option.splits)

lemma agent_waker_of: "agent_waker s = waker_of (agent s)"
  by (auto simp: agent_waker_def agent_def split: option.splits)

lemma owned_by_set_owned: "owned_by (set_owned os s) a = (if a = agent s then os else owned_by s a)"
  by (auto simp: owned_by_def set_owned_def agent_def split: option.splits)

lemma owned_by_board: "(\<And>p. stored wb p = stored (so_board s) p) \<Longrightarrow> owned_by (s\<lparr>so_board := wb\<rparr>) a = owned_by s a"
  by (simp add: owned_by_def split: option.splits)

lemma set_frame_simps [simp]:
  "wb_frames (set_frame f data wb) = (wb_frames wb)[f := data]" "wb_producers (set_frame f data wb) = wb_producers wb"
  "wb_entries (set_frame f data wb) = wb_entries wb" "wb_next_subscription (set_frame f data wb) = wb_next_subscription wb"
  "wb_ready (set_frame f data wb) = wb_ready wb" "wb_root_ready (set_frame f data wb) = wb_root_ready wb"
  by (simp_all add: set_frame_def)

lemma set_producer_simps [simp]:
  "wb_frames (set_producer f p wb) = wb_frames wb" "wb_producers (set_producer f p wb) = (wb_producers wb)[f := p]"
  "wb_entries (set_producer f p wb) = wb_entries wb" "wb_next_subscription (set_producer f p wb) = wb_next_subscription wb"
  "wb_ready (set_producer f p wb) = wb_ready wb" "wb_root_ready (set_producer f p wb) = wb_root_ready wb"
  by (simp_all add: set_producer_def)

lemma stored_keep: "wb_producers wb' = wb_producers wb \<Longrightarrow> stored wb' p = stored wb p"
  by (simp add: stored_def)

section \<open>Requests\<close>

lemma has_ancestor_total:
  assumes "shape_ok wb" and "\<And>f. a = Some f \<Longrightarrow> f < length (wb_frames wb)"
  shows "\<exists>b. has_ancestor wb query a = Some b"
proof (cases a)
  case None
  then have "has_ancestor wb query a = Some False" by (simp add: has_ancestor.simps)
  then show ?thesis by blast
next
  case (Some f)
  have "f < length (wb_frames wb) \<Longrightarrow> \<exists>b. has_ancestor wb query (Some f) = Some b" for f
  proof (induction f rule: less_induct)
    case (less f)
    show ?case
    proof (cases "pf_parent (frame_of wb f)")
      case None
      have "has_ancestor wb query None = Some False" by (simp add: has_ancestor.simps)
      then show ?thesis using less.prems None by (subst has_ancestor.simps) auto
    next
      case (Some p)
      then have p: "p < f" using assms(1) less.prems by (simp add: shape_ok_def)
      then obtain b where "has_ancestor wb query (Some p) = Some b" using less.IH less.prems by fastforce
      then show ?thesis using less.prems Some by (subst has_ancestor.simps) auto
    qed
  qed
  then show ?thesis using assms(2) Some by blast
qed


lemma old_key:
  assumes "board_ok L s" and "wb_entries (so_board s) (query, a, d) = Some f"
  shows "f < length (wb_frames (so_board s))" "pf_parent (frame_of (so_board s) f) = a"
    "pf_state (frame_of (so_board s) f) \<noteq> FrameAbandoned" "frame_key (frame_of (so_board s) f) = (query, a, d)"
  using assms board_okD(2) [OF assms(1)] by (auto simp: entries_ok_def frame_key_def)

lemma distinct_grow:
  assumes "set os = insert x (set xs)" and "length os = length xs + 1" and "distinct xs" and "x \<notin> set xs"
  shows "distinct os"
  using assms by (intro card_distinct) (simp add: distinct_card)

text \<open>A further subscription of a pending frame.\<close>

lemma subscribe_old:
  assumes ok: "board_ok {} s" and key: "wb_entries (so_board s) key = Some f" and pend: "is_pending (pf_state (frame_of (so_board s) f))"
    and x: "x = wb_next_subscription (so_board s)" "x + 1 < 2 ^ 32"
  shows "subscribe key (so_board s) = Some (Subscribed f x,
    set_frame f ((frame_of (so_board s) f)\<lparr>pf_subscriptions := pf_subscriptions (frame_of (so_board s) f) @ [(x, None)],
      pf_producer_started := True\<rparr>) ((so_board s)\<lparr>wb_next_subscription := x + 1\<rparr>))"
proof -
  obtain query a d where k: "key = (query, a, d)" by (cases key)
  note f = old_key [OF ok key [unfolded k]]
  note fr = board_okD(3) [OF ok f(1)]
  have "x \<notin> subscribed (so_board s) f" using frame_okD(6) [OF fr] x by blast
  then show ?thesis using f(1) frame_okD(1) [OF fr] x key
    by (simp add: subscribe_def find_or_add_frame_def subscribed_def Let_def)
qed

lemma board_ok_more_subscriptions:
  assumes ok: "board_ok {} s" and f: "f < length (wb_frames (so_board s))" "pf_parent (frame_of (so_board s) f) = agent s"
    and pend: "is_pending (pf_state (frame_of (so_board s) f))" and x: "x = wb_next_subscription (so_board s)"
    and wb: "wb = set_frame f ((frame_of (so_board s) f)\<lparr>pf_subscriptions := pf_subscriptions (frame_of (so_board s) f) @ [(x, None)],
      pf_producer_started := True\<rparr>) ((so_board s)\<lparr>wb_next_subscription := x + 1\<rparr>)"
    and os: "set os = insert (f, x) (set (agent_owned s))" "length os = length (agent_owned s) + 1"
  shows "board_ok {} (set_owned os (s\<lparr>so_board := wb\<rparr>))" (is "board_ok {} ?s")
proof -
  have b: "wb_frames wb = (wb_frames (so_board s))[f := (frame_of (so_board s) f)\<lparr>pf_subscriptions :=
      pf_subscriptions (frame_of (so_board s) f) @ [(x, None)], pf_producer_started := True\<rparr>]"
    "wb_producers wb = wb_producers (so_board s)" "wb_entries wb = wb_entries (so_board s)"
    "wb_next_subscription wb = x + 1" "wb_ready wb = wb_ready (so_board s)" by (simp_all add: wb)
  have own: "owned_by ?s a = (if a = agent s then os else owned_by s a)" for a
    by (simp add: owned_by_set_owned) (rule impI, rule owned_by_board, rule stored_keep, simp add: b)
  have sub: "subscribed wb g = (if g = f then insert x (subscribed (so_board s) f) else subscribed (so_board s) g)" for g
    using f(1) by (auto simp: b subscribed_def)
  have new: "(f, x) \<notin> set (owned_by s a)" for a
    using owners_okD(1) [OF board_okD(4) [OF ok], of "(f, x)" a] x by (auto simp: future_ok_def)
  show ?thesis unfolding board_ok_def
  proof (intro conjI allI impI ballI)
    show "shape_ok (so_board ?s)" using board_okD(1) [OF ok] f(1) by (simp add: shape_ok_def b nth_list_update)
    show "entries_ok (so_board ?s)" using board_okD(2) [OF ok] f(1) by (simp add: entries_ok_def b nth_list_update frame_key_def)
    show "ready_ok (so_board ?s)" using board_okD(6) [OF ok] f(1) by (auto simp: ready_ok_def pending_def b nth_list_update)
    show "g < length (wb_frames (so_board ?s))" if "agent ?s = Some g" for g using that board_okD(7) [OF ok] by (simp add: b)
    show "frame_ok {} ?s g" if g: "g < length (wb_frames (so_board ?s))" for g
    proof (cases "g = f")
      case False
      have "frame_ok {} s g" using board_okD(3) [OF ok] g by (simp add: b)
      then show ?thesis by (rule frame_ok_keep) (use False x os in \<open>auto simp: b own agent_owned_by split: if_splits\<close>)
    next
      case True
      note fr = frame_okD [OF board_okD(3) [OF ok f(1)]]
      have d: "frame_of (so_board ?s) g = (frame_of (so_board s) f)\<lparr>pf_subscriptions := pf_subscriptions (frame_of (so_board s) f) @ [(x, None)],
        pf_producer_started := True\<rparr>" using f(1) True by (simp add: b)
      show ?thesis
      proof (rule frame_okI)
        show "distinct (map fst (pf_subscriptions (frame_of (so_board ?s) g)))"
          using fr(5,6) x unfolding d by (auto simp: subscribed_def)
        show "y < wb_next_subscription (so_board ?s) \<and> (g, y) \<in> set (owned_by ?s (pf_parent (frame_of (so_board ?s) g))) \<union> {}"
          if "y \<in> subscribed (so_board ?s) g" for y
          using that fr(6,7) [of y] True x os f(2) unfolding d by (auto simp: own agent_owned_by sub b)
        show "w = waker_of (pf_parent (frame_of (so_board ?s) g))" if "(y, Some w) \<in> set (pf_subscriptions (frame_of (so_board ?s) g))" for y w
          using that fr(8) unfolding d by auto
      qed (use fr(2,3) pend True f(1) in \<open>simp_all add: d b\<close>)
    qed
    show "owners_ok {} ?s" unfolding owners_ok_def
    proof (intro allI conjI ballI)
      note o = board_okD(4) [OF ok]
      fix a
      show "distinct (owned_by ?s a)" using o new [of "agent s"] distinct_grow [OF os] by (simp add: own owners_ok_def agent_owned_by)
      fix fx assume fx: "fx \<in> set (owned_by ?s a)"
      show "future_ok (so_board ?s) fx"
      proof (cases "fx = (f, x)")
        case True
        have "pf_state (frame_of (so_board s) f) \<noteq> FrameAbandoned" using pend by auto
        then show ?thesis using f(1) x True by (simp add: future_ok_def sub) (simp add: b)
      next
        case False
        then have "fx \<in> set (owned_by s a)" using fx os by (auto simp: own agent_owned_by split: if_splits)
        then have "future_ok (so_board s) fx" using owners_okD(1) [OF o] by blast
        then show ?thesis using f(1) x by (simp add: future_ok_def sub) (auto simp: b nth_list_update)
      qed
      show "pf_parent (frame_of (so_board ?s) (fst fx)) = a"
        using fx os f owners_okD(2) [OF o, of fx a] by (auto simp: own agent_owned_by b nth_list_update split: if_splits)
    qed simp
  qed simp
qed

text \<open>The first request for a goal adds its frame.\<close>

definition new_frame_board :: "'q \<Rightarrow> frame_id option \<Rightarrow> nat \<Rightarrow> ('q, 'r) whiteboard \<Rightarrow> ('q, 'r) whiteboard" where
  "new_frame_board query a d wb = wb\<lparr>
     wb_next_subscription := wb_next_subscription wb + 1,
     wb_frames := wb_frames wb @ [\<lparr>pf_query = query, pf_parent = a, pf_remaining_depth = d, pf_state = FramePending,
       pf_producer_started = True, pf_subscriptions = [(wb_next_subscription wb, None)]\<rparr>],
     wb_entries := (wb_entries wb)((query, a, d) \<mapsto> length (wb_frames wb)),
     wb_producers := wb_producers wb @ [Some []],
     wb_ready := enqueue (wb_ready wb) (length (wb_frames wb))\<rparr>"

lemma subscribe_new:
  assumes "length (wb_producers wb) = length (wb_frames wb)" and "wb_entries wb (query, a, d) = None"
    and "wb_next_subscription wb + 1 < 2 ^ 32"
  shows "subscribe (query, a, d) wb =
    Some (Subscribed (length (wb_frames wb)) (wb_next_subscription wb), new_frame_board query a d wb)"
  using assms
  by (cases wb) (simp add: subscribe_def find_or_add_frame_def Let_def new_frame_board_def set_frame_def set_producer_def
      list_update_append nth_append flip: assms(1))

lemma board_ok_new_frame:
  fixes s :: "('q, 'r) solving"
  assumes ok: "board_ok {} s" and none: "wb_entries (so_board s) (query, agent s, d) = None"
    and x: "x = wb_next_subscription (so_board s)" and n: "n = length (wb_frames (so_board s))"
    and wb: "wb = new_frame_board query (agent s) d (so_board s)"
    and os: "set os = insert (n, x) (set (agent_owned s))" "length os = length (agent_owned s) + 1"
  shows "board_ok {} (set_owned os (s\<lparr>so_board := wb\<rparr>))" (is "board_ok {} ?s")
proof -
  let ?data = "\<lparr>pf_query = query, pf_parent = agent s, pf_remaining_depth = d, pf_state = FramePending,
       pf_producer_started = True, pf_subscriptions = [(x, None)]\<rparr> :: ('q, 'r) proof_frame"
  have b: "wb_frames wb = wb_frames (so_board s) @ [?data]" "wb_producers wb = wb_producers (so_board s) @ [Some []]"
    "wb_entries wb = (wb_entries (so_board s))((query, agent s, d) \<mapsto> n)" "wb_next_subscription wb = x + 1"
    "wb_ready wb = enqueue (wb_ready (so_board s)) n" by (simp_all add: wb new_frame_board_def x n)
  note shape = board_okD(1) [OF ok, unfolded shape_ok_def]
  have len: "length (wb_producers (so_board s)) = n" using shape n by simp
  have data: "frame_of wb n = ?data" "g < n \<Longrightarrow> frame_of wb g = frame_of (so_board s) g" for g
    using n by (simp_all add: b nth_append)
  have lt: "g < length (wb_frames wb) \<longleftrightarrow> g = n \<or> g < n" for g using n by (auto simp: b)
  have agent: "agent s = Some g \<Longrightarrow> g < n" for g using board_okD(7) [OF ok] n by simp
  have stored: "stored wb p = stored (so_board s) p" for p using len by (simp add: stored_def b nth_append)
  have own: "owned_by ?s a = (if a = agent s then os else owned_by s a)" for a
    by (simp add: owned_by_set_owned) (rule impI, rule owned_by_board, rule stored)
  have old: "fx \<in> set (owned_by s a) \<Longrightarrow> fst fx < n" for fx a
    using owners_okD(1) [OF board_okD(4) [OF ok], of fx a] n by (auto simp: future_ok_def)
  show ?thesis unfolding board_ok_def
  proof (intro conjI allI impI ballI)
    show "shape_ok (so_board ?s)" using shape agent n by (auto simp: shape_ok_def b nth_append less_Suc_eq)
    show "entries_ok (so_board ?s)" unfolding entries_ok_def
    proof (intro allI)
      fix k g
      have "g < n \<Longrightarrow> frame_key (frame_of (so_board s) g) = (query, agent s, d) \<Longrightarrow> pf_state (frame_of (so_board s) g) = FrameAbandoned"
        using board_okD(2) [OF ok] none n by (metis entries_ok_def option.distinct(1))
      moreover have "wb_entries (so_board s) k = Some g \<longleftrightarrow>
          g < n \<and> frame_key (frame_of (so_board s) g) = k \<and> pf_state (frame_of (so_board s) g) \<noteq> FrameAbandoned"
        using board_okD(2) [OF ok] n by (cases k) (simp add: entries_ok_def)
      ultimately show "wb_entries (so_board ?s) k = Some g \<longleftrightarrow> g < length (wb_frames (so_board ?s)) \<and>
          frame_key (frame_of (so_board ?s) g) = k \<and> pf_state (frame_of (so_board ?s) g) \<noteq> FrameAbandoned"
        by (cases "g = n") (auto simp: lt data b(3) frame_key_def)
    qed
    have "queue_ok (wb_ready (so_board s))" "\<forall>p \<in> set (rq_queue (wb_ready (so_board s))). p < n \<and> is_pending (pf_state (frame_of (so_board s) p))"
      using board_okD(6) [OF ok] n by (simp_all add: ready_ok_def pending_def)
    then show "ready_ok (so_board ?s)"
      by (auto simp: ready_ok_def pending_def lt data b(5) ready.items_put intro: ready.put_ok split: if_splits)
    show "g < length (wb_frames (so_board ?s))" if "agent ?s = Some g" for g using agent that by (simp add: lt)
    show "frame_ok {} ?s g" if g: "g < length (wb_frames (so_board ?s))" for g
    proof (cases "g = n")
      case False
      then have gn: "g < n" using g lt by simp
      then have "frame_ok {} s g" using board_okD(3) [OF ok] n by simp
      then show ?thesis
        by (rule frame_ok_keep) (use gn data x os in \<open>auto simp: own agent_owned_by b(2,4) nth_append len split: if_splits\<close>)
    next
      case True
      have "(n, x) \<in> set os" using os by simp
      then show ?thesis unfolding True
        by (intro frame_okI) (use agent [of n] in \<open>auto simp: data own subscribed_def b(2,4) nth_append len\<close>)
    qed
    show "owners_ok {} ?s" unfolding owners_ok_def
    proof (intro allI conjI ballI)
      note o = board_okD(4) [OF ok]
      fix a
      have "(n, x) \<notin> set (owned_by s (agent s))" using old [of "(n, x)" "agent s"] by auto
      then show "distinct (owned_by ?s a)" using o distinct_grow [OF os] by (simp add: own owners_ok_def agent_owned_by)
      fix fx assume "fx \<in> set (owned_by ?s a)"
      then consider "fx = (n, x)" "a = agent s" | "fx \<in> set (owned_by s a)" using os by (auto simp: own agent_owned_by split: if_splits)
      then have "future_ok wb fx \<and> pf_parent (frame_of wb (fst fx)) = a"
      proof cases
        case 1
        then show ?thesis by (simp add: future_ok_def data lt subscribed_def b(4))
      next
        case 2
        note fx = owners_okD(1,2) [OF o 2]
        have "fst fx < n" using old 2 by blast
        then have "frame_of wb (fst fx) = frame_of (so_board s) (fst fx)" by (rule data)
        then show ?thesis using fx future_ok_keep [OF fx(1), of wb] by (simp add: b x)
      qed
      then show "future_ok (so_board ?s) fx" "pf_parent (frame_of (so_board ?s) (fst fx)) = a" by simp_all
    qed simp
  qed simp
qed

lemma inserted_at:
  "set (take i xs @ x # drop i xs) = insert x (set xs)" "length (take i xs @ x # drop i xs) = length xs + 1"
proof -
  have "set (take i xs) \<union> set (drop i xs) = set xs" by (metis append_take_drop_id set_append)
  then show "set (take i xs @ x # drop i xs) = insert x (set xs)" by auto
  show "length (take i xs @ x # drop i xs) = length xs + 1" by simp
qed

lemma agent_requests_ok:
  assumes ok: "board_ok {} s" and "depth \<le> max_proof_depth" and "wb_next_subscription (so_board s) + 1 < 2 ^ 32"
  shows "\<exists>s'. agent_requests no query depth at s = Some s' \<and> board_ok {} s'"
proof -
  let ?key = "(query, agent s, max_proof_depth - depth)"
  obtain cyclic where c: "has_ancestor (so_board s) query (agent s) = Some cyclic"
    using has_ancestor_total [OF board_okD(1) [OF ok]] board_okD(7) [OF ok] by blast
  have same: "s\<lparr>so_board := so_board s\<rparr> = s" by simp
  consider (imm) r where "request no query (agent s) depth (so_board s) = Some (Immediate r, so_board s)"
    | (old) f where "wb_entries (so_board s) ?key = Some f" "is_pending (pf_state (frame_of (so_board s) f))"
        "request no query (agent s) depth (so_board s) = subscribe ?key (so_board s)"
    | (new) "wb_entries (so_board s) ?key = None" "request no query (agent s) depth (so_board s) = subscribe ?key (so_board s)"
  proof (cases cyclic)
    case True
    then show ?thesis using imm c assms(2) by (simp add: request_def)
  next
    case False
    show ?thesis
    proof (cases "wb_entries (so_board s) ?key")
      case None
      then show ?thesis using new c False assms(2) by (simp add: request_def)
    next
      case (Some f)
      note f = old_key [OF ok Some]
      have r: "request no query (agent s) depth (so_board s) = (case pf_state (frame_of (so_board s) f) of
          FrameReady result \<Rightarrow> Some (Immediate result, so_board s)
        | FramePending \<Rightarrow> subscribe ?key (so_board s) | FrameAbandoned \<Rightarrow> None)"
        using c False Some f(1) assms(2) by (simp add: request_def)
      show ?thesis
      proof (cases "pf_state (frame_of (so_board s) f)")
        case FramePending
        then show ?thesis using old Some r by simp
      next
        case (FrameReady result)
        then show ?thesis using imm r by simp
      qed (use f in simp)
    qed
  qed
  then show ?thesis
  proof cases
    case imm
    then show ?thesis using ok by (simp add: agent_requests_def)
  next
    case old
    note f = old_key [OF ok old(1)]
    note r = old(3) [unfolded subscribe_old [OF ok old(1,2) refl assms(3)]]
    show ?thesis using board_ok_more_subscriptions [OF ok f(1,2) old(2) refl refl inserted_at]
      by (simp add: agent_requests_def r)
  next
    case new
    have "length (wb_producers (so_board s)) = length (wb_frames (so_board s))" using board_okD(1) [OF ok] by (simp add: shape_ok_def)
    note r = new(2) [unfolded subscribe_new [OF this new(1) assms(3)]]
    show ?thesis using board_ok_new_frame [OF ok new(1) refl refl refl inserted_at]
      by (simp add: agent_requests_def r)
  qed
qed

section \<open>Polling\<close>

lemma not_pending_unsubscribed:
  assumes "board_ok L s" and "f < length (wb_frames (so_board s))" and "\<not> is_pending (pf_state (frame_of (so_board s) f))"
  shows "pf_subscriptions (frame_of (so_board s) f) = []" "subscribed (so_board s) f = {}"
  using frame_okD(4) [OF board_okD(3) [OF assms(1,2)]] assms(3) by (simp_all add: subscribed_def)

text \<open>A future on its way out: from its owner to the futures that are being dropped, and from those to
  none once its frame has ended.\<close>

lemma board_ok_loose:
  assumes ok: "board_ok {} s" and fs: "fs \<in> set (agent_owned s)"
  shows "board_ok {fs} (set_owned (remove1 fs (agent_owned s)) s)" (is "board_ok _ ?s")
proof -
  note o = board_okD(4) [OF ok]
  have d: "distinct (agent_owned s)" using o by (simp add: owners_ok_def agent_owned_by)
  have own: "owned_by ?s a = (if a = agent s then remove1 fs (agent_owned s) else owned_by s a)" for a
    by (simp add: owned_by_set_owned)
  have sub: "set (owned_by ?s a) \<subseteq> set (owned_by s a)" for a
    unfolding own using set_remove1_subset [of fs "agent_owned s"] by (simp add: agent_owned_by)
  have new: "fs \<notin> set (owned_by ?s a)" for a
    unfolding own using d fs owners_okD(2) [OF o, of fs] by (auto simp: agent_owned_by)
  have "owners_ok {fs} ?s" unfolding owners_ok_def
  proof (intro allI conjI ballI)
    fix a show "distinct (owned_by ?s a)" unfolding own using o d by (simp add: owners_ok_def)
    fix fx assume fx: "fx \<in> set (owned_by ?s a)"
    show "future_ok (so_board ?s) fx" "pf_parent (frame_of (so_board ?s) (fst fx)) = a" "fx \<notin> {fs}"
      using owners_okD [OF o subsetD [OF sub fx]] new [of a] fx by auto
  qed
  have rest: "y \<in> set (agent_owned s) \<Longrightarrow> y = fs \<or> y \<in> set (remove1 fs (agent_owned s))" for y by (cases "y = fs") auto
  have "frame_ok {fs} ?s g" if "g < length (wb_frames (so_board ?s))" for g
    by (rule frame_ok_keep [of "{}" s], unfold own) (use that board_okD(3) [OF ok] in \<open>auto simp: agent_owned_by dest!: rest [unfolded agent_owned_by]\<close>)
  moreover note \<open>owners_ok {fs} ?s\<close>
  moreover have "future_ok (so_board ?s) fs" using owners_okD(1) [OF o] fs by (simp add: agent_owned_by)
  ultimately show ?thesis using board_okD [OF ok] by (simp add: board_ok_def)
qed

lemma board_ok_forget:
  assumes ok: "board_ok (insert fs L) s" and "fs \<notin> L" and ended: "\<not> is_pending (pf_state (frame_of (so_board s) (fst fs)))"
  shows "board_ok L s"
proof -
  have f: "fst fs < length (wb_frames (so_board s))" using board_okD(5) [OF ok, of fs] by (simp add: future_ok_def)
  have "frame_ok L s g" if g: "g < length (wb_frames (so_board s))" for g
  proof (cases "g = fst fs")
    case True
    note fr = frame_okD [OF board_okD(3) [OF ok g]]
    show ?thesis by (rule frame_okI) (use fr not_pending_unsubscribed [OF ok f ended] True in simp_all)
  next
    case False
    show ?thesis by (rule frame_ok_keep [OF board_okD(3) [OF ok g]]) (use False in auto)
  qed
  moreover have "owners_ok L s" using board_okD(4) [OF ok] by (auto simp: owners_ok_def)
  ultimately show ?thesis using board_okD [OF ok] by (simp add: board_ok_def)
qed

lemma set_waker_simps:
  "fst ` set (set_waker x w subs) = insert x (fst ` set subs)" "distinct (map fst subs) \<Longrightarrow> distinct (map fst (set_waker x w subs))"
  "set_waker x w subs \<noteq> []" "(y, Some v) \<in> set (set_waker x w subs) \<Longrightarrow> v = w \<or> (y, Some v) \<in> set subs"
  by (force simp: set_waker_def distinct_map_filter)+

text \<open>New wakers for the subscriptions of a pending frame.\<close>

lemma board_ok_set_subscriptions:
  fixes s :: "('q, 'r) solving"
  assumes ok: "board_ok L0 s" and f: "f < length (wb_frames (so_board s))" and pend: "is_pending (pf_state (frame_of (so_board s) f))"
    and wb: "wb = set_frame f ((frame_of (so_board s) f)\<lparr>pf_subscriptions := subs\<rparr>) (so_board s)"
    and subs: "distinct (map fst subs)" "subs \<noteq> []" "fst ` set subs \<subseteq> subscribed (so_board s) f"
    and wakers: "\<And>x w. (x, Some w) \<in> set subs \<Longrightarrow> w = waker_of (pf_parent (frame_of (so_board s) f))"
    and L: "L \<subseteq> L0" "\<And>g x. (g, x) \<in> L0 - L \<Longrightarrow> g = f \<and> x \<notin> fst ` set subs"
    and owners: "\<And>a x. (f, x) \<in> set (owned_by s a) \<union> L \<Longrightarrow> x \<in> fst ` set subs"
  shows "board_ok L (s\<lparr>so_board := wb\<rparr>)" (is "board_ok L ?s")
proof -
  have b: "wb_frames wb = (wb_frames (so_board s))[f := (frame_of (so_board s) f)\<lparr>pf_subscriptions := subs\<rparr>]"
    "wb_producers wb = wb_producers (so_board s)" "wb_entries wb = wb_entries (so_board s)"
    "wb_next_subscription wb = wb_next_subscription (so_board s)" "wb_ready wb = wb_ready (so_board s)" by (simp_all add: wb)
  have own: "owned_by ?s a = owned_by s a" for a by (rule owned_by_board, rule stored_keep, simp add: b)
  have sub: "subscribed wb g = (if g = f then fst ` set subs else subscribed (so_board s) g)" for g
    using f by (auto simp: b subscribed_def)
  have fut: "future_ok wb fx" if "future_ok (so_board s) fx" "\<And>x. fx = (f, x) \<Longrightarrow> x \<in> fst ` set subs" for fx
    using that f by (cases fx) (simp add: future_ok_def sub, auto simp: b nth_list_update)
  show ?thesis unfolding board_ok_def
  proof (intro conjI allI impI ballI)
    show "shape_ok (so_board ?s)" using board_okD(1) [OF ok] f by (simp add: shape_ok_def b nth_list_update)
    show "entries_ok (so_board ?s)" using board_okD(2) [OF ok] f by (simp add: entries_ok_def b nth_list_update frame_key_def)
    show "ready_ok (so_board ?s)" using board_okD(6) [OF ok] f by (auto simp: ready_ok_def pending_def b nth_list_update)
    show "g < length (wb_frames (so_board ?s))" if "agent ?s = Some g" for g using that board_okD(7) [OF ok] by (simp add: b)
    show "future_ok (so_board ?s) fx" if "fx \<in> L" for fx using fut [OF board_okD(5) [OF ok subsetD [OF L(1) that]]] owners that by auto
    show "owners_ok L ?s" unfolding owners_ok_def own
    proof (intro allI conjI ballI)
      note o = board_okD(4) [OF ok]
      fix a show "distinct (owned_by s a)" using o by (simp add: owners_ok_def)
      fix fx assume fx: "fx \<in> set (owned_by s a)"
      show "future_ok (so_board ?s) fx" using fut [OF owners_okD(1) [OF o fx]] owners fx by auto
      show "pf_parent (frame_of (so_board ?s) (fst fx)) = a" using owners_okD(2) [OF o fx] f by (simp add: b nth_list_update)
      show "fx \<notin> L" using owners_okD(3) [OF o fx] L(1) by auto
    qed
    show "frame_ok L ?s g" if g: "g < length (wb_frames (so_board ?s))" for g
    proof (cases "g = f")
      case False
      have "frame_ok L0 s g" using board_okD(3) [OF ok] g by (simp add: b)
      then show ?thesis by (rule frame_ok_keep) (use False L in \<open>auto simp: b own\<close>)
    next
      case True
      note fr = frame_okD [OF board_okD(3) [OF ok f]]
      have d: "frame_of (so_board ?s) f = (frame_of (so_board s) f)\<lparr>pf_subscriptions := subs\<rparr>" using f by (simp add: b)
      show ?thesis unfolding True
      proof (rule frame_okI)
        show "y < wb_next_subscription (so_board ?s) \<and> (f, y) \<in> set (owned_by ?s (pf_parent (frame_of (so_board ?s) f))) \<union> L"
          if "y \<in> subscribed (so_board ?s) f" for y
          using that fr(6,7) [of y] subs(3) L(2) [of f y] unfolding d by (auto simp: own sub b(4))
      qed (use fr(1,2,3) pend subs wakers f in \<open>auto simp: d b\<close>)
    qed
  qed
qed

lemma agent_polls_ok:
  assumes ok: "board_ok {} s" and fs: "fs \<in> set (agent_owned s)"
  shows "\<exists>s'. agent_polls fs s = Some s' \<and> board_ok {} s'"
proof -
  obtain f x where fx: "fs = (f, x)" by (cases fs)
  have own: "fs \<in> set (owned_by s (agent s))" using fs by (simp add: agent_owned_by)
  note fut = owners_okD(1,2) [OF board_okD(4) [OF ok] own]
  then have f: "f < length (wb_frames (so_board s))" "pf_state (frame_of (so_board s) f) \<noteq> FrameAbandoned"
    by (simp_all add: future_ok_def fx)
  note fr = frame_okD [OF board_okD(3) [OF ok f(1)]]
  have same: "s\<lparr>so_board := so_board s\<rparr> = s" by simp
  show ?thesis
  proof (cases "pf_state (frame_of (so_board s) f)")
    case FramePending
    let ?subs = "set_waker x (agent_waker s) (pf_subscriptions (frame_of (so_board s) f))"
    have x: "x \<in> subscribed (so_board s) f" using fut FramePending by (simp add: future_ok_def fx)
    then have set: "fst ` set ?subs = subscribed (so_board s) f" by (auto simp: set_waker_simps subscribed_def)
    have "board_ok {} (s\<lparr>so_board := set_frame f ((frame_of (so_board s) f)\<lparr>pf_subscriptions := ?subs\<rparr>) (so_board s)\<rparr>)"
    proof (rule board_ok_set_subscriptions [OF ok f(1) _ refl set_waker_simps(2) [OF fr(5)] set_waker_simps(3)])
      show "w = waker_of (pf_parent (frame_of (so_board s) f))" if "(y, Some w) \<in> set ?subs" for y w
        using set_waker_simps(4) [OF that] fr(8) fut(2) by (auto simp: agent_waker_of fx)
      show "y \<in> fst ` set ?subs" if "(f, y) \<in> set (owned_by s a) \<union> {}" for a y
        using that owners_okD(1) [OF board_okD(4) [OF ok], of "(f, y)" a] FramePending by (simp add: set future_ok_def)
    qed (use FramePending set in auto)
    then show ?thesis using FramePending f(1) fs by (simp add: agent_polls_def poll_proof_def fx)
  next
    case (FrameReady r)
    then have "board_ok {} (set_owned (remove1 fs (agent_owned s)) s)"
      using board_ok_forget [OF board_ok_loose [OF ok fs]] by (simp add: fx)
    then show ?thesis using FrameReady f(1) fs by (simp add: agent_polls_def poll_proof_def fx)
  qed (use f in simp)
qed

section \<open>The end of a frame\<close>

text \<open>A frame ends as it returns, with the futures that it owns gone, or as it is abandoned, with its own
  futures gone: \<open>s'\<close> is the state after, in which the frame owns nothing.\<close>

lemma board_ok_end:
  assumes ok: "board_ok L0 s" and f: "f < length (wb_frames (so_board s))"
    and frames: "wb_frames (so_board s') = (wb_frames (so_board s))[f := (frame_of (so_board s) f)\<lparr>pf_state := st, pf_subscriptions := []\<rparr>]"
    and producers: "wb_producers (so_board s') = (wb_producers (so_board s))[f := None]"
    and entries: "wb_entries (so_board s') = (if st = FrameAbandoned
      then (wb_entries (so_board s))(frame_key (frame_of (so_board s) f) := None) else wb_entries (so_board s))"
    and nxt: "wb_next_subscription (so_board s') = wb_next_subscription (so_board s)"
    and ready: "queue_ok (wb_ready (so_board s'))" "\<And>p. p \<in> set (rq_queue (wb_ready (so_board s'))) \<Longrightarrow> pending (so_board s) p \<and> p \<noteq> f"
    and st: "\<not> is_pending st" and pend: "is_pending (pf_state (frame_of (so_board s) f))"
    and own: "\<And>a. owned_by s' a = (if a = Some f then [] else owned_by s a)"
    and agent: "\<And>g. agent s' = Some g \<longleftrightarrow> agent s = Some g \<and> g \<noteq> f"
    and L: "L \<subseteq> L0 \<union> set (owned_by s (Some f))" "set (owned_by s (Some f)) \<subseteq> L" "\<And>g x. g \<noteq> f \<Longrightarrow> (g, x) \<in> L0 \<Longrightarrow> (g, x) \<in> L"
    and gone: "\<And>a x. st = FrameAbandoned \<Longrightarrow> (f, x) \<notin> set (owned_by s a) \<union> L"
  shows "board_ok L s'"
proof -
  note shape = board_okD(1) [OF ok] and o = board_okD(4) [OF ok]
  have len: "length (wb_frames (so_board s')) = length (wb_frames (so_board s))" by (simp add: frames)
  have lenp: "length (wb_producers (so_board s)) = length (wb_frames (so_board s))" using shape by (simp add: shape_ok_def)
  have data: "frame_of (so_board s') g = (if g = f then (frame_of (so_board s) f)\<lparr>pf_state := st, pf_subscriptions := []\<rparr>
      else frame_of (so_board s) g)" for g using f by (simp add: frames)
  have fut: "future_ok (so_board s') fx" if "future_ok (so_board s) fx" "st = FrameAbandoned \<Longrightarrow> fst fx \<noteq> f" for fx
    using that st by (auto simp: future_ok_def len data nxt subscribed_def)
  have parent: "pf_parent (frame_of (so_board s') g) = pf_parent (frame_of (so_board s) g)" for g by (simp add: data)
  show ?thesis unfolding board_ok_def
  proof (intro conjI allI impI ballI)
    show "shape_ok (so_board s')" using shape by (simp add: shape_ok_def len parent producers)
    show "entries_ok (so_board s')" unfolding entries_ok_def
    proof (intro allI)
      fix k g
      have e: "wb_entries (so_board s) k = Some h \<longleftrightarrow> h < length (wb_frames (so_board s)) \<and> frame_key (frame_of (so_board s) h) = k \<and>
          pf_state (frame_of (so_board s) h) \<noteq> FrameAbandoned" for h
        using board_okD(2) [OF ok] by (cases k) (simp add: entries_ok_def)
      have "pf_state (frame_of (so_board s) f) \<noteq> FrameAbandoned" using pend by auto
      then show "wb_entries (so_board s') k = Some g \<longleftrightarrow> g < length (wb_frames (so_board s')) \<and>
          frame_key (frame_of (so_board s') g) = k \<and> pf_state (frame_of (so_board s') g) \<noteq> FrameAbandoned"
        using e [of g] e [of f] f by (auto simp: entries data len frame_key_def)
    qed
    show "ready_ok (so_board s')" using ready by (auto simp: ready_ok_def pending_def len data)
    show "g < length (wb_frames (so_board s'))" if "agent s' = Some g" for g using that board_okD(7) [OF ok] by (simp add: agent len)
    show "future_ok (so_board s') fx" if "fx \<in> L" for fx
    proof (rule fut)
      show "future_ok (so_board s) fx" using that L(1) board_okD(5) [OF ok] owners_okD(1) [OF o] by blast
      show "fst fx \<noteq> f" if "st = FrameAbandoned" using gone [OF that] \<open>fx \<in> L\<close> by (cases fx) auto
    qed
    show "owners_ok L s'" unfolding owners_ok_def
    proof (intro allI conjI ballI)
      fix a show "distinct (owned_by s' a)" using o by (simp add: own owners_ok_def)
      fix fx assume "fx \<in> set (owned_by s' a)"
      then have a: "a \<noteq> Some f" and fx: "fx \<in> set (owned_by s a)" by (auto simp: own split: if_splits)
      show "future_ok (so_board s') fx" using fut [OF owners_okD(1) [OF o fx]] gone fx by (cases fx) auto
      show "pf_parent (frame_of (so_board s') (fst fx)) = a" using owners_okD(2) [OF o fx] by (simp add: parent)
      show "fx \<notin> L" using owners_okD(2,3) [OF o fx] L(1) owners_okD(2) [OF o, of fx "Some f"] a by auto
    qed
    show "frame_ok L s' g" if g: "g < length (wb_frames (so_board s'))" for g
    proof (cases "g = f")
      case True
      show ?thesis unfolding True
        by (rule frame_okI) (use frame_okD(1) [OF board_okD(3) [OF ok f]] st f lenp in \<open>simp_all add: data producers agent subscribed_def\<close>)
    next
      case False
      have "frame_ok L0 s g" using board_okD(3) [OF ok] g len by simp
      then show ?thesis by (rule frame_ok_keep) (use False L in \<open>auto simp: data producers agent nxt own\<close>)
    qed
  qed
qed

section \<open>Dropping\<close>

text \<open>What the drop of a future of \<open>a\<close> leaves alone: the producers that survive it, their place in the
  queue, and the frames that they wait for.\<close>

definition others_kept :: "frame_id option \<Rightarrow> ('q, 'r) whiteboard \<Rightarrow> ('q, 'r) whiteboard \<Rightarrow> bool" where
  "others_kept a wb wb' \<longleftrightarrow> (\<forall>f < length (wb_frames wb). pf_parent (frame_of wb' f) = pf_parent (frame_of wb f)) \<and>
     (a \<noteq> None \<longrightarrow> (\<forall>f < length (wb_frames wb). pf_parent (frame_of wb f) = None \<longrightarrow> frame_of wb' f = frame_of wb f)) \<and>
     (wb_root_ready wb \<longrightarrow> wb_root_ready wb') \<and>
     (\<forall>p < length (wb_frames wb). \<forall>owned. wb_producers wb' ! p = Some owned \<longrightarrow> wb_producers wb ! p = Some owned \<and>
       (p \<in> set (rq_queue (wb_ready wb)) \<longrightarrow> p \<in> set (rq_queue (wb_ready wb'))) \<and>
       (\<forall>f < length (wb_frames wb). pf_parent (frame_of wb f) = Some p \<longrightarrow> a \<noteq> Some p \<longrightarrow> frame_of wb' f = frame_of wb f))"

lemma others_kept_refl [simp]: "others_kept a wb wb"
  by (simp add: others_kept_def)

lemma others_kept_trans:
  assumes 1: "others_kept a wb wb1" and 2: "others_kept b wb1 wb2" and len: "length (wb_frames wb1) = length (wb_frames wb)"
    and b: "b = a \<or> b = Some f \<and> f < length (wb_frames wb) \<and> wb_producers wb1 ! f = None"
  shows "others_kept a wb wb2"
  unfolding others_kept_def
proof (intro conjI allI impI)
  fix f assume "f < length (wb_frames wb)"
  then show "pf_parent (frame_of wb2 f) = pf_parent (frame_of wb f)" using 1 2 len by (simp add: others_kept_def)
next
  fix f assume "a \<noteq> None" "f < length (wb_frames wb)" "pf_parent (frame_of wb f) = None"
  then show "frame_of wb2 f = frame_of wb f" using 1 2 len b by (auto simp: others_kept_def)
next
  assume "wb_root_ready wb"
  then show "wb_root_ready wb2" using 1 2 by (simp add: others_kept_def)
next
  fix p owned assume p: "p < length (wb_frames wb)" and "wb_producers wb2 ! p = Some owned"
  then have p1: "wb_producers wb1 ! p = Some owned" using 2 len by (simp add: others_kept_def)
  then show "wb_producers wb ! p = Some owned" using 1 p by (simp add: others_kept_def)
  show "p \<in> set (rq_queue (wb_ready wb2))" if "p \<in> set (rq_queue (wb_ready wb))"
    using that 1 2 p p1 \<open>wb_producers wb2 ! p = Some owned\<close> len by (simp add: others_kept_def)
  fix g assume g: "g < length (wb_frames wb)" "pf_parent (frame_of wb g) = Some p" "a \<noteq> Some p"
  have "frame_of wb1 g = frame_of wb g" using 1 p p1 g by (simp add: others_kept_def)
  moreover have "b \<noteq> Some p" using b g(3) p1 by auto
  ultimately show "frame_of wb2 g = frame_of wb g"
    using 2 p g len \<open>wb_producers wb2 ! p = Some owned\<close> by (simp add: others_kept_def)
qed

text \<open>Leaving a frame either ends it, or keeps it with one subscription less.\<close>

lemma leave_frame_cases:
  assumes ok: "board_ok (insert (f, x) L) s" and fx: "(f, x) \<notin> L" and above: "\<forall>g. agent s = Some g \<longrightarrow> g < f"
  obtains (stays) wb where "leave_frame f x (so_board s) = Some (None, wb)" "board_ok L (s\<lparr>so_board := wb\<rparr>)"
      "length (wb_frames wb) = length (wb_frames (so_board s))" "others_kept (pf_parent (frame_of (so_board s) f)) (so_board s) wb"
  | (ends) owned wb where "leave_frame f x (so_board s) = Some (Some owned, wb)"
      "board_ok (set owned \<union> L) (s\<lparr>so_board := wb\<lparr>wb_ready := remove (wb_ready wb) f\<rparr>\<rparr>)"
      "length (wb_frames wb) = length (wb_frames (so_board s))" "distinct owned" "set owned \<inter> L = {}" "\<And>g y. (g, y) \<in> set owned \<Longrightarrow> f < g"
      "others_kept (pf_parent (frame_of (so_board s) f)) (so_board s) (wb\<lparr>wb_ready := remove (wb_ready wb) f\<rparr>)"
      "wb_producers wb ! f = None" "\<And>g y. (g, y) \<in> set owned \<Longrightarrow> pf_parent (frame_of wb g) = Some f"
proof -
  let ?data = "frame_of (so_board s) f"
  let ?subs = "filter (\<lambda>z. fst z \<noteq> x) (pf_subscriptions ?data)"
  have fut: "future_ok (so_board s) (f, x)" using board_okD(5) [OF ok] by simp
  then have f: "f < length (wb_frames (so_board s))" by (simp add: future_ok_def)
  note fr = frame_okD [OF board_okD(3) [OF ok f]] and o = board_okD(4) [OF ok] and shape = board_okD(1) [OF ok]
  have len: "f < length (wb_producers (so_board s))" using shape f by (simp add: shape_ok_def)
  have sub: "fst ` set ?subs = subscribed (so_board s) f - {x}" by (auto simp: subscribed_def)
  have alone: "(f, y) \<notin> set (owned_by s a) \<union> L" if "subscribed (so_board s) f = {x}" "is_pending (pf_state ?data)" for a y
    using owners_okD [OF o, of "(f, y)" a] board_okD(5) [OF ok, of "(f, y)"] that fx by (auto simp: future_ok_def)
  consider (ready) "\<not> is_pending (pf_state ?data)" | (stay) "is_pending (pf_state ?data)" "?subs \<noteq> []" | (stop) "is_pending (pf_state ?data)" "?subs = []"
    by blast
  then show thesis
  proof cases
    case ready
    note none = not_pending_unsubscribed(1) [OF ok f ready]
    have "?data\<lparr>pf_subscriptions := []\<rparr> = ?data" using none by simp
    then have "(wb_frames (so_board s))[f := ?data\<lparr>pf_subscriptions := []\<rparr>] = wb_frames (so_board s)" by simp
    then have "leave_frame f x (so_board s) = Some (None, so_board s)"
      using f ready none by (simp add: leave_frame_def set_frame_def)
    moreover have "board_ok L s" using board_ok_forget [OF ok fx] ready by simp
    ultimately show thesis using stays by simp
  next
    case stay
    let ?wb = "set_frame f (?data\<lparr>pf_subscriptions := ?subs\<rparr>) (so_board s)"
    have "board_ok L (s\<lparr>so_board := ?wb\<rparr>)"
    proof (rule board_ok_set_subscriptions [OF ok f stay(1) refl _ stay(2)])
      show "distinct (map fst ?subs)" using fr(5) by (simp add: distinct_map_filter)
      show "y \<in> fst ` set ?subs" if "(f, y) \<in> set (owned_by s a) \<union> L" for a y
        using that fx owners_okD [OF o, of "(f, y)" a] board_okD(5) [OF ok, of "(f, y)"] stay(1) unfolding sub by (auto simp: future_ok_def)
    qed (use sub fr(8) in auto)
    moreover have "leave_frame f x (so_board s) = Some (None, ?wb)" using f stay by (simp add: leave_frame_def)
    moreover have "others_kept (pf_parent ?data) (so_board s) ?wb" using f by (auto simp: others_kept_def nth_list_update)
    ultimately show thesis using stays by simp
  next
    case stop
    have agent: "agent s \<noteq> Some f" using above by blast
    then obtain owned where owned: "wb_producers (so_board s) ! f = Some owned" using fr(2) stop by auto
    have all: "subscribed (so_board s) f = {x}" using stop fut sub by (auto simp: future_ok_def)
    have own: "owned_by s (Some f) = owned" using agent owned len by (simp add: owned_by_def stored_def)
    let ?wb = "set_producer f None (set_frame f (?data\<lparr>pf_subscriptions := [], pf_state := FrameAbandoned\<rparr>)
      ((so_board s)\<lparr>wb_entries := (wb_entries (so_board s))(frame_key ?data := None)\<rparr>))"
    let ?s = "s\<lparr>so_board := ?wb\<lparr>wb_ready := remove (wb_ready ?wb) f\<rparr>\<rparr>"
    have key: "frame_key (?data\<lparr>pf_subscriptions := []\<rparr>) = frame_key ?data" by (simp add: frame_key_def)
    have order: "?data\<lparr>pf_subscriptions := [], pf_state := FrameAbandoned\<rparr> = ?data\<lparr>pf_state := FrameAbandoned, pf_subscriptions := []\<rparr>"
      by (cases ?data) simp
    have "leave_frame f x (so_board s) = Some (Some owned, ?wb)" using f len owned stop by (simp add: leave_frame_def key)
    moreover have "board_ok (set owned \<union> L) ?s"
    proof (rule board_ok_end [OF ok f, where st = FrameAbandoned])
      have rd: "queue_ok (wb_ready (so_board s))" "p \<in> set (rq_queue (wb_ready (so_board s))) \<Longrightarrow> pending (so_board s) p" for p
        using board_okD(6) [OF ok] by (auto simp: ready_ok_def)
      show "queue_ok (wb_ready (so_board ?s))" using ready.delete_ok rd by simp
      show "pending (so_board s) p \<and> p \<noteq> f" if "p \<in> set (rq_queue (wb_ready (so_board ?s)))" for p
        using that rd by (auto simp: ready.items_delete)
      show "owned_by ?s a = (if a = Some f then [] else owned_by s a)" for a
        using agent len by (auto simp: owned_by_def stored_def nth_list_update split: option.splits)
      show "(f, y) \<notin> set (owned_by s a) \<union> (set owned \<union> L)" for a y
        using alone [OF all stop(1)] own by auto
    qed (use own stop agent in \<open>auto simp: frame_key_def order\<close>)
    moreover have "distinct owned" using o own by (auto simp: owners_ok_def)
    moreover have "set owned \<inter> L = {}" using owners_okD(3) [OF o] own by blast
    moreover have "f < g" if "(g, y) \<in> set owned" for g y
      using owners_okD(1,2) [OF o, of "(g, y)" "Some f"] own that shape by (auto simp: future_ok_def shape_ok_def)
    moreover have "others_kept (pf_parent ?data) (so_board s) (?wb\<lparr>wb_ready := remove (wb_ready ?wb) f\<rparr>)"
      using f len board_okD(6) [OF ok] by (auto simp: others_kept_def nth_list_update ready_ok_def ready.items_delete)
    moreover have "pf_parent (frame_of ?wb g) = Some f" if "(g, y) \<in> set owned" for g y
      using owners_okD(2) [OF o, of "(g, y)" "Some f"] own that f by (simp add: nth_list_update)
    ultimately show thesis using ends len by simp
  qed
qed

lemma agent_of_board [simp]: "so_board (s\<lparr>so_board := wb\<rparr>) = wb" "(s\<lparr>so_board := wb\<rparr>)\<lparr>so_board := wb'\<rparr> = s\<lparr>so_board := wb'\<rparr>"
  by simp_all

text \<open>The futures that a frame owns lead to frames above it, so the cascade of dropped producers ends.\<close>

definition drops_ok :: "proof_future \<Rightarrow> ('q, 'r) solving \<Rightarrow> bool" where
  "drops_ok fx s \<longleftrightarrow> (\<forall>L wb. length (wb_frames wb) = length (wb_frames (so_board s)) \<longrightarrow> fx \<notin> L \<longrightarrow>
     board_ok (insert fx L) (s\<lparr>so_board := wb\<rparr>) \<longrightarrow>
     (\<exists>wb'. unsubscribe fx wb = Some wb' \<and> board_ok L (s\<lparr>so_board := wb'\<rparr>) \<and> length (wb_frames wb') = length (wb_frames wb) \<and>
       others_kept (pf_parent (frame_of wb (fst fx))) wb wb'))"

lemma drops_okD:
  assumes "drops_ok fx s" and "length (wb_frames wb) = length (wb_frames (so_board s))" and "fx \<notin> L"
    and "board_ok (insert fx L) (s\<lparr>so_board := wb\<rparr>)"
  obtains wb' where "unsubscribe fx wb = Some wb'" "board_ok L (s\<lparr>so_board := wb'\<rparr>)" "length (wb_frames wb') = length (wb_frames wb)"
    "others_kept (pf_parent (frame_of wb (fst fx))) wb wb'"
  using assms unfolding drops_ok_def by blast

lemma drop_all_ok:
  assumes "\<And>fx. fx \<in> set owned \<Longrightarrow> drops_ok fx s" and "distinct owned" and "set owned \<inter> L = {}"
    and "board_ok (set owned \<union> L) (s\<lparr>so_board := wb\<rparr>)" and "length (wb_frames wb) = length (wb_frames (so_board s))"
    and "\<And>g y. (g, y) \<in> set owned \<Longrightarrow> pf_parent (frame_of wb g) = b"
  shows "\<exists>wb'. fold_state unsubscribe owned wb = Some wb' \<and> board_ok L (s\<lparr>so_board := wb'\<rparr>) \<and> length (wb_frames wb') = length (wb_frames wb) \<and>
    others_kept b wb wb'"
  using assms
proof (induction owned arbitrary: wb)
  case Nil
  then show ?case by simp
next
  case (Cons fx owned)
  have fx: "drops_ok fx s" and rest: "\<And>gy. gy \<in> set owned \<Longrightarrow> drops_ok gy s" using Cons.prems(1) by simp_all
  have new: "fx \<notin> set owned \<union> L" and disj: "distinct owned" "set owned \<inter> L = {}" using Cons.prems(2,3) by auto
  have ok: "board_ok (insert fx (set owned \<union> L)) (s\<lparr>so_board := wb\<rparr>)" using Cons.prems(4) by simp
  obtain wb' where wb': "unsubscribe fx wb = Some wb'" "board_ok (set owned \<union> L) (s\<lparr>so_board := wb'\<rparr>)"
      "length (wb_frames wb') = length (wb_frames wb)" "others_kept (pf_parent (frame_of wb (fst fx))) wb wb'"
    by (rule drops_okD [OF fx Cons.prems(5) new ok])
  have k: "others_kept b wb wb'" using wb'(4) Cons.prems(6) [of "fst fx" "snd fx"] by simp
  have parent: "pf_parent (frame_of wb' g) = b" if "(g, y) \<in> set owned" for g y
  proof -
    have "g < length (wb_frames wb)" using board_okD(5) [OF Cons.prems(4), of "(g, y)"] that by (simp add: future_ok_def)
    then show ?thesis using k Cons.prems(6) [of g y] that by (simp add: others_kept_def)
  qed
  obtain wb2 where "fold_state unsubscribe owned wb' = Some wb2" "board_ok L (s\<lparr>so_board := wb2\<rparr>)"
      "length (wb_frames wb2) = length (wb_frames wb')" "others_kept b wb' wb2"
    using Cons.IH [OF rest disj wb'(2)] Cons.prems(5) wb'(3) parent by auto
  then show ?case using wb' others_kept_trans [OF k, of b wb2] by simp
qed

lemma unsubscribe_ok:
  assumes "\<And>g. agent s = Some g \<Longrightarrow> g < f"
  shows "drops_ok (f, x) s"
  using assms
proof (induction "length (wb_frames (so_board s)) - f" arbitrary: f x rule: less_induct)
  case less
  show ?case unfolding drops_ok_def
  proof (intro allI impI)
    fix L wb assume n: "length (wb_frames wb) = length (wb_frames (so_board s))" and new: "(f, x) \<notin> L"
      and ok: "board_ok (insert (f, x) L) (s\<lparr>so_board := wb\<rparr>)"
    have f: "f < length (wb_frames (so_board s))" using board_okD(5) [OF ok, of "(f, x)"] n by (simp add: future_ok_def)
    have above: "\<forall>g. agent (s\<lparr>so_board := wb\<rparr>) = Some g \<longrightarrow> g < f" using less.prems by simp
    from ok new above
    show "\<exists>wb'. unsubscribe (f, x) wb = Some wb' \<and> board_ok L (s\<lparr>so_board := wb'\<rparr>) \<and> length (wb_frames wb') = length (wb_frames wb) \<and>
        others_kept (pf_parent (frame_of wb (fst (f, x)))) wb wb'"
    proof (cases rule: leave_frame_cases)
      case (stays wb1)
      then show ?thesis by (subst unsubscribe.simps) simp
    next
      case (ends owned wb1)
      have "drops_ok (g, y) s" if "(g, y) \<in> set owned" for g y
        by (rule less.hyps) (use ends(6) [OF that] f less.prems in fastforce)+
      then have "\<And>gy. gy \<in> set owned \<Longrightarrow> drops_ok gy s" by (metis surj_pair)
      then obtain wb' where wb': "fold_state unsubscribe owned (wb1\<lparr>wb_ready := remove (wb_ready wb1) f\<rparr>) = Some wb'"
          "board_ok L (s\<lparr>so_board := wb'\<rparr>)" "length (wb_frames wb') = length (wb_frames wb1)"
          "others_kept (Some f) (wb1\<lparr>wb_ready := remove (wb_ready wb1) f\<rparr>) wb'"
        using drop_all_ok [of owned s L "wb1\<lparr>wb_ready := remove (wb_ready wb1) f\<rparr>" "Some f"] ends(2,3,4,5,9) n by auto
      have "others_kept (pf_parent (frame_of wb f)) wb wb'"
        using others_kept_trans [OF ends(7) _ _ disjI2, of "Some f" wb' f] wb'(4) ends(3,8) f n by simp
      then show ?thesis using ends(1,3) wb'(1-3) by (subst unsubscribe.simps) simp
    qed
  qed
qed

lemma agent_drops_ok:
  assumes ok: "board_ok {} s" and fs: "fs \<in> set (agent_owned s)"
  shows "\<exists>s'. agent_drops fs s = Some s' \<and> board_ok {} s' \<and> others_kept (agent s) (so_board s) (so_board s') \<and>
    length (wb_frames (so_board s')) = length (wb_frames (so_board s)) \<and> agent s' = agent s"
proof -
  let ?s = "set_owned (remove1 fs (agent_owned s)) s"
  obtain f x where fx: "fs = (f, x)" by (cases fs)
  have own: "fs \<in> set (owned_by s (agent s))" using fs by (simp add: agent_owned_by)
  note fut = owners_okD(1,2) [OF board_okD(4) [OF ok] own]
  have "g < f" if "agent s = Some g" for g using fut that board_okD(1) [OF ok] by (simp add: fx future_ok_def shape_ok_def)
  then have "drops_ok fs ?s" unfolding fx by (intro unsubscribe_ok) simp
  moreover have "?s\<lparr>so_board := so_board s\<rparr> = ?s" by (simp add: set_owned_def split: option.splits)
  ultimately obtain wb where wb: "unsubscribe fs (so_board s) = Some wb" "board_ok {} (?s\<lparr>so_board := wb\<rparr>)"
      "length (wb_frames wb) = length (wb_frames (so_board s))" "others_kept (pf_parent (frame_of (so_board s) (fst fs))) (so_board s) wb"
    using board_ok_loose [OF ok fs] unfolding drops_ok_def by (metis agent_set_owned(2) empty_iff)
  have "?s\<lparr>so_board := wb\<rparr> = set_owned (remove1 fs (agent_owned s)) (s\<lparr>so_board := wb\<rparr>)"
    by (simp add: set_owned_def split: option.splits)
  then show ?thesis using wb fs fut(2) by (simp add: agent_drops_def)
qed

section \<open>Producers\<close>

text \<open>A producer that is taken, or put back, keeps the futures that it owns.\<close>

lemma board_ok_reseat:
  assumes ok: "board_ok {} s"
    and same: "wb_frames (so_board s') = wb_frames (so_board s)" "wb_entries (so_board s') = wb_entries (so_board s)"
      "wb_next_subscription (so_board s') = wb_next_subscription (so_board s)" "owned_by s' = owned_by s"
      "length (wb_producers (so_board s')) = length (wb_producers (so_board s))"
    and ready: "ready_ok (so_board s')"
    and seat: "\<And>g. g < length (wb_frames (so_board s)) \<Longrightarrow>
      is_pending (pf_state (frame_of (so_board s) g)) \<longleftrightarrow> wb_producers (so_board s') ! g \<noteq> None \<or> agent s' = Some g"
    and agent: "\<And>g. agent s' = Some g \<Longrightarrow> g < length (wb_frames (so_board s)) \<and> wb_producers (so_board s') ! g = None"
  shows "board_ok {} s'"
proof -
  have fut: "future_ok (so_board s') = future_ok (so_board s)" by (simp add: fun_eq_iff future_ok_def subscribed_def same)
  have "frame_ok {} s' g" if "g < length (wb_frames (so_board s'))" for g
  proof -
    have g: "g < length (wb_frames (so_board s))" using that same by simp
    note fr = frame_okD [OF board_okD(3) [OF ok g]]
    show ?thesis by (rule frame_okI) (use fr seat [OF g] agent in \<open>simp_all add: same subscribed_def\<close>)
  qed
  then show ?thesis using board_okD [OF ok] agent ready by (simp add: board_ok_def shape_ok_def entries_ok_def owners_ok_def fut same)
qed

lemma producer_taken_ok:
  assumes ok: "board_ok {} s" and idle: "so_running s = None"
  shows "\<exists>s'. producer_taken s = Some s' \<and> board_ok {} s'"
proof -
  have none: "agent s = None" using idle by (simp add: agent_def)
  have rd: "queue_ok (wb_ready (so_board s))" "p \<in> set (rq_queue (wb_ready (so_board s))) \<Longrightarrow> pending (so_board s) p" for p
    using board_okD(6) [OF ok] by (auto simp: ready_ok_def)
  have len: "length (wb_producers (so_board s)) = length (wb_frames (so_board s))" using board_okD(1) [OF ok] by (simp add: shape_ok_def)
  show ?thesis
  proof (cases "pop (wb_ready (so_board s))")
    case (Pair r ready)
    show ?thesis
    proof (cases r)
      case None
      then have "producer_taken s = Some s" using Pair idle by (cases s) (simp add: producer_taken_def take_producer_def)
      then show ?thesis using ok by blast
    next
      case (Some p)
      then have q: "rq_queue (wb_ready (so_board s)) = p # rq_queue ready" "queue_ok ready"
        using ready.take_some [of "wb_ready (so_board s)" p ready] ready.take_ok [OF rd(1)] Pair by auto
      have p: "p < length (wb_frames (so_board s))" "is_pending (pf_state (frame_of (so_board s) p))"
        using rd(2) [of p] q by (auto simp: pending_def)
      obtain owned where owned: "wb_producers (so_board s) ! p = Some owned"
        using frame_okD(2) [OF board_okD(3) [OF ok p(1)]] p none by auto
      let ?s = "s\<lparr>so_board := set_producer p None ((so_board s)\<lparr>wb_ready := ready\<rparr>), so_running := Some (p, owned)\<rparr>"
      have "producer_taken s = Some ?s" using Pair Some p owned len by (simp add: producer_taken_def take_producer_def)
      moreover have "board_ok {} ?s"
      proof (rule board_ok_reseat [OF ok])
        show "owned_by ?s = owned_by s" using none owned p len
          by (auto simp: fun_eq_iff owned_by_def agent_def stored_def nth_list_update split: option.splits)
        show "ready_ok (so_board ?s)" using q rd by (auto simp: ready_ok_def pending_def)
        show "is_pending (pf_state (frame_of (so_board s) g)) \<longleftrightarrow> wb_producers (so_board ?s) ! g \<noteq> None \<or> agent ?s = Some g"
          if "g < length (wb_frames (so_board s))" for g
          using frame_okD(2) [OF board_okD(3) [OF ok that]] none p len by (auto simp: nth_list_update agent_def)
      qed (use p len in \<open>auto simp: agent_def\<close>)
      ultimately show ?thesis by blast
    qed
  qed
qed

lemma running_frame:
  assumes ok: "board_ok {} s" and run: "so_running s = Some (f, owned)"
  shows "f < length (wb_frames (so_board s))" "f < length (wb_producers (so_board s))"
    "is_pending (pf_state (frame_of (so_board s) f))" "wb_producers (so_board s) ! f = None"
proof -
  have a: "agent s = Some f" using run by (simp add: agent_def)
  then show f: "f < length (wb_frames (so_board s))" by (rule board_okD(7) [OF ok])
  then show "f < length (wb_producers (so_board s))" using board_okD(1) [OF ok] by (simp add: shape_ok_def)
  show "is_pending (pf_state (frame_of (so_board s) f))" "wb_producers (so_board s) ! f = None"
    using frame_okD(2,3) [OF board_okD(3) [OF ok f]] a by simp_all
qed

lemma producer_waits_ok:
  assumes ok: "board_ok {} s" and run: "so_running s = Some (f, owned)"
  shows "\<exists>s'. producer_waits s = Some s' \<and> board_ok {} s'"
proof -
  note f = running_frame [OF assms]
  let ?s = "s\<lparr>so_board := set_producer f (Some owned) (so_board s), so_running := None\<rparr>"
  have "producer_waits s = Some ?s" using run f by (simp add: producer_waits_def put_back_def)
  moreover have "board_ok {} ?s"
  proof (rule board_ok_reseat [OF ok])
    show "owned_by ?s = owned_by s" using run f
      by (auto simp: fun_eq_iff owned_by_def agent_def stored_def nth_list_update split: option.splits)
    show "ready_ok (so_board ?s)" using board_okD(6) [OF ok] by (simp add: ready_ok_def pending_def)
    show "is_pending (pf_state (frame_of (so_board s) g)) \<longleftrightarrow> wb_producers (so_board ?s) ! g \<noteq> None \<or> agent ?s = Some g"
      if "g < length (wb_frames (so_board s))" for g
      using frame_okD(2) [OF board_okD(3) [OF ok that]] run f by (auto simp: nth_list_update agent_def)
  qed (auto simp: agent_def)
  ultimately show ?thesis by blast
qed

text \<open>Waking touches the queue only, and queues no frame but the one that the wakers lead to.\<close>

lemma fold_wake:
  fixes wb :: "('q, 'r) whiteboard"
  assumes "\<And>w. w \<in> set ws \<Longrightarrow> w = waker_of a"
  shows "wb_frames (fold wake_proof ws wb) = wb_frames wb \<and> wb_producers (fold wake_proof ws wb) = wb_producers wb \<and>
    wb_entries (fold wake_proof ws wb) = wb_entries wb \<and> wb_next_subscription (fold wake_proof ws wb) = wb_next_subscription wb \<and>
    (queue_ok (wb_ready wb) \<longrightarrow> queue_ok (wb_ready (fold wake_proof ws wb)) \<and>
      set (rq_queue (wb_ready (fold wake_proof ws wb))) \<subseteq>
        set (rq_queue (wb_ready wb)) \<union> (if ws = [] then {} else set_option a))"
  using assms
proof (induction ws arbitrary: wb)
  case Nil
  then show ?case by simp
next
  case (Cons w ws)
  have IH: "wb_frames (fold wake_proof ws wb) = wb_frames wb \<and> wb_producers (fold wake_proof ws wb) = wb_producers wb \<and>
    wb_entries (fold wake_proof ws wb) = wb_entries wb \<and> wb_next_subscription (fold wake_proof ws wb) = wb_next_subscription wb \<and>
    (queue_ok (wb_ready wb) \<longrightarrow> queue_ok (wb_ready (fold wake_proof ws wb)) \<and>
      set (rq_queue (wb_ready (fold wake_proof ws wb))) \<subseteq> set (rq_queue (wb_ready wb)) \<union> set_option a)" for wb :: "('q, 'r) whiteboard"
    using Cons.IH [of wb] Cons.prems by (auto split: if_splits)
  have w: "w = waker_of a" using Cons.prems by simp
  show ?case
  proof (cases a)
    case None
    then show ?thesis using IH [of "wake_proof w wb"] w by simp
  next
    case (Some p)
    then have w: "w = WakeProducer p" using w by simp
    have "queue_ok (wb_ready wb) \<Longrightarrow> queue_ok (enqueue (wb_ready wb) p) \<and> set (rq_queue (enqueue (wb_ready wb) p)) = insert p (set (rq_queue (wb_ready wb)))"
      by (simp add: ready.put_ok ready.items_put) blast
    then show ?thesis using IH [of "wake_proof w wb"] w Some by auto
  qed
qed

lemma producer_returns_ok:
  assumes ok: "board_ok {} s" and run: "so_running s = Some (f, [])" and ord: "\<And>xs. set (ord xs) = set xs"
  shows "\<exists>s'. producer_returns ord result s = Some s' \<and> board_ok {} s'"
proof -
  note f = running_frame [OF ok run]
  note fr = frame_okD [OF board_okD(3) [OF ok f(1)]]
  let ?data = "frame_of (so_board s) f"
  let ?ws = "List.map_filter snd (ord (pf_subscriptions ?data))"
  let ?wb = "set_frame f (?data\<lparr>pf_state := FrameReady result, pf_subscriptions := []\<rparr>) (so_board s)"
  let ?wb' = "fold wake_proof ?ws (?wb\<lparr>wb_ready := remove (wb_ready ?wb) f\<rparr>)"
  let ?s = "s\<lparr>so_board := ?wb', so_running := None\<rparr>"
  have a: "agent s = Some f" using run by (simp add: agent_def)
  have ws: "w = waker_of (pf_parent ?data)" if "w \<in> set ?ws" for w
    using that fr(8) ord by (auto simp: List.map_filter_def)
  have rd: "queue_ok (wb_ready (so_board s))" "p \<in> set (rq_queue (wb_ready (so_board s))) \<Longrightarrow> pending (so_board s) p" for p
    using board_okD(6) [OF ok] by (auto simp: ready_ok_def)
  note b = fold_wake [OF ws, of ?ws "?wb\<lparr>wb_ready := remove (wb_ready ?wb) f\<rparr>", simplified]
  have own: "owned_by s (Some f) = []" using run by (simp add: owned_by_def agent_def)
  have unchanged: "(wb_producers (so_board s))[f := None] = wb_producers (so_board s)" using list_update_id [of "wb_producers (so_board s)" f] f(4) by simp
  have "producer_returns ord result s = Some ?s" using run f by (simp add: producer_returns_def complete_def)
  moreover have "board_ok {} ?s"
  proof (rule board_ok_end [OF ok f(1), where st = "FrameReady result"])
    show "queue_ok (wb_ready (so_board ?s))" using b ready.delete_ok [OF rd(1)] by simp
    show "pending (so_board s) p \<and> p \<noteq> f" if p: "p \<in> set (rq_queue (wb_ready (so_board ?s)))" for p
    proof -
      have "p \<in> set (rq_queue (remove (wb_ready (so_board s)) f)) \<or> ?ws \<noteq> [] \<and> pf_parent ?data = Some p"
        using p b ready.delete_ok [OF rd(1)] by (auto split: if_splits)
      then show ?thesis
      proof
        assume "p \<in> set (rq_queue (remove (wb_ready (so_board s)) f))"
        then show ?thesis using rd by (auto simp: ready.items_delete)
      next
        assume parent: "?ws \<noteq> [] \<and> pf_parent ?data = Some p"
        then obtain x where "x \<in> subscribed (so_board s) f"
          using f(3) fr(4) by (cases "pf_subscriptions ?data") (auto simp: subscribed_def)
        then have "(f, x) \<in> set (owned_by s (Some p))" using fr(7) parent by auto
        then have "pending (so_board s) p" by (rule owner_pending [OF ok])
        moreover have "p < f" using board_okD(1) [OF ok] f(1) parent by (simp add: shape_ok_def)
        ultimately show ?thesis by simp
      qed
    qed
    show "owned_by ?s g = (if g = Some f then [] else owned_by s g)" for g
      using a f own b by (auto simp: owned_by_def agent_def stored_def split: option.splits)
    show "wb_producers (so_board ?s) = (wb_producers (so_board s))[f := None]" using b unchanged by simp
  qed (use b f own a in \<open>auto simp: agent_def\<close>)
  ultimately show ?thesis by blast
qed

section \<open>Every query\<close>

lemma subscribe_exhausted:
  assumes "\<not> wb_next_subscription wb + 1 < 2 ^ 32"
  shows "subscribe key wb = None"
  using assms by (simp add: subscribe_def find_or_add_frame_def check_def Let_def split: option.splits)

lemma request_exhausted:
  assumes "request no query a depth wb = Some (outcome, wb')" and "\<not> wb_next_subscription wb + 1 < 2 ^ 32"
  shows "\<exists>r. outcome = Immediate r \<and> wb' = wb"
  using assms(1) unfolding request_def subscribe_exhausted [OF assms(2)]
  by (auto simp: opt_simps Let_def split: if_splits option.splits frame_state.splits)

lemma agent_requests_keeps:
  assumes ok: "board_ok {} s" and r: "agent_requests no query depth at s = Some s'"
  shows "board_ok {} s'"
proof (cases "wb_next_subscription (so_board s) + 1 < 2 ^ 32")
  case True
  have "depth \<le> max_proof_depth" using r by (auto simp: agent_requests_def request_def opt_simps)
  then show ?thesis using agent_requests_ok [OF ok _ True, of depth no query at] r by auto
next
  case False
  obtain outcome wb where wb: "request no query (agent s) depth (so_board s) = Some (outcome, wb)"
    using r by (cases "request no query (agent s) depth (so_board s)") (auto simp: agent_requests_def)
  then have "s' = s" using request_exhausted [OF wb False] r by (auto simp: agent_requests_def)
  then show ?thesis using ok by simp
qed

lemma solving_step_ok:
  assumes ok: "board_ok {} s" and st: "solving_step s s'"
  shows "board_ok {} s'"
  using st
proof (cases rule: solving_step.cases)
  case (requests no query depth at)
  then show ?thesis by (intro agent_requests_keeps [OF ok])
next
  case (polls fs)
  then have "fs \<in> set (agent_owned s)" by (auto simp: agent_polls_def opt_simps)
  then show ?thesis using agent_polls_ok [OF ok] polls by fastforce
next
  case (drops fs)
  then have "fs \<in> set (agent_owned s)" by (auto simp: agent_drops_def opt_simps)
  then show ?thesis using agent_drops_ok [OF ok] drops by fastforce
next
  case root_taken
  have [simp]: "agent s' = agent s" "owned_by s' = owned_by s"
    using root_taken(2) by (auto simp: root_taken_def opt_simps agent_def owned_by_def stored_def fun_eq_iff split: option.splits)
  have b: "so_board s' = (so_board s)\<lparr>wb_root_ready := False\<rparr>" using root_taken(2) by (auto simp: root_taken_def opt_simps)
  show ?thesis
  proof (rule board_ok_reseat [OF ok])
    show "is_pending (pf_state (frame_of (so_board s) g)) \<longleftrightarrow> wb_producers (so_board s') ! g \<noteq> None \<or> agent s' = Some g"
      if "g < length (wb_frames (so_board s))" for g using frame_okD(2) [OF board_okD(3) [OF ok that]] by (simp add: b)
    show "g < length (wb_frames (so_board s)) \<and> wb_producers (so_board s') ! g = None" if "agent s' = Some g" for g
      using that board_okD(7) [OF ok] frame_okD(3) [OF board_okD(3) [OF ok]] by (simp add: b)
  qed (use board_okD(6) [OF ok] in \<open>simp_all add: b ready_ok_def pending_def\<close>)
next
  case root_waits
  have b: "so_board s' = so_board s" "agent s' = agent s" "owned_by s' = owned_by s"
    using root_waits by (auto simp: root_waits_def opt_simps agent_def owned_by_def fun_eq_iff split: option.splits)
  show ?thesis
  proof (rule board_ok_reseat [OF ok])
    show "is_pending (pf_state (frame_of (so_board s) g)) \<longleftrightarrow> wb_producers (so_board s') ! g \<noteq> None \<or> agent s' = Some g"
      if "g < length (wb_frames (so_board s))" for g using frame_okD(2) [OF board_okD(3) [OF ok that]] by (simp add: b)
    show "g < length (wb_frames (so_board s)) \<and> wb_producers (so_board s') ! g = None" if "agent s' = Some g" for g
      using that board_okD(7) [OF ok] frame_okD(3) [OF board_okD(3) [OF ok]] by (simp add: b)
  qed (use board_okD(6) [OF ok] in \<open>simp_all add: b\<close>)
next
  case taken
  then show ?thesis using producer_taken_ok [OF ok] by (fastforce simp: agent_runs_def)
next
  case waits
  then obtain f owned where "so_running s = Some (f, owned)" by (cases "so_running s") (auto simp: producer_waits_def)
  then show ?thesis using producer_waits_ok [OF ok] waits by fastforce
next
  case (returns ord result)
  then obtain f where "so_running s = Some (f, [])"
    by (cases "so_running s") (auto simp: producer_returns_def opt_simps)
  then show ?thesis using producer_returns_ok [OF ok _ returns(2), of f result] returns(1) by fastforce
qed

lemma solving_reachable_ok: "solving_reachable s \<Longrightarrow> board_ok {} s"
  by (induction rule: solving_reachable.induct) (auto intro: board_ok_new solving_step_ok)

end
