(* ===== verification/WhiteboardProps.thy ===== *)
theory WhiteboardProps
  imports WhiteboardCorrect "HOL-Library.Code_Target_Nat"
begin

text \<open>
  What the invariant of the whiteboard gives: no panic, no frame left behind, and no deadlock.
\<close>

section \<open>Wakeups\<close>

text \<open>An agent that waits will run again: it is queued, or its waker is with a frame that is pending.\<close>

definition queued :: "('q, 'r) whiteboard \<Rightarrow> frame_id option \<Rightarrow> bool" where
  "queued wb a = (case a of None \<Rightarrow> wb_root_ready wb | Some p \<Rightarrow> p \<in> set (rq_queue (wb_ready wb)))"

definition waits_on :: "('q, 'r) whiteboard \<Rightarrow> frame_id option \<Rightarrow> proof_future \<Rightarrow> bool" where
  "waits_on wb a fx \<longleftrightarrow> pending wb (fst fx) \<and> (snd fx, Some (waker_of a)) \<in> set (pf_subscriptions (frame_of wb (fst fx)))"

definition will_run :: "('q, 'r) whiteboard \<Rightarrow> frame_id option \<Rightarrow> proof_future list \<Rightarrow> bool" where
  "will_run wb a owned \<longleftrightarrow> queued wb a \<or> (\<exists>fx \<in> set owned. waits_on wb a fx)"

definition suspended :: "('q, 'r) solving \<Rightarrow> frame_id option \<Rightarrow> bool" where
  "suspended s a = (case a of
     None \<Rightarrow> \<not> so_root_running s
   | Some p \<Rightarrow> p < length (wb_frames (so_board s)) \<and> wb_producers (so_board s) ! p \<noteq> None)"

definition no_lost_wakeup :: "('q, 'r) solving \<Rightarrow> bool" where
  "no_lost_wakeup s \<longleftrightarrow> (\<forall>a. suspended s a \<longrightarrow> will_run (so_board s) a (owned_by s a))"

text \<open>The contract of a future that returns \<open>Pending\<close>: it has left its waker with one that it waits for.\<close>

definition polls_first :: "('q, 'r) solving \<Rightarrow> ('q, 'r) solving \<Rightarrow> bool" where
  "polls_first s s' \<longleftrightarrow> (so_root_running s \<and> \<not> so_root_running s' \<longrightarrow> will_run (so_board s) None (so_root s)) \<and>
     (case so_running s of
       None \<Rightarrow> True
     | Some (p, owned) \<Rightarrow> so_running s' = None \<and> pending (so_board s') p \<longrightarrow> will_run (so_board s) (Some p) owned)"

inductive polling_reachable :: "('q, 'r) solving \<Rightarrow> bool" where
  start: "polling_reachable solving_new"
| step: "polling_reachable s \<Longrightarrow> solving_step s s' \<Longrightarrow> polls_first s s' \<Longrightarrow> polling_reachable s'"

lemma polling_reachable_ok: "polling_reachable s \<Longrightarrow> board_ok {} s"
  by (induction rule: polling_reachable.induct) (auto intro: board_ok_new solving_step_ok)

lemma no_lost_wakeup_keep:
  assumes lost: "no_lost_wakeup s" and ok: "board_ok {} s"
    and kept: "\<And>a. suspended s' a \<Longrightarrow> \<not> will_run (so_board s') a (owned_by s' a) \<Longrightarrow>
      suspended s a \<and> owned_by s' a = owned_by s a \<and> (queued (so_board s) a \<longrightarrow> queued (so_board s') a) \<and>
      (\<forall>fx. waits_on (so_board s) a fx \<and> fst fx < length (wb_frames (so_board s)) \<and>
        pf_parent (frame_of (so_board s) (fst fx)) = a \<longrightarrow> queued (so_board s') a \<or> waits_on (so_board s') a fx)"
  shows "no_lost_wakeup s'"
  unfolding no_lost_wakeup_def
proof (intro allI impI, rule ccontr)
  fix a assume a: "suspended s' a" "\<not> will_run (so_board s') a (owned_by s' a)"
  note k = kept [OF a]
  have "will_run (so_board s) a (owned_by s a)" using lost k by (simp add: no_lost_wakeup_def)
  moreover have "\<not> queued (so_board s) a" using k a(2) by (auto simp: will_run_def)
  ultimately obtain fx where fx: "fx \<in> set (owned_by s a)" "waits_on (so_board s) a fx" by (auto simp: will_run_def)
  have "fst fx < length (wb_frames (so_board s))" "pf_parent (frame_of (so_board s) (fst fx)) = a"
    using owners_okD(1,2) [OF board_okD(4) [OF ok] fx(1)] by (simp_all add: future_ok_def)
  then have "queued (so_board s') a \<or> waits_on (so_board s') a fx" using k fx(2) by blast
  then show False using a(2) k fx(1) by (auto simp: will_run_def)
qed

lemma running_not_suspended:
  assumes "board_ok {} s" and "agent_runs s"
  shows "\<not> suspended s (agent s)"
proof (cases "agent s")
  case None
  then show ?thesis using assms(2) by (auto simp: agent_runs_def suspended_def agent_def)
next
  case (Some p)
  then show ?thesis using frame_okD(3) [OF board_okD(3) [OF assms(1)], of p] by (auto simp: suspended_def)
qed

lemma set_owned_simps [simp]: "so_root_running (set_owned os s) = so_root_running s"
  by (auto simp: set_owned_def split: option.splits)

lemma suspended_set_owned [simp]: "suspended (set_owned os s) a = suspended s a"
  by (simp add: suspended_def split: option.splits)

lemma owned_by_board_other:
  assumes "\<And>p. a = Some p \<Longrightarrow> stored wb p = stored (so_board s) p"
  shows "owned_by (s\<lparr>so_board := wb\<rparr>) a = owned_by s a"
  using assms by (auto simp: owned_by_def split: option.splits)

text \<open>The operations of the agent that runs.\<close>

lemma agent_loses_nothing:
  assumes lost: "no_lost_wakeup s" and ok: "board_ok {} s" and runs: "agent_runs s"
    and s': "s' = s\<lparr>so_board := wb\<rparr> \<or> s' = set_owned os (s\<lparr>so_board := wb\<rparr>)"
    and kept: "\<And>a. a \<noteq> agent s \<Longrightarrow> suspended (s\<lparr>so_board := wb\<rparr>) a \<Longrightarrow> \<not> queued wb a \<Longrightarrow>
      suspended s a \<and> (\<forall>p. a = Some p \<longrightarrow> stored wb p = stored (so_board s) p) \<and> \<not> queued (so_board s) a \<and>
      (\<forall>fx. waits_on (so_board s) a fx \<and> fst fx < length (wb_frames (so_board s)) \<and>
        pf_parent (frame_of (so_board s) (fst fx)) = a \<longrightarrow> waits_on wb a fx)"
    and mine: "\<not> suspended (s\<lparr>so_board := wb\<rparr>) (agent s)"
  shows "no_lost_wakeup s'"
proof (rule no_lost_wakeup_keep [OF lost ok], goal_cases)
  case (1 a)
  have b: "so_board s' = wb" using s' by auto
  have sus: "suspended (s\<lparr>so_board := wb\<rparr>) a" using 1(1) s' by auto
  then have a: "a \<noteq> agent s" using mine by auto
  have q: "\<not> queued wb a" using 1(2) by (auto simp: will_run_def b)
  note k = kept [OF a sus q]
  have "owned_by s' a = owned_by s a" using s' a owned_by_board_other [of a wb s] k by (auto simp: owned_by_set_owned)
  then show ?case using k q by (auto simp: b)
qed

lemma request_boards:
  assumes ok: "board_ok {} s" and r: "request no query (agent s) depth (so_board s) = Some (outcome, wb)"
  obtains (same) "wb = so_board s"
  | (more) f x where "wb = set_frame f ((frame_of (so_board s) f)\<lparr>pf_subscriptions := pf_subscriptions (frame_of (so_board s) f) @ [(x, None)],
      pf_producer_started := True\<rparr>) ((so_board s)\<lparr>wb_next_subscription := x + 1\<rparr>)" "f < length (wb_frames (so_board s))"
  | (new) d where "wb = new_frame_board query (agent s) d (so_board s)"
proof (cases "wb_next_subscription (so_board s) + 1 < 2 ^ 32")
  case False
  then show thesis using request_exhausted [OF r] same by blast
next
  case True
  let ?key = "(query, agent s, max_proof_depth - depth)"
  show thesis
  proof (cases "wb_entries (so_board s) ?key")
    case None
    have "length (wb_producers (so_board s)) = length (wb_frames (so_board s))" using board_okD(1) [OF ok] by (simp add: shape_ok_def)
    note n = subscribe_new [OF this None True]
    show thesis using r same new None by (auto simp: request_def opt_simps n Let_def split: if_splits)
  next
    case (Some f)
    note f = old_key [OF ok Some]
    show thesis
    proof (cases "pf_state (frame_of (so_board s) f)")
      case FramePending
      note m = subscribe_old [OF ok Some _ refl True, simplified FramePending, simplified]
      show thesis using r same more Some FramePending f(1) by (auto simp: request_def opt_simps m Let_def split: if_splits)
    next
      case (FrameReady result)
      then show thesis using r same Some f(1) by (auto simp: request_def opt_simps Let_def split: if_splits)
    qed (use f in simp)
  qed
qed

lemma requests_lose_nothing:
  assumes lost: "no_lost_wakeup s" and ok: "board_ok {} s" and runs: "agent_runs s"
    and r: "agent_requests no query depth at s = Some s'"
  shows "no_lost_wakeup s'"
proof -
  obtain outcome wb where wb: "request no query (agent s) depth (so_board s) = Some (outcome, wb)"
    using r by (cases "request no query (agent s) depth (so_board s)") (auto simp: agent_requests_def)
  obtain os where s': "s' = s\<lparr>so_board := wb\<rparr> \<or> s' = set_owned os (s\<lparr>so_board := wb\<rparr>)"
    using wb r by (auto simp: agent_requests_def Let_def split: request_outcome.splits)
  have len: "length (wb_producers (so_board s)) = length (wb_frames (so_board s))" using board_okD(1) [OF ok] by (simp add: shape_ok_def)
  note out = running_not_suspended [OF ok runs]
  from ok wb show ?thesis
  proof (cases rule: request_boards)
    case same
    then show ?thesis by (intro agent_loses_nothing [OF lost ok runs s']) (use out in auto)
  next
    case (more f x)
    show ?thesis
    proof (rule agent_loses_nothing [OF lost ok runs s'], goal_cases)
      case (1 a)
      then show ?case using more by (auto simp: suspended_def queued_def waits_on_def pending_def stored_def nth_list_update split: option.splits)
    qed (use out more in \<open>auto simp: suspended_def split: option.splits\<close>)
  next
    case (new d)
    let ?n = "length (wb_frames (so_board s))"
    have q: "queue_ok (wb_ready (so_board s))" using board_okD(6) [OF ok] by (simp add: ready_ok_def)
    have nq: "queued wb (Some ?n)" using q by (simp add: new new_frame_board_def ready.items_put queued_def)
    show ?thesis
    proof (rule agent_loses_nothing [OF lost ok runs s'], goal_cases)
      case (1 a)
      then have "a \<noteq> Some ?n" using nq by auto
      then show ?case using 1 q len
        by (auto simp: new new_frame_board_def suspended_def queued_def waits_on_def pending_def stored_def nth_append ready.items_put
            split: option.splits if_splits)
    next
      case 2
      have "agent s \<noteq> Some ?n" using board_okD(7) [OF ok, of ?n] by auto
      then show ?case using out len by (auto simp: new new_frame_board_def suspended_def nth_append split: option.splits)
    qed
  qed
qed

lemma polls_lose_nothing:
  assumes lost: "no_lost_wakeup s" and ok: "board_ok {} s" and runs: "agent_runs s" and r: "agent_polls fs s = Some s'"
  shows "no_lost_wakeup s'"
proof -
  obtain f x where fx: "fs = (f, x)" by (cases fs)
  note out = running_not_suspended [OF ok runs]
  have "fs \<in> set (agent_owned s)" using r by (auto simp: agent_polls_def opt_simps)
  then have fut: "future_ok (so_board s) fs" "pf_parent (frame_of (so_board s) f) = agent s"
    using owners_okD(1,2) [OF board_okD(4) [OF ok], of fs "agent s"] by (simp_all add: agent_owned_by fx)
  then have f: "f < length (wb_frames (so_board s))" by (simp add: future_ok_def fx)
  obtain wb os where s': "s' = s\<lparr>so_board := wb\<rparr> \<or> s' = set_owned os (s\<lparr>so_board := wb\<rparr>)"
    and wb: "wb = so_board s \<or> wb = set_frame f ((frame_of (so_board s) f)\<lparr>pf_subscriptions :=
        set_waker x (agent_waker s) (pf_subscriptions (frame_of (so_board s) f))\<rparr>) (so_board s)"
  proof (cases "pf_state (frame_of (so_board s) f)")
    case FramePending
    then show thesis using r f that by (auto simp: agent_polls_def poll_proof_def fx opt_simps Let_def)
  next
    case (FrameReady q)
    have "s\<lparr>so_board := so_board s\<rparr> = s" by simp
    then show thesis using r f FrameReady that [of "so_board s"] by (auto simp: agent_polls_def poll_proof_def fx opt_simps Let_def)
  next
    case FrameAbandoned
    then show thesis using r f by (auto simp: agent_polls_def poll_proof_def fx opt_simps Let_def)
  qed
  show ?thesis
  proof (rule agent_loses_nothing [OF lost ok runs s'], goal_cases)
    case (1 a)
    then show ?case using wb f fut(2)
      by (auto simp: suspended_def queued_def waits_on_def pending_def stored_def nth_list_update split: option.splits)
  qed (use out wb in \<open>auto simp: suspended_def split: option.splits\<close>)
qed

lemma drops_lose_nothing:
  assumes lost: "no_lost_wakeup s" and ok: "board_ok {} s" and runs: "agent_runs s" and r: "agent_drops fs s = Some s'"
  shows "no_lost_wakeup s'"
proof -
  note out = running_not_suspended [OF ok runs]
  have "fs \<in> set (agent_owned s)" using r by (auto simp: agent_drops_def opt_simps)
  from agent_drops_ok [OF ok this] r have k: "board_ok {} s'" "others_kept (agent s) (so_board s) (so_board s')"
    "length (wb_frames (so_board s')) = length (wb_frames (so_board s))" "agent s' = agent s" by auto
  obtain wb os where s': "s' = set_owned os (s\<lparr>so_board := wb\<rparr>)" using r by (auto simp: agent_drops_def opt_simps)
  then have b: "so_board s' = wb" by simp
  have len: "length (wb_producers (so_board s)) = length (wb_frames (so_board s))" "length (wb_producers wb) = length (wb_frames (so_board s))"
    using board_okD(1) [OF ok] board_okD(1) [OF k(1)] k(3) by (simp_all add: shape_ok_def b)
  show ?thesis
  proof (rule agent_loses_nothing [OF lost ok runs disjI2 [OF s']], goal_cases)
    case (1 a)
    show ?case
    proof (cases a)
      case None
      then show ?thesis using 1 k(2,3) by (auto simp: suspended_def queued_def waits_on_def pending_def others_kept_def b)
    next
      case (Some p)
      then obtain owned where p: "p < length (wb_frames (so_board s))" "wb_producers wb ! p = Some owned"
        using 1(2) k(3) by (auto simp: suspended_def b)
      then have "wb_producers (so_board s) ! p = Some owned" using k(2) by (simp add: others_kept_def b)
      moreover have "p \<notin> set (rq_queue (wb_ready (so_board s)))" using 1(3) k(2) p Some by (auto simp: others_kept_def b queued_def)
      moreover have "frame_of wb f = frame_of (so_board s) f"
        if "f < length (wb_frames (so_board s))" "pf_parent (frame_of (so_board s) f) = Some p" for f
        using that 1(1) k(2) p Some by (auto simp: others_kept_def b)
      ultimately show ?thesis using p len Some k(3) by (auto simp: suspended_def queued_def waits_on_def pending_def stored_def b)
    qed
  next
    case 2
    show ?case
    proof (cases "agent s")
      case None
      then show ?thesis using out by (simp add: suspended_def)
    next
      case (Some p)
      then show ?thesis using frame_okD(3) [OF board_okD(3) [OF k(1)], of p] k(3,4) by (auto simp: suspended_def b)
    qed
  qed
qed

text \<open>The steps between two agents.\<close>

lemma taken_loses_nothing:
  assumes lost: "no_lost_wakeup s" and ok: "board_ok {} s" and idle: "\<not> agent_runs s" and r: "producer_taken s = Some s'"
  shows "no_lost_wakeup s'"
proof (cases "pop (wb_ready (so_board s))")
  case (Pair q ready)
  have none: "so_running s = None" using idle unfolding agent_runs_def by blast
  show ?thesis
  proof (cases q)
    case None
    have "s\<lparr>so_running := None\<rparr> = s" using none by simp
    then show ?thesis using Pair r lost None by (auto simp: producer_taken_def take_producer_def)
  next
    case (Some f)
    then have q: "rq_queue (wb_ready (so_board s)) = f # rq_queue ready" using ready.take_some [of "wb_ready (so_board s)" f ready] Pair by simp
    then have "pending (so_board s) f" using board_okD(6) [OF ok] by (simp add: ready_ok_def)
    then have b: "so_board s' = set_producer f None ((so_board s)\<lparr>wb_ready := ready\<rparr>)" and f: "f < length (wb_producers (so_board s))"
      and same: "so_root_running s' = so_root_running s" "so_root s' = so_root s"
      and now: "agent s' = None \<or> agent s' = Some f"
      using Pair Some r board_okD(1) [OF ok]
      by (auto simp: producer_taken_def take_producer_def pending_def shape_ok_def opt_simps agent_def split: option.splits)
    show ?thesis
    proof (rule no_lost_wakeup_keep [OF lost ok], goal_cases)
      case (1 a)
      have a: "a \<noteq> Some f" using 1(1) f by (auto simp: suspended_def b)
      have "owned_by s' a = owned_by s a"
        using a now none f same by (auto simp: owned_by_def agent_def stored_def b nth_list_update split: option.splits)
      then show ?case using 1(1) a f q same
        by (auto simp: suspended_def b queued_def waits_on_def pending_def nth_list_update split: option.splits if_splits)
    qed
  qed
qed

lemma root_taken_loses_nothing:
  assumes lost: "no_lost_wakeup s" and ok: "board_ok {} s" and r: "root_taken s = Some s'"
  shows "no_lost_wakeup s'"
proof (rule no_lost_wakeup_keep [OF lost ok], goal_cases)
  case (1 a)
  then show ?case using r
    by (auto simp: root_taken_def opt_simps suspended_def queued_def waits_on_def pending_def owned_by_def agent_def stored_def split: option.splits)
qed

lemma root_waits_loses_nothing:
  assumes lost: "no_lost_wakeup s" and ok: "board_ok {} s" and r: "root_waits s = Some s'" and polled: "will_run (so_board s) None (so_root s)"
  shows "no_lost_wakeup s'"
proof (rule no_lost_wakeup_keep [OF lost ok], goal_cases)
  case (1 a)
  have s': "s' = s\<lparr>so_root_running := False\<rparr>" using r by (simp add: root_waits_def opt_simps)
  have "owned_by s' a = owned_by s a" by (simp add: s' owned_by_def agent_def split: option.splits)
  moreover have "a \<noteq> None"
  proof
    assume "a = None"
    then show False using 1(2) polled by (simp add: s' owned_by_def)
  qed
  ultimately show ?case using 1(1) by (auto simp: s' suspended_def split: option.splits)
qed

lemma waits_loses_nothing:
  assumes lost: "no_lost_wakeup s" and ok: "board_ok {} s" and r: "producer_waits s = Some s'"
    and run: "so_running s = Some (f, owned)" and polled: "will_run (so_board s) (Some f) owned"
  shows "no_lost_wakeup s'"
proof -
  note f = running_frame [OF ok run]
  have s': "s' = s\<lparr>so_board := set_producer f (Some owned) (so_board s), so_running := None\<rparr>"
    using r run f by (auto simp: producer_waits_def put_back_def)
  have own: "owned_by s' a = owned_by s a" for a
    using run f by (auto simp: s' owned_by_def agent_def stored_def nth_list_update split: option.splits)
  have "owned_by s (Some f) = owned" using run by (simp add: owned_by_def agent_def)
  then have "will_run (so_board s') (Some f) (owned_by s' (Some f))"
    using polled unfolding own by (simp add: will_run_def queued_def waits_on_def pending_def s')
  then show ?thesis
  proof (intro no_lost_wakeup_keep [OF lost ok], goal_cases)
    case (1 a)
    then have "a \<noteq> Some f" by auto
    then show ?case using 1(2) own by (auto simp: s' suspended_def queued_def waits_on_def pending_def split: option.splits)
  qed
qed

text \<open>A frame that returns wakes everyone whose waker it holds.\<close>

lemma queued_wake: "queue_ok (wb_ready wb) \<Longrightarrow> queued (wake_proof w wb) a \<longleftrightarrow> queued wb a \<or> w = waker_of a"
  by (cases w; cases a) (auto simp: queued_def ready.items_put)

lemma fold_wake_queues:
  assumes "queue_ok (wb_ready wb)" and "waker_of a \<in> set ws \<or> queued wb a"
  shows "queued (fold wake_proof ws wb) a"
  using assms
proof (induction ws arbitrary: wb)
  case Nil
  then show ?case by simp
next
  case (Cons w ws)
  have "queue_ok (wb_ready (wake_proof w wb))" using Cons.prems(1) by (cases w) (auto intro: ready.put_ok)
  then show ?case using Cons.IH [of "wake_proof w wb"] Cons.prems by (auto simp: queued_wake)
qed

lemma returns_loses_nothing:
  assumes lost: "no_lost_wakeup s" and ok: "board_ok {} s" and r: "producer_returns ord result s = Some s'"
    and ord: "\<And>xs. set (ord xs) = set xs"
  shows "no_lost_wakeup s'"
proof -
  obtain f where run: "so_running s = Some (f, [])" using r by (cases "so_running s") (auto simp: producer_returns_def opt_simps)
  note f = running_frame [OF ok run]
  let ?data = "frame_of (so_board s) f"
  let ?ws = "List.map_filter snd (ord (pf_subscriptions ?data))"
  let ?wb = "set_frame f (?data\<lparr>pf_state := FrameReady result, pf_subscriptions := []\<rparr>) (so_board s)"
  let ?wb1 = "?wb\<lparr>wb_ready := remove (wb_ready ?wb) f\<rparr>"
  have s': "s' = s\<lparr>so_board := fold wake_proof ?ws ?wb1, so_running := None\<rparr>" using r run f by (auto simp: producer_returns_def complete_def)
  then have b: "so_board s' = fold wake_proof ?ws ?wb1" by simp
  have ws: "w = waker_of (pf_parent ?data)" if "w \<in> set ?ws" for w
    using that frame_okD(8) [OF board_okD(3) [OF ok f(1)]] ord by (auto simp: List.map_filter_def)
  note k = fold_wake [OF ws, of ?ws ?wb1]
  have q: "queue_ok (wb_ready (so_board s))" using board_okD(6) [OF ok] by (simp add: ready_ok_def)
  have rd: "queue_ok (wb_ready ?wb1)" using ready.delete_ok [OF q] by simp
  show ?thesis
  proof (rule no_lost_wakeup_keep [OF lost ok], goal_cases)
    case (1 a)
    have a: "a \<noteq> Some f" using 1(1) k f(4) by (auto simp: suspended_def b)
    have "suspended s a" using 1(1) k by (auto simp: suspended_def s' split: option.splits)
    moreover have "owned_by s' a = owned_by s a"
      using a run k by (auto simp: owned_by_def s' agent_def stored_def split: option.splits)
    moreover have "queued (so_board s') a" if "queued (so_board s) a"
      unfolding b by (rule fold_wake_queues [OF rd]) (use that a q in \<open>auto simp: queued_def ready.items_delete split: option.splits\<close>)
    moreover have "queued (so_board s') a \<or> waits_on (so_board s') a fx" if w: "waits_on (so_board s) a fx" for fx
    proof (cases "fst fx = f")
      case True
      then have "waker_of a \<in> set ?ws" using w ord by (force simp: waits_on_def List.map_filter_def)
      then show ?thesis unfolding b using fold_wake_queues [OF rd] by blast
    next
      case False
      then show ?thesis using w k by (auto simp: waits_on_def pending_def b)
    qed
    ultimately show ?case by blast
  qed
qed

lemma polling_step_loses_nothing:
  assumes lost: "no_lost_wakeup s" and ok: "board_ok {} s" and st: "solving_step s s'" and polled: "polls_first s s'"
  shows "no_lost_wakeup s'"
  using st
proof (cases rule: solving_step.cases)
  case (requests no query depth at)
  then show ?thesis by (rule requests_lose_nothing [OF lost ok])
next
  case (polls fs)
  then show ?thesis by (rule polls_lose_nothing [OF lost ok])
next
  case (drops fs)
  then show ?thesis by (rule drops_lose_nothing [OF lost ok])
next
  case root_taken
  then show ?thesis by (intro root_taken_loses_nothing [OF lost ok])
next
  case root_waits
  then show ?thesis using polled by (intro root_waits_loses_nothing [OF lost ok]) (auto simp: polls_first_def root_waits_def opt_simps)
next
  case taken
  then show ?thesis by (rule taken_loses_nothing [OF lost ok])
next
  case waits
  then obtain f owned where run: "so_running s = Some (f, owned)" by (cases "so_running s") (auto simp: producer_waits_def)
  note f = running_frame [OF ok run]
  have "so_running s' = None" "pending (so_board s') f"
    using waits run f by (auto simp: producer_waits_def put_back_def pending_def)
  then show ?thesis using polled run by (intro waits_loses_nothing [OF lost ok waits run]) (simp add: polls_first_def)
next
  case (returns ord result)
  show ?thesis by (rule returns_loses_nothing [OF lost ok returns])
qed

lemma polling_reachable_no_lost: "polling_reachable s \<Longrightarrow> no_lost_wakeup s"
proof (induction rule: polling_reachable.induct)
  case start
  show ?case by (simp add: no_lost_wakeup_def solving_new_def whiteboard_new_def suspended_def will_run_def queued_def split: option.splits)
next
  case (step s s')
  show ?case by (rule polling_step_loses_nothing [OF step.IH polling_reachable_ok [OF step.hyps(1)] step.hyps(2,3)])
qed

lemma quiet_nothing_pending:
  assumes lost: "no_lost_wakeup s" and ok: "board_ok {} s" and idle: "so_running s = None"
    and quiet: "is_empty (wb_ready (so_board s))"
  shows "\<not> pending (so_board s) f"
proof (induction "length (wb_frames (so_board s)) - f" arbitrary: f rule: less_induct)
  case less
  show ?case
  proof
    assume p: "pending (so_board s) f"
    then have f: "f < length (wb_frames (so_board s))" by (simp add: pending_def)
    have "agent s = None" using idle by (simp add: agent_def)
    then have "suspended s (Some f)" using frame_okD(2) [OF board_okD(3) [OF ok f]] p by (auto simp: pending_def suspended_def)
    then obtain fx where fx: "fx \<in> set (owned_by s (Some f))" "pending (so_board s) (fst fx)"
      using lost quiet by (auto simp: no_lost_wakeup_def will_run_def queued_def is_empty_def waits_on_def)
    have "f < fst fx" using fx owners_okD(2) [OF board_okD(4) [OF ok] fx(1)] board_okD(1) [OF ok] by (auto simp: shape_ok_def pending_def)
    then have "length (wb_frames (so_board s)) - fst fx < length (wb_frames (so_board s)) - f" using f by linarith
    then show False using less.hyps fx(2) by blast
  qed
qed

lemma never_deadlocked:
  assumes lost: "no_lost_wakeup s" and ok: "board_ok {} s"
  shows "\<not> deadlocked s"
proof
  assume d: "deadlocked s"
  then have "suspended s None" "so_running s = None" "\<not> queued (so_board s) None" "is_empty (wb_ready (so_board s))"
    unfolding deadlocked_def agent_runs_def suspended_def queued_def option.case by blast+
  then obtain fx where "waits_on (so_board s) None fx" using lost by (auto simp: no_lost_wakeup_def will_run_def)
  then show False using quiet_nothing_pending [OF lost ok] \<open>so_running s = None\<close> \<open>is_empty (wb_ready (so_board s))\<close>
    by (auto simp: waits_on_def)
qed

section \<open>The properties\<close>

text \<open>A query in which the root asks for goal 1, and the producer of that asks for goal 2.\<close>

definition guarded :: "bool \<Rightarrow> ((nat, bool) solving \<Rightarrow> (nat, bool) solving option) \<Rightarrow> (nat, bool) solving \<Rightarrow> (nat, bool) solving option" where
  "guarded r f s = do { check (agent_runs s = r); s' \<leftarrow> f s; check (polls_first s s'); Some s' }"

definition sample_start :: "((nat, bool) solving \<Rightarrow> (nat, bool) solving option) list" where
  "sample_start = [guarded False root_taken, guarded True (agent_requests False 1 0 0), guarded True (agent_polls (0, 0)),
     guarded True root_waits, guarded False producer_taken, guarded True (agent_requests False 2 1 0),
     guarded True (agent_polls (1, 1)), guarded True producer_waits]"

definition sample_rest :: "((nat, bool) solving \<Rightarrow> (nat, bool) solving option) list" where
  "sample_rest = [guarded False producer_taken, guarded True (producer_returns id True), guarded False producer_taken,
     guarded True (agent_polls (1, 1)), guarded True (producer_returns id True), guarded False root_taken, guarded True (agent_polls (0, 0))]"

definition sample_run :: "((nat, bool) solving \<Rightarrow> (nat, bool) solving option) list \<Rightarrow> (nat, bool) solving option" where
  "sample_run fs = fold_state (\<lambda>f. f) fs solving_new"

lemma polling_reachable_reachable: "polling_reachable s \<Longrightarrow> solving_reachable s"
  by (induction rule: polling_reachable.induct) (auto intro: solving_reachable.intros)

lemma guarded_step:
  assumes "polling_reachable s" and "guarded r f s = Some s'" and "agent_runs s = r \<Longrightarrow> f s = Some s' \<Longrightarrow> solving_step s s'"
  shows "polling_reachable s'"
  using assms by (auto simp: guarded_def opt_simps intro: polling_reachable.step)

lemma sample_steps:
  assumes "f \<in> set sample_start \<union> set sample_rest"
  shows "\<exists>r g. f = guarded r g \<and> (\<forall>u u'. agent_runs u = r \<longrightarrow> g u = Some u' \<longrightarrow> solving_step u u')"
proof -
  have steps: "agent_runs u = True \<longrightarrow> agent_requests no query depth at u = Some u' \<longrightarrow> solving_step u u'"
    "agent_runs u = True \<longrightarrow> agent_polls fs u = Some u' \<longrightarrow> solving_step u u'"
    "agent_runs u = False \<longrightarrow> root_taken u = Some u' \<longrightarrow> solving_step u u'"
    "agent_runs u = True \<longrightarrow> root_waits u = Some u' \<longrightarrow> solving_step u u'"
    "agent_runs u = False \<longrightarrow> producer_taken u = Some u' \<longrightarrow> solving_step u u'"
    "agent_runs u = True \<longrightarrow> producer_waits u = Some u' \<longrightarrow> solving_step u u'"
    "agent_runs u = True \<longrightarrow> producer_returns id result u = Some u' \<longrightarrow> solving_step u u'"
    for no query depth at fs result and u u' :: "(nat, bool) solving"
    by (auto intro: solving_step.intros)
  have g: "P r g \<Longrightarrow> \<exists>r' g'. guarded r g = guarded r' g' \<and> P r' g'" for P r g by blast
  from assms show ?thesis unfolding sample_start_def sample_rest_def
    by (simp only: list.set Un_insert_left Un_empty_left insert_iff empty_iff Un_iff) (elim disjE FalseE, (simp only:, rule g, intro allI, rule steps)+)
qed

lemma sample_run_reachable:
  assumes "sample_run fs = Some s" and "set fs \<subseteq> set sample_start \<union> set sample_rest"
  shows "polling_reachable s"
proof (rule fold_state_inv [OF assms(1) [unfolded sample_run_def]])
  show "polling_reachable solving_new" by (rule polling_reachable.start)
  show "polling_reachable u'" if f: "f \<in> set fs" and u: "polling_reachable u" and u': "f u = Some u'" for f u u'
    using sample_steps [OF subsetD [OF assms(2) f]] guarded_step [OF u] u' by blast
qed

lemma sample_runs: "sample_run sample_start = Some (the (sample_run sample_start))"
  "sample_run (sample_start @ sample_rest) = Some (the (sample_run (sample_start @ sample_rest)))"
proof -
  have "\<not> Option.is_none (sample_run sample_start)" "\<not> Option.is_none (sample_run (sample_start @ sample_rest))" by code_simp+
  then show "sample_run sample_start = Some (the (sample_run sample_start))"
    "sample_run (sample_start @ sample_rest) = Some (the (sample_run (sample_start @ sample_rest)))"
    by (auto simp: Option.is_none_def)
qed

lemma sample_board_reachable: "polling_reachable (the (sample_run sample_start))"
  "polling_reachable (the (sample_run (sample_start @ sample_rest)))"
  by (rule sample_run_reachable [OF sample_runs(1)], simp) (rule sample_run_reachable [OF sample_runs(2)], simp)

text \<open>C17: no operation of a proof future or a producer panics: in every reachable state of the whiteboard, a
  request within the depth limit answers while subscription numbers are left, every proof future that the
  running agent owns can be polled and dropped, and a producer can be taken, put back and completed. So
  a lookup key never leads to an abandoned frame, no abandoned frame is polled, no frame completes twice,
  and the cascade of dropped producers ends.\<close>

theorem proofs_do_not_panic:
  assumes "solving_reachable s"
  shows "(depth \<le> max_proof_depth \<and> wb_next_subscription (so_board s) + 1 < 2 ^ 32 \<longrightarrow> agent_requests no query depth at s \<noteq> None) \<and>
    (fs \<in> set (agent_owned s) \<longrightarrow> agent_polls fs s \<noteq> None \<and> agent_drops fs s \<noteq> None) \<and>
    (so_running s = None \<longrightarrow> producer_taken s \<noteq> None) \<and>
    (so_running s \<noteq> None \<longrightarrow> producer_waits s \<noteq> None) \<and>
    (so_running s = Some (f, []) \<longrightarrow> producer_returns id result s \<noteq> None)"
proof -
  note ok = solving_reachable_ok [OF assms]
  show ?thesis
    using agent_requests_ok [OF ok, of depth no query at] agent_polls_ok [OF ok, of fs] agent_drops_ok [OF ok, of fs]
      producer_taken_ok [OF ok] producer_waits_ok [OF ok] producer_returns_ok [OF ok, of f id result] by auto
qed

theorem proofs_do_not_panic_witness:
  "agent_requests False 3 64 0 (the (sample_run sample_start)) \<noteq> None \<and> agent_drops (0, 0) (the (sample_run sample_start)) \<noteq> None"
proof -
  have "wb_next_subscription (so_board (the (sample_run sample_start))) + 1 < 2 ^ 32" "(0, 0) \<in> set (agent_owned (the (sample_run sample_start)))"
    by code_simp+
  then show ?thesis
    using proofs_do_not_panic [OF polling_reachable_reachable [OF sample_board_reachable(1)], of 64 False 3 0 "(0, 0)" 0 True]
    by (simp add: max_proof_depth_def)
qed

text \<open>C18: a query that has returned leaves nothing behind: once the root future has ended with every proof
  future that it held polled to its result or dropped, no frame is pending, no producer is alive, nobody
  is subscribed and no wakeup is queued, so the assertions at the end of a query hold.\<close>

theorem query_drained:
  assumes "solving_reachable s" and "so_running s = None" and "so_root s = []"
  shows "drained (so_board s)"
  using drained_board [OF solving_reachable_ok] assms by blast

theorem query_drained_witness:
  "so_root (the (sample_run (sample_start @ sample_rest))) = [] \<and> wb_frames (so_board (the (sample_run (sample_start @ sample_rest)))) \<noteq> [] \<and>
    drained (so_board (the (sample_run (sample_start @ sample_rest))))"
proof -
  have "so_root (the (sample_run (sample_start @ sample_rest))) = []" "so_running (the (sample_run (sample_start @ sample_rest))) = None"
    "length (wb_frames (so_board (the (sample_run (sample_start @ sample_rest))))) = 2"
    by code_simp+
  then show ?thesis using query_drained [OF polling_reachable_reachable [OF sample_board_reachable(2)]] by auto
qed

text \<open>C16: the solver does not deadlock: as long as every future that waits has left its waker with a pending
  frame of its own, or was woken since it was taken, the loop always finds something to run: when no
  agent runs, the root future has been woken or a producer is queued. No wakeup is lost, whatever the
  order in which agents run, requests are shared and proofs are cancelled.\<close>

theorem solver_never_deadlocks:
  assumes "polling_reachable s"
  shows "\<not> deadlocked s"
  by (rule never_deadlocked [OF polling_reachable_no_lost polling_reachable_ok]) (rule assms)+

theorem solver_never_deadlocks_witness:
  "\<not> wb_root_ready (so_board (the (sample_run sample_start))) \<and> wb_frames (so_board (the (sample_run sample_start))) \<noteq> [] \<and>
    \<not> deadlocked (the (sample_run sample_start))"
proof -
  have "\<not> wb_root_ready (so_board (the (sample_run sample_start)))" "length (wb_frames (so_board (the (sample_run sample_start)))) = 2"
    by code_simp+
  then show ?thesis using solver_never_deadlocks [OF sample_board_reachable(1)] by auto
qed

end
