(* ===== verification/Spec2Isabelle.thy ===== *)
theory Spec2Isabelle
  imports StashProps ScalarLayout StashIntern UnifyProps GoalsCorrect RuntimeProps ScopedTasks TyFoldProps AntiUnify ObligationProps InferCtxProps BoundaryCorrect ImportCorrect CanonicalCorrect MergeProps WhiteboardProps
begin

text \<open>
  A verification library for sage: the storage, the inference engine, the solver boundary and the
  obligation loop of the type checker in \<open>crates/sage-stash\<close> and \<open>crates/sage-ir\<close>.

  \<^bold>\<open>The program.\<close>  sage checks Rust bodies.  Types, goals and signatures live in a \<^emph>\<open>stash\<close>
  (\<open>crates/sage-stash/src/lib.rs\<close>), an append-only, type-erased, hash-consed byte buffer; a type of
  \<open>crates/sage-ir/src/ty.rs\<close> is a constructor over handles into it.  A body is checked in an inference
  context (\<open>check/infer_ctx.rs\<close>), which owns a versioned union-find over handles
  (\<open>check/infer/egraph.rs\<close>, on the version tree of \<open>check/infer/version.rs\<close>).  Equations are solved in a
  child version by \<open>check/infer/unify.rs\<close> and either committed into the parent or discarded.  A trait
  bound becomes an obligation (\<open>check/infer/obligations.rs\<close>): its goal is canonicalized
  (\<open>check/solve/canonical.rs\<close>) into a closed query over numbered parameters, the solver answers it, and
  the answer is validated, imported and applied to the caller's graph in one transaction
  (\<open>check/solve/boundary.rs\<close>).  Binding a variable wakes the obligations and the tasks that wait for it
  (\<open>check/infer/runtime.rs\<close>).

  \<^bold>\<open>Conventions (Prelude).\<close>  A function that can panic returns an option, and \<open>None\<close> is the panic; a
  Rust \<open>Result\<close> is a sum, \<open>Inl\<close> the error.  State is passed explicitly.  A loop or a recursion that the
  code does not bound is a \<open>partial_function (option)\<close>; then \<open>None\<close> is also a run that does not end,
  and where a property says that the code returns it says that the result is \<open>Some\<close>.  No fuel is used.
  Counters and hashes that wrap (\<open>u32\<close>, \<open>u64\<close>) are words; lengths and indices that the code keeps in
  \<open>usize\<close> are naturals with the bounds the code asserts.

  \<^bold>\<open>Storage.\<close>
  \<^item> AlignedBuf: the growable aligned buffer, its growth policy and layout limits; the global allocator
    is a parameter (which requests it refuses).
  \<^item> Stash: entries, content hashes, collision chains, \<open>alloc\<close>, \<open>alloc_slice\<close>, indexing through handles.
  \<^item> Arena: the contract of hash-consed storage (locale \<open>hash_consing\<close>) and the abstract arena that the
    checker's theories work on: a list of distinct items, a handle being an index.
  \<^item> StashCorrect, StashIntern, ScalarLayout, StashProps: the layout of the storable types as locales
    (\<open>stash_layout\<close>, \<open>stash_alloc\<close>), interpreted on the scalars of the crate; the storage invariant;
    round trips, stability of handles, alignment and disjointness, termination for every hasher, and
    the refinement of the abstract arena by the byte-level stash.

  \<^bold>\<open>Types and the union-find.\<close>
  \<^item> Ir: the data of \<open>ty.rs\<close>, \<open>generic_param.rs\<close> and the goals and signatures that are stored;
    Skeleton: \<open>decompose\<close> and \<open>recompose\<close> of \<open>skeleton.rs\<close>, with both round trips.
  \<^item> Versions, VersionsCorrect: domains, the version tree, inference variables and their owners.
  \<^item> EGraph, EGraphCorrect: lookup through ancestors, path compression, union, bounds, domains,
    universes, branching, collapsing, discarding and the congruence rebuild.
  \<^item> Unify: occurs check, universes, unification in a probe, the transactions.  Solutions gives a version
    its meaning, the set of assignments of trees to handles that respect the arena and every link;
    UnifyCorrect proves that unification adds exactly its equations; UnifyClasses follows the classes
    themselves; Transactions the life of a child version; Sessions the state machine of all operations
    with its invariant; UnifyProps holds the properties.

  \<^bold>\<open>Runtime.\<close>  Runtime models the ready queue, the scheduler, waiting on variables, \<open>block_on\<close> and the sets
  of joinable tasks; a future is a parameter.  RuntimeCorrect, RuntimeProps and ScopedTasks show that the
  queue is a first-in first-out queue without duplicates (locale \<open>dedup_queue\<close>), that a drain polls
  every woken task and returns, and the invariant of joinable sets.

  \<^bold>\<open>Solver boundary.\<close>
  \<^item> Goals: \<open>goal.rs\<close> and \<open>result.rs\<close>, the flattening of conjunctions, the validation of queries and of
    substitutions; GoalsCorrect: an accepted query is closed, an accepted substitution is well-kinded.
  \<^item> TyFold: \<open>ty_fold.rs\<close>, folding between arenas and instantiation of signatures; TyFoldCorrect and
    TyFoldProps: the result denotes the substituted tree.
  \<^item> Traverse: the traversal that the four copying passes of \<open>canonical.rs\<close> and \<open>boundary.rs\<close> share,
    parametric in their leaf cases; Canonical: canonicalization; Boundary: import of a query into a
    proof state and extraction of an answer; Response: validation and application of a response;
    AntiUnify: the merge of hints.
  \<^item> Scoped: well-scoped arenas, in which every handle leads to an earlier entry of its kind.
    TraverseCorrect: two locales (\<open>copying\<close>, \<open>traversal\<close>) say what a client of the traversal owes, and
    give the preservation of well-scoped targets once; they are interpreted on the extractor
    (BoundaryCorrect: a response mentions no inference variable), the copier (ImportCorrect: a proof
    state mentions only the variables of its inputs) and the canonicalizer (CanonicalCorrect: the
    inputs of a query are distinct, numbered and described).
  \<^item> Merge: the canonical order of candidate answers, directional matching, subsumption and the merge.
    MergeCorrect and MergeProps: a subsumed answer is implied by the one that subsumes it, and the result
    depends on the set of candidates only.
  \<^item> Whiteboard: the proof requests of one query, their producers, subscribers and the waits between them.
    WhiteboardCorrect: the invariant of the whiteboard, kept by every step.  WhiteboardProps: no reachable
    whiteboard is stuck or panics, and nothing is left behind when the root has its result.

  \<^bold>\<open>Inference context.\<close>
  \<^item> Obligations: the manager of retained proof requests.  InferCtx: the constraint operations, error
    recovery and expression slots.  ObligationLoop: submission, deduplication, attempts, the ready loop,
    the terminal pass and the finalization of a body; the solver (\<open>en_solve\<close>), the fingerprint of a
    query and the iteration order of a hash set are the parameters of \<open>ctx_env\<close>.
  \<^item> ObligationFrame: an operation only wakes obligations it is not about.  ObligationProps: the terminal
    pass settles everything whatever the solver answers, the ready loop ends quiescent, finalization
    leaves nothing pending and never touches a settled obligation.  InferCtxProps: the text of a
    diagnostic does not show the number of an inference variable.

  \<^bold>\<open>Hypotheses.\<close>  The theorems on the graph assume a state reachable by the public operations from the
  empty graph (Sessions), those on the stash an allocator and storable types within the contract of the
  locales.  The iteration order of a hash set is universally quantified and not assumed to be an order.

  \<^bold>\<open>Not modelled.\<close>  Parsing, name resolution, symbols and the salsa databases; the driver that walks the
  syntax trees of a body (\<open>check/expr.rs\<close>, \<open>method.rs\<close>, \<open>operator.rs\<close>): they are queries over compiler
  metadata and generated trees.  The bodies of the proofs (\<open>clauses.rs\<close> and the second half of \<open>prove.rs\<close>):
  the solver is a parameter.  In the inference context: the executor loop
  around futures, the import of signatures, the elaboration of supertraits, the rendering of diagnostics
  and the assembly of the checked tree.  The inspector, the oracle, the emitter, the test harnesses, the
  procedural macros and the command line.
\<close>

end
